(* ===== verification/Prelude.thy ===== *)
theory Prelude
  imports Main "HOL-Library.AList"
begin

text \<open>
  The prelude of the development: what the components share and the program does not own.

  \<^item> JavaScript strings and arrays as lists: \<open>startsWith\<close>, \<open>endsWith\<close>, \<open>lastIndexOf\<close>,
    \<open>split\<close> and \<open>join\<close>, with the lemmas that make a path prefix an append.
  \<^item> JavaScript's \<open>Map\<close> and insertion-ordered \<open>Record\<close> as association lists: \<open>set\<close> on a
    present key keeps the entry's place, \<open>delete\<close> removes it, iteration is the list's order.
    The locale \<open>keyed_map\<close> is the contract the clients use, interpreted on these lists.
  \<^item> Results of code that may throw, as a sum with the error on the left.
\<close>

named_theorems path_simps \<open>facts about path strings\<close>
named_theorems jmap_simps \<open>lookups in insertion-ordered maps\<close>

subsection \<open>Strings and arrays\<close>

definition startsWith :: "'a list \<Rightarrow> 'a list \<Rightarrow> bool" where
  "startsWith s p \<longleftrightarrow> take (length p) s = p"

definition endsWith :: "'a list \<Rightarrow> 'a list \<Rightarrow> bool" where
  "endsWith s p \<longleftrightarrow> length p \<le> length s \<and> drop (length s - length p) s = p"

fun indexOf :: "'a \<Rightarrow> 'a list \<Rightarrow> nat option" where
  "indexOf c [] = None"
| "indexOf c (x # xs) = (if x = c then Some 0 else map_option Suc (indexOf c xs))"

fun lastIndexOf :: "'a \<Rightarrow> 'a list \<Rightarrow> nat option" where
  "lastIndexOf c [] = None"
| "lastIndexOf c (x # xs) =
     (case lastIndexOf c xs of
        Some i \<Rightarrow> Some (Suc i)
      | None \<Rightarrow> if x = c then Some 0 else None)"

fun splitOn :: "'a \<Rightarrow> 'a list \<Rightarrow> 'a list list" where
  "splitOn c [] = [[]]"
| "splitOn c (x # xs) =
     (if x = c then [] # splitOn c xs
      else (case splitOn c xs of [] \<Rightarrow> [[x]] | y # ys \<Rightarrow> (x # y) # ys))"

fun joinWith :: "'a list \<Rightarrow> 'a list list \<Rightarrow> 'a list" where
  "joinWith sep [] = []"
| "joinWith sep [x] = x"
| "joinWith sep (x # y # ys) = x @ sep @ joinWith sep (y # ys)"

lemma startsWith_iff: "startsWith s p \<longleftrightarrow> (\<exists>r. s = p @ r)"
  unfolding startsWith_def by (metis append_eq_conv_conj append_take_drop_id)

lemma startsWith_append [simp]: "startsWith (p @ r) p"
  by (simp add: startsWith_def)

lemma startsWith_Nil [simp]: "startsWith s []"
  by (simp add: startsWith_def)

lemma startsWith_refl [simp]: "startsWith s s"
  by (simp add: startsWith_def)

lemma startsWith_append_same [simp]: "startsWith (p @ a) (p @ b) \<longleftrightarrow> startsWith a b"
  by (auto simp: startsWith_iff)

lemma startsWith_trans: "startsWith a b \<Longrightarrow> startsWith b c \<Longrightarrow> startsWith a c"
  by (auto simp: startsWith_iff)

lemma startsWith_drop: "startsWith s p \<Longrightarrow> p @ drop (length p) s = s"
  by (auto simp: startsWith_iff)

lemma startsWith_length: "startsWith s p \<Longrightarrow> length p \<le> length s"
  by (auto simp: startsWith_iff)

lemma endsWith_iff: "endsWith s p \<longleftrightarrow> (\<exists>r. s = r @ p)"
proof
  assume "endsWith s p"
  then have "s = take (length s - length p) s @ p"
    unfolding endsWith_def by (metis append_take_drop_id)
  then show "\<exists>r. s = r @ p" ..
next
  assume "\<exists>r. s = r @ p"
  then show "endsWith s p" by (auto simp: endsWith_def)
qed

lemma lastIndexOf_None [simp]: "lastIndexOf c xs = None \<longleftrightarrow> c \<notin> set xs"
  by (induction xs) (auto split: option.splits)

lemma lastIndexOf_Some:
  "lastIndexOf c xs = Some i \<longleftrightarrow> (\<exists>a b. xs = a @ c # b \<and> length a = i \<and> c \<notin> set b)"
proof (induction xs arbitrary: i)
  case Nil
  then show ?case by simp
next
  case (Cons x xs)
  show ?case
  proof (cases "lastIndexOf c xs")
    case None
    then have "c \<notin> set xs" by simp
    then have "(\<exists>a b. x # xs = a @ c # b \<and> length a = i \<and> c \<notin> set b) \<longleftrightarrow> x = c \<and> i = 0"
      by (auto simp: Cons_eq_append_conv)
    moreover have "lastIndexOf c (x # xs) = Some i \<longleftrightarrow> x = c \<and> i = 0"
      using None by (auto simp del: lastIndexOf_None)
    ultimately show ?thesis by (simp only:)
  next
    case (Some j)
    then obtain a b where j: "xs = a @ c # b" "length a = j" "c \<notin> set b"
      using Cons.IH by blast
    show ?thesis
    proof
      assume "lastIndexOf c (x # xs) = Some i"
      with Some have "i = Suc j" by simp
      with j have "x # xs = (x # a) @ c # b \<and> length (x # a) = i \<and> c \<notin> set b" by simp
      then show "\<exists>a b. x # xs = a @ c # b \<and> length a = i \<and> c \<notin> set b" by blast
    next
      assume "\<exists>a b. x # xs = a @ c # b \<and> length a = i \<and> c \<notin> set b"
      then obtain a' b' where *: "x # xs = a' @ c # b'" "length a' = i" "c \<notin> set b'" by blast
      with j obtain a'' where a'': "a' = x # a''"
        by (cases a') auto
      with * have "xs = a'' @ c # b'" by simp
      with * a'' have "lastIndexOf c xs = Some (length a'')"
        using Cons.IH by blast
      with * a'' show "lastIndexOf c (x # xs) = Some i" by simp
    qed
  qed
qed

lemma lastIndexOf_append [simp]:
  "c \<notin> set b \<Longrightarrow> lastIndexOf c (a @ c # b) = Some (length a)"
  by (auto simp: lastIndexOf_Some)

lemma indexOf_Some:
  "indexOf c xs = Some i \<longleftrightarrow> (\<exists>a b. xs = a @ c # b \<and> length a = i \<and> c \<notin> set a)"
proof (induction xs arbitrary: i)
  case Nil
  then show ?case by simp
next
  case (Cons x xs)
  show ?case
  proof (cases "x = c")
    case True
    then show ?thesis by (auto simp: Cons_eq_append_conv)
  next
    case False
    then have "indexOf c (x # xs) = Some i \<longleftrightarrow> (\<exists>j. indexOf c xs = Some j \<and> i = Suc j)"
      by auto
    also have "\<dots> \<longleftrightarrow> (\<exists>a b. x # xs = a @ c # b \<and> length a = i \<and> c \<notin> set a)"
    proof
      assume "\<exists>j. indexOf c xs = Some j \<and> i = Suc j"
      then obtain j where j: "indexOf c xs = Some j" "i = Suc j" by blast
      then obtain a b where "xs = a @ c # b" "length a = j" "c \<notin> set a"
        using Cons.IH [of j] by blast
      with False j have "x # xs = (x # a) @ c # b \<and> length (x # a) = i \<and> c \<notin> set (x # a)"
        by simp
      then show "\<exists>a b. x # xs = a @ c # b \<and> length a = i \<and> c \<notin> set a" by blast
    next
      assume "\<exists>a b. x # xs = a @ c # b \<and> length a = i \<and> c \<notin> set a"
      then obtain a b where *: "x # xs = a @ c # b" "length a = i" "c \<notin> set a" by blast
      with False have "a \<noteq> []" by (metis append_Nil list.inject)
      then obtain y a' where "a = y # a'" by (auto simp: neq_Nil_conv)
      with * have "xs = a' @ c # b" "i = Suc (length a')" "c \<notin> set a'"
        by simp_all
      then show "\<exists>j. indexOf c xs = Some j \<and> i = Suc j"
        using Cons.IH [of "length a'"] by blast
    qed
    finally show ?thesis .
  qed
qed

lemma splitOn_not_Nil [simp]: "splitOn c xs \<noteq> []"
  by (induction xs) (auto split: list.splits)

lemma splitOn_noc [simp]: "c \<notin> set xs \<Longrightarrow> splitOn c xs = [xs]"
  by (induction xs) auto

lemma splitOn_append: "splitOn c (xs @ c # ys) = splitOn c xs @ splitOn c ys"
  by (induction xs) (auto split: list.splits)

lemma joinWith_append:
  "xs \<noteq> [] \<Longrightarrow> ys \<noteq> [] \<Longrightarrow> joinWith s (xs @ ys) = joinWith s xs @ s @ joinWith s ys"
proof (induction s xs rule: joinWith.induct)
  case (2 sep x)
  then show ?case by (cases ys) auto
qed auto

lemma joinWith_splitOn [simp]: "joinWith [c] (splitOn c xs) = xs"
proof (induction xs)
  case Nil
  then show ?case by simp
next
  case (Cons x xs)
  obtain y ys where y: "splitOn c xs = y # ys"
    by (cases "splitOn c xs") auto
  with Cons show ?case
    by (cases ys) auto
qed

lemma splitOn_parts: "p \<in> set (splitOn c xs) \<Longrightarrow> c \<notin> set p"
proof (induction xs arbitrary: p)
  case Nil
  then show ?case by simp
next
  case (Cons x xs)
  obtain y ys where "splitOn c xs = y # ys"
    by (cases "splitOn c xs") auto
  with Cons show ?case
    by (auto split: if_splits)
qed

subsection \<open>Insertion-ordered maps\<close>

type_synonym ('k, 'v) jmap = "('k \<times> 'v) list"

abbreviation jget :: "('k, 'v) jmap \<Rightarrow> 'k \<Rightarrow> 'v option" where
  "jget m k \<equiv> map_of m k"

abbreviation jset :: "'k \<Rightarrow> 'v \<Rightarrow> ('k, 'v) jmap \<Rightarrow> ('k, 'v) jmap" where
  "jset k v m \<equiv> AList.update k v m"

abbreviation jdel :: "'k \<Rightarrow> ('k, 'v) jmap \<Rightarrow> ('k, 'v) jmap" where
  "jdel k m \<equiv> AList.delete k m"

definition jhas :: "('k, 'v) jmap \<Rightarrow> 'k \<Rightarrow> bool" where
  "jhas m k \<longleftrightarrow> map_of m k \<noteq> None"

abbreviation jkeys :: "('k, 'v) jmap \<Rightarrow> 'k list" where
  "jkeys m \<equiv> map fst m"

definition jwf :: "('k, 'v) jmap \<Rightarrow> bool" where
  "jwf m \<longleftrightarrow> distinct (map fst m)"

lemma set_map_filter_iff: "x \<in> set (List.map_filter f xs) \<longleftrightarrow> (\<exists>y\<in>set xs. f y = Some x)"
  by (induction xs) (auto simp: List.map_filter_simps split: option.splits)

text \<open>Adding to a \<open>Set\<close>: a member keeps its place.\<close>

definition sadd :: "'a \<Rightarrow> 'a list \<Rightarrow> 'a list" where
  "sadd x xs = (if x \<in> set xs then xs else xs @ [x])"

lemma set_sadd [simp]: "set (sadd x xs) = insert x (set xs)"
  by (auto simp: sadd_def)

lemma distinct_sadd [simp]: "distinct (sadd x xs) \<longleftrightarrow> distinct xs"
  by (auto simp: sadd_def)

lemma jget_set [jmap_simps, simp]: "jget (jset k v m) k' = (if k' = k then Some v else jget m k')"
  by (simp add: update_conv')

lemma jget_del [jmap_simps, simp]: "jget (jdel k m) k' = (if k' = k then None else jget m k')"
  by (simp add: delete_conv')

lemma jwf_Nil [simp]: "jwf []"
  by (simp add: jwf_def)

lemma jwf_set [simp]: "jwf m \<Longrightarrow> jwf (jset k v m)"
  by (simp add: jwf_def distinct_update)

lemma jwf_del [simp]: "jwf m \<Longrightarrow> jwf (jdel k m)"
  by (simp add: jwf_def distinct_delete)

lemma jwf_filter [simp]: "jwf m \<Longrightarrow> jwf (filter P m)"
  by (auto simp: jwf_def distinct_map_filter)

lemma distinct_jkeys_map: "jwf m \<Longrightarrow> inj_on f (set (jkeys m)) \<Longrightarrow> distinct (map f (jkeys m))"
  unfolding jwf_def distinct_map [of f "map fst m"] by blast

lemma jget_in: "jget m k = Some v \<Longrightarrow> (k, v) \<in> set m"
  by (rule map_of_SomeD)

lemma in_jget: "jwf m \<Longrightarrow> (k, v) \<in> set m \<Longrightarrow> jget m k = Some v"
  by (simp add: jwf_def)

lemma jget_iff: "jwf m \<Longrightarrow> (k, v) \<in> set m \<longleftrightarrow> jget m k = Some v"
  by (auto intro: in_jget jget_in)

lemma jkeys_iff: "k \<in> set (jkeys m) \<longleftrightarrow> jget m k \<noteq> None"
  by (metis map_of_eq_None_iff image_set)

text \<open>
  The contract a client relies on, whichever representation keeps the entries. The lemmas
  inside are the ones a reader of \<open>Map\<close> expects: writing twice keeps the last value, a
  deleted key is gone, and writing one key never disturbs another.
\<close>

locale keyed_map =
  fixes lookup :: "'m \<Rightarrow> 'k \<Rightarrow> 'v option"
    and insert_at :: "'k \<Rightarrow> 'v \<Rightarrow> 'm \<Rightarrow> 'm"
    and remove_at :: "'k \<Rightarrow> 'm \<Rightarrow> 'm"
    and nothing :: 'm
    and valid :: "'m \<Rightarrow> bool"
  assumes lookup_nothing: "lookup nothing k = None"
    and lookup_insert: "valid m \<Longrightarrow> lookup (insert_at k v m) k' = (if k' = k then Some v else lookup m k')"
    and lookup_remove: "valid m \<Longrightarrow> lookup (remove_at k m) k' = (if k' = k then None else lookup m k')"
    and valid_nothing: "valid nothing"
    and valid_insert: "valid m \<Longrightarrow> valid (insert_at k v m)"
    and valid_remove: "valid m \<Longrightarrow> valid (remove_at k m)"
begin

lemma insert_twice: "valid m \<Longrightarrow> lookup (insert_at k v (insert_at k u m)) = lookup (insert_at k v m)"
  by (auto simp: lookup_insert valid_insert fun_eq_iff)

lemma remove_insert: "valid m \<Longrightarrow> lookup (remove_at k (insert_at k v m)) = lookup (remove_at k m)"
  by (auto simp: lookup_insert lookup_remove valid_insert fun_eq_iff)

lemma insert_all_valid: "valid m \<Longrightarrow> valid (foldl (\<lambda>m (k, v). insert_at k v m) m kvs)"
  by (induction kvs arbitrary: m) (auto simp: valid_insert)

lemma lookup_insert_all:
  "valid m \<Longrightarrow> lookup (foldl (\<lambda>m (k, v). insert_at k v m) m kvs) k =
     (case map_of (rev kvs) k of None \<Rightarrow> lookup m k | Some v \<Rightarrow> Some v)"
proof (induction kvs arbitrary: m)
  case Nil
  then show ?case by simp
next
  case (Cons kv kvs)
  then show ?case
    by (cases kv) (auto simp: valid_insert lookup_insert map_add_def split: option.splits)
qed

end

interpretation jm: keyed_map "\<lambda>m k. map_of m k" "AList.update" "AList.delete" "[]" jwf
  by unfold_locales simp_all

subsection \<open>Results that may be an error\<close>

fun bind_r :: "'e + 'a \<Rightarrow> ('a \<Rightarrow> 'e + 'b) \<Rightarrow> 'e + 'b" where
  "bind_r (Inl e) f = Inl e"
| "bind_r (Inr a) f = f a"

lemma bind_r_Inr: "bind_r m f = Inr b \<longleftrightarrow> (\<exists>a. m = Inr a \<and> f a = Inr b)"
  by (cases m) auto

subsection \<open>Stable sorting\<close>

lemma set_sort_key' [simp]: "set (sort_key f xs) = set xs"
  by simp

subsection \<open>Numbers in messages\<close>

text \<open>A natural number in decimal, as a template literal prints it.\<close>

fun showNat :: "nat \<Rightarrow> string" where
  "showNat n = (if n < 10 then [char_of (48 + n)] else showNat (n div 10) @ [char_of (48 + n mod 10)])"

declare showNat.simps [simp del]

lemma find_through: "find P (map f xs) = map_option f (find (\<lambda>x. P (f x)) xs)"
  by (induction xs) auto

end
