(* ===== verification/Sync_Types.thy ===== *)
theory Sync_Types
  imports Prelude
begin

text \<open>
  The data the plugin's engine works on: what this device remembers about a path
  (\<open>engine/state.ts\<close>), a node as the server describes it with the path this client resolved it
  to (\<open>engine/wire.ts\<close>), what a vault reports about a file (\<open>engine/vault.ts\<close>), and the path
  arithmetic of \<open>engine/rename.ts\<close>. Identifiers, hashes and addresses are strings as on the
  wire; a field that may be \<open>null\<close>, \<open>undefined\<close> or absent is an option. Revisions and sizes
  are natural numbers, timestamps integers.
\<close>

subsection \<open>Paths\<close>

type_synonym path = string

definition slash :: char where
  "slash = CHR ''/''"

definition parentPath :: "path \<Rightarrow> path" where
  "parentPath p = (case lastIndexOf slash p of None \<Rightarrow> '''' | Some i \<Rightarrow> take i p)"

definition basePath :: "path \<Rightarrow> path" where
  "basePath p = (case lastIndexOf slash p of None \<Rightarrow> p | Some i \<Rightarrow> drop (Suc i) p)"

definition depth :: "path \<Rightarrow> nat" where
  "depth p = length (splitOn slash p)"

text \<open>The test \<open>p.startsWith(`${dir}/`)\<close>, which every rule about "under a folder" is written with.\<close>

definition within :: "path \<Rightarrow> path \<Rightarrow> bool" where
  "within dir p \<longleftrightarrow> startsWith p (dir @ [slash])"

lemma parentPath_length: "parentPath p \<noteq> [] \<Longrightarrow> length (parentPath p) < length p"
  by (auto simp: parentPath_def lastIndexOf_Some split: option.splits)

lemma parentPath_append [path_simps, simp]:
  "slash \<notin> set b \<Longrightarrow> parentPath (a @ slash # b) = a"
  by (simp add: parentPath_def)

lemma basePath_append [path_simps, simp]:
  "slash \<notin> set b \<Longrightarrow> basePath (a @ slash # b) = b"
  by (simp add: basePath_def)

lemma parentPath_noslash [path_simps, simp]: "slash \<notin> set p \<Longrightarrow> parentPath p = []"
  by (simp add: parentPath_def del: lastIndexOf_None split: option.splits) (metis lastIndexOf_None option.distinct(1))

lemma basePath_noslash [path_simps, simp]: "slash \<notin> set p \<Longrightarrow> basePath p = p"
  by (simp add: basePath_def del: lastIndexOf_None split: option.splits) (metis lastIndexOf_None option.distinct(1))

lemma basePath_no_slash: "slash \<notin> set (basePath p)"
  by (auto simp: basePath_def lastIndexOf_Some split: option.splits)

lemma parent_base: "slash \<in> set p \<Longrightarrow> parentPath p @ slash # basePath p = p"
  by (auto dest!: split_list_last)

lemma within_iff [path_simps]: "within d p \<longleftrightarrow> (\<exists>r. p = d @ slash # r)"
  by (simp add: within_def startsWith_iff)

lemma within_append [simp]: "within d (d @ slash # r)"
  by (simp add: within_iff)

lemma within_trans: "within a b \<Longrightarrow> within b c \<Longrightarrow> within a c"
  by (auto simp: within_iff)

lemma within_irrefl [simp]: "\<not> within p p"
  by (auto simp: within_iff)

lemma within_asym: "within a b \<Longrightarrow> \<not> within b a"
  by (auto simp: within_iff)

lemma within_longer: "within d p \<Longrightarrow> length d < length p"
  by (auto simp: within_iff)

lemma within_parent: "parentPath p \<noteq> [] \<Longrightarrow> within (parentPath p) p"
  by (auto simp: parentPath_def within_iff lastIndexOf_Some split: option.splits)

lemma depth_append [path_simps, simp]: "depth (a @ slash # b) = depth a + depth b"
  by (simp add: depth_def splitOn_append)

lemma depth_pos [simp]: "0 < depth p"
  by (simp add: depth_def)

lemma within_deeper: "within d p \<Longrightarrow> depth d < depth p"
  by (auto simp: within_iff)

subsection \<open>Records\<close>

record known_node =
  kn_nodeId :: string
  kn_rev :: nat
  kn_plainHash :: string
  kn_address :: string
  kn_mtime :: "int option"
  kn_size :: "nat option"

record server_node =
  sn_nodeId :: string
  sn_parentId :: "string option"
  sn_path :: path
  sn_rev :: nat
  sn_address :: "string option"
  sn_isFile :: bool
  sn_nameKeyId :: "string option"
  sn_shareId :: "string option"
  sn_authorId :: "string option"

record vault_file =
  vf_path :: path
  vf_mtime :: int
  vf_size :: nat

record local_meta =
  lm_plainHash :: string
  lm_tag :: string
  lm_mtime :: int
  lm_size :: nat

record vanished =
  va_path :: path
  va_nodeId :: string
  va_rev :: nat
  va_address :: string

record vault_state =
  vs_cursor :: "string option"
  vs_nodes :: "(path, known_node) jmap"

definition emptyState :: vault_state where
  "emptyState = \<lparr>vs_cursor = None, vs_nodes = []\<rparr>"

text \<open>\<open>Boolean(id)\<close> of an identifier that may be absent: \<open>null\<close>, \<open>undefined\<close> and \<open>''\<close> are false.\<close>

definition truthy :: "string option \<Rightarrow> bool" where
  "truthy s \<longleftrightarrow> s \<noteq> None \<and> s \<noteq> Some ''''"

type_synonym tree = "(path, server_node) jmap"

end
