(* ===== verification/Rename.thy ===== *)
theory Rename
  imports Sync_Types
begin

text \<open>
  \<open>plugin/src/engine/rename.ts\<close>: was this a rename, or a delete and a create? The per-file
  heuristic \<open>renameSourceFor\<close>, and the planner \<open>folderMoves\<close> with the three questions it asks
  (\<open>destinationOf\<close>, \<open>parentChainExists\<close>, \<open>leftover\<close>). Nothing here performs anything: maps in,
  a plan out. The main lemma, \<open>folderMoves_sound\<close>, lists every condition a planned move has met.
\<close>

definition RENAME_MIN_BYTES :: nat where
  "RENAME_MIN_BYTES = 512"

subsection \<open>One file\<close>

definition renameSourceFor ::
  "local_meta \<Rightarrow> (string, vanished list) jmap \<Rightarrow> tree \<Rightarrow> (string, server_node) jmap \<Rightarrow> vanished option"
where
  "renameSourceFor meta vmap tree byNodeId =
     (if lm_size meta < RENAME_MIN_BYTES then None
      else (case jget vmap (lm_plainHash meta) of
              Some [source] \<Rightarrow>
                (let stillThere = (case jget tree (va_path source) of
                                     None \<Rightarrow> False
                                   | Some node \<Rightarrow> sn_nodeId node = va_nodeId source)
                 in if \<not> stillThere \<and> \<not> jhas byNodeId (va_nodeId source) then None
                    else Some source)
            | _ \<Rightarrow> None))"

lemma renameSourceFor_Some:
  "renameSourceFor meta vmap tree byNodeId = Some v \<longleftrightarrow>
     512 \<le> lm_size meta \<and> jget vmap (lm_plainHash meta) = Some [v] \<and>
     ((\<exists>n. jget tree (va_path v) = Some n \<and> sn_nodeId n = va_nodeId v) \<or>
      jget byNodeId (va_nodeId v) \<noteq> None)"
  by (auto simp: renameSourceFor_def RENAME_MIN_BYTES_def jhas_def Let_def
      split: option.splits list.splits if_splits)

subsection \<open>Whole folders\<close>

record gone_file =
  g_v :: vanished
  g_hash :: string

record rel_child =
  rc_hash :: string
  rc_rel :: path

record moved_child =
  mc_hash :: string
  mc_to :: path

record folder_move =
  fm_from :: path
  fm_to :: path
  fm_nodeId :: string
  fm_rev :: nat
  fm_children :: "moved_child list"
  fm_replaces :: "(string \<times> nat) option"

text \<open>\<open>for (let p = parentPath(path); p; p = parentPath(p))\<close>: the folders above a path, nearest first.\<close>

function ancestorsOf :: "path \<Rightarrow> path list" where
  "ancestorsOf p = (if parentPath p = [] then [] else parentPath p # ancestorsOf (parentPath p))"
  by pat_completeness auto
termination
  by (relation "measure length") (auto intro: parentPath_length)

declare ancestorsOf.simps [simp del]

fun chainFrom :: "tree \<Rightarrow> path \<Rightarrow> path list \<Rightarrow> bool" where
  "chainFrom tree sofar [] = True"
| "chainFrom tree sofar (part # rest) =
     (let sofar' = (if sofar \<noteq> [] then sofar @ slash # part else part)
      in (case jget tree sofar' of
            None \<Rightarrow> False
          | Some node \<Rightarrow> if sn_isFile node then False else chainFrom tree sofar' rest))"

definition parentChainExists :: "path \<Rightarrow> tree \<Rightarrow> bool" where
  "parentChainExists p tree =
     (if parentPath p = [] then True else chainFrom tree [] (splitOn slash (parentPath p)))"

definition leftover :: "path \<Rightarrow> server_node \<Rightarrow> tree \<Rightarrow> bool" where
  "leftover p node tree \<longleftrightarrow>
     \<not> sn_isFile node \<and> \<not> truthy (sn_shareId node) \<and> \<not> list_ex (within p) (jkeys tree)"

definition fitAt ::
  "rel_child list \<Rightarrow> rel_child \<Rightarrow> path list \<Rightarrow> tree \<Rightarrow> (path, local_meta) jmap \<Rightarrow> path \<Rightarrow> (path \<times> nat) option"
where
  "fitAt children child0 here tree meta p =
     (if \<not> endsWith p (slash # rc_rel child0) \<or> jhas tree p then None
      else (let to = take (length p - length (rc_rel child0) - 1) p;
                at = map (\<lambda>c. to @ slash # rc_rel c) children
            in if \<not> list_all (\<lambda>q. q \<in> set here \<and> \<not> jhas tree q) at then None
               else Some (to, length (filter (\<lambda>c. map_option lm_plainHash (jget meta (to @ slash # rc_rel c))
                                                    = Some (rc_hash c)) children))))"

definition destinationOf ::
  "rel_child list \<Rightarrow> path list \<Rightarrow> tree \<Rightarrow> (path, local_meta) jmap \<Rightarrow> path option"
where
  "destinationOf children here tree meta =
     (case children of
        [] \<Rightarrow> None
      | child0 # _ \<Rightarrow>
          (case sort_key (\<lambda>f. - int (snd f)) (List.map_filter (fitAt children child0 here tree meta) here) of
             [] \<Rightarrow> None
           | [f] \<Rightarrow> Some (fst f)
           | f # f' # _ \<Rightarrow> if snd f = snd f' then None else Some (fst f)))"

definition goneFrom :: "(string, vanished list) jmap \<Rightarrow> gone_file list" where
  "goneFrom vmap = concat (map (\<lambda>(hash, vs). map (\<lambda>v. \<lparr>g_v = v, g_hash = hash\<rparr>) vs) vmap)"

definition childrenUnder :: "gone_file list \<Rightarrow> path \<Rightarrow> rel_child list" where
  "childrenUnder gone from =
     map (\<lambda>g. \<lparr>rc_hash = g_hash g, rc_rel = drop (Suc (length from)) (va_path (g_v g))\<rparr>)
       (filter (\<lambda>g. within from (va_path (g_v g))) gone)"

text \<open>One round of the planning loop, for the folder \<open>from\<close>; \<open>continue\<close> keeps the plan.\<close>

definition planFolder ::
  "gone_file list \<Rightarrow> tree \<Rightarrow> (path, local_meta) jmap \<Rightarrow> path list \<Rightarrow>
   folder_move list \<times> path list \<Rightarrow> path \<Rightarrow> folder_move list \<times> path list"
where
  "planFolder gone tree meta here pc from =
     (let (plan, claimed) = pc in
      if list_ex (\<lambda>m. from = fm_from m \<or> within (fm_from m) from) plan then pc
      else (case jget tree from of
        None \<Rightarrow> pc
      | Some source \<Rightarrow>
          if sn_isFile source then pc
          else if list_ex (within from) here then pc
          else (let children = childrenUnder gone from in
            (case destinationOf children here tree meta of
               None \<Rightarrow> pc
             | Some to \<Rightarrow>
                 if to = from \<or> within from to then pc
                 else if \<not> parentChainExists to tree \<or> to \<in> set claimed then pc
                 else (let there = jget tree to in
                   if (case there of None \<Rightarrow> False | Some n \<Rightarrow> \<not> leftover to n tree) then pc
                   else (plan @ [\<lparr>fm_from = from, fm_to = to, fm_nodeId = sn_nodeId source,
                                  fm_rev = sn_rev source,
                                  fm_children = map (\<lambda>c. \<lparr>mc_hash = rc_hash c, mc_to = to @ slash # rc_rel c\<rparr>) children,
                                  fm_replaces = map_option (\<lambda>n. (sn_nodeId n, sn_rev n)) there\<rparr>],
                         sadd to claimed))))))"

definition folderMoves ::
  "(string, vanished list) jmap \<Rightarrow> tree \<Rightarrow> (path, local_meta) jmap \<Rightarrow> path list \<Rightarrow> folder_move list"
where
  "folderMoves vmap tree meta here =
     (let gone = goneFrom vmap;
          folders = foldl (\<lambda>fs g. foldl (\<lambda>fs p. sadd p fs) fs (ancestorsOf (va_path (g_v g)))) [] gone
      in fst (foldl (planFolder gone tree meta here) ([], []) (sort_key depth folders)))"


subsection \<open>What a fit is, and why the winner is the only one\<close>

definition fits_at :: "rel_child list \<Rightarrow> path list \<Rightarrow> tree \<Rightarrow> path \<Rightarrow> bool" where
  "fits_at children here tree to \<longleftrightarrow>
     (\<forall>c\<in>set children. to @ slash # rc_rel c \<in> set here \<and> jget tree (to @ slash # rc_rel c) = None)"

definition matches_at :: "rel_child list \<Rightarrow> (path, local_meta) jmap \<Rightarrow> path \<Rightarrow> nat" where
  "matches_at children meta to =
     length (filter (\<lambda>c. map_option lm_plainHash (jget meta (to @ slash # rc_rel c)) = Some (rc_hash c)) children)"

lemma fitAt_Some:
  "fitAt children c here tree meta p = Some (to, n) \<Longrightarrow>
     p = to @ slash # rc_rel c \<and> fits_at children here tree to \<and> n = matches_at children meta to"
  by (auto simp: fitAt_def fits_at_def matches_at_def endsWith_iff jhas_def Let_def list_all_iff
      split: if_splits)

lemma fitAt_intro:
  assumes "c \<in> set children" "fits_at children here tree to"
  shows "fitAt children c here tree meta (to @ slash # rc_rel c) = Some (to, matches_at children meta to)"
proof -
  have "endsWith (to @ slash # rc_rel c) (slash # rc_rel c)" by (auto simp: endsWith_iff)
  moreover have "take (length (to @ slash # rc_rel c) - length (rc_rel c) - 1) (to @ slash # rc_rel c) = to"
    by simp
  ultimately show ?thesis
    using assms by (simp add: fitAt_def fits_at_def matches_at_def jhas_def Let_def list_all_iff)
qed

definition fitList ::
  "rel_child list \<Rightarrow> rel_child \<Rightarrow> path list \<Rightarrow> tree \<Rightarrow> (path, local_meta) jmap \<Rightarrow> (path \<times> nat) list"
where
  "fitList children c here tree meta =
     sort_key (\<lambda>f. - int (snd f)) (List.map_filter (fitAt children c here tree meta) here)"

lemma set_fitList:
  assumes "c \<in> set children"
  shows "set (fitList children c here tree meta) =
     {(to, matches_at children meta to) | to. fits_at children here tree to}"
proof -
  have here: "to @ slash # rc_rel c \<in> set here" if "fits_at children here tree to" for to
    using that assms by (auto simp: fits_at_def)
  have "set (List.map_filter (fitAt children c here tree meta) here) =
     {(to, matches_at children meta to) | to. fits_at children here tree to}" (is "?A = ?B")
  proof (intro equalityI subsetI)
    fix x assume "x \<in> ?A"
    then show "x \<in> ?B"
      by (auto simp: set_map_filter_iff dest!: fitAt_Some) (metis fitAt_Some prod.exhaust)
  next
    fix x assume "x \<in> ?B"
    then obtain to where "x = (to, matches_at children meta to)" "fits_at children here tree to" by blast
    then show "x \<in> ?A"
      using here [of to] fitAt_intro [OF assms, of here tree to meta]
      by (auto simp: set_map_filter_iff)
  qed
  then show ?thesis by (simp add: fitList_def)
qed

lemma destinationOf_fitList:
  "destinationOf (c # cs) here tree meta =
     (case fitList (c # cs) c here tree meta of
        [] \<Rightarrow> None
      | [f] \<Rightarrow> Some (fst f)
      | f # f' # _ \<Rightarrow> if snd f = snd f' then None else Some (fst f))"
  by (simp add: destinationOf_def fitList_def)

lemma fitList_sorted:
  "sorted (map (\<lambda>f. - int (snd f)) (fitList children c here tree meta))"
  by (simp add: fitList_def)

lemma destinationOf_Some:
  assumes "destinationOf children here tree meta = Some to"
  shows "children \<noteq> []" and "fits_at children here tree to"
    and "\<And>to'. fits_at children here tree to' \<Longrightarrow> to' \<noteq> to \<Longrightarrow>
           matches_at children meta to' < matches_at children meta to"
proof -
  from assms obtain c cs where ch: "children = c # cs"
    by (cases children) (auto simp: destinationOf_def)
  let ?fl = "fitList children c here tree meta"
  from assms ch obtain f fs where f: "?fl = f # fs" "to = fst f"
    by (auto simp: destinationOf_fitList split: list.splits if_splits)
  have mem: "set ?fl = {(to, matches_at children meta to) | to. fits_at children here tree to}"
    using ch by (intro set_fitList) simp
  from f have "f \<in> set ?fl" by simp
  with mem f have head: "f = (to, matches_at children meta to)" and fit: "fits_at children here tree to"
    by auto
  show "children \<noteq> []" using ch by simp
  show "fits_at children here tree to" by (rule fit)
  fix to' assume to': "fits_at children here tree to'" "to' \<noteq> to"
  with mem have "(to', matches_at children meta to') \<in> set ?fl" by blast
  with f(1) have "(to', matches_at children meta to') \<in> insert f (set fs)" by simp
  moreover have "(to', matches_at children meta to') \<noteq> f" using head to'(2) by blast
  ultimately have tail: "(to', matches_at children meta to') \<in> set fs" by blast
  then have "fs \<noteq> []" by auto
  then obtain f' fs' where fs: "fs = f' # fs'" by (auto simp: neq_Nil_conv)
  have "sorted (map (\<lambda>f. - int (snd f)) (f # f' # fs'))"
    using fitList_sorted [of children c here tree meta] f fs by simp
  then have le: "snd f' \<le> snd f" and rest: "\<forall>g\<in>set fs'. snd g \<le> snd f'"
    by auto
  have ne: "snd f \<noteq> snd f'"
    using assms ch f fs by (auto simp: destinationOf_fitList)
  from tail fs rest have "matches_at children meta to' \<le> snd f'" by auto
  moreover have "snd f = matches_at children meta to" using head by (metis snd_conv)
  ultimately show "matches_at children meta to' < matches_at children meta to" using le ne by simp
qed

subsection \<open>Every planned move has met every condition\<close>

definition move_ok ::
  "(string, vanished list) jmap \<Rightarrow> tree \<Rightarrow> (path, local_meta) jmap \<Rightarrow> path list \<Rightarrow> folder_move \<Rightarrow> bool"
where
  "move_ok vmap tree meta here m \<longleftrightarrow>
     (\<exists>n. jget tree (fm_from m) = Some n \<and> \<not> sn_isFile n \<and> fm_nodeId m = sn_nodeId n \<and> fm_rev m = sn_rev n)
     \<and> (\<forall>p\<in>set here. \<not> within (fm_from m) p)
     \<and> (\<exists>h vs v. (h, vs) \<in> set vmap \<and> v \<in> set vs \<and> within (fm_from m) (va_path v))
     \<and> (\<forall>h vs v rel. (h, vs) \<in> set vmap \<longrightarrow> v \<in> set vs \<longrightarrow> va_path v = fm_from m @ slash # rel \<longrightarrow>
          fm_to m @ slash # rel \<in> set here \<and> jget tree (fm_to m @ slash # rel) = None \<and>
          \<lparr>mc_hash = h, mc_to = fm_to m @ slash # rel\<rparr> \<in> set (fm_children m))
     \<and> fm_to m \<noteq> fm_from m \<and> \<not> within (fm_from m) (fm_to m)
     \<and> parentChainExists (fm_to m) tree
     \<and> (case jget tree (fm_to m) of
          None \<Rightarrow> fm_replaces m = None
        | Some n \<Rightarrow> leftover (fm_to m) n tree \<and> fm_replaces m = Some (sn_nodeId n, sn_rev n))"

lemma goneFrom_mem:
  "g \<in> set (goneFrom vmap) \<longleftrightarrow>
     (\<exists>vs. (g_hash g, vs) \<in> set vmap \<and> g_v g \<in> set vs)"
  by (cases g) (auto simp: goneFrom_def image_iff split: prod.splits)

lemma childrenUnder_mem:
  "c \<in> set (childrenUnder (goneFrom vmap) from) \<longleftrightarrow>
     (\<exists>vs v. (rc_hash c, vs) \<in> set vmap \<and> v \<in> set vs \<and> va_path v = from @ slash # rc_rel c)"
proof
  assume "c \<in> set (childrenUnder (goneFrom vmap) from)"
  then show "\<exists>vs v. (rc_hash c, vs) \<in> set vmap \<and> v \<in> set vs \<and> va_path v = from @ slash # rc_rel c"
    by (auto simp: childrenUnder_def goneFrom_mem within_iff) blast
next
  assume "\<exists>vs v. (rc_hash c, vs) \<in> set vmap \<and> v \<in> set vs \<and> va_path v = from @ slash # rc_rel c"
  then obtain vs v where *: "(rc_hash c, vs) \<in> set vmap" "v \<in> set vs" "va_path v = from @ slash # rc_rel c"
    by blast
  let ?g = "\<lparr>g_v = v, g_hash = rc_hash c\<rparr>"
  have "?g \<in> set (goneFrom vmap)" "within from (va_path (g_v ?g))"
    using * by (auto simp: goneFrom_mem within_iff)
  then show "c \<in> set (childrenUnder (goneFrom vmap) from)"
    using * by (force simp: childrenUnder_def intro!: image_eqI [of _ _ ?g])
qed

text \<open>A round that extends the plan has passed every guard of the loop body, in its order.\<close>

lemma planFolder_extends:
  assumes "planFolder gone tree meta here (plan, claimed) from = (plan', claimed')"
    and changed: "\<not> (plan' = plan \<and> claimed' = claimed)"
  obtains n to where
    "\<forall>m'\<in>set plan. fm_from m' \<noteq> from \<and> \<not> within (fm_from m') from"
    "jget tree from = Some n" "\<not> sn_isFile n" "\<forall>p\<in>set here. \<not> within from p"
    "destinationOf (childrenUnder gone from) here tree meta = Some to" "to \<noteq> from" "\<not> within from to"
    "parentChainExists to tree" "to \<notin> set claimed"
    "\<forall>n'. jget tree to = Some n' \<longrightarrow> leftover to n' tree"
    "plan' = plan @ [\<lparr>fm_from = from, fm_to = to, fm_nodeId = sn_nodeId n, fm_rev = sn_rev n,
        fm_children = map (\<lambda>c. \<lparr>mc_hash = rc_hash c, mc_to = to @ slash # rc_rel c\<rparr>) (childrenUnder gone from),
        fm_replaces = map_option (\<lambda>n. (sn_nodeId n, sn_rev n)) (jget tree to)\<rparr>]"
    "claimed' = sadd to claimed"
proof -
  let ?ch = "childrenUnder gone from"
  note eq = assms(1) [unfolded planFolder_def Let_def prod.case]
  have 1: "\<not> list_ex (\<lambda>m. from = fm_from m \<or> within (fm_from m) from) plan"
    using eq changed by (auto split: if_splits)
  note eq1 = eq [unfolded if_not_P [OF 1]]
  obtain n where 2: "jget tree from = Some n"
    using eq1 changed by (cases "jget tree from") auto
  note eq2 = eq1 [unfolded 2 option.case]
  have 3: "\<not> sn_isFile n" "\<not> list_ex (within from) here"
    using eq2 changed by (auto split: if_splits)
  note eq3 = eq2 [unfolded if_not_P [OF 3(1)] if_not_P [OF 3(2)]]
  obtain to where 4: "destinationOf ?ch here tree meta = Some to"
    using eq3 changed by (cases "destinationOf ?ch here tree meta") auto
  note eq4 = eq3 [unfolded 4 option.case]
  have 5: "\<not> (to = from \<or> within from to)" "\<not> (\<not> parentChainExists to tree \<or> to \<in> set claimed)"
    using eq4 changed by (auto split: if_splits)
  note eq5 = eq4 [unfolded if_not_P [OF 5(1)] if_not_P [OF 5(2)]]
  have 6: "\<not> (case jget tree to of None \<Rightarrow> False | Some n \<Rightarrow> \<not> leftover to n tree)"
    using eq5 changed by (auto split: if_splits)
  note eq6 = eq5 [unfolded if_not_P [OF 6]]
  show thesis
    by (rule that [of n to]) (use 1 2 3 4 5 6 eq6 in \<open>auto simp: list_ex_iff\<close>)
qed

lemma planFolder_cases:
  assumes "planFolder (goneFrom vmap) tree meta here (plan, claimed) from = (plan', claimed')"
  shows "(plan' = plan \<and> claimed' = claimed) \<or>
     (\<exists>m. plan' = plan @ [m] \<and> claimed' = sadd (fm_to m) claimed \<and> fm_from m = from \<and>
          move_ok vmap tree meta here m \<and> fm_to m \<notin> set claimed \<and>
          (\<forall>m'\<in>set plan. fm_from m' \<noteq> from \<and> \<not> within (fm_from m') from))"
proof (cases "plan' = plan \<and> claimed' = claimed")
  case True
  then show ?thesis by blast
next
  case False
  let ?ch = "childrenUnder (goneFrom vmap) from"
  from planFolder_extends [OF assms False] obtain n to where *:
    "\<forall>m'\<in>set plan. fm_from m' \<noteq> from \<and> \<not> within (fm_from m') from"
    "jget tree from = Some n" "\<not> sn_isFile n" "\<forall>p\<in>set here. \<not> within from p"
    "destinationOf ?ch here tree meta = Some to" "to \<noteq> from" "\<not> within from to"
    "parentChainExists to tree" "to \<notin> set claimed"
    "\<forall>n'. jget tree to = Some n' \<longrightarrow> leftover to n' tree"
    and plan': "plan' = plan @ [\<lparr>fm_from = from, fm_to = to, fm_nodeId = sn_nodeId n, fm_rev = sn_rev n,
        fm_children = map (\<lambda>c. \<lparr>mc_hash = rc_hash c, mc_to = to @ slash # rc_rel c\<rparr>) ?ch,
        fm_replaces = map_option (\<lambda>n. (sn_nodeId n, sn_rev n)) (jget tree to)\<rparr>]"
    and claimed': "claimed' = sadd to claimed" .
  define m where "m = \<lparr>fm_from = from, fm_to = to, fm_nodeId = sn_nodeId n, fm_rev = sn_rev n,
        fm_children = map (\<lambda>c. \<lparr>mc_hash = rc_hash c, mc_to = to @ slash # rc_rel c\<rparr>) ?ch,
        fm_replaces = map_option (\<lambda>n. (sn_nodeId n, sn_rev n)) (jget tree to)\<rparr>"
  have m: "plan' = plan @ [m]" using plan' m_def by simp
  note dest = destinationOf_Some [OF *(5)]
  have ex: "\<exists>h vs v. (h, vs) \<in> set vmap \<and> v \<in> set vs \<and> within from (va_path v)"
  proof -
    from dest(1) obtain c where "c \<in> set ?ch" using list.set_sel(1) by blast
    then show ?thesis unfolding childrenUnder_mem within_iff by blast
  qed
  have all: "to @ slash # rel \<in> set here \<and> jget tree (to @ slash # rel) = None \<and>
      \<lparr>mc_hash = h, mc_to = to @ slash # rel\<rparr> \<in> set (fm_children m)"
    if "(h, vs) \<in> set vmap" "v \<in> set vs" "va_path v = from @ slash # rel" for h vs v rel
  proof -
    let ?c = "\<lparr>rc_hash = h, rc_rel = rel\<rparr>"
    have "?c \<in> set ?ch" using that unfolding childrenUnder_mem by auto
    then show ?thesis
      using dest(2) by (force simp: m_def fits_at_def intro!: image_eqI [of _ _ ?c])
  qed
  have fields: "fm_from m = from" "fm_to m = to" "fm_nodeId m = sn_nodeId n" "fm_rev m = sn_rev n"
    "fm_replaces m = map_option (\<lambda>n. (sn_nodeId n, sn_rev n)) (jget tree to)"
    by (simp_all add: m_def)
  have "move_ok vmap tree meta here m"
    unfolding move_ok_def fields
    using *(2,3,4,6,7,8,10) ex all by (auto split: option.splits)
  with *(1,9) m claimed' fields(1,2) show ?thesis by blast
qed

text \<open>The plan as a whole: what holds of each move, and of each pair of them.\<close>

definition plan_ok ::
  "(string, vanished list) jmap \<Rightarrow> tree \<Rightarrow> (path, local_meta) jmap \<Rightarrow> path list \<Rightarrow> folder_move list \<Rightarrow> bool"
where
  "plan_ok vmap tree meta here plan \<longleftrightarrow>
     list_all (move_ok vmap tree meta here) plan \<and> distinct (map fm_to plan) \<and>
     (\<forall>i<length plan. \<forall>j<length plan. i \<noteq> j \<longrightarrow>
        fm_from (plan ! i) \<noteq> fm_from (plan ! j) \<and> \<not> within (fm_from (plan ! i)) (fm_from (plan ! j)))"

lemma plan_ok_snoc:
  assumes "plan_ok vmap tree meta here plan" "move_ok vmap tree meta here m" "fm_to m \<notin> set (map fm_to plan)"
    "\<forall>m'\<in>set plan. fm_from m' \<noteq> fm_from m \<and> \<not> within (fm_from m') (fm_from m)
       \<and> \<not> within (fm_from m) (fm_from m')"
  shows "plan_ok vmap tree meta here (plan @ [m])"
  using assms unfolding plan_ok_def
  by (auto simp: nth_append less_Suc_eq)

lemma foldl_planFolder_ok:
  assumes "plan_ok vmap tree meta here plan" "set claimed = set (map fm_to plan)"
    "sorted (map depth fs)" "\<forall>m\<in>set plan. \<forall>f\<in>set fs. depth (fm_from m) \<le> depth f"
  shows "plan_ok vmap tree meta here (fst (foldl (planFolder (goneFrom vmap) tree meta here) (plan, claimed) fs))"
  using assms
proof (induction fs arbitrary: plan claimed)
  case Nil
  then show ?case by simp
next
  case (Cons src fs)
  obtain plan' claimed' where step:
    "planFolder (goneFrom vmap) tree meta here (plan, claimed) src = (plan', claimed')"
    by fastforce
  from planFolder_cases [OF step] show ?case
  proof (elim disjE exE conjE)
    assume "plan' = plan" "claimed' = claimed"
    with step Cons show ?thesis by simp
  next
    fix m assume m: "plan' = plan @ [m]" "claimed' = sadd (fm_to m) claimed" "fm_from m = src"
      "move_ok vmap tree meta here m" "fm_to m \<notin> set claimed"
      "\<forall>m'\<in>set plan. fm_from m' \<noteq> src \<and> \<not> within (fm_from m') src"
    have "\<forall>m'\<in>set plan. \<not> within (fm_from m) (fm_from m')"
      using Cons.prems(4) m(3) within_deeper by fastforce
    then have "plan_ok vmap tree meta here plan'"
      using plan_ok_snoc [OF Cons.prems(1) m(4)] m Cons.prems(2) by auto
    moreover have "set claimed' = set (map fm_to plan')" using m Cons.prems(2) by simp
    moreover have "\<forall>m\<in>set plan'. \<forall>f\<in>set fs. depth (fm_from m) \<le> depth f"
      using Cons.prems(3,4) m by auto
    ultimately show ?thesis using Cons.IH Cons.prems(3) step by simp
  qed
qed

lemma folderMoves_ok: "plan_ok vmap tree meta here (folderMoves vmap tree meta here)"
  unfolding folderMoves_def Let_def
  by (rule foldl_planFolder_ok) (auto simp: plan_ok_def)

text \<open>No destination lies in a folder that is itself being moved away: the moves of one plan
  can be carried out one after the other, each finding its parent folder where it was.\<close>

lemma plan_destinations_outside_sources:
  assumes "plan_ok vmap tree meta here plan" "m \<in> set plan" "m' \<in> set plan"
  shows "fm_to m' \<noteq> fm_from m" and "\<not> within (fm_from m) (fm_to m')"
proof -
  from assms have ok: "move_ok vmap tree meta here m" "move_ok vmap tree meta here m'"
    by (auto simp: plan_ok_def list_all_iff)
  from ok(2) obtain h vs v rel where "(h, vs) \<in> set vmap" "v \<in> set vs"
    "va_path v = fm_from m' @ slash # rel"
    by (auto simp: move_ok_def within_iff)
  with ok(2) have "fm_to m' @ slash # rel \<in> set here" by (auto simp: move_ok_def)
  with ok(1) have *: "\<not> within (fm_from m) (fm_to m' @ slash # rel)" by (auto simp: move_ok_def)
  then show "fm_to m' \<noteq> fm_from m" by (auto simp: within_iff)
  show "\<not> within (fm_from m) (fm_to m')"
    using * within_trans [of "fm_from m" "fm_to m'" "fm_to m' @ slash # rel"]
    by (auto simp: within_iff)
qed

subsection \<open>Properties\<close>

text \<open>Every folder move of a plan meets every condition the planner names: its source is a folder the
  server holds with nothing left under it locally, every file that vanished from under it exists at
  the same relative path under the destination where the server holds nothing, the destination lies
  outside the source and under folders that exist, and it is either free or the empty unshared
  leftover that the move replaces.\<close>

theorem folderMoves_sound:
  "m \<in> set (folderMoves vmap tree meta here) \<Longrightarrow> move_ok vmap tree meta here m"
  using folderMoves_ok [of vmap tree meta here] by (simp add: plan_ok_def list_all_iff)

text \<open>The moves of one plan do not interfere: destinations are distinct, no source is another or lies
  inside it, and no destination is a source or lies inside one; so they can be carried out in any
  order and each file is moved by at most one of them.\<close>

theorem folderMoves_independent:
  assumes "i < length (folderMoves vmap tree meta here)" "j < length (folderMoves vmap tree meta here)" "i \<noteq> j"
    and "m = folderMoves vmap tree meta here ! i" "m' = folderMoves vmap tree meta here ! j"
  shows "fm_to m \<noteq> fm_to m' \<and> fm_from m \<noteq> fm_from m' \<and> \<not> within (fm_from m) (fm_from m') \<and>
     fm_to m' \<noteq> fm_from m \<and> \<not> within (fm_from m) (fm_to m')"
proof -
  note ok = folderMoves_ok [of vmap tree meta here]
  have "fm_to m \<noteq> fm_to m'"
    using ok assms nth_eq_iff_index_eq [of "map fm_to (folderMoves vmap tree meta here)" i j]
    by (auto simp: plan_ok_def)
  moreover have "fm_from m \<noteq> fm_from m' \<and> \<not> within (fm_from m) (fm_from m')"
    using ok assms unfolding plan_ok_def by blast
  moreover have "m \<in> set (folderMoves vmap tree meta here)" "m' \<in> set (folderMoves vmap tree meta here)"
    using assms by auto
  ultimately show ?thesis using plan_destinations_outside_sources [OF ok] by blast
qed

text \<open>A file is taken for a renamed one exactly on this evidence: it is not small, its bytes are those of
  exactly one vanished path, and that path's node is still on the server.\<close>

theorem renameSourceFor_evidence:
  "renameSourceFor meta vmap tree byNodeId = Some v \<longleftrightarrow>
     RENAME_MIN_BYTES \<le> lm_size meta \<and> jget vmap (lm_plainHash meta) = Some [v] \<and>
     ((\<exists>n. jget tree (va_path v) = Some n \<and> sn_nodeId n = va_nodeId v) \<or>
      (\<exists>n. jget byNodeId (va_nodeId v) = Some n))"
  by (simp add: renameSourceFor_Some RENAME_MIN_BYTES_def)

subsection \<open>A worked rename\<close>

definition ex_node :: "string \<Rightarrow> path \<Rightarrow> string option \<Rightarrow> server_node" where
  "ex_node i p addr = \<lparr>sn_nodeId = i, sn_parentId = None, sn_path = p, sn_rev = 3, sn_address = addr,
     sn_isFile = (addr \<noteq> None), sn_nameKeyId = None, sn_shareId = None, sn_authorId = None\<rparr>"

definition ex_meta :: "string \<Rightarrow> nat \<Rightarrow> local_meta" where
  "ex_meta h sz = \<lparr>lm_plainHash = h, lm_tag = ''t'' @ h, lm_mtime = 0, lm_size = sz\<rparr>"

definition ex_vanished :: "(string, vanished list) jmap" where
  "ex_vanished =
     [(''h1'', [\<lparr>va_path = ''A/x'', va_nodeId = ''i1'', va_rev = 1, va_address = ''a1''\<rparr>]),
      (''h2'', [\<lparr>va_path = ''C/y'', va_nodeId = ''i2'', va_rev = 1, va_address = ''a2''\<rparr>])]"

definition ex_tree :: tree where
  "ex_tree = [(''A'', ex_node ''f1'' ''A'' None), (''A/x'', ex_node ''i1'' ''A/x'' (Some ''a1'')),
     (''C'', ex_node ''f2'' ''C'' None), (''C/y'', ex_node ''i2'' ''C/y'' (Some ''a2''))]"

definition ex_plan :: "folder_move list" where
  "ex_plan = folderMoves ex_vanished ex_tree
     [(''B/x'', ex_meta ''h1'' 600), (''D/y'', ex_meta ''h2'' 600)] [''B/x'', ''D/y'']"

lemma ex_plan_eq: "map (\<lambda>m. (fm_from m, fm_to m)) ex_plan = [(''A'', ''B''), (''C'', ''D'')]"
  by code_simp

lemma ex_plan_length: "length ex_plan = 2"
  using arg_cong [OF ex_plan_eq, of length] by simp

theorem folderMoves_sound_witness:
  "move_ok ex_vanished ex_tree [(''B/x'', ex_meta ''h1'' 600), (''D/y'', ex_meta ''h2'' 600)] [''B/x'', ''D/y''] (ex_plan ! 0)"
  using ex_plan_length by (intro folderMoves_sound) (auto simp: ex_plan_def)

theorem folderMoves_independent_witness: "fm_to (ex_plan ! 0) \<noteq> fm_to (ex_plan ! 1)"
  unfolding ex_plan_def
  by (rule folderMoves_independent [OF _ _ _ refl refl, THEN conjunct1])
    (simp_all add: ex_plan_length [unfolded ex_plan_def])

end
