(* ===== verification/Reconcile.thy ===== *)
theory Reconcile
  imports Rename
begin

text \<open>
  \<open>plugin/src/engine/reconcile.ts\<close>: what should happen to one local file, decided and not done.
  \<open>decide\<close> follows the source's ladder branch by branch; the lemmas say which answers can discard
  something and under what evidence, and that the answers which overwrite or remove the local file
  are never given for content the server has not seen.
\<close>

record sync_policy =
  pushDeletes :: bool
  applyRemoteDeletes :: bool
  preferLocal :: bool

record situation =
  si_meta :: local_meta
  si_known :: "known_node option"
  si_onServer :: "server_node option"
  si_byNodeId :: "(string, server_node) jmap"
  si_dedup :: "(string, string) jmap"
  si_vanished :: "(string, vanished list) jmap"
  si_tree :: tree
  si_policy :: sync_policy

datatype decision =
    Nothing
  | RefreshHint
  | Pull server_node
  | PushEdit known_node server_node
  | Adopt server_node
  | Conflict server_node
  | RemoteRename known_node server_node
  | RemoveLocal
  | PushMove vanished
  | PushNew

text \<open>\<open>dedup.get(tag) === node.address\<close>: a missing entry is \<open>undefined\<close> and a folder's address is
  \<open>null\<close>, which are not equal.\<close>

definition tagHits :: "(string, string) jmap \<Rightarrow> string \<Rightarrow> server_node \<Rightarrow> bool" where
  "tagHits dedup tag node \<longleftrightarrow>
     (case jget dedup tag of None \<Rightarrow> False | Some a \<Rightarrow> sn_address node = Some a)"

definition decideKnownHere :: "local_meta \<Rightarrow> known_node \<Rightarrow> server_node \<Rightarrow> sync_policy \<Rightarrow> decision" where
  "decideKnownHere meta known onServer policy =
     (let localChanged = (kn_plainHash known \<noteq> lm_plainHash meta);
          remoteChanged = (Some (kn_address known) \<noteq> sn_address onServer)
      in if \<not> localChanged \<and> \<not> remoteChanged then
           (if kn_mtime known \<noteq> Some (lm_mtime meta) \<or> kn_size known \<noteq> Some (lm_size meta)
            then RefreshHint else Nothing)
         else if \<not> localChanged \<and> remoteChanged \<and> \<not> preferLocal policy then Pull onServer
         else PushEdit known onServer)"

definition decide :: "situation \<Rightarrow> decision" where
  "decide s =
     (case (si_onServer s, si_known s) of
        (Some onServer, known) \<Rightarrow>
          (case known of
             Some k \<Rightarrow>
               if kn_nodeId k = sn_nodeId onServer then decideKnownHere (si_meta s) k onServer (si_policy s)
               else if tagHits (si_dedup s) (lm_tag (si_meta s)) onServer then Adopt onServer
               else Conflict onServer
           | None \<Rightarrow>
               if tagHits (si_dedup s) (lm_tag (si_meta s)) onServer then Adopt onServer
               else Conflict onServer)
      | (None, Some k) \<Rightarrow>
          (case jget (si_byNodeId s) (kn_nodeId k) of
             Some movedTo \<Rightarrow> RemoteRename k movedTo
           | None \<Rightarrow>
               if applyRemoteDeletes (si_policy s) \<and> \<not> kn_plainHash k \<noteq> lm_plainHash (si_meta s)
               then RemoveLocal else PushNew)
      | (None, None) \<Rightarrow>
          (case renameSourceFor (si_meta s) (si_vanished s) (si_tree s) (si_byNodeId s) of
             Some source \<Rightarrow> PushMove source
           | None \<Rightarrow> PushNew))"

lemmas decide_defs = decide_def decideKnownHere_def Let_def

subsection \<open>When each answer is given\<close>

lemma decide_Pull:
  "decide s = Pull n \<longleftrightarrow>
     si_onServer s = Some n \<and> \<not> preferLocal (si_policy s) \<and>
     (\<exists>k. si_known s = Some k \<and> kn_nodeId k = sn_nodeId n \<and>
          kn_plainHash k = lm_plainHash (si_meta s) \<and> sn_address n \<noteq> Some (kn_address k))"
  by (auto simp: decide_defs split: option.splits if_splits)

lemma decide_RemoveLocal:
  "decide s = RemoveLocal \<longleftrightarrow>
     si_onServer s = None \<and> applyRemoteDeletes (si_policy s) \<and>
     (\<exists>k. si_known s = Some k \<and> jget (si_byNodeId s) (kn_nodeId k) = None \<and>
          kn_plainHash k = lm_plainHash (si_meta s))"
  by (auto simp: decide_defs split: option.splits if_splits)

lemma decide_PushEdit:
  "decide s = PushEdit k n \<longleftrightarrow>
     si_onServer s = Some n \<and> si_known s = Some k \<and> kn_nodeId k = sn_nodeId n \<and>
     (kn_plainHash k \<noteq> lm_plainHash (si_meta s) \<or>
      sn_address n \<noteq> Some (kn_address k) \<and> preferLocal (si_policy s))"
  by (auto simp: decide_defs split: option.splits if_splits)

lemma decide_Adopt:
  "decide s = Adopt n \<longleftrightarrow>
     si_onServer s = Some n \<and> (\<forall>k. si_known s = Some k \<longrightarrow> kn_nodeId k \<noteq> sn_nodeId n) \<and>
     (\<exists>a. jget (si_dedup s) (lm_tag (si_meta s)) = Some a \<and> sn_address n = Some a)"
  by (auto simp: decide_defs tagHits_def split: option.splits if_splits)

lemma decide_RemoteRename:
  "decide s = RemoteRename k n \<longleftrightarrow>
     si_onServer s = None \<and> si_known s = Some k \<and> jget (si_byNodeId s) (kn_nodeId k) = Some n"
  by (auto simp: decide_defs split: option.splits if_splits)

lemma decide_PushMove:
  "decide s = PushMove v \<longleftrightarrow>
     si_onServer s = None \<and> si_known s = None \<and>
     renameSourceFor (si_meta s) (si_vanished s) (si_tree s) (si_byNodeId s) = Some v"
  by (auto simp: decide_defs split: option.splits if_splits)

lemma decide_settled:
  "decide s \<in> {Nothing, RefreshHint} \<longleftrightarrow>
     (\<exists>k n. si_known s = Some k \<and> si_onServer s = Some n \<and> kn_nodeId k = sn_nodeId n \<and>
        kn_plainHash k = lm_plainHash (si_meta s) \<and> sn_address n = Some (kn_address k))"
  by (auto simp: decide_defs split: option.splits if_splits)

text \<open>The answers after which the bytes that are on disk now may be gone from it.\<close>

fun overwrites :: "decision \<Rightarrow> bool" where
  "overwrites (Pull n) = True"
| "overwrites RemoveLocal = True"
| "overwrites _ = False"

subsection \<open>Properties\<close>

text \<open>C15. Bytes that the server has not seen are never discarded: when the answer is to overwrite or to
  remove the local file, the file still has the content this device last synchronised there, and
  either the server holds another content on that very node, or it holds the node nowhere and the
  policy trusts an absence.\<close>

theorem decide_keeps_unsynced:
  assumes "overwrites (decide s)"
  shows "\<exists>k. si_known s = Some k \<and> kn_plainHash k = lm_plainHash (si_meta s) \<and>
    ((\<exists>n. decide s = Pull n \<and> si_onServer s = Some n \<and> sn_nodeId n = kn_nodeId k \<and>
          sn_address n \<noteq> Some (kn_address k) \<and> \<not> preferLocal (si_policy s)) \<or>
     (decide s = RemoveLocal \<and> si_onServer s = None \<and> jget (si_byNodeId s) (kn_nodeId k) = None \<and>
      applyRemoteDeletes (si_policy s)))"
proof (cases "decide s")
  case (Pull n)
  then show ?thesis using decide_Pull [of s n] by auto
next
  case RemoveLocal
  then show ?thesis using decide_RemoveLocal [of s] by auto
qed (use assms in simp_all)

text \<open>Under the policy of a restored server, which prefers the local copy and does not trust an absence,
  no answer overwrites or removes a local file, whatever the server says.\<close>

theorem decide_restore_keeps_local:
  assumes "preferLocal (si_policy s)" "\<not> applyRemoteDeletes (si_policy s)"
  shows "\<not> overwrites (decide s)"
  using assms decide_Pull [of s] decide_RemoveLocal [of s] by (cases "decide s") auto

text \<open>A file is left alone exactly when everything agrees: the server holds at this path the very node
  this device knows there, with the address it last saw, and the bytes have not changed.\<close>

theorem decide_settled_iff:
  "decide s = Nothing \<or> decide s = RefreshHint \<longleftrightarrow>
     (\<exists>k n. si_known s = Some k \<and> si_onServer s = Some n \<and> kn_nodeId k = sn_nodeId n \<and>
        kn_plainHash k = lm_plainHash (si_meta s) \<and> sn_address n = Some (kn_address k))"
  using decide_settled [of s] by simp

text \<open>Two versions without a common ancestor at one path are told apart by content alone: a node this
  device does not know there is adopted exactly when the server names this file's tag with that
  node's address, and is a conflict otherwise.\<close>

theorem decide_stranger:
  assumes "si_onServer s = Some n" and "\<forall>k. si_known s = Some k \<longrightarrow> kn_nodeId k \<noteq> sn_nodeId n"
  shows "decide s = (if \<exists>a. jget (si_dedup s) (lm_tag (si_meta s)) = Some a \<and> sn_address n = Some a
                     then Adopt n else Conflict n)"
  using assms by (auto simp: decide_defs tagHits_def split: option.splits)

subsection \<open>Worked situations\<close>

definition ex_known :: known_node where
  "ex_known = \<lparr>kn_nodeId = ''i1'', kn_rev = 3, kn_plainHash = ''h'', kn_address = ''a'', kn_mtime = Some 0, kn_size = Some 5\<rparr>"

definition ex_situation :: "server_node option \<Rightarrow> known_node option \<Rightarrow> (string, string) jmap \<Rightarrow> sync_policy \<Rightarrow> situation" where
  "ex_situation onServer known dedup policy =
     \<lparr>si_meta = ex_meta ''h'' 5, si_known = known, si_onServer = onServer, si_byNodeId = [], si_dedup = dedup,
      si_vanished = [], si_tree = [], si_policy = policy\<rparr>"

definition ex_normal :: sync_policy where
  "ex_normal = \<lparr>pushDeletes = True, applyRemoteDeletes = True, preferLocal = False\<rparr>"

definition ex_restored :: sync_policy where
  "ex_restored = \<lparr>pushDeletes = False, applyRemoteDeletes = False, preferLocal = True\<rparr>"

lemma ex_pull: "decide (ex_situation (Some (ex_node ''i1'' ''p'' (Some ''b''))) (Some ex_known) [] ex_normal)
    = Pull (ex_node ''i1'' ''p'' (Some ''b''))"
  by code_simp

theorem decide_keeps_unsynced_witness:
  "kn_plainHash ex_known = lm_plainHash (ex_meta ''h'' 5)"
  using decide_keeps_unsynced [of "ex_situation (Some (ex_node ''i1'' ''p'' (Some ''b''))) (Some ex_known) [] ex_normal"]
  by (auto simp: ex_pull) (auto simp: ex_situation_def)

theorem decide_restore_keeps_local_witness:
  "\<not> overwrites (decide (ex_situation (Some (ex_node ''i1'' ''p'' (Some ''b''))) (Some ex_known) [] ex_restored))"
  by (rule decide_restore_keeps_local) (simp_all add: ex_situation_def ex_restored_def)

theorem decide_stranger_witness:
  "decide (ex_situation (Some (ex_node ''i9'' ''p'' (Some ''b''))) (Some ex_known) [] ex_normal)
     = Conflict (ex_node ''i9'' ''p'' (Some ''b''))"
  using decide_stranger [of "ex_situation (Some (ex_node ''i9'' ''p'' (Some ''b''))) (Some ex_known) [] ex_normal"
      "ex_node ''i9'' ''p'' (Some ''b'')"]
  by (simp add: ex_situation_def ex_known_def ex_node_def)

end
