(* ===== verification/Scopes.thy ===== *)
theory Scopes
  imports Sync_Types
begin

text \<open>
  Which key scope a node is named under (\<open>plugin/src/engine/scopes.ts\<close>, and \<open>scopeAt\<close> and
  \<open>isShareRoot\<close> at the end of \<open>engine/engine.ts\<close>), and which paths are synchronised at all
  (\<open>plugin/src/engine/vault.ts\<close>).
\<close>

subsection \<open>Key scopes\<close>

definition contentScopeFor :: "server_node option \<Rightarrow> (string, string) jmap \<Rightarrow> string \<Rightarrow> string" where
  "contentScopeFor parent shareScopes vaultScopeId =
     (case parent of
        None \<Rightarrow> vaultScopeId
      | Some p \<Rightarrow>
          (let fallback = (case sn_nameKeyId p of None \<Rightarrow> vaultScopeId | Some k \<Rightarrow> k) in
           if truthy (sn_shareId p)
           then (case jget shareScopes (the (sn_shareId p)) of Some s \<Rightarrow> s | None \<Rightarrow> fallback)
           else fallback))"

definition scopeAt :: "tree \<Rightarrow> (string, string) jmap \<Rightarrow> string \<Rightarrow> path \<Rightarrow> string" where
  "scopeAt tree shareScopes vaultScopeId p =
     (let parent = parentPath p
      in contentScopeFor (if parent \<noteq> [] then jget tree parent else None) shareScopes vaultScopeId)"

definition isShareRoot :: "server_node \<Rightarrow> (string, string) jmap \<Rightarrow> bool" where
  "isShareRoot node shareScopes \<longleftrightarrow>
     truthy (sn_shareId node) \<and> sn_nameKeyId node \<noteq> jget shareScopes (the (sn_shareId node))"

text \<open>
  SH-01: inside a share the share decides, whatever label the parent itself carries; so a child of a
  share root gets the share's scope though the root is named under the vault's.
\<close>

lemma contentScopeFor_share:
  "truthy (sn_shareId p) \<Longrightarrow> jget shareScopes (the (sn_shareId p)) = Some ks \<Longrightarrow>
   contentScopeFor (Some p) shareScopes v = ks"
  by (simp add: contentScopeFor_def Let_def)

lemma contentScopeFor_private:
  "\<not> truthy (sn_shareId p) \<Longrightarrow>
   contentScopeFor (Some p) shareScopes v = (case sn_nameKeyId p of None \<Rightarrow> v | Some k \<Rightarrow> k)"
  by (simp add: contentScopeFor_def Let_def)

lemma scopeAt_top [simp]: "parentPath p = [] \<Longrightarrow> scopeAt tree ss v p = v"
  by (simp add: scopeAt_def contentScopeFor_def)

subsection \<open>What is synchronised\<close>

definition OBSIDIAN_SHARED :: "string list" where
  "OBSIDIAN_SHARED = [''snippets'', ''themes'', ''appearance.json'', ''templates.json'',
     ''daily-notes.json'', ''types.json'', ''bookmarks.json'', ''hotkeys.json'']"

definition NEVER :: "string list" where
  "NEVER = [''node_modules'', ''.git'']"

definition isSyncable :: "path \<Rightarrow> bool \<Rightarrow> path \<Rightarrow> bool" where
  "isSyncable p syncObsidian configDir =
     (if list_ex (\<lambda>segment. segment \<in> set NEVER) (splitOn slash p) then False
      else if startsWith p ''.trash/'' \<or> startsWith p ''_Reset '' then False
      else if p = configDir \<or> startsWith p (configDir @ [slash]) then
        (if \<not> syncObsidian then False
         else (let rel = drop (length configDir + 1) p
               in list_ex (\<lambda>name. rel = name \<or> startsWith rel (name @ [slash])) OBSIDIAN_SHARED))
      else True)"

lemma isSyncable_never:
  "segment \<in> set (splitOn slash p) \<Longrightarrow> segment \<in> set NEVER \<Longrightarrow> \<not> isSyncable p sync cfg"
  by (auto simp: isSyncable_def list_ex_iff)

lemma isSyncable_reset: "\<not> isSyncable (''_Reset '' @ p) sync cfg"
  by (simp only: isSyncable_def startsWith_append simp_thms if_True if_cancel not_False_eq_True)

lemma isSyncable_config_off: "within cfg p \<Longrightarrow> \<not> isSyncable p False cfg"
  by (auto simp: isSyncable_def within_def)

lemma isSyncable_config_on:
  "within cfg p \<Longrightarrow> isSyncable p True cfg \<Longrightarrow>
   \<exists>name\<in>set OBSIDIAN_SHARED. p = cfg @ slash # name \<or> within (cfg @ slash # name) p"
  by (auto simp: isSyncable_def within_iff list_ex_iff Let_def startsWith_iff split: if_splits)

subsection \<open>Properties\<close>

text \<open>A node directly inside a shared folder is named under the share's key scope, whatever scope its
  parent folder itself is named under; in particular a child of a share root, whose own name is
  under its holder's vault key. At the top of the vault it is the vault's scope.\<close>

theorem scopeAt_share_decides:
  "parentPath p \<noteq> [] \<Longrightarrow> jget tree (parentPath p) = Some n \<Longrightarrow> truthy (sn_shareId n) \<Longrightarrow>
     jget shareScopes (the (sn_shareId n)) = Some ks \<Longrightarrow>
     scopeAt tree shareScopes vaultScopeId p = ks \<and> (isShareRoot n shareScopes \<longleftrightarrow> sn_nameKeyId n \<noteq> Some ks)"
  by (simp add: scopeAt_def contentScopeFor_share isShareRoot_def)

text \<open>What must not leave the device never does: the quarantine of a reset and the local trash, anything
  under a directory of the \<open>NEVER\<close> list at any depth, and of the configuration folder either nothing
  or, with the switch on, only the shared names and what is below them.\<close>

theorem isSyncable_excludes:
  assumes "isSyncable p sync configDir"
  shows "\<not> startsWith p ''_Reset '' \<and> \<not> startsWith p ''.trash/'' \<and>
     (\<forall>segment\<in>set (splitOn slash p). segment \<notin> set NEVER) \<and>
     (within configDir p \<longrightarrow>
        sync \<and> (\<exists>name\<in>set OBSIDIAN_SHARED. p = configDir @ slash # name \<or> within (configDir @ slash # name) p))"
proof -
  have "sync" if "within configDir p"
    using that assms isSyncable_config_off [of configDir p] by (cases sync) auto
  moreover have "\<exists>name\<in>set OBSIDIAN_SHARED. p = configDir @ slash # name \<or> within (configDir @ slash # name) p"
    if "within configDir p"
    using that assms isSyncable_config_on [of configDir p] calculation by simp
  moreover have "\<not> startsWith p ''_Reset '' \<and> \<not> startsWith p ''.trash/''"
    using assms by (simp add: isSyncable_def split: if_splits)
  moreover have "\<forall>segment\<in>set (splitOn slash p). segment \<notin> set NEVER"
    using assms isSyncable_never by blast
  ultimately show ?thesis by blast
qed

definition ex_share_root :: server_node where
  "ex_share_root = \<lparr>sn_nodeId = ''s'', sn_parentId = None, sn_path = ''S'', sn_rev = 1, sn_address = None,
     sn_isFile = False, sn_nameKeyId = Some ''KV'', sn_shareId = Some ''share'', sn_authorId = None\<rparr>"

theorem scopeAt_share_decides_witness:
  "scopeAt [(''S'', ex_share_root)] [(''share'', ''KS'')] ''KV'' ''S/n'' = ''KS'' \<and>
   isShareRoot ex_share_root [(''share'', ''KS'')]"
proof -
  have "parentPath ''S/n'' = ''S''" by code_simp
  with scopeAt_share_decides [of "''S/n''" "[(''S'', ex_share_root)]" ex_share_root "[(''share'', ''KS'')]" "''KS''" "''KV''"]
  show ?thesis by (simp add: ex_share_root_def truthy_def)
qed

theorem isSyncable_excludes_witness:
  "within ''.obsidian'' ''.obsidian/snippets/a.css'' \<and> (\<exists>name\<in>set OBSIDIAN_SHARED.
     ''.obsidian/snippets/a.css'' = ''.obsidian'' @ slash # name \<or> within (''.obsidian'' @ slash # name) ''.obsidian/snippets/a.css'')"
proof -
  have "isSyncable ''.obsidian/snippets/a.css'' True ''.obsidian''"
    and w: "within ''.obsidian'' ''.obsidian/snippets/a.css''" by code_simp+
  from isSyncable_excludes [OF this(1)] w show ?thesis by blast
qed

end
