(* ===== verification/Remap.thy ===== *)
theory Remap
  imports Sync_Types
begin

text \<open>
  \<open>plugin/src/engine/remap.ts\<close>: the rewrite a folder move leaves behind in the walked tree and in
  the state. The empty path is the vault root, which is why the prefixes are built and not
  concatenated. The lemmas give the lookup of every path after the rewrite, and that moving a
  folder back undoes it.
\<close>

definition prefixOf :: "path \<Rightarrow> path" where
  "prefixOf p = (if p \<noteq> [] then p @ [slash] else [])"

definition movedPath :: "path \<Rightarrow> path \<Rightarrow> path \<Rightarrow> path" where
  "movedPath from to p =
     (if startsWith p (prefixOf from) then prefixOf to @ drop (length (prefixOf from)) p else p)"

definition remapTree :: "tree \<Rightarrow> path \<Rightarrow> path \<Rightarrow> nat \<Rightarrow> tree" where
  "remapTree tree from to newRev =
     foldl (\<lambda>next (p, node).
       if p = from then jset to (node\<lparr>sn_path := to, sn_rev := newRev\<rparr>) next
       else if startsWith p (prefixOf from) then
         (let moved = prefixOf to @ drop (length (prefixOf from)) p
          in jset moved (node\<lparr>sn_path := moved\<rparr>) next)
       else jset p node next) [] tree"

definition remapState :: "(path, known_node) jmap \<Rightarrow> path \<Rightarrow> path \<Rightarrow> (path, known_node) jmap" where
  "remapState nodes from to =
     foldl (\<lambda>next (p, known).
       jset (if startsWith p (prefixOf from) then prefixOf to @ drop (length (prefixOf from)) p else p)
         known next) [] nodes"

text \<open>Both rewrites are one pass that writes each entry at its new key, so both are instances of
  inserting a list of entries into the empty map.\<close>

definition remapEntry :: "path \<Rightarrow> path \<Rightarrow> nat \<Rightarrow> path \<times> server_node \<Rightarrow> path \<times> server_node" where
  "remapEntry from to newRev e =
     (if fst e = from then (to, (snd e)\<lparr>sn_path := to, sn_rev := newRev\<rparr>)
      else if startsWith (fst e) (prefixOf from)
      then (movedPath from to (fst e), (snd e)\<lparr>sn_path := movedPath from to (fst e)\<rparr>)
      else e)"

lemma foldl_jset_map:
  "foldl (\<lambda>m e. f m e) m0 xs = foldl (\<lambda>m (k, v). jset k v m) m0 (map g xs)"
  if "\<And>m e. f m e = (case g e of (k, v) \<Rightarrow> jset k v m)"
  by (induction xs arbitrary: m0) (simp_all add: that split: prod.splits)

lemma remapTree_entries:
  "remapTree tree from to newRev =
     foldl (\<lambda>m (k, v). jset k v m) [] (map (remapEntry from to newRev) tree)"
  unfolding remapTree_def
  by (rule foldl_jset_map) (auto simp: remapEntry_def movedPath_def Let_def split: prod.splits)

lemma remapState_entries:
  "remapState nodes from to =
     foldl (\<lambda>m (k, v). jset k v m) [] (map (\<lambda>(p, k). (movedPath from to p, k)) nodes)"
  unfolding remapState_def
  by (rule foldl_jset_map) (auto simp: movedPath_def split: prod.splits)

lemma jset_fresh: "k \<notin> set (jkeys m) \<Longrightarrow> jset k v m = m @ [(k, v)]"
  by (induction m) auto

lemma foldl_jset_distinct:
  "distinct (map fst (m @ kvs)) \<Longrightarrow> foldl (\<lambda>m (k, v). jset k v m) m kvs = m @ kvs"
proof (induction kvs arbitrary: m)
  case Nil
  then show ?case by simp
next
  case (Cons kv kvs)
  obtain k v where kv: "kv = (k, v)" by fastforce
  with Cons.prems have "jset k v m = m @ [(k, v)]" by (intro jset_fresh) auto
  with Cons kv show ?case by simp
qed

subsection \<open>Moving to a free place, and back\<close>

text \<open>A place is free for a map when no key is the place itself or under it.\<close>

definition free_at :: "path \<Rightarrow> (path \<times> 'a) list \<Rightarrow> bool" where
  "free_at to m \<longleftrightarrow> (\<forall>p\<in>set (jkeys m). p \<noteq> to \<and> \<not> within to p)"

lemma startsWith_prefixOf: "d \<noteq> [] \<Longrightarrow> startsWith p (prefixOf d) \<longleftrightarrow> within d p"
  by (simp add: prefixOf_def within_def)

lemma movedPath_under [path_simps]:
  "to \<noteq> [] \<Longrightarrow> from \<noteq> [] \<Longrightarrow> movedPath from to (from @ slash # r) = to @ slash # r"
  by (auto simp: movedPath_def prefixOf_def startsWith_def)

lemma movedPath_other [path_simps]:
  "from \<noteq> [] \<Longrightarrow> \<not> within from p \<Longrightarrow> movedPath from to p = p"
  by (simp add: movedPath_def startsWith_prefixOf)

lemma movedPath_back:
  assumes "from \<noteq> []" "to \<noteq> []" "\<not> within to p"
  shows "movedPath to from (movedPath from to p) = p"
proof (cases "within from p")
  case True
  then obtain r where "p = from @ slash # r" by (auto simp: within_iff)
  with assms show ?thesis by (simp add: movedPath_under)
next
  case False
  with assms show ?thesis by (simp add: movedPath_other)
qed

lemma inj_movedPath:
  "from \<noteq> [] \<Longrightarrow> to \<noteq> [] \<Longrightarrow> free_at to m \<Longrightarrow> inj_on (movedPath from to) (set (jkeys m))"
  by (rule inj_on_inverseI [of _ "movedPath to from"]) (auto simp: free_at_def movedPath_back)

lemma remapState_free:
  assumes "jwf nodes" "from \<noteq> []" "to \<noteq> []" "free_at to nodes"
  shows "remapState nodes from to = map (\<lambda>(p, k). (movedPath from to p, k)) nodes"
proof -
  have fst: "map fst (map (\<lambda>(p, k). (movedPath from to p, k)) nodes) = map (movedPath from to) (jkeys nodes)"
    by (simp add: case_prod_unfold)
  have "distinct (map (movedPath from to) (jkeys nodes))"
    using assms by (intro distinct_jkeys_map inj_movedPath) auto
  then show ?thesis
    unfolding remapState_entries by (subst foldl_jset_distinct) (simp_all only: append_Nil fst)
qed

lemma remapState_back:
  assumes "jwf nodes" "from \<noteq> []" "to \<noteq> []" "free_at to nodes" "free_at from (remapState nodes from to)"
  shows "remapState (remapState nodes from to) to from = nodes"
proof -
  let ?m = "map (\<lambda>(p, k). (movedPath from to p, k)) nodes"
  have m: "remapState nodes from to = ?m" using assms by (intro remapState_free) auto
  have "map fst ?m = map (movedPath from to) (jkeys nodes)" by (simp add: case_prod_unfold)
  moreover have "distinct (map (movedPath from to) (jkeys nodes))"
    using assms by (intro distinct_jkeys_map inj_movedPath) auto
  ultimately have "jwf ?m" unfolding jwf_def by (simp only:)
  then have "remapState ?m to from = map (\<lambda>(p, k). (movedPath to from p, k)) ?m"
    using assms m by (intro remapState_free) auto
  also have "\<dots> = nodes"
    using assms(2-4) by (auto simp: free_at_def movedPath_back intro!: map_idI split: prod.splits)
  finally show ?thesis using m by simp
qed

definition tree_paths_ok :: "tree \<Rightarrow> bool" where
  "tree_paths_ok t \<longleftrightarrow> jwf t \<and> (\<forall>(p, n)\<in>set t. sn_path n = p)"

lemma tree_paths_okD: "tree_paths_ok t \<Longrightarrow> jget t p = Some n \<Longrightarrow> sn_path n = p"
  by (auto simp: tree_paths_ok_def dest: jget_in)

lemma fst_remapEntry:
  "from \<noteq> [] \<Longrightarrow> fst (remapEntry from to newRev e) = (if fst e = from then to else movedPath from to (fst e))"
  by (auto simp: remapEntry_def movedPath_def)

lemma inj_renamed:
  assumes "from \<noteq> []" "to \<noteq> []" "free_at to m"
  shows "inj_on (\<lambda>p. if p = from then to else movedPath from to p) (set (jkeys m))"
proof (rule inj_onI)
  fix p q assume pq: "p \<in> set (jkeys m)" "q \<in> set (jkeys m)"
    "(if p = from then to else movedPath from to p) = (if q = from then to else movedPath from to q)"
  have ne: "movedPath from to p \<noteq> to" if "p \<in> set (jkeys m)" for p
    using that assms by (cases "within from p") (auto simp: free_at_def within_iff path_simps)
  show "p = q"
    using pq ne [OF pq(1)] ne [OF pq(2)] inj_onD [OF inj_movedPath [OF assms] _ pq(1,2)]
    by (simp split: if_splits)
qed

lemma remapTree_free:
  assumes "jwf tree" "from \<noteq> []" "to \<noteq> []" "free_at to tree"
  shows "remapTree tree from to newRev = map (remapEntry from to newRev) tree"
proof -
  let ?f = "\<lambda>p. if p = from then to else movedPath from to p"
  have fst: "map fst (map (remapEntry from to newRev) tree) = map ?f (jkeys tree)"
    using assms(2) by (simp add: fst_remapEntry)
  have "distinct (map ?f (jkeys tree))"
    using assms by (intro distinct_jkeys_map inj_renamed) auto
  then show ?thesis
    unfolding remapTree_entries by (subst foldl_jset_distinct) (simp_all only: append_Nil fst)
qed

lemma remapTree_jwf:
  assumes "jwf tree" "from \<noteq> []" "to \<noteq> []" "free_at to tree"
  shows "jwf (remapTree tree from to newRev)"
proof -
  let ?f = "\<lambda>p. if p = from then to else movedPath from to p"
  have "map fst (remapTree tree from to newRev) = map ?f (jkeys tree)"
    using assms by (simp add: remapTree_free fst_remapEntry)
  moreover have "distinct (map ?f (jkeys tree))"
    using assms by (intro distinct_jkeys_map inj_renamed) auto
  ultimately show ?thesis unfolding jwf_def by (simp only:)
qed

text \<open>The lookup of every path after the move: the folder itself at its new place with the new
  revision, everything under it re-rooted, every other entry untouched, nothing left behind.\<close>

lemma remapTree_lookup:
  assumes "jwf tree" "from \<noteq> []" "to \<noteq> []" "free_at to tree"
    and "(p, n) \<in> set tree"
  shows "jget (remapTree tree from to newRev) (fst (remapEntry from to newRev (p, n))) =
           Some (snd (remapEntry from to newRev (p, n)))"
proof (rule in_jget)
  show "jwf (remapTree tree from to newRev)" using assms by (intro remapTree_jwf)
  have "remapEntry from to newRev (p, n) \<in> set (remapTree tree from to newRev)"
    using assms by (simp add: remapTree_free)
  then show "(fst (remapEntry from to newRev (p, n)), snd (remapEntry from to newRev (p, n)))
      \<in> set (remapTree tree from to newRev)" by simp
qed

subsection \<open>Properties\<close>

text \<open>Remembering a folder move and then its way back leaves the remembered nodes as they were, entry for
  entry and in order, when each destination is free; and after the way there every entry is found at
  its new path.\<close>

theorem remapState_roundtrip:
  assumes "jwf nodes" "from \<noteq> []" "to \<noteq> []" "free_at to nodes" "free_at from (remapState nodes from to)"
  shows "remapState (remapState nodes from to) to from = nodes \<and>
     (\<forall>(p, k)\<in>set nodes. jget (remapState nodes from to) (movedPath from to p) = Some k)"
proof
  show "remapState (remapState nodes from to) to from = nodes" using assms by (rule remapState_back)
  have "map fst (remapState nodes from to) = map (movedPath from to) (jkeys nodes)"
    using assms by (simp add: remapState_free case_prod_unfold)
  moreover have "distinct (map (movedPath from to) (jkeys nodes))"
    using assms by (intro distinct_jkeys_map inj_movedPath) auto
  ultimately have "jwf (remapState nodes from to)" unfolding jwf_def by (simp only:)
  then show "\<forall>(p, k)\<in>set nodes. jget (remapState nodes from to) (movedPath from to p) = Some k"
    using assms(1-4) by (fastforce simp: remapState_free intro: in_jget)
qed

text \<open>After the rewrite of the tree for a folder moved to a free place, the folder is at its new path with
  the new revision, everything under it is re-rooted with its own revision and the path it now has,
  every other entry is untouched, and nothing is left under the old path.\<close>

theorem remapTree_effect:
  assumes "jwf tree" "from \<noteq> []" "to \<noteq> []" "free_at to tree" "\<not> within from to" "to \<noteq> from" and "(p, n) \<in> set tree"
  shows "(p = from \<longrightarrow> jget (remapTree tree from to newRev) to = Some (n\<lparr>sn_path := to, sn_rev := newRev\<rparr>)) \<and>
     (\<forall>r. p = from @ slash # r \<longrightarrow>
        jget (remapTree tree from to newRev) (to @ slash # r) = Some (n\<lparr>sn_path := to @ slash # r\<rparr>)) \<and>
     (p \<noteq> from \<and> \<not> within from p \<longrightarrow> jget (remapTree tree from to newRev) p = Some n) \<and>
     (\<forall>q\<in>set (jkeys (remapTree tree from to newRev)). q \<noteq> from \<and> \<not> within from q)"
proof -
  note lookup = remapTree_lookup [OF assms(1-4) assms(7), of newRev]
  have keys: "set (jkeys (remapTree tree from to newRev)) =
      (\<lambda>p. if p = from then to else movedPath from to p) ` set (jkeys tree)"
    using assms(1-4) by (auto simp: remapTree_free fst_remapEntry image_image)
  have apart: "\<not> within from (to @ slash # r) \<and> from \<noteq> to @ slash # r" if "\<not> within to from" for r
  proof -
    have "\<not> within from (to @ slash # r)"
    proof
      assume "within from (to @ slash # r)"
      then obtain s where s: "to @ slash # r = from @ slash # s" by (auto simp: within_iff)
      then consider u where "to = from @ u" "u @ slash # r = slash # s" | u where "from = to @ u" "slash # r = u @ slash # s"
        by (auto simp: append_eq_append_conv2)
      then show False
      proof cases
        case (1 u)
        with assms(6) obtain v where "u = slash # v" by (cases u) auto
        with 1 assms(5) show False by (auto simp: within_iff)
      next
        case (2 u)
        with assms(6) obtain v where "u = slash # v" by (cases u) auto
        with 2 that show False by (auto simp: within_iff)
      qed
    qed
    then show ?thesis using that by (auto simp: within_iff)
  qed
  have gone: "(if p = from then to else movedPath from to p) \<noteq> from \<and>
      \<not> within from (if p = from then to else movedPath from to p)" if p: "p \<in> set (jkeys tree)" for p
  proof (cases "p \<noteq> from \<and> within from p")
    case True
    then obtain r where r: "p = from @ slash # r" by (auto simp: within_iff)
    with p assms(4) have "\<not> within to from" using within_trans [of to "from" p] by (auto simp: free_at_def)
    from apart [OF this, of r] have "to @ slash # r \<noteq> from" "\<not> within from (to @ slash # r)" by metis+
    with r True assms(2,3) show ?thesis by (simp add: movedPath_under)
  qed (use assms in \<open>auto simp: movedPath_other\<close>)
  have at_from: "p = from \<longrightarrow> jget (remapTree tree from to newRev) to = Some (n\<lparr>sn_path := to, sn_rev := newRev\<rparr>)"
    using lookup by (auto simp: remapEntry_def)
  have under: "\<forall>r. p = from @ slash # r \<longrightarrow>
        jget (remapTree tree from to newRev) (to @ slash # r) = Some (n\<lparr>sn_path := to @ slash # r\<rparr>)"
    using lookup assms(2,3) by (auto simp: remapEntry_def movedPath_under startsWith_prefixOf)
  have other: "p \<noteq> from \<and> \<not> within from p \<longrightarrow> jget (remapTree tree from to newRev) p = Some n"
    using lookup assms(2) by (auto simp: remapEntry_def startsWith_prefixOf)
  have "\<forall>q\<in>set (jkeys (remapTree tree from to newRev)). q \<noteq> from \<and> \<not> within from q"
  proof
    fix q assume "q \<in> set (jkeys (remapTree tree from to newRev))"
    then obtain p' where "p' \<in> set (jkeys tree)" "q = (if p' = from then to else movedPath from to p')"
      unfolding keys by blast
    with gone [OF this(1)] show "q \<noteq> from \<and> \<not> within from q" by (simp only:) simp
  qed
  with at_from under other show ?thesis by blast
qed

subsection \<open>A worked move\<close>

definition ex_remapTree :: tree where
  "ex_remapTree =
     [(''A'', \<lparr>sn_nodeId = ''f'', sn_parentId = None, sn_path = ''A'', sn_rev = 1, sn_address = None, sn_isFile = False,
                sn_nameKeyId = None, sn_shareId = None, sn_authorId = None\<rparr>),
      (''A/x'', \<lparr>sn_nodeId = ''i'', sn_parentId = None, sn_path = ''A/x'', sn_rev = 2, sn_address = Some ''a'',
                sn_isFile = True, sn_nameKeyId = None, sn_shareId = None, sn_authorId = None\<rparr>)]"

definition ex_remapState :: "(path, known_node) jmap" where
  "ex_remapState = [(''A/x'', \<lparr>kn_nodeId = ''i'', kn_rev = 2, kn_plainHash = ''h'', kn_address = ''a'',
     kn_mtime = None, kn_size = None\<rparr>)]"

theorem remapState_roundtrip_witness:
  "remapState (remapState ex_remapState ''A'' ''B'') ''B'' ''A'' = ex_remapState"
proof -
  have "jwf ex_remapState" "free_at ''B'' ex_remapState" "free_at ''A'' (remapState ex_remapState ''A'' ''B'')"
    by code_simp+
  then show ?thesis using remapState_roundtrip [of ex_remapState "''A''" "''B''"] by simp
qed

theorem remapTree_effect_witness:
  "jget (remapTree ex_remapTree ''A'' ''B'' 7) ''B'' =
     Some ((the (jget ex_remapTree ''A''))\<lparr>sn_path := ''B'', sn_rev := 7\<rparr>)"
proof -
  have "jwf ex_remapTree" "free_at ''B'' ex_remapTree" "\<not> within ''A'' ''B''" by code_simp+
  moreover have "(''A'', the (jget ex_remapTree ''A'')) \<in> set ex_remapTree"
    by (simp add: ex_remapTree_def)
  ultimately show ?thesis
    using remapTree_effect [of ex_remapTree "''A''" "''B''" "''A''" "the (jget ex_remapTree ''A'')" 7] by simp
qed

end
