(* ===== verification/Tree.thy ===== *)
theory Tree
  imports Sync_Types
begin

text \<open>
  The listing turned into paths (\<open>plugin/src/engine/tree.ts\<close>), the keys it reads names with
  (\<open>VaultScopes\<close> of \<open>plugin/src/share-keys.ts\<close>) and the cache a pass keeps its walk in
  (\<open>plugin/src/engine/tree-cache.ts\<close>). Decrypting a name is the AEAD library's business and may
  throw: it is the parameter \<open>decryptName\<close>, whose \<open>None\<close> is the throw.

  The main lemmas: every path in the tree is the chain of decrypted names from the vault root, a
  node is left out exactly when it is a descendant of an unreadable or of a missing node, and one
  unreadable scope is reported once.
\<close>

subsection \<open>The wire's node and the keys of one opened vault\<close>

record change =
  ch_node_id :: string
  ch_parent_id :: "string option"
  ch_name_enc :: "string option"
  ch_name_hmac :: "string option"
  ch_name_key_id :: "string option"
  ch_op :: string
  ch_rev :: nat
  ch_sha256 :: "string option"
  ch_size :: "nat option"
  ch_mtime :: string
  ch_share_id :: "string option"
  ch_author_id :: "string option"

record scope =
  sco_scope :: string
  sco_key_id :: string
  sco_share_id :: "string option"
  sco_wrapped_key :: "string option"

record 'key vault_scopes =
  sc_root_node_id :: string
  sc_scopes :: "scope list"
  sc_vaultKey :: 'key
  sc_vaultScopeId :: string
  sc_shareKeys :: "(string, 'key) jmap"
  sc_unopenable :: "string list"

definition keyIfOpenable :: "'key vault_scopes \<Rightarrow> string option \<Rightarrow> 'key option" where
  "keyIfOpenable sc nameKeyId =
     (if \<not> truthy nameKeyId \<or> nameKeyId = Some (sc_vaultScopeId sc) then Some (sc_vaultKey sc)
      else jget (sc_shareKeys sc) (the nameKeyId))"

definition keyFor :: "'key vault_scopes \<Rightarrow> string option \<Rightarrow> string + 'key" where
  "keyFor sc nameKeyId =
     (case keyIfOpenable sc nameKeyId of
        None \<Rightarrow> Inl (''a node is named under a scope this client cannot open: '' @
                     (case nameKeyId of None \<Rightarrow> ''null'' | Some s \<Rightarrow> s))
      | Some key \<Rightarrow> Inr key)"

definition shareScopes :: "'key vault_scopes \<Rightarrow> (string, string) jmap" where
  "shareScopes sc =
     foldl (\<lambda>m s. jset (the (sco_share_id s)) (sco_key_id s) m) []
       (filter (\<lambda>s. truthy (sco_share_id s)) (sc_scopes sc))"

definition UNREADABLE_NAME :: string where
  "UNREADABLE_NAME = ''(name unavailable)''"

definition readName :: "('key \<Rightarrow> string \<Rightarrow> string option) \<Rightarrow> 'key vault_scopes \<Rightarrow> string option \<Rightarrow> string option \<Rightarrow> string"
where
  "readName decryptName sc nameKeyId nameEnc =
     (if \<not> truthy nameEnc then UNREADABLE_NAME
      else (case keyIfOpenable sc nameKeyId of
              None \<Rightarrow> UNREADABLE_NAME
            | Some key \<Rightarrow> (case decryptName key (the nameEnc) of None \<Rightarrow> UNREADABLE_NAME | Some name \<Rightarrow> name)))"

lemma keyIfOpenable_None:
  "keyIfOpenable sc k = None \<Longrightarrow> \<exists>s. k = Some s \<and> s \<noteq> '''' \<and> s \<noteq> sc_vaultScopeId sc \<and> jget (sc_shareKeys sc) s = None"
  by (auto simp: keyIfOpenable_def truthy_def split: if_splits)

subsection \<open>The walk\<close>

record unreadable_folder =
  uf_path :: path
  uf_scopeId :: string

record tree_walk =
  tw_pathOf :: "(string, path) jmap"
  tw_tree :: tree
  tw_skipped :: "string list"
  tw_unreadable :: "unreadable_folder list"
  tw_orphans :: "string list"
  tw_cut :: "string list"

definition initWalk :: "string \<Rightarrow> tree_walk" where
  "initWalk root = \<lparr>tw_pathOf = [(root, [])], tw_tree = [], tw_skipped = [], tw_unreadable = [],
     tw_orphans = [], tw_cut = []\<rparr>"

definition childPath :: "path \<Rightarrow> string \<Rightarrow> path" where
  "childPath parent name = (if parent \<noteq> [] then parent @ slash # name else name)"

definition nodeAt :: "change \<Rightarrow> path \<Rightarrow> server_node" where
  "nodeAt n p = \<lparr>sn_nodeId = ch_node_id n, sn_parentId = ch_parent_id n, sn_path = p, sn_rev = ch_rev n,
     sn_address = ch_sha256 n, sn_isFile = (ch_sha256 n \<noteq> None), sn_nameKeyId = ch_name_key_id n,
     sn_shareId = ch_share_id n, sn_authorId = ch_author_id n\<rparr>"

definition cutNode :: "change \<Rightarrow> tree_walk \<Rightarrow> tree_walk" where
  "cutNode n w = w\<lparr>tw_cut := sadd (ch_node_id n) (tw_cut w), tw_orphans := tw_orphans w @ [ch_node_id n]\<rparr>"

definition skipNode :: "change \<Rightarrow> tree_walk \<Rightarrow> tree_walk" where
  "skipNode n w = w\<lparr>tw_skipped := sadd (ch_node_id n) (tw_skipped w)\<rparr>"

definition reportUnreadable :: "path \<Rightarrow> string \<Rightarrow> tree_walk \<Rightarrow> tree_walk" where
  "reportUnreadable parent scopeId w =
     (if parent \<noteq> [] \<and> \<not> list_ex (\<lambda>u. uf_scopeId u = scopeId) (tw_unreadable w)
      then w\<lparr>tw_unreadable := tw_unreadable w @ [\<lparr>uf_path = parent, uf_scopeId = scopeId\<rparr>]\<rparr> else w)"

definition walkNode ::
  "('key \<Rightarrow> string \<Rightarrow> string option) \<Rightarrow> 'key vault_scopes \<Rightarrow> string \<Rightarrow> tree_walk \<Rightarrow> change \<Rightarrow> string + tree_walk"
where
  "walkNode decryptName sc root w n =
     (if ch_node_id n = root then Inr w
      else if truthy (ch_parent_id n) \<and> the (ch_parent_id n) \<in> set (tw_cut w) then Inr (cutNode n w)
      else if truthy (ch_parent_id n) \<and> the (ch_parent_id n) \<in> set (tw_skipped w) then Inr (skipNode n w)
      else (case (if truthy (ch_parent_id n) then jget (tw_pathOf w) (the (ch_parent_id n)) else None) of
              None \<Rightarrow> Inr (cutNode n w)
            | Some parent \<Rightarrow>
                (case (if truthy (ch_name_enc n) then keyIfOpenable sc (ch_name_key_id n) else Some (sc_vaultKey sc)) of
                   None \<Rightarrow> Inr (reportUnreadable parent (the (ch_name_key_id n)) (skipNode n w))
                 | Some key \<Rightarrow>
                     (case (if truthy (ch_name_enc n) then decryptName key (the (ch_name_enc n)) else Some (ch_node_id n)) of
                        None \<Rightarrow> Inl ''a name could not be opened''
                      | Some name \<Rightarrow>
                          (let p = childPath parent name
                           in Inr (w\<lparr>tw_pathOf := jset (ch_node_id n) p (tw_pathOf w),
                                    tw_tree := jset p (nodeAt n p) (tw_tree w)\<rparr>))))))"

fun walkAll ::
  "('key \<Rightarrow> string \<Rightarrow> string option) \<Rightarrow> 'key vault_scopes \<Rightarrow> string \<Rightarrow> tree_walk \<Rightarrow> change list \<Rightarrow> string + tree_walk"
where
  "walkAll decryptName sc root w [] = Inr w"
| "walkAll decryptName sc root w (n # ns) =
     bind_r (walkNode decryptName sc root w n) (\<lambda>w'. walkAll decryptName sc root w' ns)"

record walked =
  wa_tree :: tree
  wa_unreadable :: "unreadable_folder list"
  wa_orphans :: "string list"

definition treeFrom ::
  "('key \<Rightarrow> string \<Rightarrow> string option) \<Rightarrow> change list \<Rightarrow> string \<Rightarrow> 'key vault_scopes \<Rightarrow> string + walked"
where
  "treeFrom decryptName nodes root sc =
     bind_r (walkAll decryptName sc root (initWalk root) nodes)
       (\<lambda>w. Inr \<lparr>wa_tree = tw_tree w, wa_unreadable = tw_unreadable w, wa_orphans = tw_orphans w\<rparr>)"

subsection \<open>What the walk should produce\<close>

text \<open>The name a node can be given on this device: its scope's key opens it, or it carries none.\<close>

definition nameOf :: "('key \<Rightarrow> string \<Rightarrow> string option) \<Rightarrow> 'key vault_scopes \<Rightarrow> change \<Rightarrow> string option" where
  "nameOf decryptName sc n =
     (if truthy (ch_name_enc n)
      then (case keyIfOpenable sc (ch_name_key_id n) of
              None \<Rightarrow> None | Some key \<Rightarrow> decryptName key (the (ch_name_enc n)))
      else Some (ch_node_id n))"

inductive named_path ::
  "('key \<Rightarrow> string \<Rightarrow> string option) \<Rightarrow> 'key vault_scopes \<Rightarrow> string \<Rightarrow> change list \<Rightarrow> string \<Rightarrow> path \<Rightarrow> bool"
  for decryptName sc root nodes
where
  at_root: "named_path decryptName sc root nodes root []"
| at_child: "n \<in> set nodes \<Longrightarrow> ch_node_id n \<noteq> root \<Longrightarrow> truthy (ch_parent_id n) \<Longrightarrow>
     named_path decryptName sc root nodes (the (ch_parent_id n)) parent \<Longrightarrow>
     nameOf decryptName sc n = Some name \<Longrightarrow>
     named_path decryptName sc root nodes (ch_node_id n) (childPath parent name)"

text \<open>A node nothing in the listing leads to: its parent is not listed, or is such a node.\<close>

inductive orphan :: "string \<Rightarrow> change list \<Rightarrow> string \<Rightarrow> bool" for root nodes where
  parent_missing: "n \<in> set nodes \<Longrightarrow> ch_node_id n \<noteq> root \<Longrightarrow>
     \<not> truthy (ch_parent_id n) \<or>
       (the (ch_parent_id n) \<noteq> root \<and> the (ch_parent_id n) \<notin> ch_node_id ` set nodes) \<Longrightarrow>
     orphan root nodes (ch_node_id n)"
| parent_orphan: "n \<in> set nodes \<Longrightarrow> ch_node_id n \<noteq> root \<Longrightarrow> truthy (ch_parent_id n) \<Longrightarrow>
     orphan root nodes (the (ch_parent_id n)) \<Longrightarrow> orphan root nodes (ch_node_id n)"

inductive_cases orphanE: "orphan root nodes i"

text \<open>The order \<open>GET /nodes\<close> promises: a node's parent, where it is listed at all, comes earlier.\<close>

fun parentsFirst :: "string list \<Rightarrow> change list \<Rightarrow> bool" where
  "parentsFirst seen [] = True"
| "parentsFirst seen (n # ns) =
     ((truthy (ch_parent_id n) \<longrightarrow>
         the (ch_parent_id n) \<in> set seen \<or> the (ch_parent_id n) \<notin> set (map ch_node_id (n # ns))) \<and>
      parentsFirst (ch_node_id n # seen) ns)"

subsection \<open>The walk is sound\<close>

lemma jget_pathOf_root: "jget (tw_pathOf (initWalk root)) i = (if i = root then Some [] else None)"
  by (simp add: initWalk_def)

text \<open>The four ways a round can go, for a node that is not the root.\<close>

lemma walkNode_cases:
  assumes "walkNode decryptName sc root w n = Inr w'" "ch_node_id n \<noteq> root"
  obtains
    (cut_below) "truthy (ch_parent_id n)" "the (ch_parent_id n) \<in> set (tw_cut w)" "w' = cutNode n w"
  | (skip_below) "truthy (ch_parent_id n)" "the (ch_parent_id n) \<notin> set (tw_cut w)"
      "the (ch_parent_id n) \<in> set (tw_skipped w)" "w' = skipNode n w"
  | (cut_missing) "\<not> truthy (ch_parent_id n) \<or> the (ch_parent_id n) \<notin> set (tw_cut w) \<and>
        the (ch_parent_id n) \<notin> set (tw_skipped w) \<and> jget (tw_pathOf w) (the (ch_parent_id n)) = None"
      "w' = cutNode n w"
  | (no_key) parent where "truthy (ch_parent_id n)" "the (ch_parent_id n) \<notin> set (tw_cut w)"
      "the (ch_parent_id n) \<notin> set (tw_skipped w)"
      "jget (tw_pathOf w) (the (ch_parent_id n)) = Some parent"
      "truthy (ch_name_enc n)" "keyIfOpenable sc (ch_name_key_id n) = None"
      "w' = reportUnreadable parent (the (ch_name_key_id n)) (skipNode n w)"
  | (walked) parent name where "truthy (ch_parent_id n)" "the (ch_parent_id n) \<notin> set (tw_cut w)"
      "the (ch_parent_id n) \<notin> set (tw_skipped w)"
      "jget (tw_pathOf w) (the (ch_parent_id n)) = Some parent"
      "nameOf decryptName sc n = Some name"
      "w' = w\<lparr>tw_pathOf := jset (ch_node_id n) (childPath parent name) (tw_pathOf w),
              tw_tree := jset (childPath parent name) (nodeAt n (childPath parent name)) (tw_tree w)\<rparr>"
  using assms
  by (simp add: walkNode_def nameOf_def Let_def split: option.splits if_splits)

lemma report_fields [simp]:
  "tw_pathOf (reportUnreadable p k w) = tw_pathOf w" "tw_tree (reportUnreadable p k w) = tw_tree w"
  "tw_skipped (reportUnreadable p k w) = tw_skipped w" "tw_orphans (reportUnreadable p k w) = tw_orphans w"
  "tw_cut (reportUnreadable p k w) = tw_cut w"
  by (simp_all add: reportUnreadable_def)

lemma cut_fields [simp]:
  "tw_pathOf (cutNode n w) = tw_pathOf w" "tw_tree (cutNode n w) = tw_tree w"
  "tw_skipped (cutNode n w) = tw_skipped w" "tw_unreadable (cutNode n w) = tw_unreadable w"
  "tw_orphans (cutNode n w) = tw_orphans w @ [ch_node_id n]"
  "set (tw_cut (cutNode n w)) = insert (ch_node_id n) (set (tw_cut w))"
  by (simp_all add: cutNode_def)

lemma skip_fields [simp]:
  "tw_pathOf (skipNode n w) = tw_pathOf w" "tw_tree (skipNode n w) = tw_tree w"
  "set (tw_skipped (skipNode n w)) = insert (ch_node_id n) (set (tw_skipped w))"
  "tw_unreadable (skipNode n w) = tw_unreadable w"
  "tw_orphans (skipNode n w) = tw_orphans w" "tw_cut (skipNode n w) = tw_cut w"
  by (simp_all add: skipNode_def)

definition paths_sound ::
  "('key \<Rightarrow> string \<Rightarrow> string option) \<Rightarrow> 'key vault_scopes \<Rightarrow> string \<Rightarrow> change list \<Rightarrow> tree_walk \<Rightarrow> bool"
where
  "paths_sound decryptName sc root nodes w \<longleftrightarrow>
     (\<forall>i p. jget (tw_pathOf w) i = Some p \<longrightarrow> named_path decryptName sc root nodes i p) \<and>
     (\<forall>p n. jget (tw_tree w) p = Some n \<longrightarrow>
        named_path decryptName sc root nodes (sn_nodeId n) p \<and> (\<exists>c\<in>set nodes. n = nodeAt c p))"

lemma walkNode_paths_sound:
  assumes "walkNode decryptName sc root w n = Inr w'" "paths_sound decryptName sc root nodes w" "n \<in> set nodes"
  shows "paths_sound decryptName sc root nodes w'"
proof (cases "ch_node_id n = root")
  case True
  then show ?thesis using assms by (simp add: walkNode_def)
next
  case False
  from assms(1) False show ?thesis
  proof (cases rule: walkNode_cases)
    case (walked parent name)
    then have "named_path decryptName sc root nodes (ch_node_id n) (childPath parent name)"
      using assms(2,3) False by (auto simp: paths_sound_def intro!: named_path.at_child)
    with walked show ?thesis
      using assms(2,3) by (auto simp: paths_sound_def nodeAt_def)
  qed (use assms(2) in \<open>auto simp: paths_sound_def\<close>)
qed

lemma walkAll_paths_sound:
  "walkAll decryptName sc root w ns = Inr w' \<Longrightarrow> paths_sound decryptName sc root nodes w \<Longrightarrow>
   set ns \<subseteq> set nodes \<Longrightarrow> paths_sound decryptName sc root nodes w'"
proof (induction ns arbitrary: w)
  case Nil
  then show ?case by simp
next
  case (Cons n ns)
  from Cons.prems(1) obtain w1 where w1: "walkNode decryptName sc root w n = Inr w1"
    "walkAll decryptName sc root w1 ns = Inr w'" by (auto simp: bind_r_Inr)
  with Cons.prems have "paths_sound decryptName sc root nodes w1"
    by (auto intro: walkNode_paths_sound)
  with Cons.IH [OF w1(2)] Cons.prems show ?case by auto
qed

lemma initWalk_sound: "paths_sound decryptName sc root nodes (initWalk root)"
  by (auto simp: paths_sound_def initWalk_def intro: named_path.at_root)

lemma treeFrom_walk:
  assumes "treeFrom decryptName nodes root sc = Inr t"
  obtains w where "walkAll decryptName sc root (initWalk root) nodes = Inr w"
    "t = \<lparr>wa_tree = tw_tree w, wa_unreadable = tw_unreadable w, wa_orphans = tw_orphans w\<rparr>"
  using assms by (auto simp: treeFrom_def bind_r_Inr)

subsection \<open>The walk classifies every node\<close>

definition classified ::
  "('key \<Rightarrow> string \<Rightarrow> string option) \<Rightarrow> 'key vault_scopes \<Rightarrow> string \<Rightarrow> change list \<Rightarrow> string set \<Rightarrow> tree_walk \<Rightarrow> bool"
where
  "classified decryptName sc root nodes seen w \<longleftrightarrow>
     set (tw_orphans w) = set (tw_cut w) \<and>
     (\<forall>i\<in>set (tw_cut w). orphan root nodes i) \<and>
     (\<forall>i\<in>set (tw_skipped w). \<not> orphan root nodes i \<and> (\<forall>p. \<not> named_path decryptName sc root nodes i p)) \<and>
     (\<forall>i. jget (tw_pathOf w) i \<noteq> None \<longrightarrow> \<not> orphan root nodes i) \<and>
     (\<forall>i\<in>seen. i \<in> set (tw_cut w) \<or> i \<in> set (tw_skipped w) \<or> jget (tw_pathOf w) i \<noteq> None) \<and>
     (\<forall>i. i \<in> set (tw_cut w) \<or> i \<in> set (tw_skipped w) \<or> jget (tw_pathOf w) i \<noteq> None \<longrightarrow> i \<in> seen) \<and>
     paths_sound decryptName sc root nodes w"

lemma same_node: "distinct (map f ns) \<Longrightarrow> a \<in> set ns \<Longrightarrow> b \<in> set ns \<Longrightarrow> f a = f b \<Longrightarrow> a = b"
  by (auto simp: distinct_map inj_on_def)

lemma root_not_orphan: "\<not> orphan root nodes root"
  by (auto elim: orphanE)

lemma orphan_of:
  assumes "distinct (map ch_node_id nodes)" "n \<in> set nodes" "ch_node_id n \<noteq> root"
  shows "orphan root nodes (ch_node_id n) \<longleftrightarrow>
     \<not> truthy (ch_parent_id n) \<or>
     (the (ch_parent_id n) \<noteq> root \<and> the (ch_parent_id n) \<notin> ch_node_id ` set nodes) \<or>
     orphan root nodes (the (ch_parent_id n))"
proof
  assume "orphan root nodes (ch_node_id n)"
  then show "\<not> truthy (ch_parent_id n) \<or>
     (the (ch_parent_id n) \<noteq> root \<and> the (ch_parent_id n) \<notin> ch_node_id ` set nodes) \<or>
     orphan root nodes (the (ch_parent_id n))"
    by (rule orphanE) (use assms same_node [OF assms(1)] in metis)+
next
  assume "\<not> truthy (ch_parent_id n) \<or>
     (the (ch_parent_id n) \<noteq> root \<and> the (ch_parent_id n) \<notin> ch_node_id ` set nodes) \<or>
     orphan root nodes (the (ch_parent_id n))"
  then show "orphan root nodes (ch_node_id n)"
    using assms by (metis orphan.intros)
qed

lemma named_path_of:
  assumes "distinct (map ch_node_id nodes)" "n \<in> set nodes" "ch_node_id n \<noteq> root"
    "named_path decryptName sc root nodes (ch_node_id n) p"
  obtains parent name where "truthy (ch_parent_id n)"
    "named_path decryptName sc root nodes (the (ch_parent_id n)) parent"
    "nameOf decryptName sc n = Some name" "p = childPath parent name"
  using assms(4)
  by (cases rule: named_path.cases) (use assms same_node [OF assms(1)] in metis)+

lemma named_path_unique:
  assumes "distinct (map ch_node_id nodes)"
  shows "named_path decryptName sc root nodes i p \<Longrightarrow> named_path decryptName sc root nodes i q \<Longrightarrow> p = q"
proof (induction arbitrary: q rule: named_path.induct)
  case at_root
  then show ?case by (auto elim: named_path.cases)
next
  case (at_child n parent name)
  from at_child.prems obtain parent' name' where
    "named_path decryptName sc root nodes (the (ch_parent_id n)) parent'"
    "nameOf decryptName sc n = Some name'" "q = childPath parent' name'"
    by (rule named_path_of [OF assms at_child.hyps(1,2)])
  with at_child show ?case by fastforce
qed

lemma classified_init: "classified decryptName sc root nodes {root} (initWalk root)"
  using initWalk_sound [of decryptName sc root nodes]
  by (auto simp: classified_def initWalk_def root_not_orphan)

lemma walkNode_classified:
  assumes step: "walkNode decryptName sc root w n = Inr w'"
    and inv: "classified decryptName sc root nodes seen w"
    and n: "n \<in> set nodes" "ch_node_id n \<noteq> root" "distinct (map ch_node_id nodes)" "root \<in> seen"
    and parent: "truthy (ch_parent_id n) \<Longrightarrow> the (ch_parent_id n) \<in> ch_node_id ` set nodes \<Longrightarrow>
       the (ch_parent_id n) \<in> seen"
    and new: "ch_node_id n \<notin> seen" and sub: "seen \<subseteq> insert root (ch_node_id ` set nodes)"
  shows "classified decryptName sc root nodes (insert (ch_node_id n) seen) w'"
proof -
  have sound: "paths_sound decryptName sc root nodes w'"
    using step inv n by (auto simp: classified_def intro: walkNode_paths_sound)
  note orph = orphan_of [OF n(3,1,2)]
  from step n(2) show ?thesis
  proof (cases rule: walkNode_cases)
    case cut_below
    then have "orphan root nodes (ch_node_id n)" using inv orph by (auto simp: classified_def)
    with cut_below inv sound show ?thesis by (auto simp: classified_def)
  next
    case skip_below
    then have "\<not> orphan root nodes (ch_node_id n)" "\<not> named_path decryptName sc root nodes (ch_node_id n) p" for p
      using inv orph sub by (auto simp: classified_def elim!: named_path_of [OF n(3,1,2)])
    with skip_below inv sound show ?thesis by (auto simp: classified_def)
  next
    case cut_missing
    then have "orphan root nodes (ch_node_id n)"
      using inv orph parent n(4) by (auto simp: classified_def)
    with cut_missing inv sound show ?thesis by (auto simp: classified_def)
  next
    case (no_key par)
    then have "nameOf decryptName sc n = None" by (simp add: nameOf_def)
    then have "\<not> orphan root nodes (ch_node_id n)" "\<not> named_path decryptName sc root nodes (ch_node_id n) p" for p
      using inv orph no_key sub
      by (auto simp: classified_def elim!: named_path_of [OF n(3,1,2)])
    with no_key inv sound show ?thesis by (auto simp: classified_def)
  next
    case (walked par name)
    then have "\<not> orphan root nodes (ch_node_id n)"
      using inv orph sub by (auto simp: classified_def)
    with walked inv sound show ?thesis by (auto simp: classified_def)
  qed
qed

lemma walkNode_root: "ch_node_id n = root \<Longrightarrow> walkNode decryptName sc root w n = Inr w"
  by (simp add: walkNode_def)

lemma walkAll_classified:
  assumes "walkAll decryptName sc root w ns = Inr w'"
    and "classified decryptName sc root nodes (set seen) w"
    and "distinct (map ch_node_id nodes)" "set ns \<subseteq> set nodes" "distinct (map ch_node_id ns)"
    and "root \<in> set seen" "set seen \<subseteq> insert root (ch_node_id ` set nodes)"
    and "parentsFirst seen ns" "\<forall>n\<in>set ns. ch_node_id n \<noteq> root \<longrightarrow> ch_node_id n \<notin> set seen"
    and "ch_node_id ` set nodes \<subseteq> set seen \<union> ch_node_id ` set ns"
  shows "classified decryptName sc root nodes (set seen \<union> ch_node_id ` set ns) w'"
  using assms
proof (induction ns arbitrary: w seen)
  case Nil
  then show ?case by simp
next
  case (Cons n ns)
  from Cons.prems(1) obtain w1 where w1: "walkNode decryptName sc root w n = Inr w1"
    "walkAll decryptName sc root w1 ns = Inr w'" by (auto simp: bind_r_Inr)
  have "classified decryptName sc root nodes (set (ch_node_id n # seen)) w1"
  proof (cases "ch_node_id n = root")
    case True
    then show ?thesis using w1(1) Cons.prems by (simp add: walkNode_root insert_absorb)
  next
    case False
    have "the (ch_parent_id n) \<in> set seen"
      if "truthy (ch_parent_id n)" "the (ch_parent_id n) \<in> ch_node_id ` set nodes"
      using that Cons.prems(8,10) by auto
    with False show ?thesis
      using walkNode_classified [OF w1(1) Cons.prems(2)] Cons.prems by auto
  qed
  moreover have "\<forall>m\<in>set ns. ch_node_id m \<noteq> root \<longrightarrow> ch_node_id m \<notin> set (ch_node_id n # seen)"
  proof
    fix m assume m: "m \<in> set ns"
    then have "ch_node_id m \<noteq> ch_node_id n" using Cons.prems(5) by (metis distinct.simps(2) image_eqI list.simps(9) set_map)
    with m Cons.prems(9) show "ch_node_id m \<noteq> root \<longrightarrow> ch_node_id m \<notin> set (ch_node_id n # seen)" by simp
  qed
  ultimately have "classified decryptName sc root nodes (set (ch_node_id n # seen) \<union> ch_node_id ` set ns) w'"
    using Cons.prems by (intro Cons.IH [OF w1(2)]) auto
  then show ?case by simp
qed

lemma treeFrom_classified:
  assumes "walkAll decryptName sc root (initWalk root) nodes = Inr w"
    and "distinct (map ch_node_id nodes)" "parentsFirst [root] nodes"
  shows "classified decryptName sc root nodes (insert root (ch_node_id ` set nodes)) w"
  using walkAll_classified [of decryptName sc root "initWalk root" nodes w nodes "[root]"] assms
    classified_init [of decryptName sc root nodes]
  by auto

lemma named_path_listed: "named_path decryptName sc root nodes i p \<Longrightarrow> i = root \<or> i \<in> ch_node_id ` set nodes"
  by (cases rule: named_path.cases) auto

lemma named_path_not_orphan:
  assumes "distinct (map ch_node_id nodes)"
  shows "named_path decryptName sc root nodes i p \<Longrightarrow> \<not> orphan root nodes i"
proof (induction rule: named_path.induct)
  case at_root
  then show ?case by (rule root_not_orphan)
next
  case (at_child n parent name)
  then show ?case using orphan_of [OF assms] named_path_listed by metis
qed

lemma classified_path:
  assumes "classified decryptName sc root nodes (insert root (ch_node_id ` set nodes)) w"
    and "distinct (map ch_node_id nodes)" and i: "named_path decryptName sc root nodes i p"
  shows "jget (tw_pathOf w) i = Some p"
proof -
  have "i \<in> insert root (ch_node_id ` set nodes)" using named_path_listed [OF i] by blast
  moreover have "i \<notin> set (tw_cut w)" "i \<notin> set (tw_skipped w)"
    using assms(1) named_path_not_orphan [OF assms(2) i] i by (auto simp: classified_def)
  ultimately obtain q where q: "jget (tw_pathOf w) i = Some q"
    using assms(1) by (auto simp: classified_def)
  with assms(1) have "named_path decryptName sc root nodes i q"
    by (auto simp: classified_def paths_sound_def)
  with i q show ?thesis using named_path_unique [OF assms(2)] by blast
qed

text \<open>Whatever has a path has an entry at it.\<close>

definition paths_held :: "string \<Rightarrow> tree_walk \<Rightarrow> bool" where
  "paths_held root w \<longleftrightarrow> (\<forall>i p. i \<noteq> root \<and> jget (tw_pathOf w) i = Some p \<longrightarrow> jget (tw_tree w) p \<noteq> None)"

lemma walkNode_paths_held:
  "walkNode decryptName sc root w n = Inr w' \<Longrightarrow> paths_held root w \<Longrightarrow> paths_held root w'"
proof (cases "ch_node_id n = root")
  case False
  assume "walkNode decryptName sc root w n = Inr w'" and held: "paths_held root w"
  from this(1) False show "paths_held root w'"
    by (cases rule: walkNode_cases) (use held in \<open>auto simp: paths_held_def\<close>)
qed (simp add: walkNode_root)

lemma walkAll_paths_held:
  "walkAll decryptName sc root w ns = Inr w' \<Longrightarrow> paths_held root w \<Longrightarrow> paths_held root w'"
  by (induction ns arbitrary: w) (auto simp: bind_r_Inr intro: walkNode_paths_held)

subsection \<open>One report per unreadable scope\<close>

definition reports_ok ::
  "('key \<Rightarrow> string \<Rightarrow> string option) \<Rightarrow> 'key vault_scopes \<Rightarrow> string \<Rightarrow> change list \<Rightarrow> tree_walk \<Rightarrow> bool"
where
  "reports_ok decryptName sc root nodes w \<longleftrightarrow>
     distinct (map uf_scopeId (tw_unreadable w)) \<and>
     (\<forall>u\<in>set (tw_unreadable w). uf_path u \<noteq> [] \<and> keyIfOpenable sc (Some (uf_scopeId u)) = None \<and>
        (\<exists>c\<in>set nodes. ch_name_key_id c = Some (uf_scopeId u) \<and> truthy (ch_parent_id c) \<and>
           named_path decryptName sc root nodes (the (ch_parent_id c)) (uf_path u)))"

lemma reportUnreadable_ok:
  assumes "reports_ok decryptName sc root nodes w" "c \<in> set nodes" "truthy (ch_parent_id c)"
    "named_path decryptName sc root nodes (the (ch_parent_id c)) parent"
    "keyIfOpenable sc (ch_name_key_id c) = None"
  shows "reports_ok decryptName sc root nodes (reportUnreadable parent (the (ch_name_key_id c)) w)"
proof -
  from keyIfOpenable_None [OF assms(5)] obtain k where k: "ch_name_key_id c = Some k" by blast
  with assms show ?thesis
    by (auto simp: reports_ok_def reportUnreadable_def list_ex_iff)
qed

lemma walkNode_reports_ok:
  assumes "walkNode decryptName sc root w n = Inr w'" "n \<in> set nodes"
    "paths_sound decryptName sc root nodes w" "reports_ok decryptName sc root nodes w"
  shows "reports_ok decryptName sc root nodes w'"
proof (cases "ch_node_id n = root")
  case True
  then show ?thesis using assms by (simp add: walkNode_root)
next
  case False
  with assms(1) show ?thesis
  proof (cases rule: walkNode_cases)
    case (no_key parent)
    then have "named_path decryptName sc root nodes (the (ch_parent_id n)) parent"
      using assms(3) by (auto simp: paths_sound_def)
    moreover have "reports_ok decryptName sc root nodes (skipNode n w)"
      using assms(4) by (simp add: reports_ok_def)
    ultimately show ?thesis using no_key assms(2) by (simp add: reportUnreadable_ok)
  qed (use assms(4) in \<open>auto simp: reports_ok_def\<close>)
qed

lemma walkAll_reports_ok:
  "walkAll decryptName sc root w ns = Inr w' \<Longrightarrow> set ns \<subseteq> set nodes \<Longrightarrow>
   paths_sound decryptName sc root nodes w \<Longrightarrow> reports_ok decryptName sc root nodes w \<Longrightarrow>
   reports_ok decryptName sc root nodes w'"
proof (induction ns arbitrary: w)
  case Nil
  then show ?case by simp
next
  case (Cons n ns)
  from Cons.prems(1) obtain w1 where w1: "walkNode decryptName sc root w n = Inr w1"
    "walkAll decryptName sc root w1 ns = Inr w'" by (auto simp: bind_r_Inr)
  with Cons show ?case
    by (auto intro!: Cons.IH [OF w1(2)] walkNode_paths_sound [OF w1(1)] walkNode_reports_ok [OF w1(1)])
qed

lemma treeFrom_reports_ok:
  "walkAll decryptName sc root (initWalk root) nodes = Inr w \<Longrightarrow> reports_ok decryptName sc root nodes w"
  using walkAll_reports_ok [of decryptName sc root "initWalk root" nodes w nodes] initWalk_sound
  by (auto simp: reports_ok_def initWalk_def)

subsection \<open>The cache of one walk\<close>

record walked_tree =
  wt_cursor :: string
  wt_scopes :: string
  wt_walked :: walked

type_synonym tree_cache = "walked_tree option"

definition cache_get :: "tree_cache \<Rightarrow> string \<Rightarrow> string \<Rightarrow> walked option" where
  "cache_get held cursor scopes =
     (case held of
        None \<Rightarrow> None
      | Some w \<Rightarrow> if wt_cursor w = cursor \<and> wt_scopes w = scopes then Some (wt_walked w) else None)"

definition cache_put :: "walked_tree \<Rightarrow> tree_cache \<Rightarrow> tree_cache" where
  "cache_put w held = Some w"

lemma cache_get_put: "cache_get (cache_put w held) c s =
    (if wt_cursor w = c \<and> wt_scopes w = s then Some (wt_walked w) else None)"
  by (simp add: cache_get_def cache_put_def)


subsection \<open>Properties\<close>

text \<open>C16. Every entry of the tree a walk builds sits at the chain of decrypted names from the vault root
  down to its node, carries that path, and is a node of the listing: no name this device could not
  open and no node the root does not lead to contributes to a path.\<close>

theorem treeFrom_paths:
  assumes "treeFrom decryptName nodes root sc = Inr t" and "jget (wa_tree t) p = Some n"
  shows "named_path decryptName sc root nodes (sn_nodeId n) p \<and> sn_path n = p \<and>
     (\<exists>c\<in>set nodes. n = nodeAt c p)"
proof -
  obtain w where "walkAll decryptName sc root (initWalk root) nodes = Inr w" and t: "wa_tree t = tw_tree w"
    using assms(1) by (elim treeFrom_walk) simp
  then have "paths_sound decryptName sc root nodes w"
    by (blast intro: walkAll_paths_sound initWalk_sound)
  with assms(2) t show ?thesis by (force simp: paths_sound_def nodeAt_def)
qed

lemma treeFrom_orphans:
  assumes "treeFrom decryptName nodes root sc = Inr t"
    and "distinct (map ch_node_id nodes)" and "parentsFirst [root] nodes"
  shows "set (wa_orphans t) = {i. orphan root nodes i}"
proof -
  obtain w where w: "walkAll decryptName sc root (initWalk root) nodes = Inr w"
    and t: "wa_tree t = tw_tree w" "wa_orphans t = tw_orphans w"
    using assms(1) by (elim treeFrom_walk) simp
  note c = treeFrom_classified [OF w assms(2,3), unfolded classified_def]
  have listed: "orphan root nodes i \<Longrightarrow> i \<in> ch_node_id ` set nodes" for i
    by (erule orphanE) auto
  have "orphan root nodes i \<Longrightarrow> i \<in> set (tw_cut w)" for i
    using c listed [of i] by (meson insertI2)
  then show ?thesis
    using c t(2) by (metis (no_types, lifting) Collect_cong Collect_mem_eq)
qed

text \<open>With distinct ids and parents listed before their children, the walk classifies exactly: the
  ids reported as orphans are the nodes no listed chain of parents connects to the root, a node has
  a path exactly when every name above it opens, and each of those has an entry in the tree.\<close>

theorem treeFrom_complete:
  assumes "treeFrom decryptName nodes root sc = Inr t"
    and "distinct (map ch_node_id nodes)" and "parentsFirst [root] nodes"
  shows "set (wa_orphans t) = {i. orphan root nodes i} \<and>
     (\<forall>i p. i \<noteq> root \<and> named_path decryptName sc root nodes i p \<longrightarrow> jget (wa_tree t) p \<noteq> None)"
proof -
  obtain w where w: "walkAll decryptName sc root (initWalk root) nodes = Inr w"
    and t: "wa_tree t = tw_tree w" "wa_orphans t = tw_orphans w"
    using assms(1) by (elim treeFrom_walk) simp
  from treeFrom_classified [OF w assms(2,3)]
  have c: "classified decryptName sc root nodes (insert root (ch_node_id ` set nodes)) w" .
  have "jget (wa_tree t) p \<noteq> None"
    if "i \<noteq> root" "named_path decryptName sc root nodes i p" for i p
  proof -
    have "jget (tw_pathOf w) i = Some p" by (rule classified_path [OF c assms(2) that(2)])
    moreover have "paths_held root w"
      using walkAll_paths_held [OF w] by (simp add: paths_held_def initWalk_def)
    ultimately show ?thesis using t that(1) by (simp add: paths_held_def)
  qed
  with treeFrom_orphans [OF assms] show ?thesis by blast
qed

text \<open>An unreadable share is one report, at the readable folder above it: the reports name each scope
  once, every scope they name is one this device holds no key for, and each path is the path of the
  parent of a node named under that scope, never the vault root.\<close>

theorem treeFrom_unreadable:
  assumes "treeFrom decryptName nodes root sc = Inr t"
  shows "distinct (map uf_scopeId (wa_unreadable t)) \<and>
     (\<forall>u\<in>set (wa_unreadable t). uf_path u \<noteq> [] \<and> keyIfOpenable sc (Some (uf_scopeId u)) = None \<and>
        (\<exists>c\<in>set nodes. ch_name_key_id c = Some (uf_scopeId u) \<and> truthy (ch_parent_id c) \<and>
           named_path decryptName sc root nodes (the (ch_parent_id c)) (uf_path u)))"
proof -
  obtain w where "walkAll decryptName sc root (initWalk root) nodes = Inr w"
    and "wa_unreadable t = tw_unreadable w"
    using assms by (elim treeFrom_walk) simp
  then show ?thesis using treeFrom_reports_ok [of decryptName sc root nodes w] by (simp add: reports_ok_def)
qed

subsection \<open>A worked listing\<close>

text \<open>A folder \<open>F\<close> with a note, a share root \<open>S\<close> whose interior is named under a scope this device
  cannot open, with a node below that, and a node whose parent is not listed.\<close>

definition ex_change :: "string \<Rightarrow> string \<Rightarrow> string \<Rightarrow> string \<Rightarrow> string option \<Rightarrow> string option \<Rightarrow> change" where
  "ex_change i par name key sha share =
     \<lparr>ch_node_id = i, ch_parent_id = Some par, ch_name_enc = Some name, ch_name_hmac = None,
      ch_name_key_id = Some key, ch_op = ''put'', ch_rev = 1, ch_sha256 = sha, ch_size = None,
      ch_mtime = '''', ch_share_id = share, ch_author_id = None\<rparr>"

definition ex_nodes :: "change list" where
  "ex_nodes =
     [ex_change ''f'' ''r'' ''F'' ''KV'' None None,
      ex_change ''s'' ''r'' ''S'' ''KV'' None (Some ''share''),
      ex_change ''n'' ''f'' ''note'' ''KV'' (Some ''addr'') None,
      ex_change ''x'' ''s'' ''X'' ''KS'' None (Some ''share''),
      ex_change ''z'' ''gone'' ''Z'' ''KV'' (Some ''addr2'') None,
      ex_change ''y'' ''x'' ''Y'' ''KS'' (Some ''addr3'') (Some ''share'')]"

definition ex_scopes :: "string vault_scopes" where
  "ex_scopes = \<lparr>sc_root_node_id = ''r'', sc_scopes = [], sc_vaultKey = ''kv'', sc_vaultScopeId = ''KV'',
     sc_shareKeys = [], sc_unopenable = [''KS'']\<rparr>"

definition ex_decrypt :: "string \<Rightarrow> string \<Rightarrow> string option" where
  "ex_decrypt key enc = (if key = ''kv'' then Some enc else None)"

definition ex_walked :: walked where
  "ex_walked =
     \<lparr>wa_tree = [(''F'', nodeAt (ex_nodes ! 0) ''F''), (''S'', nodeAt (ex_nodes ! 1) ''S''),
                 (''F/note'', nodeAt (ex_nodes ! 2) ''F/note'')],
      wa_unreadable = [\<lparr>uf_path = ''S'', uf_scopeId = ''KS''\<rparr>], wa_orphans = [''z'']\<rparr>"

lemma ex_treeFrom: "treeFrom ex_decrypt ex_nodes ''r'' ex_scopes = Inr ex_walked"
  by code_simp

lemma ex_listing: "distinct (map ch_node_id ex_nodes) \<and> parentsFirst [''r''] ex_nodes"
  by code_simp

theorem treeFrom_paths_witness:
  "named_path ex_decrypt ex_scopes ''r'' ex_nodes ''n'' ''F/note''"
proof -
  have "jget (wa_tree ex_walked) ''F/note'' = Some (nodeAt (ex_nodes ! 2) ''F/note'')"
    and i: "sn_nodeId (nodeAt (ex_nodes ! 2) ''F/note'') = ''n''"
    by code_simp+
  from treeFrom_paths [OF ex_treeFrom this(1)] i show ?thesis by simp
qed

theorem treeFrom_complete_witness: "{i. orphan ''r'' ex_nodes i} = {''z''}"
proof -
  have "wa_orphans ex_walked = [''z'']" by code_simp
  with treeFrom_complete [OF ex_treeFrom] ex_listing show ?thesis by simp
qed

theorem treeFrom_unreadable_witness: "keyIfOpenable ex_scopes (Some ''KS'') = None"
proof -
  have "wa_unreadable ex_walked = [\<lparr>uf_path = ''S'', uf_scopeId = ''KS''\<rparr>]" by code_simp
  with treeFrom_unreadable [OF ex_treeFrom] show ?thesis by simp
qed

end
