(* ===== verification/Diff.thy ===== *)
theory Diff
  imports Prelude
begin

text \<open>
  \<open>lineDiff\<close> and \<open>folded\<close> of \<open>plugin/src/conflict.ts\<close>: Myers' O(ND) comparison of two texts, line by
  line. The frontier array \<open>v\<close>, which the code offsets so that diagonals may be negative, is a
  function of the diagonal; a row of the trace is the slice of it around zero, and reads outside a
  slice are 0, as \<open>row[k + d + 1] ?? 0\<close> makes them. Lines are values of any type.

  The lemmas identify the array after step \<open>d\<close> with the furthest reaching points \<open>far d\<close>, and show
  three things of the result: the lines it keeps spell out both texts, no edit script is shorter,
  and the function gives up only when every script needs more than \<open>maxEdits\<close> edits.
\<close>

datatype 'a diff_line = Same 'a | Removed 'a | Added 'a

definition MAX_EDITS :: nat where
  "MAX_EDITS = 2000"

subsection \<open>The forward pass\<close>

text \<open>Reading an array at an index that may be outside it.\<close>

definition getAt :: "'a list \<Rightarrow> int \<Rightarrow> 'a option" where
  "getAt xs i = (if 0 \<le> i \<and> i < int (length xs) then Some (xs ! nat i) else None)"

function snake :: "'a list \<Rightarrow> 'a list \<Rightarrow> int \<Rightarrow> int \<Rightarrow> int \<times> int" where
  "snake a b x y =
     (if x < int (length a) \<and> y < int (length b) \<and> getAt a x = getAt b y
      then snake a b (x + 1) (y + 1) else (x, y))"
  by pat_completeness auto
termination
  by (relation "measure (\<lambda>(a, b, x, y). nat (int (length a) - x))") auto

declare snake.simps [simp del]

definition goesDown :: "(int \<Rightarrow> int) \<Rightarrow> int \<Rightarrow> int \<Rightarrow> bool" where
  "goesDown v d k \<longleftrightarrow> k = - d \<or> (k \<noteq> d \<and> v (k - 1) < v (k + 1))"

definition startX :: "(int \<Rightarrow> int) \<Rightarrow> int \<Rightarrow> int \<Rightarrow> int" where
  "startX v d k = (if goesDown v d k then v (k + 1) else v (k - 1) + 1)"

function kLoop :: "'a list \<Rightarrow> 'a list \<Rightarrow> int \<Rightarrow> int \<Rightarrow> (int \<Rightarrow> int) \<Rightarrow> (int \<Rightarrow> int) \<times> bool" where
  "kLoop a b d k v =
     (if k \<le> d then
        (let x0 = startX v d k;
             (x, y) = snake a b x0 (x0 - k);
             v' = v(k := x)
         in if int (length a) \<le> x \<and> int (length b) \<le> y then (v', True)
            else kLoop a b d (k + 2) v')
      else (v, False))"
  by pat_completeness auto
termination
  by (relation "measure (\<lambda>(a, b, d, k, v). nat (d + 2 - k))") auto

declare kLoop.simps [simp del]

definition slice :: "(int \<Rightarrow> int) \<Rightarrow> int \<Rightarrow> int \<Rightarrow> int" where
  "slice v d k = (if - d - 1 \<le> k \<and> k \<le> d + 1 then v k else 0)"

function dLoop ::
  "'a list \<Rightarrow> 'a list \<Rightarrow> nat \<Rightarrow> nat \<Rightarrow> (int \<Rightarrow> int) \<Rightarrow> (int \<Rightarrow> int) list \<Rightarrow> (int \<Rightarrow> int) list \<times> bool"
where
  "dLoop a b limit d v trace =
     (if d \<le> limit then
        (let trace' = trace @ [slice v (int d)];
             (v', finished) = kLoop a b (int d) (- int d) v
         in if finished then (trace', True) else dLoop a b limit (Suc d) v' trace')
      else (trace, False))"
  by pat_completeness auto
termination
  by (relation "measure (\<lambda>(a, b, limit, d, v, trace). Suc limit - d)") auto

declare dLoop.simps [simp del]

subsection \<open>Walking the trace back\<close>

text \<open>\<open>out\<close> is built from the end, so pushing here is consing and the final \<open>reverse\<close> is implicit.\<close>

function backSnake ::
  "'a list \<Rightarrow> int \<Rightarrow> int \<Rightarrow> int \<Rightarrow> int \<Rightarrow> 'a diff_line list \<Rightarrow> int \<times> int \<times> 'a diff_line list"
where
  "backSnake a prevX prevY x y out =
     (if prevX < x \<and> prevY < y
      then backSnake a prevX prevY (x - 1) (y - 1) (Same (the (getAt a (x - 1))) # out)
      else (x, y, out))"
  by pat_completeness auto
termination
  by (relation "measure (\<lambda>(a, prevX, prevY, x, y, out). nat (x - prevX))") auto

declare backSnake.simps [simp del]

primrec unwind ::
  "'a list \<Rightarrow> 'a list \<Rightarrow> (int \<Rightarrow> int) list \<Rightarrow> nat \<Rightarrow> int \<Rightarrow> int \<Rightarrow> 'a diff_line list \<Rightarrow> 'a diff_line list"
where
  "unwind a b trace 0 x y out = out"
| "unwind a b trace (Suc d) x y out =
     (let vd = trace ! d;
          k = x - y;
          down = goesDown vd (int d) k;
          prevK = (if down then k + 1 else k - 1);
          prevX = vd prevK;
          prevY = prevX - prevK;
          (x, y, out) = backSnake a prevX prevY x y out
      in if 0 < d then
           (if down then unwind a b trace d x (y - 1) (Added (the (getAt b (y - 1))) # out)
            else unwind a b trace d (x - 1) y (Removed (the (getAt a (x - 1))) # out))
         else unwind a b trace d x y out)"

definition diffLines :: "'a list \<Rightarrow> 'a list \<Rightarrow> nat \<Rightarrow> 'a diff_line list option" where
  "diffLines a b maxEdits =
     (let limit = min (length a + length b) maxEdits;
          (trace, finished) = dLoop a b limit 0 (\<lambda>_. 0) []
      in if \<not> finished then None
         else Some (unwind a b trace (length trace) (int (length a)) (int (length b)) []))"

definition newline :: char where
  "newline = CHR 0x0A"

definition lineDiff :: "string \<Rightarrow> string \<Rightarrow> nat \<Rightarrow> string diff_line list option" where
  "lineDiff before after maxEdits = diffLines (splitOn newline before) (splitOn newline after) maxEdits"

subsection \<open>What a diff says\<close>

fun oldSide :: "'a diff_line list \<Rightarrow> 'a list" where
  "oldSide [] = []"
| "oldSide (Same l # ds) = l # oldSide ds"
| "oldSide (Removed l # ds) = l # oldSide ds"
| "oldSide (Added l # ds) = oldSide ds"

fun newSide :: "'a diff_line list \<Rightarrow> 'a list" where
  "newSide [] = []"
| "newSide (Same l # ds) = l # newSide ds"
| "newSide (Removed l # ds) = newSide ds"
| "newSide (Added l # ds) = l # newSide ds"

fun edits :: "'a diff_line list \<Rightarrow> nat" where
  "edits [] = 0"
| "edits (Same l # ds) = edits ds"
| "edits (Removed l # ds) = Suc (edits ds)"
| "edits (Added l # ds) = Suc (edits ds)"

lemma side_append [simp]:
  "oldSide (xs @ ys) = oldSide xs @ oldSide ys" "newSide (xs @ ys) = newSide xs @ newSide ys"
  "edits (xs @ ys) = edits xs + edits ys"
  by (induction xs rule: oldSide.induct) auto


subsection \<open>The furthest reaching points\<close>

text \<open>The array before step \<open>d\<close>, written without the loop that fills it, and the point step \<open>d\<close> reaches
  on diagonal \<open>k\<close>. A step writes the diagonals of its own parity and reads the others, so filling the
  array in place does not disturb what it reads.\<close>

definition onStep :: "nat \<Rightarrow> int \<Rightarrow> bool" where
  "onStep d k \<longleftrightarrow> - int d \<le> k \<and> k \<le> int d \<and> even (k + int d)"

definition reachFrom :: "'a list \<Rightarrow> 'a list \<Rightarrow> (int \<Rightarrow> int) \<Rightarrow> nat \<Rightarrow> int \<Rightarrow> int" where
  "reachFrom a b v d k = fst (snake a b (startX v (int d) k) (startX v (int d) k - k))"

primrec frontier :: "'a list \<Rightarrow> 'a list \<Rightarrow> nat \<Rightarrow> int \<Rightarrow> int" where
  "frontier a b 0 = (\<lambda>_. 0)"
| "frontier a b (Suc d) = (\<lambda>k. if onStep d k then reachFrom a b (frontier a b d) d k else frontier a b d k)"

definition far :: "'a list \<Rightarrow> 'a list \<Rightarrow> nat \<Rightarrow> int \<Rightarrow> int" where
  "far a b d k = reachFrom a b (frontier a b d) d k"

definition complete :: "'a list \<Rightarrow> 'a list \<Rightarrow> nat \<Rightarrow> int \<Rightarrow> bool" where
  "complete a b d k \<longleftrightarrow> onStep d k \<and> int (length a) \<le> far a b d k \<and> int (length b) \<le> far a b d k - k"

lemma frontier_step: "onStep d k \<Longrightarrow> frontier a b (Suc d) k = far a b d k"
  by (simp add: far_def)

lemma frontier_other: "\<not> onStep d k \<Longrightarrow> frontier a b (Suc d) k = frontier a b d k"
  by simp

lemma snake_props:
  "snake a b x y = (x', y') \<Longrightarrow> x \<le> x' \<and> x' - x = y' - y
     \<and> (x < x' \<longrightarrow> x' \<le> int (length a) \<and> y' \<le> int (length b))
     \<and> \<not> (x' < int (length a) \<and> y' < int (length b) \<and> getAt a x' = getAt b y')
     \<and> (\<forall>i. x \<le> i \<and> i < x' \<longrightarrow> getAt a i = getAt b (i - x + y))"
proof (induction a b x y rule: snake.induct)
  case (1 a b x y)
  show ?case
  proof (cases "x < int (length a) \<and> y < int (length b) \<and> getAt a x = getAt b y")
    case True
    with "1.prems" have "snake a b (x + 1) (y + 1) = (x', y')" by (subst (asm) snake.simps) simp
    from "1.IH" [OF True this] True show ?thesis
      by (smt (verit))
  next
    case False
    with "1.prems" have "x' = x" "y' = y" by (subst (asm) (1) snake.simps, simp)+
    with False show ?thesis by auto
  qed
qed

lemma reachFrom_snake:
  "snake a b (startX v (int d) k) (startX v (int d) k - k) = (reachFrom a b v d k, reachFrom a b v d k - k)"
proof -
  obtain x' y' where s: "snake a b (startX v (int d) k) (startX v (int d) k - k) = (x', y')" by fastforce
  from snake_props [OF s] s show ?thesis by (simp add: reachFrom_def)
qed

lemma reachFrom_cong:
  "v (k - 1) = w (k - 1) \<Longrightarrow> v (k + 1) = w (k + 1) \<Longrightarrow> reachFrom a b v d k = reachFrom a b w d k"
  by (simp add: reachFrom_def startX_def goesDown_def)

lemma onStep_next: "onStep d k \<Longrightarrow> \<not> onStep d (k + 1) \<and> \<not> onStep d (k - 1)"
  by (auto simp: onStep_def)

text \<open>The loop over the diagonals of one step, from \<open>k\<close> on, with the array half filled.\<close>

definition halfFilled :: "'a list \<Rightarrow> 'a list \<Rightarrow> nat \<Rightarrow> int \<Rightarrow> (int \<Rightarrow> int) \<Rightarrow> bool" where
  "halfFilled a b d k v \<longleftrightarrow> (\<forall>j. v j = (if onStep d j \<and> j < k then far a b d j else frontier a b d j))"

lemma kLoop_step:
  assumes "halfFilled a b d k v" "onStep d k"
  shows "kLoop a b (int d) k v =
     (if complete a b d k then (v(k := far a b d k), True)
      else kLoop a b (int d) (k + 2) (v(k := far a b d k)))"
    and "halfFilled a b d (k + 2) (v(k := far a b d k))"
proof -
  have "v (k - 1) = frontier a b d (k - 1)" "v (k + 1) = frontier a b d (k + 1)"
    using assms onStep_next [OF assms(2)] by (simp_all add: halfFilled_def)
  then have f: "reachFrom a b v d k = far a b d k" unfolding far_def by (rule reachFrom_cong)
  have "k \<le> int d" using assms(2) by (simp add: onStep_def)
  then show "kLoop a b (int d) k v =
     (if complete a b d k then (v(k := far a b d k), True)
      else kLoop a b (int d) (k + 2) (v(k := far a b d k)))"
    using assms(2) f
    by (subst kLoop.simps) (simp add: Let_def reachFrom_snake complete_def)
  show "halfFilled a b d (k + 2) (v(k := far a b d k))"
    using assms unfolding halfFilled_def onStep_def
    by (auto split: if_splits) presburger+
qed

lemma halfFilled_start: "halfFilled a b d (- int d) (frontier a b d)"
  by (auto simp: halfFilled_def onStep_def)

lemma halfFilled_end: "halfFilled a b d k v \<Longrightarrow> int d < k \<Longrightarrow> v = frontier a b (Suc d)"
  by (rule ext) (auto simp: halfFilled_def onStep_def far_def)

lemma kLoop_far:
  assumes "halfFilled a b d k v" "even (k + int d)" "- int d \<le> k"
  shows "kLoop a b (int d) k v = (v', fin) \<Longrightarrow>
     (if \<exists>j\<ge>k. complete a b d j then fin else \<not> fin \<and> v' = frontier a b (Suc d))"
  using assms
proof (induction "nat (int d + 2 - k)" arbitrary: k v rule: less_induct)
  case less
  show ?case
  proof (cases "k \<le> int d")
    case False
    then have "kLoop a b (int d) k v = (v, False)" by (subst kLoop.simps) simp
    moreover have "\<not> (\<exists>j\<ge>k. complete a b d j)" using False by (auto simp: complete_def onStep_def)
    ultimately show ?thesis using less.prems False halfFilled_end by fastforce
  next
    case True
    with less.prems have on: "onStep d k" by (simp add: onStep_def)
    note step = kLoop_step [OF less.prems(2) on]
    show ?thesis
    proof (cases "complete a b d k")
      case True
      with step(1) less.prems(1) show ?thesis by auto
    next
      case False
      have "complete a b d j \<Longrightarrow> k \<le> j \<Longrightarrow> k + 2 \<le> j" for j
        using False less.prems(3) unfolding complete_def onStep_def
        by (smt (verit) even_add odd_one)
      then have eq: "(\<exists>j\<ge>k. complete a b d j) \<longleftrightarrow> (\<exists>j\<ge>k + 2. complete a b d j)"
        by (smt (verit, best))
      have "kLoop a b (int d) (k + 2) (v(k := far a b d k)) = (v', fin)"
        using less.prems(1) step(1) False by simp
      then show ?thesis
        unfolding eq using True less.prems step(2) by (intro less.hyps) auto
    qed
  qed
qed

lemma complete_from: "complete a b d j \<Longrightarrow> - int d \<le> j"
  by (simp add: complete_def onStep_def)

lemma kLoop_row:
  assumes "kLoop a b (int d) (- int d) (frontier a b d) = (v', fin)"
  shows "if \<exists>j. complete a b d j then fin else \<not> fin \<and> v' = frontier a b (Suc d)"
  using kLoop_far [OF halfFilled_start _ _ assms] complete_from by (metis even_add even_minus order_refl)

lemma dLoop_far:
  assumes "trace = map (\<lambda>e. slice (frontier a b e) (int e)) [0..<d]" "d \<le> Suc limit"
    "\<forall>e<d. \<forall>k. \<not> complete a b e k"
  shows "dLoop a b limit d (frontier a b d) trace = (trace', fin) \<Longrightarrow>
    (if fin then \<exists>D\<ge>d. D \<le> limit \<and> (\<exists>k. complete a b D k) \<and> (\<forall>e<D. \<forall>k. \<not> complete a b e k) \<and>
                   trace' = map (\<lambda>e. slice (frontier a b e) (int e)) [0..<Suc D]
     else \<forall>e\<le>limit. \<forall>k. \<not> complete a b e k)"
  using assms
proof (induction "Suc limit - d" arbitrary: d trace rule: less_induct)
  case less
  show ?case
  proof (cases "d \<le> limit")
    case False
    then have "dLoop a b limit d (frontier a b d) trace = (trace, False)" by (subst dLoop.simps) simp
    with less.prems False show ?thesis by auto
  next
    case True
    obtain v' fin' where k: "kLoop a b (int d) (- int d) (frontier a b d) = (v', fin')" by fastforce
    let ?trace = "trace @ [slice (frontier a b d) (int d)]"
    have t: "?trace = map (\<lambda>e. slice (frontier a b e) (int e)) [0..<Suc d]" using less.prems(2) by simp
    have unf: "dLoop a b limit d (frontier a b d) trace =
        (if fin' then (?trace, True) else dLoop a b limit (Suc d) v' ?trace)"
      using True k by (subst dLoop.simps) (simp add: Let_def)
    show ?thesis
    proof (cases "\<exists>j. complete a b d j")
      case c: True
      with kLoop_row [OF k] have "fin'" by simp
      with unf less.prems(1) have "fin" "trace' = ?trace" by auto
      with c True t less.prems(4) show ?thesis by auto
    next
      case c: False
      with kLoop_row [OF k] have f: "\<not> fin'" "v' = frontier a b (Suc d)" by auto
      with unf less.prems(1) have "dLoop a b limit (Suc d) (frontier a b (Suc d)) ?trace = (trace', fin)"
        by (simp del: frontier.simps)
      moreover have "\<forall>e<Suc d. \<forall>k. \<not> complete a b e k" using c less.prems(4) less_Suc_eq by auto
      ultimately have ih: "if fin then \<exists>D\<ge>Suc d. D \<le> limit \<and> (\<exists>k. complete a b D k) \<and> (\<forall>e<D. \<forall>k. \<not> complete a b e k) \<and>
                   trace' = map (\<lambda>e. slice (frontier a b e) (int e)) [0..<Suc D]
         else \<forall>e\<le>limit. \<forall>k. \<not> complete a b e k"
        using True t by (intro less.hyps [of "Suc d" ?trace]) (auto simp del: frontier.simps upt_Suc)
      show ?thesis
      proof (cases fin)
        case True
        then show ?thesis using ih by (meson Suc_leD)
      next
        case False
        then show ?thesis using ih by simp
      qed
    qed
  qed
qed

subsection \<open>Where the furthest points lie\<close>

text \<open>How a point of step \<open>Suc d\<close> is reached: from the diagonal above by an insertion or from the one
  below by a deletion, whichever gets further, and then along equal lines.\<close>

lemma far_Suc:
  assumes "onStep (Suc d) k"
  shows "(onStep d (k + 1) \<longrightarrow> far a b d (k + 1) \<le> far a b (Suc d) k)"
    and "(onStep d (k - 1) \<longrightarrow> far a b d (k - 1) + 1 \<le> far a b (Suc d) k)"
    and "goesDown (frontier a b (Suc d)) (int (Suc d)) k \<Longrightarrow> onStep d (k + 1)
           \<and> startX (frontier a b (Suc d)) (int (Suc d)) k = far a b d (k + 1)"
    and "\<not> goesDown (frontier a b (Suc d)) (int (Suc d)) k \<Longrightarrow> onStep d (k - 1)
           \<and> startX (frontier a b (Suc d)) (int (Suc d)) k = far a b d (k - 1) + 1"
proof -
  let ?v = "frontier a b (Suc d)" and ?D = "int (Suc d)"
  have le: "startX ?v ?D k \<le> far a b (Suc d) k"
    using snake_props [OF reachFrom_snake [of a b ?v "Suc d" k]] by (simp add: far_def del: frontier.simps)
  have up: "onStep d (k + 1)" if "k \<noteq> ?D" using assms that unfolding onStep_def by presburger
  have low: "onStep d (k - 1)" if "k \<noteq> - ?D" using assms that unfolding onStep_def by presburger
  have out: "\<not> onStep d (k - 1)" if "k = - ?D" using that by (simp add: onStep_def)
  have out': "\<not> onStep d (k + 1)" if "k = ?D" using that by (simp add: onStep_def)
  note row = frontier_step [of d _ a b]
  show "onStep d (k + 1) \<longrightarrow> far a b d (k + 1) \<le> far a b (Suc d) k"
    using le row [of "k + 1"] row [of "k - 1"] up low out'
    by (auto simp: startX_def goesDown_def simp del: frontier.simps of_nat_Suc split: if_splits)
  show "onStep d (k - 1) \<longrightarrow> far a b d (k - 1) + 1 \<le> far a b (Suc d) k"
    using le row [of "k + 1"] row [of "k - 1"] up low out
    by (auto simp: startX_def goesDown_def simp del: frontier.simps of_nat_Suc split: if_splits)
  assume "goesDown ?v ?D k"
  then show "onStep d (k + 1) \<and> startX ?v ?D k = far a b d (k + 1)"
    using row [of "k + 1"] up
    by (auto simp: startX_def goesDown_def simp del: frontier.simps of_nat_Suc)
next
  let ?v = "frontier a b (Suc d)" and ?D = "int (Suc d)"
  have low: "onStep d (k - 1)" if "k \<noteq> - ?D" using assms that unfolding onStep_def by presburger
  assume "\<not> goesDown ?v ?D k"
  then show "onStep d (k - 1) \<and> startX ?v ?D k = far a b d (k - 1) + 1"
    using frontier_step [of d "k - 1" a b] low
    by (auto simp: startX_def goesDown_def simp del: frontier.simps of_nat_Suc)
qed

lemma far_snake: "snake a b (startX (frontier a b d) (int d) k) (startX (frontier a b d) (int d) k - k)
    = (far a b d k, far a b d k - k)"
  by (simp add: far_def reachFrom_snake)

lemma far_reach:
  "startX (frontier a b d) (int d) k \<le> far a b d k"
  "startX (frontier a b d) (int d) k < far a b d k \<Longrightarrow>
     far a b d k \<le> int (length a) \<and> far a b d k - k \<le> int (length b)"
  "\<not> (far a b d k < int (length a) \<and> far a b d k - k < int (length b)
        \<and> getAt a (far a b d k) = getAt b (far a b d k - k))"
  "startX (frontier a b d) (int d) k \<le> i \<Longrightarrow> i < far a b d k \<Longrightarrow> getAt a i = getAt b (i - k)"
  using snake_props [OF far_snake [of a b d k]] by (auto simp: algebra_simps)

lemma onStep_0: "onStep 0 k \<longleftrightarrow> k = 0"
  by (auto simp: onStep_def)

lemma far_nonneg: "onStep d k \<Longrightarrow> 0 \<le> far a b d k \<and> 0 \<le> far a b d k - k"
proof (induction d arbitrary: k)
  case 0
  then show ?case using far_reach(1) [of a b 0 0] by (simp add: onStep_0 startX_def goesDown_def)
next
  case (Suc d)
  note far = far_Suc [OF Suc.prems, of a b] and le = far_reach(1) [of a b "Suc d" k]
  show ?case
  proof (cases "goesDown (frontier a b (Suc d)) (int (Suc d)) k")
    case True
    from far(3) [OF True] have "onStep d (k + 1)" "far a b d (k + 1) \<le> far a b (Suc d) k" using le by auto
    with Suc.IH [of "k + 1"] show ?thesis by linarith
  next
    case False
    from far(4) [OF False] have "onStep d (k - 1)" "far a b d (k - 1) + 1 \<le> far a b (Suc d) k" using le by auto
    with Suc.IH [of "k - 1"] show ?thesis by linarith
  qed
qed

text \<open>A point may lie past the end of one text; then its neighbour on the diagonal that turns back is
  as far along.\<close>

lemma far_past_a:
  "onStep d k \<Longrightarrow> int (length a) < far a b d k \<Longrightarrow>
     onStep d (k - 2) \<and> far a b d k - 1 \<le> far a b d (k - 2)"
proof (induction d arbitrary: k)
  case 0
  then show ?case using far_reach(2) [of a b 0 0] by (auto simp: onStep_0 startX_def goesDown_def)
next
  case (Suc d)
  note far = far_Suc [OF Suc.prems(1), of a b]
  have still: "far a b (Suc d) k = startX (frontier a b (Suc d)) (int (Suc d)) k"
    using far_reach(1,2) [of a b "Suc d" k] Suc.prems(2) by linarith
  show ?case
  proof (cases "goesDown (frontier a b (Suc d)) (int (Suc d)) k")
    case True
    from far(3) [OF True] still have up: "onStep d (k + 1)" "far a b (Suc d) k = far a b d (k + 1)" by auto
    with Suc.IH [of "k + 1"] Suc.prems have "onStep d (k - 1)" "far a b (Suc d) k - 1 \<le> far a b d (k - 1)" by auto
    moreover from this(1) Suc.prems(1) have "onStep (Suc d) (k - 2)" unfolding onStep_def by presburger
    moreover from far_Suc(1) [OF this, of a b] calculation(1) have "far a b d (k - 1) \<le> far a b (Suc d) (k - 2)" by simp
    ultimately show ?thesis by simp
  next
    case False
    from far(4) [OF False] still have low: "onStep d (k - 1)" "far a b (Suc d) k = far a b d (k - 1) + 1" by auto
    moreover from low(1) Suc.prems(1) have "onStep (Suc d) (k - 2)" unfolding onStep_def by presburger
    moreover from far_Suc(1) [OF this, of a b] low(1) have "far a b d (k - 1) \<le> far a b (Suc d) (k - 2)" by simp
    ultimately show ?thesis by simp
  qed
qed

lemma far_past_b:
  "onStep d k \<Longrightarrow> int (length b) < far a b d k - k \<Longrightarrow>
     onStep d (k + 2) \<and> far a b d k + 1 \<le> far a b d (k + 2)"
proof (induction d arbitrary: k)
  case 0
  then show ?case using far_reach(2) [of a b 0 0] by (auto simp: onStep_0 startX_def goesDown_def)
next
  case (Suc d)
  note far = far_Suc [OF Suc.prems(1), of a b]
  have still: "far a b (Suc d) k = startX (frontier a b (Suc d)) (int (Suc d)) k"
    using far_reach(1,2) [of a b "Suc d" k] Suc.prems(2) by linarith
  show ?case
  proof (cases "goesDown (frontier a b (Suc d)) (int (Suc d)) k")
    case True
    from far(3) [OF True] still have up: "onStep d (k + 1)" "far a b (Suc d) k = far a b d (k + 1)" by auto
    moreover from up(1) Suc.prems(1) have "onStep (Suc d) (k + 2)" unfolding onStep_def by presburger
    moreover from far_Suc(2) [OF this, of a b] up(1) have "far a b d (k + 1) + 1 \<le> far a b (Suc d) (k + 2)"
      by (simp add: algebra_simps)
    ultimately show ?thesis by simp
  next
    case False
    from far(4) [OF False] still have low: "onStep d (k - 1)" "far a b (Suc d) k = far a b d (k - 1) + 1" by auto
    with Suc.IH [of "k - 1"] Suc.prems have "onStep d (k + 1)" "far a b (Suc d) k \<le> far a b d (k + 1)"
      by (auto simp: algebra_simps)
    moreover from this(1) Suc.prems(1) have "onStep (Suc d) (k + 2)" unfolding onStep_def by presburger
    moreover from far_Suc(2) [OF this, of a b] calculation(1) have "far a b d (k + 1) + 1 \<le> far a b (Suc d) (k + 2)"
      by (simp add: algebra_simps)
    ultimately show ?thesis by simp
  qed
qed

text \<open>So the first step that gets to both ends gets there exactly, on the diagonal of the corner.\<close>

lemma first_complete:
  assumes "complete a b d k" "\<forall>e<d. \<forall>k. \<not> complete a b e k"
  shows "far a b d k = int (length a) \<and> k = int (length a) - int (length b)"
proof -
  let ?n = "int (length a)" and ?m = "int (length b)" and ?x0 = "startX (frontier a b d) (int d) k"
  from assms(1) have c: "onStep d k" "?n \<le> far a b d k" "?m \<le> far a b d k - k" by (auto simp: complete_def)
  show ?thesis
  proof (cases "?x0 < far a b d k")
    case True
    with far_reach(2) [of a b d k] c show ?thesis by auto
  next
    case False
    then have still: "far a b d k = ?x0" using far_reach(1) [of a b d k] by simp
    show ?thesis
    proof (cases d)
      case 0
      with c still show ?thesis by (auto simp: onStep_0 startX_def goesDown_def)
    next
      case (Suc e)
      note far = far_Suc [OF c(1) [unfolded Suc], of a b]
      have nc: "\<not> complete a b e j" for j using assms(2) Suc by simp
      show ?thesis
      proof (cases "goesDown (frontier a b d) (int d) k")
        case True
        with far(3) still Suc have p: "onStep e (k + 1)" "far a b d k = far a b e (k + 1)" by auto
        with c nc [of "k + 1"] have m: "far a b d k - k = ?m" by (auto simp: complete_def)
        have "\<not> ?n < far a b d k"
        proof
          assume gt: "?n < far a b d k"
          with far_past_a [of e "k + 1" a b] p
          have "onStep e (k - 1)" "far a b d k - 1 \<le> far a b e (k - 1)" by auto
          with gt m nc [of "k - 1"] show False by (auto simp: complete_def)
        qed
        with m c show ?thesis by auto
      next
        case False
        with far(4) still Suc have p: "onStep e (k - 1)" "far a b d k = far a b e (k - 1) + 1" by auto
        with c nc [of "k - 1"] have n: "far a b d k = ?n" by (auto simp: complete_def)
        have "\<not> ?m < far a b d k - k"
        proof
          assume gt: "?m < far a b d k - k"
          have next_k: "k - 1 + 2 = k + 1" by simp
          from gt far_past_b [of e "k - 1" b a, unfolded next_k] p
          have "onStep e (k + 1)" "far a b d k \<le> far a b e (k + 1)" by simp_all
          with gt n nc [of "k + 1"] show False by (auto simp: complete_def)
        qed
        with n c show ?thesis by auto
      qed
    qed
  qed
qed

subsection \<open>The walk back\<close>

lemma getAt_nat: "0 \<le> i \<Longrightarrow> nat i < length xs \<Longrightarrow> getAt xs i = Some (xs ! nat i)"
  by (simp add: getAt_def)

lemma backSnake_diag:
  assumes "prevX \<le> x" "prevY \<le> x - k"
    and "x - prevX \<le> x - k - prevY \<longrightarrow> t = prevX" "x - k - prevY \<le> x - prevX \<longrightarrow> t = prevY + k"
    and "\<forall>i. t \<le> i \<and> i < x \<longrightarrow> getAt a i = getAt b (i - k)"
    and "0 \<le> t" "0 \<le> t - k" "x \<le> int (length a)" "x - k \<le> int (length b)"
    and "oldSide out = drop (nat x) a" "newSide out = drop (nat (x - k)) b"
  shows "\<exists>out'. backSnake a prevX prevY x (x - k) out = (t, t - k, out') \<and>
     oldSide out' = drop (nat t) a \<and> newSide out' = drop (nat (t - k)) b \<and> edits out' = edits out"
  using assms
proof (induction "nat (x - prevX)" arbitrary: x out rule: less_induct)
  case less
  show ?case
  proof (cases "prevX < x \<and> prevY < x - k")
    case False
    with less.prems(1-4) have "t = x" by linarith
    with False less.prems show ?thesis by (subst backSnake.simps) auto
  next
    case True
    with less.prems(3,4) have t: "t \<le> x - 1" by linarith
    with less.prems(6-9) have in_a: "nat (x - 1) < length a" "nat (x - k - 1) < length b" "0 \<le> x - 1" "0 \<le> x - k - 1"
      by linarith+
    have same: "getAt a (x - 1) = getAt b (x - k - 1)" using less.prems(5) t by (simp add: algebra_simps)
    note ga = getAt_nat [OF in_a(3,1)] and gb = getAt_nat [OF in_a(4,2)]
    let ?out = "Same (the (getAt a (x - 1))) # out"
    have s: "nat x = Suc (nat (x - 1))" "nat (x - k) = Suc (nat (x - k - 1))" using in_a by linarith+
    have o: "oldSide ?out = drop (nat (x - 1)) a"
      using less.prems(10) ga s Cons_nth_drop_Suc [OF in_a(1)] by simp
    have n: "newSide ?out = drop (nat (x - 1 - k)) b"
      using less.prems(11) ga gb same s Cons_nth_drop_Suc [OF in_a(2)] by (simp add: algebra_simps)
    have "\<exists>out'. backSnake a prevX prevY (x - 1) (x - 1 - k) ?out = (t, t - k, out') \<and>
       oldSide out' = drop (nat t) a \<and> newSide out' = drop (nat (t - k)) b \<and> edits out' = edits ?out"
      by (rule less.hyps [of "x - 1" ?out]) (use True less.prems(1-9) t o n in \<open>simp_all\<close>)
    moreover have "backSnake a prevX prevY x (x - k) out = backSnake a prevX prevY (x - 1) (x - 1 - k) ?out"
      using True by (subst backSnake.simps) (simp add: algebra_simps)
    ultimately show ?thesis by simp
  qed
qed

lemma slice_near: "onStep d k \<Longrightarrow> slice v (int d) (k + 1) = v (k + 1) \<and> slice v (int d) (k - 1) = v (k - 1)"
  by (simp add: slice_def onStep_def)

lemma goesDown_slice: "onStep d k \<Longrightarrow> goesDown (slice v (int d)) (int d) k = goesDown v (int d) k"
  using slice_near [of d k v] by (simp add: goesDown_def)

lemma startX_slice: "onStep d k \<Longrightarrow> startX (slice v (int d)) (int d) k = startX v (int d) k"
  using slice_near [of d k v] goesDown_slice [of d k v] by (simp add: startX_def)

lemma startX_nonneg: "onStep d k \<Longrightarrow> 0 \<le> startX (frontier a b d) (int d) k \<and> 0 \<le> startX (frontier a b d) (int d) k - k"
proof (cases d)
  case 0
  assume "onStep d k"
  with 0 show ?thesis by (simp add: onStep_0 startX_def goesDown_def)
next
  case (Suc e)
  assume on: "onStep d k"
  note far = far_Suc(3,4) [OF on [unfolded Suc], of a b]
  show ?thesis
    using far far_nonneg [of e "k + 1" a b] far_nonneg [of e "k - 1" a b]
    unfolding Suc by (cases "goesDown (frontier a b (Suc e)) (int (Suc e)) k") auto
qed

text \<open>One round of the walk back: along the equal lines to where the step began.\<close>

definition previousK :: "(int \<Rightarrow> int) \<Rightarrow> nat \<Rightarrow> int \<Rightarrow> int" where
  "previousK v d k = (if goesDown v (int d) k then k + 1 else k - 1)"

lemma unwind_snake:
  assumes on: "onStep d k" and x: "x = far a b d k" "x \<le> int (length a)" "x - k \<le> int (length b)"
    and out: "oldSide out = drop (nat x) a" "newSide out = drop (nat (x - k)) b"
    and v: "v = slice (frontier a b d) (int d)" and p: "p = previousK v d k"
    and t: "t = startX (frontier a b d) (int d) k"
  shows "\<exists>out'. backSnake a (v p) (v p - p) x (x - k) out = (t, t - k, out') \<and>
     oldSide out' = drop (nat t) a \<and> newSide out' = drop (nat (t - k)) b \<and> edits out' = edits out"
proof (rule backSnake_diag)
  have t': "t = (if goesDown v (int d) k then v p else v p + 1)"
    unfolding t startX_slice [OF on, of "frontier a b d", symmetric] v [symmetric] p
    by (simp add: startX_def previousK_def)
  have le: "t \<le> x" using far_reach(1) [of a b d k] x(1) t by simp
  show "v p \<le> x" using t' le by (simp split: if_splits)
  show "v p - p \<le> x - k" using t' le unfolding p previousK_def by (simp split: if_splits)
  show "x - v p \<le> x - k - (v p - p) \<longrightarrow> t = v p" "x - k - (v p - p) \<le> x - v p \<longrightarrow> t = v p - p + k"
    using t' p unfolding previousK_def by (simp_all split: if_splits)
  show "\<forall>i. t \<le> i \<and> i < x \<longrightarrow> getAt a i = getAt b (i - k)"
    using far_reach(4) [of a b d k] x(1) t by simp
  show "0 \<le> t" "0 \<le> t - k" using startX_nonneg [OF on, of a b] t by simp_all
qed (rule x(2) x(3) out)+

declare unwind.simps(2) [simp del]

lemma unwind_round:
  "unwind a b trace (Suc d) x y out =
     (let v = trace ! d; p = previousK v d (x - y);
          (x', y', out') = backSnake a (v p) (v p - p) x y out
      in if 0 < d then
           (if goesDown v (int d) (x - y) then unwind a b trace d x' (y' - 1) (Added (the (getAt b (y' - 1))) # out')
            else unwind a b trace d (x' - 1) y' (Removed (the (getAt a (x' - 1))) # out'))
         else unwind a b trace d x' y' out')"
  by (simp only: unwind.simps Let_def previousK_def)

lemma unwind_sides:
  assumes "\<forall>e<d. trace ! e = slice (frontier a b e) (int e)" "d \<noteq> 0"
    "onStep (d - 1) k" "x = far a b (d - 1) k" "x \<le> int (length a)" "x - k \<le> int (length b)"
    "oldSide out = drop (nat x) a" "newSide out = drop (nat (x - k)) b"
  shows "oldSide (unwind a b trace d x (x - k) out) = a \<and> newSide (unwind a b trace d x (x - k) out) = b
     \<and> edits (unwind a b trace d x (x - k) out) = edits out + (d - 1)"
  using assms
proof (induction d arbitrary: x k out)
  case 0
  then show ?case by simp
next
  case (Suc d)
  let ?v = "slice (frontier a b d) (int d)"
  define t where "t = startX (frontier a b d) (int d) k"
  have v: "trace ! d = ?v" using Suc.prems(1) by simp
  have on: "onStep d k" and x: "x = far a b d k" using Suc.prems(3,4) by simp_all
  obtain out' where o: "backSnake a (?v (previousK ?v d k)) (?v (previousK ?v d k) - previousK ?v d k) x (x - k) out = (t, t - k, out')"
    "oldSide out' = drop (nat t) a" "newSide out' = drop (nat (t - k)) b" "edits out' = edits out"
    using unwind_snake [OF on x Suc.prems(5-8) refl refl t_def] by blast
  have kk: "x - (x - k) = k" by simp
  have unf: "unwind a b trace (Suc d) x (x - k) out =
      (if 0 < d then
         (if goesDown ?v (int d) k then unwind a b trace d t (t - k - 1) (Added (the (getAt b (t - k - 1))) # out')
          else unwind a b trace d (t - 1) (t - k) (Removed (the (getAt a (t - 1))) # out'))
       else unwind a b trace d t (t - k) out')"
    unfolding unwind_round kk v Let_def o(1) by simp
  show ?case
  proof (cases d)
    case 0
    then have "t = 0" "t - k = 0" using on by (simp_all add: t_def onStep_0 startX_def goesDown_def)
    moreover have "unwind a b trace (Suc d) x (x - k) out = out'" using unf 0 by simp
    ultimately show ?thesis using o(2-4) 0 by (simp only:) simp
  next
    case (Suc e)
    note far = far_Suc(3,4) [OF on [unfolded Suc], of a b]
    have le: "t \<le> int (length a)" "t - k \<le> int (length b)"
      using far_reach(1) [of a b d k] Suc.prems(5,6) x t_def by auto
    have tr: "\<forall>e<d. trace ! e = slice (frontier a b e) (int e)" using Suc.prems(1) by simp
    have dn: "goesDown ?v (int d) k = goesDown (frontier a b d) (int d) k" by (rule goesDown_slice [OF on])
    have e: "d - 1 = e" "d - Suc 0 = e" "d \<noteq> 0" using Suc by simp_all
    show ?thesis
    proof (cases "goesDown ?v (int d) k")
      case True
      with far(1) dn have p: "onStep e (k + 1)" "t = far a b e (k + 1)" unfolding t_def Suc by auto
      with far_nonneg [OF p(1), of a b] have y: "0 \<le> t - k - 1" by simp
      then have lt: "nat (t - k - 1) < length b" "nat (t - k) = Suc (nat (t - k - 1))" using le by linarith+
      let ?out = "Added (the (getAt b (t - k - 1))) # out'"
      have k': "t - (k + 1) = t - k - 1" by simp
      have "newSide ?out = drop (nat (t - (k + 1))) b"
        using o(3) lt Cons_nth_drop_Suc [OF lt(1)] getAt_nat [OF y lt(1)] by (simp add: k')
      moreover have "oldSide ?out = drop (nat t) a" using o(2) by simp
      moreover have "t - (k + 1) \<le> int (length b)" using le by simp
      ultimately have "oldSide (unwind a b trace d t (t - (k + 1)) ?out) = a \<and>
          newSide (unwind a b trace d t (t - (k + 1)) ?out) = b \<and>
          edits (unwind a b trace d t (t - (k + 1)) ?out) = edits ?out + (d - 1)"
        using p le(1) by (intro Suc.IH [OF tr]) (simp_all add: e)
      then show ?thesis using unf True o(4) e unfolding k' by simp
    next
      case False
      with far(2) dn have p: "onStep e (k - 1)" "t = far a b e (k - 1) + 1" unfolding t_def Suc by auto
      with far_nonneg [OF p(1), of a b] have x: "0 \<le> t - 1" by simp
      then have lt: "nat (t - 1) < length a" "nat t = Suc (nat (t - 1))" using le by linarith+
      let ?out = "Removed (the (getAt a (t - 1))) # out'"
      have k': "t - 1 - (k - 1) = t - k" by simp
      have "oldSide ?out = drop (nat (t - 1)) a"
        using o(2) lt Cons_nth_drop_Suc [OF lt(1)] getAt_nat [OF x lt(1)] by simp
      moreover have "newSide ?out = drop (nat (t - 1 - (k - 1))) b" using o(3) k' by simp
      moreover have "t - 1 - (k - 1) \<le> int (length b)" "t - 1 \<le> int (length a)" using le k' by simp_all
      ultimately have "oldSide (unwind a b trace d (t - 1) (t - 1 - (k - 1)) ?out) = a \<and>
          newSide (unwind a b trace d (t - 1) (t - 1 - (k - 1)) ?out) = b \<and>
          edits (unwind a b trace d (t - 1) (t - 1 - (k - 1)) ?out) = edits ?out + (d - 1)"
        using p by (intro Suc.IH [OF tr]) (simp_all add: e)
      then show ?thesis using unf False o(4) e unfolding k' by simp
    qed
  qed
qed

subsection \<open>No script is shorter\<close>

text \<open>A script that has read \<open>x\<close> lines of one text and \<open>y\<close> of the other with \<open>d\<close> edits is on a diagonal of
  step \<open>d\<close>, and no further along it than the furthest point.\<close>

lemma script_behind_far:
  "oldSide ds @ restA = a \<Longrightarrow> newSide ds @ restB = b \<Longrightarrow>
     onStep (edits ds) (int (length (oldSide ds)) - int (length (newSide ds))) \<and>
     int (length (oldSide ds)) \<le> far a b (edits ds) (int (length (oldSide ds)) - int (length (newSide ds)))"
proof (induction ds arbitrary: restA restB rule: rev_induct)
  case Nil
  then show ?case using far_nonneg [of 0 0 a b] by (simp add: onStep_0)
next
  case (snoc l ds)
  let ?x = "int (length (oldSide ds))" and ?y = "int (length (newSide ds))" and ?d = "edits ds"
  show ?case
  proof (cases l)
    case (Same s)
    with snoc.prems have ab: "oldSide ds @ s # restA = a" "newSide ds @ s # restB = b" by auto
    from snoc.IH [OF this] have ih: "onStep ?d (?x - ?y)" "?x \<le> far a b ?d (?x - ?y)" by auto
    have "getAt a ?x = Some s" "getAt b ?y = Some s" "?x < int (length a)" "?y < int (length b)"
      using ab by (auto simp: getAt_def)
    then have "far a b ?d (?x - ?y) \<noteq> ?x" using far_reach(3) [of a b ?d "?x - ?y"] by auto
    with ih Same show ?thesis by simp
  next
    case (Removed s)
    with snoc.prems have ab: "oldSide ds @ s # restA = a" "newSide ds @ restB = b" by auto
    from snoc.IH [OF this] have ih: "onStep ?d (?x - ?y)" "?x \<le> far a b ?d (?x - ?y)" by auto
    then have on: "onStep (Suc ?d) (?x + 1 - ?y)" unfolding onStep_def by presburger
    have k: "?x + 1 - ?y - 1 = ?x - ?y" by simp
    from far_Suc(2) [OF on, of a b, unfolded k] ih on Removed show ?thesis by (simp add: algebra_simps)
  next
    case (Added s)
    with snoc.prems have ab: "oldSide ds @ restA = a" "newSide ds @ s # restB = b" by auto
    from snoc.IH [OF this] have ih: "onStep ?d (?x - ?y)" "?x \<le> far a b ?d (?x - ?y)" by auto
    then have on: "onStep (Suc ?d) (?x - (?y + 1))" unfolding onStep_def by presburger
    have k: "?x - (?y + 1) + 1 = ?x - ?y" by simp
    from far_Suc(1) [OF on, of a b, unfolded k] ih on Added show ?thesis by (simp add: algebra_simps)
  qed
qed

lemma script_complete:
  assumes "oldSide ds = a" "newSide ds = b"
  shows "complete a b (edits ds) (int (length a) - int (length b))"
  using script_behind_far [of ds "[]" a "[]" b] assms by (simp add: complete_def)

lemma trivial_script:
  "\<exists>ds. oldSide ds = a \<and> newSide ds = b \<and> edits ds = length a + length b"
proof -
  have r: "oldSide (map Removed a) = a" "newSide (map Removed a) = []" "edits (map Removed a) = length a"
    by (induction a) auto
  have n: "oldSide (map Added b) = []" "newSide (map Added b) = b" "edits (map Added b) = length b"
    by (induction b) auto
  show ?thesis by (rule exI [of _ "map Removed a @ map Added b"]) (simp add: r n)
qed

lemma diffLines_run:
  fixes a b :: "'a list"
  obtains (found) D ds where "diffLines a b e = Some ds" "D \<le> min (length a + length b) e"
      "edits ds = D" "oldSide ds = a" "newSide ds = b" "\<forall>e<D. \<forall>k. \<not> complete a b e k"
  | (none) "diffLines a b e = None" "\<forall>d\<le>min (length a + length b) e. \<forall>k. \<not> complete a b d k"
proof -
  let ?limit = "min (length a + length b) e"
  obtain trace fin where run: "dLoop a b ?limit 0 (\<lambda>_. 0) [] = (trace, fin)" by fastforce
  have res: "if fin then \<exists>D\<ge>0. D \<le> ?limit \<and> (\<exists>k. complete a b D k) \<and> (\<forall>e<D. \<forall>k. \<not> complete a b e k) \<and>
                   trace = map (\<lambda>e. slice (frontier a b e) (int e)) [0..<Suc D]
     else \<forall>e\<le>?limit. \<forall>k. \<not> complete a b e k"
    using dLoop_far [of "[]" a b 0 ?limit trace fin] run by simp
  show thesis
  proof (cases fin)
    case False
    have "diffLines a b e = None" using run False by (simp add: diffLines_def)
    moreover have "\<forall>d\<le>?limit. \<forall>k. \<not> complete a b d k" using res False by simp
    ultimately show ?thesis by (rule none)
  next
    case True
    with res obtain D k where D: "D \<le> ?limit" "complete a b D k" "\<forall>e<D. \<forall>k. \<not> complete a b e k"
      "trace = map (\<lambda>e. slice (frontier a b e) (int e)) [0..<Suc D]" by (simp only: if_True) blast
    from first_complete [OF D(2,3)] have c: "far a b D k = int (length a)" "k = int (length a) - int (length b)"
      by auto
    have tr: "\<forall>e<Suc D. trace ! e = slice (frontier a b e) (int e)"
      unfolding D(4) by (simp del: upt_Suc)
    have on: "onStep D k" using D(2) by (simp add: complete_def)
    have corner: "int (length a) - k = int (length b)" using c(2) by simp
    let ?ds = "unwind a b trace (Suc D) (int (length a)) (int (length b)) []"
    have u: "oldSide ?ds = a \<and> newSide ?ds = b \<and> edits ?ds = edits ([] :: 'a diff_line list) + (Suc D - 1)"
      using unwind_sides [OF tr, of k "int (length a)" "[]"] on c(1) unfolding corner by simp
    have len: "length trace = Suc D" unfolding D(4) by simp
    have "diffLines a b e = Some ?ds"
      using run True len by (simp add: diffLines_def del: unwind.simps)
    then show ?thesis
      by (rule found [of ?ds D]) (use u D(1,3) in simp_all)
  qed
qed

subsection \<open>Folding long unchanged runs\<close>

datatype 'a diff_row = Row "'a diff_line" | Skipped nat

fun isSame :: "'a diff_line \<Rightarrow> bool" where
  "isSame (Same l) = True"
| "isSame _ = False"

definition nearChanges :: "'a diff_line list \<Rightarrow> nat \<Rightarrow> bool list" where
  "nearChanges diff context =
     foldl (\<lambda>near i. if isSame (diff ! i) then near
                     else foldl (\<lambda>near j. near[j := True]) near
                            [i - context ..< Suc (min (length diff - 1) (i + context))])
       (map (\<lambda>_. False) diff) [0 ..< length diff]"

fun foldRows :: "bool list \<Rightarrow> 'a diff_line list \<Rightarrow> nat \<Rightarrow> 'a diff_row list" where
  "foldRows (near # ns) (l # ls) skipped =
     (if near then (if 0 < skipped then [Skipped skipped] else []) @ Row l # foldRows ns ls 0
      else foldRows ns ls (skipped + 1))"
| "foldRows _ _ skipped = (if 0 < skipped then [Skipped skipped] else [])"

definition folded :: "'a diff_line list \<Rightarrow> nat \<Rightarrow> 'a diff_row list" where
  "folded diff context = foldRows (nearChanges diff context) diff 0"

text \<open>The rows a reader sees, laid against the lines they stand for.\<close>

fun covers :: "'a diff_row list \<Rightarrow> 'a diff_line list \<Rightarrow> bool" where
  "covers [] ls \<longleftrightarrow> ls = []"
| "covers (Row l # rs) ls \<longleftrightarrow> (case ls of [] \<Rightarrow> False | l' # ls' \<Rightarrow> l' = l \<and> covers rs ls')"
| "covers (Skipped n # rs) ls \<longleftrightarrow>
     0 < n \<and> n \<le> length ls \<and> list_all isSame (take n ls) \<and> covers rs (drop n ls)"

lemma foldl_mark:
  "(\<forall>j\<in>set js. j < length near) \<Longrightarrow>
     length (foldl (\<lambda>near j. near[j := True]) near js) = length near \<and>
     (\<forall>i<length near. foldl (\<lambda>near j. near[j := True]) near js ! i \<longleftrightarrow> near ! i \<or> i \<in> set js)"
  by (induction js arbitrary: near) (auto simp: nth_list_update)

lemma nearChanges_upto:
  "k \<le> length diff \<Longrightarrow>
     length (foldl (\<lambda>near i. if isSame (diff ! i) then near
        else foldl (\<lambda>near j. near[j := True]) near [i - c ..< Suc (min (length diff - 1) (i + c))])
       (map (\<lambda>_. False) diff) [0 ..< k]) = length diff \<and>
     (\<forall>j<length diff. foldl (\<lambda>near i. if isSame (diff ! i) then near
        else foldl (\<lambda>near j. near[j := True]) near [i - c ..< Suc (min (length diff - 1) (i + c))])
       (map (\<lambda>_. False) diff) [0 ..< k] ! j \<longleftrightarrow> (\<exists>i<k. \<not> isSame (diff ! i) \<and> i \<le> j + c \<and> j \<le> i + c))"
  (is "_ \<Longrightarrow> ?P k")
proof (induction k)
  case 0
  then show ?case by simp
next
  case (Suc k)
  let ?near = "foldl (\<lambda>near i. if isSame (diff ! i) then near
        else foldl (\<lambda>near j. near[j := True]) near [i - c ..< Suc (min (length diff - 1) (i + c))])
       (map (\<lambda>_. False) diff) [0 ..< k]"
  from Suc have ih: "length ?near = length diff"
    "\<forall>j<length diff. ?near ! j \<longleftrightarrow> (\<exists>i<k. \<not> isSame (diff ! i) \<and> i \<le> j + c \<and> j \<le> i + c)" by auto
  show ?case
  proof (cases "isSame (diff ! k)")
    case True
    with ih show ?thesis by (simp add: less_Suc_eq) blast
  next
    case False
    let ?js = "[k - c ..< Suc (min (length diff - 1) (k + c))]"
    have js: "j \<in> set ?js \<longleftrightarrow> j < length diff \<and> k \<le> j + c \<and> j \<le> k + c" if "j < length diff" for j
      using that Suc.prems by auto
    have "\<forall>j\<in>set ?js. j < length ?near" using Suc.prems ih(1) by auto
    from foldl_mark [OF this] have m: "length (foldl (\<lambda>near j. near[j := True]) ?near ?js) = length diff"
      "\<forall>j<length diff. foldl (\<lambda>near j. near[j := True]) ?near ?js ! j \<longleftrightarrow> ?near ! j \<or> j \<in> set ?js"
      using ih(1) by auto
    have unf: "foldl (\<lambda>near i. if isSame (diff ! i) then near
        else foldl (\<lambda>near j. near[j := True]) near [i - c ..< Suc (min (length diff - 1) (i + c))])
       (map (\<lambda>_. False) diff) [0 ..< Suc k] = foldl (\<lambda>near j. near[j := True]) ?near ?js"
      using False by (simp only: upt_Suc_append foldl_append foldl.simps if_False)
    show ?thesis unfolding unf using m ih js False by (simp add: less_Suc_eq del: upt_Suc) blast
  qed
qed

lemma nearChanges_nth:
  "length (nearChanges diff c) = length diff"
  "j < length diff \<Longrightarrow> nearChanges diff c ! j \<longleftrightarrow>
     (\<exists>i<length diff. \<not> isSame (diff ! i) \<and> i \<le> j + c \<and> j \<le> i + c)"
  using nearChanges_upto [of "length diff" diff c] by (auto simp: nearChanges_def)

lemma foldRows_covers:
  "length ns = length ls \<Longrightarrow> (\<forall>(n, l)\<in>set (zip ns ls). n \<or> isSame l) \<Longrightarrow> list_all isSame pre \<Longrightarrow>
     length pre = s \<Longrightarrow> covers (foldRows ns ls s) (pre @ ls)"
proof (induction ns ls s arbitrary: pre rule: foldRows.induct)
  case (1 near ns l ls skipped)
  show ?case
  proof (cases near)
    case True
    with 1 have "covers (foldRows ns ls 0) ([] @ ls)" by (intro "1.IH"(1)) auto
    with True "1.prems" show ?thesis by auto
  next
    case False
    with "1.prems" have "covers (foldRows ns ls (skipped + 1)) ((pre @ [l]) @ ls)"
      by (intro "1.IH"(2)) auto
    with False show ?thesis by simp
  qed
qed auto

lemma foldRows_shown:
  "length ns = length ls \<Longrightarrow> List.map_filter (\<lambda>r. case r of Row l \<Rightarrow> Some l | Skipped _ \<Rightarrow> None) (foldRows ns ls s)
     = map snd (filter fst (zip ns ls))"
  by (induction ns ls s rule: foldRows.induct) (auto simp: List.map_filter_simps)

subsection \<open>Properties\<close>

text \<open>The line diff of two texts, when it is given, reads as both: the lines kept or removed, joined,
  are the first text, and the lines kept or added are the second.\<close>

theorem lineDiff_sides:
  assumes "lineDiff before after maxEdits = Some ds"
  shows "joinWith [newline] (oldSide ds) = before \<and> joinWith [newline] (newSide ds) = after"
proof -
  have "oldSide ds = splitOn newline before \<and> newSide ds = splitOn newline after"
    using assms unfolding lineDiff_def
    by (cases rule: diffLines_run [of "splitOn newline before" "splitOn newline after" maxEdits]) auto
  then show ?thesis by simp
qed

text \<open>The comparison gives up exactly when every edit script changes more than \<open>maxEdits\<close> lines; so with
  the default bound a diff of at most 2000 changed lines is always found.\<close>

theorem lineDiff_gives_up:
  "lineDiff before after maxEdits = None \<longleftrightarrow>
     (\<forall>ds. oldSide ds = splitOn newline before \<and> newSide ds = splitOn newline after \<longrightarrow> maxEdits < edits ds)"
proof (cases rule: diffLines_run [of "splitOn newline before" "splitOn newline after" maxEdits])
  case (found D ds)
  then show ?thesis unfolding lineDiff_def by (metis min.boundedE not_less option.distinct(1))
next
  case none
  let ?a = "splitOn newline before" and ?b = "splitOn newline after"
  have more: "min (length ?a + length ?b) maxEdits < edits ds" if "oldSide ds = ?a" "newSide ds = ?b" for ds
    using none(2) script_complete [OF that] not_le by blast
  obtain ds0 where "oldSide ds0 = ?a" "newSide ds0 = ?b" "edits ds0 = length ?a + length ?b"
    using trivial_script by blast
  with more have "maxEdits < length ?a + length ?b" by fastforce
  with more none(1) show ?thesis unfolding lineDiff_def by fastforce
qed

text \<open>C17. What the comparison answers is a shortest edit script: its old side is the one text line by line and its
  new side the other, it changes at most as many lines as allowed, and every other script that turns the
  lines of the one text into the lines of the other changes at least as many. It answers none exactly when
  every such script changes more lines than allowed.\<close>

theorem lineDiff_shortest:
  "case lineDiff before after maxEdits of
     Some ds \<Rightarrow> oldSide ds = splitOn newline before \<and> newSide ds = splitOn newline after \<and>
       joinWith [newline] (oldSide ds) = before \<and> joinWith [newline] (newSide ds) = after \<and> edits ds \<le> maxEdits \<and>
       (\<forall>ds'. oldSide ds' = splitOn newline before \<and> newSide ds' = splitOn newline after \<longrightarrow> edits ds \<le> edits ds')
   | None \<Rightarrow> \<forall>ds'. oldSide ds' = splitOn newline before \<and> newSide ds' = splitOn newline after \<longrightarrow> maxEdits < edits ds'"
proof (cases rule: diffLines_run [of "splitOn newline before" "splitOn newline after" maxEdits])
  case (found D ds)
  have "D \<le> edits ds'" if "oldSide ds' = splitOn newline before" "newSide ds' = splitOn newline after" for ds'
    using script_complete [OF that] found(6) not_le by blast
  with found show ?thesis by (simp add: lineDiff_def)
next
  case none
  then have "lineDiff before after maxEdits = None" by (simp add: lineDiff_def)
  with lineDiff_gives_up [of before after maxEdits] show ?thesis by simp
qed

text \<open>Folding a diff hides no change: the rows stand for the lines in order, a folded run holds only
  unchanged lines, and the lines shown are exactly those within \<open>context\<close> lines of a change.\<close>

theorem folded_hides_no_change:
  "covers (folded diff context) diff \<and>
   List.map_filter (\<lambda>r. case r of Row l \<Rightarrow> Some l | Skipped _ \<Rightarrow> None) (folded diff context) =
     map (\<lambda>j. diff ! j) (filter (\<lambda>j. \<exists>i<length diff. \<not> isSame (diff ! i) \<and> i \<le> j + context \<and> j \<le> i + context)
       [0..<length diff])"
proof
  have "\<forall>(n, l)\<in>set (zip (nearChanges diff context) diff). n \<or> isSame l"
    using nearChanges_nth(1) [of diff "context"] nearChanges_nth(2) [of _ diff "context"]
    by (auto simp: set_zip) (metis le_add1)
  then show "covers (folded diff context) diff"
    using foldRows_covers [of "nearChanges diff context" diff "[]" 0] nearChanges_nth(1) [of diff "context"]
    by (simp add: folded_def)
  have z: "zip (nearChanges diff context) diff = map (\<lambda>j. (nearChanges diff context ! j, diff ! j)) [0..<length diff]"
    using nearChanges_nth(1) [of diff "context"] by (intro nth_equalityI) auto
  show "List.map_filter (\<lambda>r. case r of Row l \<Rightarrow> Some l | Skipped _ \<Rightarrow> None) (folded diff context) =
     map (\<lambda>j. diff ! j) (filter (\<lambda>j. \<exists>i<length diff. \<not> isSame (diff ! i) \<and> i \<le> j + context \<and> j \<le> i + context)
       [0..<length diff])"
    unfolding folded_def foldRows_shown [OF nearChanges_nth(1)] z
    by (auto simp: filter_map comp_def nearChanges_nth(2) intro!: arg_cong [where f = "map _"] filter_cong)
qed

subsection \<open>A worked comparison\<close>

definition ex_before :: string where
  "ex_before = ''a'' @ newline # ''b'' @ newline # ''c''"

definition ex_after :: string where
  "ex_after = ''b'' @ newline # ''x'' @ newline # ''c''"

definition ex_diff :: "string diff_line list" where
  "ex_diff = [Removed ''a'', Same ''b'', Added ''x'', Same ''c'']"

lemma ex_lineDiff: "lineDiff ex_before ex_after MAX_EDITS = Some ex_diff"
  by code_simp

theorem lineDiff_sides_witness: "joinWith [newline] (newSide ex_diff) = ex_after"
  using lineDiff_sides [OF ex_lineDiff] by blast

theorem lineDiff_shortest_witness:
  "oldSide ex_diff = splitOn newline ex_before \<and> newSide ex_diff = splitOn newline ex_after \<and> edits ex_diff \<le> edits (map Removed (splitOn newline ex_before) @ map Added (splitOn newline ex_after))"
proof -
  have "oldSide (map Removed (splitOn newline ex_before) @ map Added (splitOn newline ex_after)) = splitOn newline ex_before \<and>
    newSide (map Removed (splitOn newline ex_before) @ map Added (splitOn newline ex_after)) = splitOn newline ex_after"
    by code_simp
  with lineDiff_shortest [of ex_before ex_after MAX_EDITS, unfolded ex_lineDiff option.case] show ?thesis by blast
qed

theorem lineDiff_gives_up_witness:
  "lineDiff ex_before ex_after 1 = None \<and>
   1 < edits (map Removed (splitOn newline ex_before) @ map Added (splitOn newline ex_after))"
proof -
  have "lineDiff ex_before ex_after 1 = None" by code_simp
  moreover have "oldSide (map Removed (splitOn newline ex_before) @ map Added (splitOn newline ex_after)) = splitOn newline ex_before \<and>
    newSide (map Removed (splitOn newline ex_before) @ map Added (splitOn newline ex_after)) = splitOn newline ex_after"
    by code_simp
  ultimately show ?thesis using lineDiff_gives_up [of ex_before ex_after 1] by blast
qed
end
