(* ===== verification/Conflict.thy ===== *)
theory Conflict
  imports Sync_Types "HOL-Library.List_Lexorder" "HOL-Library.Char_ord"
begin

text \<open>
  The names of conflict copies (\<open>plugin/src/conflict.ts\<close>): \<open>conflictCopyName\<close> writes one,
  \<open>originalOf\<close> reads it back, \<open>copiesOf\<close> pairs a note with its copies. The regular expression of the
  source, lazy in its first group and greedy after it, is the first position whose rest matches,
  with the last closing bracket ending the device's name. The clock's reading is the ISO string it
  prints.
\<close>

subsection \<open>Writing the name\<close>

definition dot :: char where
  "dot = CHR ''.''"

definition closing :: char where
  "closing = CHR '')''"

definition dirPrefix :: "path \<Rightarrow> path" where
  "dirPrefix p = (case lastIndexOf slash p of None \<Rightarrow> [] | Some i \<Rightarrow> take (Suc i) p)"

text \<open>\<open>stem\<close> and \<open>ext\<close>; a dot at position 0 does not start an extension.\<close>

definition stemExt :: "string \<Rightarrow> string \<times> string" where
  "stemExt name =
     (case lastIndexOf dot name of
        None \<Rightarrow> (name, [])
      | Some d \<Rightarrow> if d \<le> 0 then (name, []) else (take d name, drop d name))"

definition conflictCopyName :: "path \<Rightarrow> string \<Rightarrow> string \<Rightarrow> path" where
  "conflictCopyName p device now =
     (let (stem, ext) = stemExt (basePath p)
      in dirPrefix p @ stem @ '' (conflict '' @ take 10 now @ '' '' @ device @ closing # ext)"

subsection \<open>Reading it back\<close>

definition isDigit :: "char \<Rightarrow> bool" where
  "isDigit c \<longleftrightarrow> c \<in> set ''0123456789''"

definition lineBreak :: "char \<Rightarrow> bool" where
  "lineBreak c \<longleftrightarrow> c = CHR 0x0A \<or> c = CHR 0x0D"

text \<open>\<open>\d{4}-\d{2}-\d{2}\<close>\<close>

definition isDate :: "string \<Rightarrow> bool" where
  "isDate s \<longleftrightarrow> length s = 10 \<and>
     list_all (\<lambda>i. isDigit (s ! i)) [0, 1, 2, 3, 5, 6, 8, 9] \<and> s ! 4 = CHR ''-'' \<and> s ! 7 = CHR ''-''"

definition marker :: string where
  "marker = '' (conflict ''"

text \<open>What follows the date and its space, at a position where the marker stands.\<close>

definition afterMarker :: "string \<Rightarrow> string option" where
  "afterMarker s =
     (if startsWith s marker
      then (let r = drop (length marker) s
            in if isDate (take 10 r) \<and> startsWith (drop 10 r) '' '' then Some (drop 11 r) else None)
      else None)"

definition plainExt :: "string \<Rightarrow> bool" where
  "plainExt e \<longleftrightarrow> e = [] \<or> (hd e = dot \<and> list_all (\<lambda>c. c \<notin> set ''./()'') (tl e))"

text \<open>\<open>.*\)(\.[^./()]*)?$\<close>: the last closing bracket is the only one that can end the device.\<close>

definition matchTail :: "string \<Rightarrow> string option" where
  "matchTail s =
     (case lastIndexOf closing s of
        None \<Rightarrow> None
      | Some j \<Rightarrow>
          if list_all (\<lambda>c. \<not> lineBreak c) (take j s) \<and> plainExt (drop (Suc j) s)
          then Some (drop (Suc j) s) else None)"

definition matchHere :: "string \<Rightarrow> string option" where
  "matchHere s = (case afterMarker s of None \<Rightarrow> None | Some r \<Rightarrow> matchTail r)"

fun matchCopy :: "string \<Rightarrow> string \<Rightarrow> (string \<times> string) option" where
  "matchCopy pre [] = None"
| "matchCopy pre (c # cs) =
     (case matchHere (c # cs) of
        Some ext \<Rightarrow> Some (pre, ext)
      | None \<Rightarrow> if lineBreak c then None else matchCopy (pre @ [c]) cs)"

definition originalOf :: "path \<Rightarrow> path option" where
  "originalOf copy =
     (case matchCopy [] (basePath copy) of
        None \<Rightarrow> None
      | Some (stem, ext) \<Rightarrow> Some (dirPrefix copy @ stem @ ext))"

definition copiesOf :: "path \<Rightarrow> path list \<Rightarrow> path list" where
  "copiesOf note paths = sort (filter (\<lambda>p. originalOf p = Some note) paths)"

subsection \<open>Which files a line diff is for\<close>

definition TEXT_EXTENSIONS :: "string list" where
  "TEXT_EXTENSIONS = [''md'', ''txt'', ''canvas'', ''json'', ''css'', ''js'', ''csv'', ''yaml'', ''yml'', ''html'', ''xml'', ''svg'']"

definition toLower :: "char \<Rightarrow> char" where
  "toLower c = (if 65 \<le> (of_char c :: nat) \<and> (of_char c :: nat) \<le> 90 then char_of ((of_char c :: nat) + 32) else c)"

definition isText :: "path \<Rightarrow> bool" where
  "isText p =
     (List.map toLower (case lastIndexOf dot p of None \<Rightarrow> p | Some i \<Rightarrow> drop (Suc i) p) \<in> set TEXT_EXTENSIONS)"

subsection \<open>The round trip\<close>

lemma dir_base: "dirPrefix p @ basePath p = p"
proof (cases "lastIndexOf slash p")
  case None
  then show ?thesis unfolding dirPrefix_def basePath_def by (simp only: option.case append_Nil)
next
  case (Some i)
  then show ?thesis by (auto simp: dirPrefix_def basePath_def lastIndexOf_Some)
qed

lemma dirPrefix_append:
  assumes "slash \<notin> set b"
  shows "dirPrefix (dirPrefix p @ b) = dirPrefix p \<and> basePath (dirPrefix p @ b) = b"
proof (cases "lastIndexOf slash p")
  case None
  then have "dirPrefix p = []" unfolding dirPrefix_def by (simp only: option.case)
  moreover have "lastIndexOf slash b = None" using assms by simp
  ultimately show ?thesis by (simp add: dirPrefix_def basePath_def del: lastIndexOf_None)
next
  case (Some i)
  then obtain a r where "p = a @ slash # r" "length a = i" by (auto simp: lastIndexOf_Some)
  with Some have "dirPrefix p = a @ [slash]" by (simp add: dirPrefix_def)
  with assms show ?thesis by (simp add: dirPrefix_def)
qed

lemma stem_ext: "stemExt name = (s, e) \<Longrightarrow> s @ e = name \<and> (e = [] \<or> (\<exists>r. e = dot # r \<and> dot \<notin> set r))"
  by (auto simp: stemExt_def lastIndexOf_Some split: option.splits if_splits)

text \<open>The marker cannot straddle the end of a stem: no proper prefix of \<open> (conflict \<close> is continued by a space.\<close>

lemma marker_nth: "0 < i \<Longrightarrow> i < 10 \<Longrightarrow> marker ! i \<noteq> CHR '' ''"
  by (auto simp: marker_def less_Suc_eq numeral_eq_Suc)

lemma length_marker: "length marker = 11"
  by (simp add: marker_def)

lemma marker_not_straddling:
  assumes "startsWith (u @ '' '' @ r) marker" "u \<noteq> []" "length u < 10"
  shows False
proof -
  from assms(1) obtain z where z: "u @ '' '' @ r = marker @ z" by (auto simp: startsWith_iff)
  have "marker ! length u = (marker @ z) ! length u"
    using assms(3) by (simp add: nth_append length_marker)
  also have "\<dots> = CHR '' ''" unfolding z [symmetric] by simp
  finally show False using marker_nth [of "length u"] assms(2,3) by simp
qed

lemma no_match_in_stem:
  assumes "\<forall>a b. stem \<noteq> a @ '' (conflict'' @ b" "stem = a @ u" "u \<noteq> []"
  shows "afterMarker (u @ '' '' @ r) = None"
proof -
  have "\<not> startsWith (u @ '' '' @ r) marker"
  proof
    assume m: "startsWith (u @ '' '' @ r) marker"
    show False
    proof (cases "length u < 10")
      case True
      with marker_not_straddling [OF m assms(3)] show False by blast
    next
      case False
      from m obtain z where z: "u @ '' '' @ r = marker @ z" by (auto simp: startsWith_iff)
      have "take 10 u = take 10 (u @ '' '' @ r)" using False by simp
      also have "\<dots> = take 10 marker" unfolding z by (simp add: length_marker)
      also have "\<dots> = '' (conflict''" by (simp add: marker_def)
      finally have "u = '' (conflict'' @ drop 10 u" by (metis append_take_drop_id)
      with assms(1,2) show False by metis
    qed
  qed
  then show ?thesis by (simp add: afterMarker_def)
qed

lemma matchCopy_skip:
  assumes "\<forall>a b. stem \<noteq> a @ '' (conflict'' @ b" "\<forall>c\<in>set u. \<not> lineBreak c" "stem = a @ u"
  shows "matchCopy pre (u @ '' '' @ r) = matchCopy (pre @ u) ('' '' @ r)"
  using assms(2,3)
proof (induction u arbitrary: pre a)
  case Nil
  then show ?case by simp
next
  case (Cons c u)
  have "matchHere ((c # u) @ '' '' @ r) = None"
    using no_match_in_stem [OF assms(1) Cons.prems(2)] by (simp add: matchHere_def)
  with Cons.IH [of "a @ [c]" "pre @ [c]"] Cons.prems show ?case by simp
qed

lemma isDate_chars: "isDate s \<Longrightarrow> c \<in> set s \<Longrightarrow> isDigit c \<or> c = CHR ''-''"
proof -
  assume d: "isDate s" and "c \<in> set s"
  then obtain i where i: "i < 10" "s ! i = c" by (auto simp: in_set_conv_nth isDate_def)
  then have "i \<in> set [0, 1, 2, 3, 5, 6, 8, 9] \<or> i = 4 \<or> i = 7" by auto
  with d i(2) show ?thesis by (auto simp: isDate_def list_all_iff simp del: list.set)
qed

lemma isDate_no_slash: "isDate s \<Longrightarrow> slash \<notin> set s"
  using isDate_chars [of s slash] by (auto simp: isDigit_def slash_def)

lemma matchTail_copy:
  "\<forall>c\<in>set device. \<not> lineBreak c \<Longrightarrow> plainExt ext \<Longrightarrow> matchTail (device @ closing # ext) = Some ext"
proof -
  assume "\<forall>c\<in>set device. \<not> lineBreak c" and e: "plainExt ext"
  moreover have "closing \<notin> set ext"
    using e by (cases ext) (auto simp: plainExt_def closing_def dot_def list_all_iff)
  ultimately show ?thesis by (simp add: matchTail_def list_all_iff)
qed

lemma matchCopy_copy:
  assumes "isDate (take 10 now)" "matchTail r = Some ext"
  shows "matchCopy pre ('' '' @ ''(conflict '' @ take 10 now @ '' '' @ r) = Some (pre, ext)"
proof -
  have "length (take 10 now) = 10" using assms(1) by (simp add: isDate_def)
  then have l: "min (length now) 10 = 10" by simp
  have m: "'' '' @ ''(conflict '' @ take 10 now @ '' '' @ r = marker @ take 10 now @ '' '' @ r"
    by (simp add: marker_def)
  have "afterMarker (marker @ take 10 now @ '' '' @ r) = Some r"
    using assms(1) l by (simp add: afterMarker_def startsWith_def [of "CHR '' '' # r"])
  with assms(2) have "matchHere (marker @ take 10 now @ '' '' @ r) = Some ext"
    by (simp add: matchHere_def)
  then show ?thesis unfolding m [symmetric] by simp
qed

lemma conflictCopyName_longer: "length p < length (conflictCopyName p device now)"
proof -
  obtain stem ext where se: "stemExt (basePath p) = (stem, ext)" by fastforce
  from stem_ext [OF se] have "stem @ ext = basePath p" by simp
  then have "length p = length (dirPrefix p) + length stem + length ext"
    using dir_base [of p] by (metis length_append add.assoc)
  with se show ?thesis by (simp add: conflictCopyName_def)
qed

subsection \<open>Properties\<close>

text \<open>C27. A conflict copy is read back as the note it was made from, and found among its copies: for a file
  name without line breaks whose stem does not itself hold the words \<open> (conflict\<close> and whose extension
  holds no bracket, a device name without slashes or line breaks, and a clock that prints a date.\<close>

theorem conflictCopy_roundtrip:
  assumes "stemExt (basePath p) = (stem, ext)"
    and "\<forall>a b. stem \<noteq> a @ '' (conflict'' @ b" and "\<forall>c\<in>set (basePath p). \<not> lineBreak c"
    and "CHR ''('' \<notin> set ext" and "closing \<notin> set ext"
    and "\<forall>c\<in>set device. \<not> lineBreak c \<and> c \<noteq> slash" and "isDate (take 10 now)"
  shows "originalOf (conflictCopyName p device now) = Some p \<and>
     (conflictCopyName p device now \<in> set paths \<longrightarrow> conflictCopyName p device now \<in> set (copiesOf p paths))"
proof -
  from stem_ext [OF assms(1)] have se: "stem @ ext = basePath p"
    and dot: "ext = [] \<or> (\<exists>r. ext = dot # r \<and> dot \<notin> set r)" by auto
  have no_slash: "slash \<notin> set stem" "slash \<notin> set ext"
    using basePath_no_slash [of p] unfolding se [symmetric] by auto
  have "plainExt ext"
    using dot assms(4,5) no_slash(2)
    by (auto simp: plainExt_def list_all_iff closing_def dot_def slash_def)
  then have tail: "matchTail (device @ closing # ext) = Some ext"
    using assms(6) by (intro matchTail_copy) auto
  let ?b = "stem @ '' '' @ ''(conflict '' @ take 10 now @ '' '' @ device @ closing # ext"
  have name: "conflictCopyName p device now = dirPrefix p @ ?b"
    by (simp add: conflictCopyName_def assms(1))
  have "slash \<notin> set (take 10 now)" by (rule isDate_no_slash [OF assms(7)])
  then have "slash \<notin> set ?b" using no_slash assms(6) by (auto simp: slash_def closing_def)
  then have parts: "dirPrefix (dirPrefix p @ ?b) = dirPrefix p" "basePath (dirPrefix p @ ?b) = ?b"
    using dirPrefix_append by auto
  have "\<forall>c\<in>set stem. \<not> lineBreak c" using assms(3) unfolding se [symmetric] by simp
  then have "matchCopy [] ?b = Some (stem, ext)"
    using matchCopy_skip [OF assms(2), of stem "[]" "[]" "''(conflict '' @ take 10 now @ '' '' @ device @ closing # ext"]
      matchCopy_copy [OF assms(7) tail, of stem]
    by simp
  then have "originalOf (conflictCopyName p device now) = Some (dirPrefix p @ stem @ ext)"
    unfolding originalOf_def name parts by simp
  then have orig: "originalOf (conflictCopyName p device now) = Some p"
    using se dir_base [of p] by simp
  then show ?thesis by (simp add: copiesOf_def)
qed

text \<open>A conflict copy stands beside its note under another name: same folder, and the name is longer, so
  making one never names the note itself.\<close>

theorem conflictCopy_beside:
  assumes "\<forall>c\<in>set device. c \<noteq> slash" and "isDate (take 10 now)"
  shows "parentPath (conflictCopyName p device now) = parentPath p \<and>
    length p < length (conflictCopyName p device now)"
proof -
  obtain stem ext where se: "stemExt (basePath p) = (stem, ext)" by fastforce
  from stem_ext [OF se] have s: "stem @ ext = basePath p" by simp
  let ?b = "stem @ '' (conflict '' @ take 10 now @ '' '' @ device @ closing # ext"
  have name: "conflictCopyName p device now = dirPrefix p @ ?b"
    by (simp add: conflictCopyName_def se)
  have "slash \<notin> set (take 10 now)" by (rule isDate_no_slash [OF assms(2)])
  then have b: "slash \<notin> set ?b"
    using assms(1) basePath_no_slash [of p] unfolding s [symmetric] by (auto simp: slash_def closing_def)
  have "parentPath (dirPrefix p @ ?b) = parentPath p"
  proof (cases "lastIndexOf slash p")
    case None
    then have "dirPrefix p = []" "parentPath p = []"
      unfolding dirPrefix_def parentPath_def by (simp_all only: option.case)
    with b show ?thesis by simp
  next
    case (Some i)
    then obtain a r where "p = a @ slash # r" "length a = i" "slash \<notin> set r" by (auto simp: lastIndexOf_Some)
    moreover from this Some have "dirPrefix p = a @ [slash]" by (simp add: dirPrefix_def)
    ultimately show ?thesis using b by simp
  qed
  then show ?thesis using conflictCopyName_longer [of p device now] unfolding name by blast
qed

text \<open>An extension that holds a bracket breaks the pairing: the copy of \<open>a.b(c)\<close> is taken for a copy of
  another note, \<open>a\<close>.\<close>

lemma conflictCopy_bracket_extension:
  "originalOf (conflictCopyName ''d/a.b(c)'' ''laptop'' ''2026-08-01T00:00:00.000Z'') = Some ''d/a''"
  by code_simp

theorem conflictCopy_roundtrip_witness:
  "originalOf (conflictCopyName ''d/Note.md'' ''my (new) laptop'' ''2026-08-01T00:00:00.000Z'') = Some ''d/Note.md''"
proof -
  have "stemExt (basePath ''d/Note.md'') = (''Note'', ''.md'')" by code_simp
  moreover have "\<forall>a b. ''Note'' \<noteq> a @ '' (conflict'' @ b"
  proof (intro allI notI)
    fix a b :: string assume "''Note'' = a @ '' (conflict'' @ b"
    then have "length ''Note'' = length (a @ '' (conflict'' @ b)" by (rule arg_cong)
    then show False by simp
  qed
  moreover have "\<forall>c\<in>set (basePath ''d/Note.md''). \<not> lineBreak c" "CHR ''('' \<notin> set ''.md''" "closing \<notin> set ''.md''"
    "\<forall>c\<in>set ''my (new) laptop''. \<not> lineBreak c \<and> c \<noteq> slash" "isDate (take 10 ''2026-08-01T00:00:00.000Z'')"
    by code_simp+
  ultimately show ?thesis
    using conflictCopy_roundtrip [of "''d/Note.md''" "''Note''" "''.md''" "''my (new) laptop''"] by blast
qed

theorem conflictCopy_beside_witness:
  "parentPath (conflictCopyName ''d/Note.md'' ''laptop'' ''2026-08-01T00:00:00.000Z'') = parentPath ''d/Note.md''"
proof -
  have "\<forall>c\<in>set ''laptop''. c \<noteq> slash" "isDate (take 10 ''2026-08-01T00:00:00.000Z'')" by code_simp+
  then show ?thesis using conflictCopy_beside by blast
qed

end
