(* ===== verification/Effects.thy ===== *)
theory Effects
  imports Prelude
begin

text \<open>
  Code that reads and writes a state, may throw, and keeps what it wrote before it threw: a function
  from the state to a result (the thrown message on the left) and the state. \<open>await\<close> is sequencing;
  \<open>try\<close>/\<open>catch\<close> is \<open>io_try\<close>, which resumes from the state the exception left behind.

  The lemmas are the rules a proof about such code uses: a Hoare triple \<open>holds\<close> with one postcondition
  for every way out, because an error path keeps its effects too.
\<close>

type_synonym ('w, 'a) io = "'w \<Rightarrow> (string + 'a) \<times> 'w"

definition io_ret :: "'a \<Rightarrow> ('w, 'a) io" where
  "io_ret a = (\<lambda>w. (Inr a, w))"

definition io_throw :: "string \<Rightarrow> ('w, 'a) io" where
  "io_throw e = (\<lambda>w. (Inl e, w))"

definition io_bind :: "('w, 'a) io \<Rightarrow> ('a \<Rightarrow> ('w, 'b) io) \<Rightarrow> ('w, 'b) io" where
  "io_bind m f = (\<lambda>w. case m w of (Inl e, w') \<Rightarrow> (Inl e, w') | (Inr a, w') \<Rightarrow> f a w')"

definition io_seq :: "('w, unit) io \<Rightarrow> ('w, 'b) io \<Rightarrow> ('w, 'b) io" where
  "io_seq m n = io_bind m (\<lambda>_. n)"

definition io_get :: "('w \<Rightarrow> 'a) \<Rightarrow> ('w, 'a) io" where
  "io_get f = (\<lambda>w. (Inr (f w), w))"

definition io_mod :: "('w \<Rightarrow> 'w) \<Rightarrow> ('w, unit) io" where
  "io_mod f = (\<lambda>w. (Inr (), f w))"

definition io_try :: "('w, 'a) io \<Rightarrow> (string \<Rightarrow> ('w, 'a) io) \<Rightarrow> ('w, 'a) io" where
  "io_try m h = (\<lambda>w. case m w of (Inl e, w') \<Rightarrow> h e w' | (Inr a, w') \<Rightarrow> (Inr a, w'))"

definition io_when :: "bool \<Rightarrow> ('w, unit) io \<Rightarrow> ('w, unit) io" where
  "io_when b m = (if b then m else io_ret ())"

definition io_lift :: "(string + 'a) \<Rightarrow> ('w, 'a) io" where
  "io_lift r = (\<lambda>w. (r, w))"

fun io_each :: "('x \<Rightarrow> ('w, unit) io) \<Rightarrow> 'x list \<Rightarrow> ('w, unit) io" where
  "io_each f [] = io_ret ()"
| "io_each f (x # xs) = io_seq (f x) (io_each f xs)"

fun io_filter :: "('x \<Rightarrow> ('w, bool) io) \<Rightarrow> 'x list \<Rightarrow> ('w, 'x list) io" where
  "io_filter f [] = io_ret []"
| "io_filter f (x # xs) =
     io_bind (f x) (\<lambda>keep. io_bind (io_filter f xs) (\<lambda>ys. io_ret (if keep then x # ys else ys)))"

fun io_map :: "('x \<Rightarrow> ('w, 'y) io) \<Rightarrow> 'x list \<Rightarrow> ('w, 'y list) io" where
  "io_map f [] = io_ret []"
| "io_map f (x # xs) = io_bind (f x) (\<lambda>y. io_bind (io_map f xs) (\<lambda>ys. io_ret (y # ys)))"

lemma io_bind_get: "io_bind (io_get f) g w = g (f w) w"
  by (simp add: io_bind_def io_get_def)

subsection \<open>Triples\<close>

text \<open>\<open>holds P m Q R\<close>: from a state with \<open>P\<close>, a normal result satisfies \<open>Q\<close> and a thrown one \<open>R\<close>.\<close>

definition holds ::
  "('w \<Rightarrow> bool) \<Rightarrow> ('w, 'a) io \<Rightarrow> ('a \<Rightarrow> 'w \<Rightarrow> bool) \<Rightarrow> ('w \<Rightarrow> bool) \<Rightarrow> bool"
where
  "holds P m Q R \<longleftrightarrow> (\<forall>w. P w \<longrightarrow> (case m w of (Inl e, w') \<Rightarrow> R w' | (Inr a, w') \<Rightarrow> Q a w'))"

text \<open>\<open>always P m\<close>: the state stays in \<open>P\<close> whichever way \<open>m\<close> ends.\<close>

definition always :: "('w \<Rightarrow> bool) \<Rightarrow> ('w, 'a) io \<Rightarrow> bool" where
  "always P m \<longleftrightarrow> (\<forall>w. P w \<longrightarrow> P (snd (m w)))"

named_theorems io_rules \<open>rules that follow the structure of a program\<close>

lemma holds_ret [io_rules]: "(\<And>w. P w \<Longrightarrow> Q a w) \<Longrightarrow> holds P (io_ret a) Q R"
  by (simp add: holds_def io_ret_def)

lemma holds_throw [io_rules]: "(\<And>w. P w \<Longrightarrow> R w) \<Longrightarrow> holds P (io_throw e) Q R"
  by (simp add: holds_def io_throw_def)

lemma holds_bind:
  "holds P m Q' R \<Longrightarrow> (\<And>a. holds (Q' a) (f a) Q R) \<Longrightarrow> holds P (io_bind m f) Q R"
  by (fastforce simp: holds_def io_bind_def split: prod.splits sum.splits)

lemma holds_seq: "holds P m (\<lambda>_. Q') R \<Longrightarrow> holds Q' n Q R \<Longrightarrow> holds P (io_seq m n) Q R"
  unfolding io_seq_def by (rule holds_bind)

lemma holds_try:
  "holds P m Q R' \<Longrightarrow> (\<And>e. holds R' (h e) Q R) \<Longrightarrow> holds P (io_try m h) Q R"
  by (fastforce simp: holds_def io_try_def split: prod.splits sum.splits)

lemma holds_weaken:
  "holds P' m Q' R' \<Longrightarrow> (\<And>w. P w \<Longrightarrow> P' w) \<Longrightarrow> (\<And>a w. Q' a w \<Longrightarrow> Q a w) \<Longrightarrow> (\<And>w. R' w \<Longrightarrow> R w) \<Longrightarrow>
   holds P m Q R"
  by (fastforce simp: holds_def split: prod.splits sum.splits)

lemma holds_always: "always P m \<longleftrightarrow> holds P m (\<lambda>_. P) P"
  by (auto simp: holds_def always_def split: prod.splits sum.splits) (metis snd_conv sum.exhaust prod.collapse)+

lemma always_ret [io_rules]: "always P (io_ret a)"
  by (simp add: always_def io_ret_def)

lemma always_throw [io_rules]: "always P (io_throw e)"
  by (simp add: always_def io_throw_def)

lemma always_get [io_rules]: "always P (io_get f)"
  by (simp add: always_def io_get_def)

lemma always_lift [io_rules]: "always P (io_lift r)"
  by (simp add: always_def io_lift_def)

lemma always_mod: "(\<And>w. P w \<Longrightarrow> P (f w)) \<Longrightarrow> always P (io_mod f)"
  by (simp add: always_def io_mod_def)

lemma always_bind [io_rules]: "always P m \<Longrightarrow> (\<And>a. always P (f a)) \<Longrightarrow> always P (io_bind m f)"
  by (fastforce simp: always_def io_bind_def split: prod.splits sum.splits)

lemma always_seq [io_rules]: "always P m \<Longrightarrow> always P n \<Longrightarrow> always P (io_seq m n)"
  unfolding io_seq_def by (rule always_bind)

lemma always_try [io_rules]: "always P m \<Longrightarrow> (\<And>e. always P (h e)) \<Longrightarrow> always P (io_try m h)"
  by (fastforce simp: always_def io_try_def split: prod.splits sum.splits)

lemma always_when [io_rules]: "(b \<Longrightarrow> always P m) \<Longrightarrow> always P (io_when b m)"
  by (simp add: io_when_def always_ret)

lemma always_each [io_rules]: "(\<And>x. x \<in> set xs \<Longrightarrow> always P (f x)) \<Longrightarrow> always P (io_each f xs)"
  by (induction xs) (auto intro: io_rules)

lemma always_filter [io_rules]: "(\<And>x. x \<in> set xs \<Longrightarrow> always P (f x)) \<Longrightarrow> always P (io_filter f xs)"
  by (induction xs) (auto intro!: io_rules)

lemma always_map [io_rules]: "(\<And>x. x \<in> set xs \<Longrightarrow> always P (f x)) \<Longrightarrow> always P (io_map f xs)"
  by (induction xs) (auto intro!: io_rules)

lemma always_if [io_rules]: "(b \<Longrightarrow> always P m) \<Longrightarrow> (\<not> b \<Longrightarrow> always P n) \<Longrightarrow> always P (if b then m else n)"
  by simp

lemma always_case_option [io_rules]:
  "(x = None \<Longrightarrow> always P m) \<Longrightarrow> (\<And>a. x = Some a \<Longrightarrow> always P (f a)) \<Longrightarrow> always P (case x of None \<Rightarrow> m | Some a \<Rightarrow> f a)"
  by (cases x) auto

lemma always_case_prod [io_rules]: "(\<And>a b. x = (a, b) \<Longrightarrow> always P (f a b)) \<Longrightarrow> always P (case x of (a, b) \<Rightarrow> f a b)"
  by (cases x) auto

lemma always_conj: "always P m \<Longrightarrow> always Q m \<Longrightarrow> always (\<lambda>w. P w \<and> Q w) m"
  by (simp add: always_def)

lemma always_holds: "always P m \<Longrightarrow> holds P m (\<lambda>_. P) P"
  by (simp add: holds_always)

lemma holds_post: "holds P m Q R \<Longrightarrow> (\<And>a w. Q a w \<Longrightarrow> Q' a w) \<Longrightarrow> (\<And>w. R w \<Longrightarrow> R' w) \<Longrightarrow> holds P m Q' R'"
  by (rule holds_weaken)

lemma holds_into_always: "always P m \<Longrightarrow> (\<And>w. P w \<Longrightarrow> Q w) \<Longrightarrow> holds P m (\<lambda>_. Q) Q"
  by (rule holds_weaken [where P' = P and Q' = "\<lambda>_. P" and R' = P]) (auto intro: always_holds)

lemma holds_const: "(C \<Longrightarrow> holds P m Q R) \<Longrightarrow> holds (\<lambda>w. P w \<and> C) m Q R"
  by (auto simp: holds_def)

lemma holds_run: "holds P m (\<lambda>_. Q) Q \<Longrightarrow> P w \<Longrightarrow> Q (snd (m w))"
  by (cases "m w"; cases "fst (m w)") (auto simp: holds_def dest!: spec [of _ w])

lemma alwaysD: "always P m \<Longrightarrow> P w \<Longrightarrow> P (snd (m w))"
  by (simp add: always_def)

lemma holds_both:
  "holds P m Q R \<Longrightarrow> holds P m Q' R' \<Longrightarrow> holds P m (\<lambda>a w. Q a w \<and> Q' a w) (\<lambda>w. R w \<and> R' w)"
  by (fastforce simp: holds_def split: prod.splits sum.splits)

lemma io_each_append: "io_each f (xs @ ys) = io_seq (io_each f xs) (io_each f ys)"
  by (induction xs) (auto simp: io_seq_def io_bind_def io_ret_def fun_eq_iff split: prod.splits sum.splits)

end
