(* ===== verification/Bytes.thy ===== *)
theory Bytes
  imports Prelude "HOL-Library.Word"
begin

text \<open>
  Byte strings and their encodings (\<open>plugin/src/crypto/bytes.ts\<close>): hex, base64 with the platform's
  \<open>btoa\<close> and \<open>atob\<close> written out, UTF-8, and the chunked random fill. A string is the list of its UTF-8
  bytes; \<open>parseInt\<close> in base 16 is modelled as the language has it, signs and trailing garbage included.
\<close>

type_synonym bytes = "8 word list"

subsection \<open>Hex\<close>

definition hexDigit :: "nat \<Rightarrow> char" where
  "hexDigit n = ''0123456789abcdef'' ! n"

definition HEX :: "nat \<Rightarrow> string" where
  "HEX i = [hexDigit (i div 16), hexDigit (i mod 16)]"

definition toHex :: "bytes \<Rightarrow> string" where
  "toHex b = List.concat (map (\<lambda>x. HEX (unat x)) b)"

definition hexValue :: "char \<Rightarrow> nat option" where
  "hexValue c =
     (let n = of_char c in
      if 48 \<le> n \<and> n \<le> 57 then Some (n - 48)
      else if 97 \<le> n \<and> n \<le> 102 then Some (n - 87)
      else if 65 \<le> n \<and> n \<le> 70 then Some (n - 55) else None)"

definition jsSpace :: "char \<Rightarrow> bool" where
  "jsSpace c \<longleftrightarrow> (of_char c :: nat) \<in> {9, 10, 11, 12, 13, 32}"

text \<open>\<open>parseInt(s, 16)\<close>; \<open>None\<close> is \<open>NaN\<close>.\<close>

definition unsignedPart :: "string \<Rightarrow> string" where
  "unsignedPart t = (if t \<noteq> [] \<and> hd t \<in> {CHR ''+'', CHR ''-''} then tl t else t)"

definition parseInt16 :: "string \<Rightarrow> int option" where
  "parseInt16 s =
     (let t = dropWhile jsSpace s;
          u = unsignedPart t;
          v = (if startsWith u ''0x'' \<or> startsWith u ''0X'' then drop 2 u else u);
          ds = takeWhile (\<lambda>c. hexValue c \<noteq> None) v;
          n = foldl (\<lambda>a c. 16 * a + int (the (hexValue c))) 0 ds
      in if ds = [] then None else Some (if t \<noteq> [] \<and> hd t = CHR ''-'' then - n else n))"

fun fromHexPairs :: "string \<Rightarrow> string + bytes" where
  "fromHexPairs (c # d # s) =
     (case parseInt16 [c, d] of
        None \<Rightarrow> Inl ''not hex''
      | Some byte \<Rightarrow> bind_r (fromHexPairs s) (\<lambda>out. Inr (word_of_int byte # out)))"
| "fromHexPairs _ = Inr []"

definition fromHex :: "string \<Rightarrow> string + bytes" where
  "fromHex s = (if length s mod 2 \<noteq> 0 then Inl ''hex string of odd length'' else fromHexPairs s)"

lemma unat_byte: "unat (x :: 8 word) < 256"
  by (rule less_le_trans [OF unsigned_less]) simp

lemma hexDigit_cases:
  assumes "n < 16"
  shows "hexValue (hexDigit n) = Some n \<and> \<not> jsSpace (hexDigit n) \<and> hexDigit n \<notin> {CHR ''+'', CHR ''-'', CHR ''x'', CHR ''X''}"
proof -
  have "list_all (\<lambda>n. hexValue (hexDigit n) = Some n \<and> \<not> jsSpace (hexDigit n) \<and>
      hexDigit n \<notin> {CHR ''+'', CHR ''-'', CHR ''x'', CHR ''X''}) [0..<16]"
    by code_simp
  with assms show ?thesis by (simp add: list_all_iff)
qed

lemma hexValue_digit: "n < 16 \<Longrightarrow> hexValue (hexDigit n) = Some n"
  using hexDigit_cases by blast

lemma hexDigit_plain:
  "n < 16 \<Longrightarrow> \<not> jsSpace (hexDigit n) \<and> hexDigit n \<noteq> CHR ''+'' \<and> hexDigit n \<noteq> CHR ''-'' \<and>
     hexDigit n \<noteq> CHR ''x'' \<and> hexDigit n \<noteq> CHR ''X''"
  using hexDigit_cases by auto

lemma parseInt16_HEX:
  assumes "i < 256"
  shows "parseInt16 (HEX i) = Some (int i)"
proof -
  have hi: "i div 16 < 16" and lo: "i mod 16 < 16" using assms by auto
  have "int i = 16 * int (i div 16) + int (i mod 16)" by (simp add: zdiv_int zmod_int)
  then show ?thesis
    using hexDigit_plain [OF hi] hexDigit_plain [OF lo] hexValue_digit [OF hi] hexValue_digit [OF lo]
    by (simp add: parseInt16_def HEX_def unsignedPart_def startsWith_def Let_def)
qed

lemma length_toHex [simp]: "length (toHex b) = 2 * length b"
  by (induction b) (simp_all add: toHex_def HEX_def)

lemma toHex_Nil [simp]: "toHex [] = []"
  and toHex_Cons: "toHex (x # b) = HEX (unat x) @ toHex b"
  by (simp_all add: toHex_def)

lemma fromHexPairs_toHex: "fromHexPairs (toHex b) = Inr b"
proof (induction b)
  case Nil
  then show ?case by simp
next
  case (Cons x b)
  from parseInt16_HEX [OF unat_byte [of x]] Cons show ?case
    by (simp add: toHex_Cons HEX_def)
qed

subsection \<open>Base64\<close>

definition B64 :: string where
  "B64 = ''ABCDEFGHIJKLMNOPQRSTUVWXYZabcdefghijklmnopqrstuvwxyz0123456789+/''"

text \<open>The four sextets of three octets, a missing octet counting as zero, and back.\<close>

definition sextet1 :: "8 word \<Rightarrow> nat" where "sextet1 a = unat a div 4"
definition sextet2 :: "8 word \<Rightarrow> 8 word \<Rightarrow> nat" where "sextet2 a b = unat a mod 4 * 16 + unat b div 16"
definition sextet3 :: "8 word \<Rightarrow> 8 word \<Rightarrow> nat" where "sextet3 b c = unat b mod 16 * 4 + unat c div 64"
definition sextet4 :: "8 word \<Rightarrow> nat" where "sextet4 c = unat c mod 64"

definition octet1 :: "nat \<Rightarrow> nat \<Rightarrow> 8 word" where "octet1 p q = of_nat (p * 4 + q div 16)"
definition octet2 :: "nat \<Rightarrow> nat \<Rightarrow> 8 word" where "octet2 q r = of_nat (q mod 16 * 16 + r div 4)"
definition octet3 :: "nat \<Rightarrow> nat \<Rightarrow> 8 word" where "octet3 r s = of_nat (r mod 4 * 64 + s)"

fun btoaSextets :: "bytes \<Rightarrow> nat list" where
  "btoaSextets [] = []"
| "btoaSextets [a] = [sextet1 a, sextet2 a 0]"
| "btoaSextets [a, b] = [sextet1 a, sextet2 a b, sextet3 b 0]"
| "btoaSextets (a # b # c # s) = sextet1 a # sextet2 a b # sextet3 b c # sextet4 c # btoaSextets s"

definition btoa :: "bytes \<Rightarrow> string" where
  "btoa b = map (\<lambda>n. B64 ! n) (btoaSextets b) @ replicate ((3 - length b mod 3) mod 3) CHR ''=''"

definition b64Value :: "char \<Rightarrow> nat option" where
  "b64Value c = indexOf c B64"

fun atobGroups :: "nat list \<Rightarrow> bytes" where
  "atobGroups (p # q # r # s # vs) = octet1 p q # octet2 q r # octet3 r s # atobGroups vs"
| "atobGroups [p, q, r] = [octet1 p q, octet2 q r]"
| "atobGroups [p, q] = [octet1 p q]"
| "atobGroups _ = []"

text \<open>The forgiving decoding: whitespace goes, up to two pads of a full last group go, and anything else
  outside the alphabet, or a lone last character, is an error.\<close>

definition unpad :: "string \<Rightarrow> string" where
  "unpad t =
     (if length t mod 4 = 0 \<and> endsWith t ''=='' then take (length t - 2) t
      else if length t mod 4 = 0 \<and> endsWith t ''='' then take (length t - 1) t else t)"

definition atob :: "string \<Rightarrow> string + bytes" where
  "atob s =
     (let u = unpad (filter (\<lambda>c. \<not> jsSpace c) s)
      in if length u mod 4 = 1 \<or> list_ex (\<lambda>c. b64Value c = None) u then Inl ''InvalidCharacterError''
         else Inr (atobGroups (map (\<lambda>c. the (b64Value c)) u)))"

text \<open>The binary string is built in chunks of \<open>0x8000\<close> bytes.\<close>

function binaryString :: "bytes \<Rightarrow> bytes" where
  "binaryString b = (if b = [] then [] else take 32768 b @ binaryString (drop 32768 b))"
  by auto
termination by (relation "measure length") auto

declare binaryString.simps [simp del]

lemma binaryString_id: "binaryString b = b"
  by (induction b rule: binaryString.induct) (subst binaryString.simps, simp)

definition toBase64 :: "bytes \<Rightarrow> string" where
  "toBase64 b = btoa (binaryString b)"

definition fromBase64 :: "string \<Rightarrow> string + bytes" where
  "fromBase64 s = atob s"

lemma b64Value_B64:
  assumes "n < 64"
  shows "b64Value (B64 ! n) = Some n \<and> \<not> jsSpace (B64 ! n) \<and> B64 ! n \<noteq> CHR ''=''"
proof -
  have "list_all (\<lambda>n. b64Value (B64 ! n) = Some n \<and> \<not> jsSpace (B64 ! n) \<and> B64 ! n \<noteq> CHR ''='') [0..<64]"
    by code_simp
  with assms show ?thesis by (simp add: list_all_iff)
qed

lemma digits_byte:
  fixes x :: "8 word"
  shows "unat x div 4 < 64" "unat x div 16 < 16" "unat x div 64 < 4" "unat x mod 4 < 4" "unat x mod 16 < 16" "unat x mod 64 < 64"
  using unat_byte [of x] by auto

lemma sextets: "sextet1 a < 64" "sextet2 a b < 64" "sextet3 b c < 64" "sextet4 c < 64"
  using digits_byte [of a] digits_byte [of b] digits_byte [of c]
  unfolding sextet1_def sextet2_def sextet3_def sextet4_def by linarith+

lemma unpack: "r < k \<Longrightarrow> (m * k + r) div k = (m :: nat)" "r < k \<Longrightarrow> (m * k + r) mod k = r"
  by simp_all

lemma octets:
  "octet1 (sextet1 a) (sextet2 a b) = a" "octet2 (sextet2 a b) (sextet3 b c) = b" "octet3 (sextet3 b c) (sextet4 c) = c"
  unfolding octet1_def octet2_def octet3_def sextet1_def sextet2_def sextet3_def sextet4_def
  by (simp_all only: unpack digits_byte div_mult_mod_eq) simp_all

lemma btoaSextets_below: "list_all (\<lambda>n. n < 64) (btoaSextets b)"
  by (induction b rule: btoaSextets.induct) (simp_all add: sextets)

lemma atobGroups_btoaSextets: "atobGroups (btoaSextets b) = b"
  by (induction b rule: btoaSextets.induct) (simp_all add: octets)

lemma length_btoa:
  "(length (btoaSextets b) + (3 - length b mod 3) mod 3) mod 4 = 0 \<and> length (btoaSextets b) mod 4 \<noteq> 1 \<and>
   (3 - length b mod 3) mod 3 \<le> 2"
proof (induction b rule: btoaSextets.induct)
  case (4 a b c s)
  have "length (a # b # c # s) mod 3 = length s mod 3" by simp
  with 4 show ?case by (simp only: btoaSextets.simps list.size add_Suc add_Suc_right) simp
qed simp_all

lemma b64_chars: "list_all (\<lambda>n. n < 64) ns \<Longrightarrow> c \<in> set (map (\<lambda>n. B64 ! n) ns) \<Longrightarrow> b64Value c \<noteq> None \<and> \<not> jsSpace c \<and> c \<noteq> CHR ''=''"
  using b64Value_B64 by (auto simp: list_all_iff)

lemma b64_values: "list_all (\<lambda>n. n < 64) ns \<Longrightarrow> map (\<lambda>c. the (b64Value c)) (map (\<lambda>n. B64 ! n) ns) = ns"
  by (induction ns) (simp_all add: b64Value_B64)

lemma endsWith_snoc: "endsWith (x @ [c]) (y @ [c]) \<longleftrightarrow> endsWith x y"
  by (auto simp: endsWith_iff simp flip: append_assoc)

lemma endsWith_pads: "c \<notin> set u \<Longrightarrow> endsWith (u @ replicate k c) (replicate j c) \<longleftrightarrow> j \<le> k"
proof (induction j arbitrary: k)
  case 0
  then show ?case by (simp add: endsWith_def)
next
  case (Suc j)
  show ?case
  proof (cases k)
    case 0
    have "u \<noteq> r @ replicate (Suc j) c" for r using Suc.prems by auto
    then show ?thesis using 0 by (auto simp: endsWith_iff)
  next
    case (Suc k')
    have "endsWith (u @ replicate (Suc k') c) (replicate (Suc j) c) \<longleftrightarrow> endsWith (u @ replicate k' c) (replicate j c)"
      using endsWith_snoc [of "u @ replicate k' c" c "replicate j c"] by (simp add: replicate_append_same)
    then show ?thesis using Suc.IH [OF Suc.prems] Suc by simp
  qed
qed

lemma unpad_btoa: "unpad (btoa b) = map (\<lambda>n. B64 ! n) (btoaSextets b)"
proof -
  let ?u = "map (\<lambda>n. B64 ! n) (btoaSextets b)" and ?k = "(3 - length b mod 3) mod 3"
  have "CHR ''='' \<notin> set ?u" using b64_chars [OF btoaSextets_below] by blast
  note pads = endsWith_pads [OF this]
  have two: "endsWith (btoa b) ''=='' \<longleftrightarrow> 2 \<le> ?k" and one: "endsWith (btoa b) ''='' \<longleftrightarrow> 1 \<le> ?k"
    using pads [of ?k 2] pads [of ?k 1] unfolding btoa_def by (simp_all add: numeral_2_eq_2)
  have "length (btoa b) mod 4 = 0" and "?k \<le> 2" using length_btoa [of b] by (simp_all add: btoa_def)
  then consider "?k = 0" | "?k = 1" | "?k = 2" by linarith
  then show ?thesis
    using \<open>length (btoa b) mod 4 = 0\<close> unfolding unpad_def two one by cases (simp_all add: btoa_def)
qed

lemma fromBase64_toBase64: "fromBase64 (toBase64 b) = Inr b"
proof -
  let ?u = "map (\<lambda>n. B64 ! n) (btoaSextets b)"
  note chars = b64_chars [OF btoaSextets_below, of _ b]
  have plain: "\<forall>c\<in>set (btoa b). \<not> jsSpace c" using chars by (auto simp: btoa_def jsSpace_def)
  then have "filter (\<lambda>c. \<not> jsSpace c) (btoa b) = btoa b" by (simp add: filter_id_conv)
  moreover have "\<not> list_ex (\<lambda>c. b64Value c = None) ?u" using chars by (auto simp: list_ex_iff)
  moreover have "length ?u mod 4 \<noteq> 1" using length_btoa [of b] by simp
  ultimately show ?thesis
    unfolding fromBase64_def toBase64_def binaryString_id atob_def Let_def
    by (simp only: unpad_btoa if_False de_Morgan_disj simp_thms)
       (simp only: b64_values [OF btoaSextets_below] atobGroups_btoaSextets)
qed

subsection \<open>UTF-8, joining and random bytes\<close>

definition utf8 :: "string \<Rightarrow> bytes" where
  "utf8 s = map (\<lambda>c. of_nat (of_char c)) s"

definition fromUtf8 :: "bytes \<Rightarrow> string" where
  "fromUtf8 b = map (\<lambda>x. char_of (unat x)) b"

definition concatBytes :: "bytes list \<Rightarrow> bytes" where
  "concatBytes parts = List.concat parts"

lemma fromUtf8_utf8 [simp]: "fromUtf8 (utf8 s) = s"
proof -
  have "unat (of_nat (of_char c) :: 8 word) = of_char c" for c :: char
  proof -
    have "(of_char c :: nat) < 2 ^ 8" by simp
    then show ?thesis by (simp only: unat_of_nat) (simp add: take_bit_nat_eq_self)
  qed
  then show ?thesis by (induction s) (simp_all add: utf8_def fromUtf8_def)
qed

text \<open>The platform's \<open>getRandomValues\<close> refuses more than 65536 bytes a call; \<open>rng at k\<close> is what it draws.\<close>

definition getRandomValues :: "(nat \<Rightarrow> nat \<Rightarrow> bytes) \<Rightarrow> nat \<Rightarrow> nat \<Rightarrow> string + bytes" where
  "getRandomValues rng at k = (if 65536 < k then Inl ''QuotaExceededError'' else Inr (rng at k))"

function randomFrom :: "(nat \<Rightarrow> nat \<Rightarrow> bytes) \<Rightarrow> nat \<Rightarrow> nat \<Rightarrow> string + bytes" where
  "randomFrom rng n at =
     (if n \<le> at then Inr []
      else bind_r (getRandomValues rng at (min (at + 65536) n - at)) (\<lambda>chunk.
           bind_r (randomFrom rng n (at + 65536)) (\<lambda>out. Inr (chunk @ out))))"
  by auto
termination by (relation "measure (\<lambda>(rng, n, at). n - at)") auto

declare randomFrom.simps [simp del]

definition randomBytes :: "(nat \<Rightarrow> nat \<Rightarrow> bytes) \<Rightarrow> nat \<Rightarrow> string + bytes" where
  "randomBytes rng n = randomFrom rng n 0"

lemma randomFrom_length:
  "(\<And>p k. length (rng p k) = k) \<Longrightarrow> \<exists>b. randomFrom rng n at = Inr b \<and> length b = n - at"
proof (induction rng n at rule: randomFrom.induct)
  case (1 rng n at)
  show ?case
  proof (cases "n \<le> at")
    case True
    then show ?thesis by (simp add: randomFrom.simps)
  next
    case False
    then obtain b where "randomFrom rng n (at + 65536) = Inr b" "length b = n - (at + 65536)"
      using 1 by (auto simp: getRandomValues_def)
    with False 1(2) show ?thesis by (subst randomFrom.simps) (auto simp: getRandomValues_def)
  qed
qed

subsection \<open>Properties\<close>

text \<open>Hex reads back what it wrote: every byte string is recovered from its hex, which has two characters
  a byte.\<close>

theorem hex_roundtrip: "fromHex (toHex b) = Inr b \<and> length (toHex b) = 2 * length b"
  by (simp add: fromHex_def fromHexPairs_toHex)

text \<open>Base64 reads back what it wrote, through the chunked binary string, the padding and the
  platform's forgiving decoder.\<close>

theorem base64_roundtrip: "fromBase64 (toBase64 b) = Inr b"
  by (rule fromBase64_toBase64)

text \<open>Random bytes of any length are drawn without meeting the platform's limit of a call, and are as many
  as were asked for.\<close>

theorem randomBytes_any_length:
  assumes "\<And>p k. length (rng p k) = k"
  shows "\<exists>b. randomBytes rng n = Inr b \<and> length b = n"
  using randomFrom_length [of rng n 0, OF assms] by (simp add: randomBytes_def)

theorem randomBytes_any_length_witness:
  "\<exists>b. randomBytes (\<lambda>p k. replicate k 7) 70000 = Inr b \<and> length b = 70000"
  by (rule randomBytes_any_length) simp

text \<open>What \<open>parseInt\<close> ignores passes for hex: a stray character after one digit, a sign, a space.\<close>

lemma fromHex_lenient: "fromHex ''1g'' = Inr [1] \<and> fromHex ''-1'' = Inr [255] \<and> fromHex '' a'' = Inr [10]"
  by code_simp

end
