(* ===== verification/Sealing.thy ===== *)
theory Sealing
  imports Bytes Conflict
begin

text \<open>
  The two sealing formats and what a scope key does (\<open>plugin/src/crypto/format.ts\<close>, \<open>sealed.ts\<close>,
  \<open>blob.ts\<close>, \<open>scope.ts\<close>, \<open>share.ts\<close>). The primitives of the noble libraries, the Unicode tables and the
  platform's randomness are a record of functions; the layouts, their checks in their order, and every
  error are the code's.
\<close>

record primitives =
  pm_xchachaEncrypt :: "bytes \<Rightarrow> bytes \<Rightarrow> bytes \<Rightarrow> bytes \<Rightarrow> bytes"
  pm_xchachaDecrypt :: "bytes \<Rightarrow> bytes \<Rightarrow> bytes \<Rightarrow> bytes \<Rightarrow> string + bytes"
  pm_sha256 :: "bytes \<Rightarrow> bytes"
  pm_hmac :: "bytes \<Rightarrow> bytes \<Rightarrow> bytes"
  pm_nfc :: "string \<Rightarrow> string"
  pm_rng :: "string \<Rightarrow> nat \<Rightarrow> nat \<Rightarrow> nat \<Rightarrow> bytes"
  pm_uuid :: "nat \<Rightarrow> string"

subsection \<open>The blob header\<close>

definition MAGIC :: bytes where "MAGIC = [0x53, 0x59, 0x4e, 0x43]"
definition FORMAT_VERSION :: "8 word" where "FORMAT_VERSION = 1"
definition ALG_XCHACHA20_POLY1305 :: "8 word" where "ALG_XCHACHA20_POLY1305 = 1"
definition NONCE_BYTES :: nat where "NONCE_BYTES = 24"
definition KEY_BYTES :: nat where "KEY_BYTES = 32"
definition UUID_BYTES :: nat where "UUID_BYTES = 16"
definition HEADER_BYTES :: nat where "HEADER_BYTES = length MAGIC + 1 + 1 + UUID_BYTES + NONCE_BYTES"

lemmas format_sizes = MAGIC_def NONCE_BYTES_def KEY_BYTES_def UUID_BYTES_def HEADER_BYTES_def

record header =
  hd_keyId :: string
  hd_nonce :: bytes

fun uuidPairs :: "string \<Rightarrow> bytes" where
  "uuidPairs (c # d # s) =
     word_of_int (case parseInt16 [c, d] of None \<Rightarrow> 0 | Some n \<Rightarrow> n) # uuidPairs s"
| "uuidPairs _ = []"

definition uuidToBytes :: "string \<Rightarrow> string + bytes" where
  "uuidToBytes uuid =
     (let hex = filter (\<lambda>c. c \<noteq> CHR ''-'') uuid
      in if length hex \<noteq> UUID_BYTES * 2 \<or> list_ex (\<lambda>c. hexValue c = None) hex then Inl (''not a uuid: '' @ uuid)
         else Inr (uuidPairs hex))"

definition bytesToUuid :: "bytes \<Rightarrow> string + string" where
  "bytesToUuid b =
     (if length b \<noteq> UUID_BYTES then Inl (''a uuid is 16 bytes, got '' @ showNat (length b))
      else (let h = toHex b in
        Inr (take 8 h @ ''-'' @ take 4 (drop 8 h) @ ''-'' @ take 4 (drop 12 h) @ ''-'' @ take 4 (drop 16 h) @ ''-'' @ drop 20 h)))"

definition packHeader :: "header \<Rightarrow> string + bytes" where
  "packHeader h =
     (if length (hd_nonce h) \<noteq> NONCE_BYTES
      then Inl (''nonce must be 24 bytes, got '' @ showNat (length (hd_nonce h)))
      else bind_r (uuidToBytes (hd_keyId h)) (\<lambda>key.
        Inr (MAGIC @ [FORMAT_VERSION, ALG_XCHACHA20_POLY1305] @ key @ hd_nonce h)))"

definition parseHeader :: "bytes \<Rightarrow> string + header" where
  "parseHeader blob =
     (if length blob < HEADER_BYTES then Inl ''too short to hold a header''
      else if take 4 blob \<noteq> MAGIC then Inl ''not a syncserver blob: bad magic''
      else if blob ! 4 \<noteq> FORMAT_VERSION then Inl (''unknown format version '' @ showNat (unat (blob ! 4)))
      else if blob ! 5 \<noteq> ALG_XCHACHA20_POLY1305 then Inl (''unknown algorithm '' @ showNat (unat (blob ! 5)))
      else bind_r (bytesToUuid (take UUID_BYTES (drop 6 blob))) (\<lambda>keyId.
        Inr \<lparr>hd_keyId = keyId, hd_nonce = take NONCE_BYTES (drop 22 blob)\<rparr>))"

lemma toHex_chars: "c \<in> set (toHex b) \<Longrightarrow> hexValue c \<noteq> None \<and> c \<noteq> CHR ''-''"
proof (induction b)
  case Nil
  then show ?case by simp
next
  case (Cons x b)
  have "unat x div 16 < 16" "unat x mod 16 < 16" using unat_byte [of x] by auto
  with Cons show ?case
    using hexDigit_cases [of "unat x div 16"] hexDigit_cases [of "unat x mod 16"] by (auto simp: toHex_Cons HEX_def)
qed

lemma uuidPairs_toHex: "uuidPairs (toHex b) = b"
proof (induction b)
  case Nil
  then show ?case by simp
next
  case (Cons x b)
  with parseInt16_HEX [OF unat_byte [of x]] show ?case by (simp add: toHex_Cons HEX_def)
qed

lemma uuidToBytes_bytesToUuid:
  assumes "bytesToUuid b = Inr u"
  shows "uuidToBytes u = Inr b"
proof -
  let ?h = "toHex b"
  have len: "length b = 16" and u: "u = take 8 ?h @ ''-'' @ take 4 (drop 8 ?h) @ ''-'' @ take 4 (drop 12 ?h) @ ''-'' @ take 4 (drop 16 ?h) @ ''-'' @ drop 20 ?h"
    using assms by (auto simp: bytesToUuid_def Let_def UUID_BYTES_def split: if_splits)
  have keep: "filter (\<lambda>c. c \<noteq> CHR ''-'') s = s" if "set s \<subseteq> set ?h" for s
    using that toHex_chars by (force simp: filter_id_conv)
  have sub: "set (take i (drop j ?h)) \<subseteq> set ?h" for i j by (meson order_trans set_drop_subset set_take_subset)
  have "filter (\<lambda>c. c \<noteq> CHR ''-'') u = take 8 ?h @ take 4 (drop 8 ?h) @ take 4 (drop 12 ?h) @ take 4 (drop 16 ?h) @ drop 20 ?h"
    unfolding u using sub [of 8 0] sub set_drop_subset [of 20 ?h] by (simp add: keep)
  also have "\<dots> = ?h"
    using append_take_drop_id [of 4 "drop 16 ?h"] append_take_drop_id [of 4 "drop 12 ?h"]
      append_take_drop_id [of 4 "drop 8 ?h"] append_take_drop_id [of 8 ?h]
    by (simp only: drop_drop append_assoc) simp
  finally have flt: "filter (\<lambda>c. c \<noteq> CHR ''-'') u = ?h" .
  have "\<not> list_ex (\<lambda>c. hexValue c = None) ?h" using toHex_chars by (auto simp: list_ex_iff)
  then show ?thesis
    unfolding uuidToBytes_def Let_def flt by (simp add: len UUID_BYTES_def uuidPairs_toHex)
qed

lemma length_uuidPairs: "length (uuidPairs s) = length s div 2"
  by (induction s rule: uuidPairs.induct) auto

lemma uuidToBytes_length: "uuidToBytes u = Inr b \<Longrightarrow> length b = 16"
  by (auto simp: uuidToBytes_def Let_def UUID_BYTES_def length_uuidPairs split: if_splits)

lemma packHeader_Inr:
  "packHeader h = Inr hb \<longleftrightarrow>
   length (hd_nonce h) = 24 \<and> (\<exists>key. uuidToBytes (hd_keyId h) = Inr key \<and> hb = MAGIC @ [1, 1] @ key @ hd_nonce h)"
  by (auto simp: packHeader_def bind_r_Inr NONCE_BYTES_def FORMAT_VERSION_def ALG_XCHACHA20_POLY1305_def)

lemma packHeader_length: "packHeader h = Inr hb \<Longrightarrow> length hb = 46"
  by (auto simp: packHeader_Inr MAGIC_def dest: uuidToBytes_length)

lemma parseHeader_Inr:
  "parseHeader blob = Inr h \<longleftrightarrow>
   46 \<le> length blob \<and> take 6 blob = MAGIC @ [1, 1] \<and> bytesToUuid (take 16 (drop 6 blob)) = Inr (hd_keyId h) \<and>
   hd_nonce h = take 24 (drop 22 blob)"
proof -
  have six: "take 6 blob = take 4 blob @ [blob ! 4, blob ! 5]" if "46 \<le> length blob"
  proof -
    show ?thesis
      using take_Suc_conv_app_nth [of 5 blob] take_Suc_conv_app_nth [of 4 blob] that by simp
  qed
  have "take 4 blob @ [blob ! 4, blob ! 5] = MAGIC @ [1, 1] \<longleftrightarrow> take 4 blob = MAGIC \<and> blob ! 4 = 1 \<and> blob ! 5 = 1"
    if "46 \<le> length blob"
    using that by (subst append_eq_append_conv) (auto simp: MAGIC_def)
  with six show ?thesis
    by (cases h) (auto simp: parseHeader_def bind_r_Inr format_sizes FORMAT_VERSION_def ALG_XCHACHA20_POLY1305_def)
qed

subsection \<open>A value wrapped under a key\<close>

definition WRAP_VERSION :: "8 word" where "WRAP_VERSION = 1"
definition MARKER_BYTES :: nat where "MARKER_BYTES = 2"

definition seal :: "primitives \<Rightarrow> nat \<Rightarrow> bytes \<Rightarrow> bytes \<Rightarrow> string + string" where
  "seal pm n key plaintext =
     (let marker = [WRAP_VERSION, ALG_XCHACHA20_POLY1305] in
      bind_r (randomBytes (pm_rng pm ''seal'' n) NONCE_BYTES) (\<lambda>nonce.
        Inr (toBase64 (marker @ nonce @ pm_xchachaEncrypt pm key nonce marker plaintext))))"

definition openSealed :: "primitives \<Rightarrow> bytes \<Rightarrow> string \<Rightarrow> string + bytes" where
  "openSealed pm key sealed =
     bind_r (fromBase64 sealed) (\<lambda>raw.
       if length raw \<le> MARKER_BYTES + NONCE_BYTES
       then Inl ''sealed value is too short to hold a marker and a nonce''
       else if raw ! 0 \<noteq> WRAP_VERSION then Inl (''unknown wrapping version '' @ showNat (unat (raw ! 0)))
       else if raw ! 1 \<noteq> ALG_XCHACHA20_POLY1305 then Inl (''unknown algorithm '' @ showNat (unat (raw ! 1)))
       else pm_xchachaDecrypt pm key (take NONCE_BYTES (drop MARKER_BYTES raw)) (take MARKER_BYTES raw)
              (drop (MARKER_BYTES + NONCE_BYTES) raw))"

subsection \<open>A file sealed into a blob\<close>

record sealed_blob =
  sb_bytes :: bytes
  sb_sha256 :: string
  sb_contentKey :: bytes
  sb_keyId :: string

definition sealBlob :: "primitives \<Rightarrow> nat \<Rightarrow> bytes \<Rightarrow> string + sealed_blob" where
  "sealBlob pm n plaintext =
     bind_r (randomBytes (pm_rng pm ''content key'' n) KEY_BYTES) (\<lambda>contentKey.
     let keyId = pm_uuid pm n in
     bind_r (randomBytes (pm_rng pm ''nonce'' n) NONCE_BYTES) (\<lambda>nonce.
     bind_r (packHeader \<lparr>hd_keyId = keyId, hd_nonce = nonce\<rparr>) (\<lambda>header.
     let bytes = header @ pm_xchachaEncrypt pm contentKey nonce header plaintext in
     Inr \<lparr>sb_bytes = bytes, sb_sha256 = toHex (pm_sha256 pm bytes), sb_contentKey = contentKey, sb_keyId = keyId\<rparr>)))"

definition openBlob :: "primitives \<Rightarrow> bytes \<Rightarrow> bytes \<Rightarrow> string + bytes" where
  "openBlob pm contentKey bytes =
     bind_r (parseHeader bytes) (\<lambda>header.
       pm_xchachaDecrypt pm contentKey (hd_nonce header) (take HEADER_BYTES bytes) (drop HEADER_BYTES bytes))"

subsection \<open>What a scope key does\<close>

record name_fields =
  nf_name_enc :: string
  nf_name_hmac :: string
  nf_name_key_id :: string

definition encryptName :: "primitives \<Rightarrow> nat \<Rightarrow> bytes \<Rightarrow> string \<Rightarrow> string + string" where
  "encryptName pm n scopeKey name = seal pm n scopeKey (utf8 name)"

definition decryptName :: "primitives \<Rightarrow> bytes \<Rightarrow> string \<Rightarrow> string + string" where
  "decryptName pm scopeKey nameEnc = bind_r (openSealed pm scopeKey nameEnc) (\<lambda>b. Inr (fromUtf8 b))"

definition nameHmac :: "primitives \<Rightarrow> bytes \<Rightarrow> string \<Rightarrow> string" where
  "nameHmac pm scopeKey name = toHex (pm_hmac pm scopeKey (utf8 (map toLower (pm_nfc pm name))))"

definition nameUnder :: "primitives \<Rightarrow> nat \<Rightarrow> bytes \<Rightarrow> string \<Rightarrow> string \<Rightarrow> string + name_fields" where
  "nameUnder pm n scopeKey scopeId name =
     bind_r (encryptName pm n scopeKey name) (\<lambda>name_enc.
       Inr \<lparr>nf_name_enc = name_enc, nf_name_hmac = nameHmac pm scopeKey name, nf_name_key_id = scopeId\<rparr>)"

definition wrapContentKey :: "primitives \<Rightarrow> nat \<Rightarrow> bytes \<Rightarrow> bytes \<Rightarrow> string + string" where
  "wrapContentKey pm n scopeKey contentKey = seal pm n scopeKey contentKey"

definition unwrapContentKey :: "primitives \<Rightarrow> bytes \<Rightarrow> string \<Rightarrow> string + bytes" where
  "unwrapContentKey pm scopeKey wrapped = openSealed pm scopeKey wrapped"

definition dedupTag :: "primitives \<Rightarrow> bytes \<Rightarrow> bytes \<Rightarrow> string" where
  "dedupTag pm scopeKey plaintext = toHex (pm_hmac pm scopeKey (pm_sha256 pm plaintext))"

definition dedupTagFromHash :: "primitives \<Rightarrow> bytes \<Rightarrow> string \<Rightarrow> string + string" where
  "dedupTagFromHash pm scopeKey plainHashHex =
     bind_r (fromHex plainHashHex) (\<lambda>h. Inr (toHex (pm_hmac pm scopeKey h)))"

subsection \<open>The share key\<close>

definition newShareKey :: "primitives \<Rightarrow> nat \<Rightarrow> string + bytes" where
  "newShareKey pm n = randomBytes (pm_rng pm ''share key'' n) KEY_BYTES"

definition wrapShareKey :: "primitives \<Rightarrow> nat \<Rightarrow> bytes \<Rightarrow> bytes \<Rightarrow> string + string" where
  "wrapShareKey pm n vaultKey shareKey = seal pm n vaultKey shareKey"

definition unwrapShareKey :: "primitives \<Rightarrow> bytes \<Rightarrow> string \<Rightarrow> string + bytes" where
  "unwrapShareKey pm vaultKey wrapped = openSealed pm vaultKey wrapped"

subsection \<open>What the primitives are trusted for\<close>

text \<open>The AEAD opens what it sealed under the same key, nonce and associated data, and never an empty
  ciphertext; the platform draws as many bytes as asked, and its identifiers are canonical.\<close>

definition primitives_ok :: "primitives \<Rightarrow> bool" where
  "primitives_ok pm \<longleftrightarrow>
     (\<forall>k n a p. pm_xchachaDecrypt pm k n a (pm_xchachaEncrypt pm k n a p) = Inr p) \<and>
     (\<forall>k n a p. pm_xchachaEncrypt pm k n a p \<noteq> []) \<and>
     (\<forall>t n at k. length (pm_rng pm t n at k) = k) \<and>
     (\<forall>n. \<exists>b. bytesToUuid b = Inr (pm_uuid pm n))"

lemma primitives_okD:
  assumes "primitives_ok pm"
  shows "pm_xchachaDecrypt pm k n a (pm_xchachaEncrypt pm k n a p) = Inr p" "pm_xchachaEncrypt pm k n a p \<noteq> []"
    "\<exists>b. randomBytes (pm_rng pm t m) len = Inr b \<and> length b = len" "\<exists>b. bytesToUuid b = Inr (pm_uuid pm m)"
  using assms randomFrom_length [of "pm_rng pm t m" len 0] by (auto simp: primitives_ok_def randomBytes_def)

lemma seal_open:
  assumes "primitives_ok pm"
  shows "\<exists>s. seal pm n key plain = Inr s \<and> openSealed pm key s = Inr plain"
proof -
  obtain nonce where nonce: "randomBytes (pm_rng pm ''seal'' n) 24 = Inr nonce" "length nonce = 24"
    using primitives_okD(3) [OF assms, of "''seal''" n 24] by auto
  define ct where "ct = pm_xchachaEncrypt pm key nonce [1, 1] plain"
  have ct: "ct \<noteq> []" "pm_xchachaDecrypt pm key nonce [1, 1] ct = Inr plain"
    using primitives_okD(1,2) [OF assms] by (simp_all add: ct_def)
  have "seal pm n key plain = Inr (toBase64 ([1, 1] @ nonce @ ct))"
    using nonce by (simp add: seal_def Let_def WRAP_VERSION_def ALG_XCHACHA20_POLY1305_def NONCE_BYTES_def ct_def)
  moreover have "openSealed pm key (toBase64 ([1, 1] @ nonce @ ct)) = Inr plain"
    using nonce ct by (simp add: openSealed_def fromBase64_toBase64 WRAP_VERSION_def ALG_XCHACHA20_POLY1305_def
        NONCE_BYTES_def MARKER_BYTES_def)
  ultimately show ?thesis by blast
qed

lemma sealBlob_open:
  assumes "primitives_ok pm"
  shows "\<exists>sealed. sealBlob pm n plain = Inr sealed \<and> openBlob pm (sb_contentKey sealed) (sb_bytes sealed) = Inr plain \<and>
    sb_sha256 sealed = toHex (pm_sha256 pm (sb_bytes sealed)) \<and> length (sb_contentKey sealed) = 32 \<and>
    sb_keyId sealed = pm_uuid pm n"
proof -
  obtain key where key: "randomBytes (pm_rng pm ''content key'' n) 32 = Inr key" "length key = 32"
    using primitives_okD(3) [OF assms, of "''content key''" n 32] by auto
  obtain nonce where nonce: "randomBytes (pm_rng pm ''nonce'' n) 24 = Inr nonce" "length nonce = 24"
    using primitives_okD(3) [OF assms, of "''nonce''" n 24] by auto
  obtain b where b: "bytesToUuid b = Inr (pm_uuid pm n)" using primitives_okD(4) [OF assms] by blast
  note ub = uuidToBytes_bytesToUuid [OF b]
  define header where "header = MAGIC @ [1, 1] @ b @ nonce"
  have pack: "packHeader \<lparr>hd_keyId = pm_uuid pm n, hd_nonce = nonce\<rparr> = Inr header"
    using nonce ub by (simp add: packHeader_Inr header_def)
  have len: "length header = 46" by (rule packHeader_length [OF pack])
  define ct where "ct = pm_xchachaEncrypt pm key nonce header plain"
  have parse: "parseHeader (header @ ct) = Inr \<lparr>hd_keyId = pm_uuid pm n, hd_nonce = nonce\<rparr>"
    using b nonce uuidToBytes_length [OF ub] by (simp add: parseHeader_Inr header_def MAGIC_def)
  have "openBlob pm key (header @ ct) = Inr plain"
    using parse len primitives_okD(1) [OF assms] by (simp add: openBlob_def format_sizes ct_def)
  then show ?thesis
    using key nonce pack by (simp add: sealBlob_def Let_def NONCE_BYTES_def KEY_BYTES_def ct_def)
qed

subsection \<open>Properties\<close>

text \<open>The header is one layout: a header that packs is 46 bytes and is read back from the front of any
  blob with the same nonce and the same key id, letter case aside.\<close>

theorem header_roundtrip:
  assumes "packHeader h = Inr hb"
  shows "length hb = HEADER_BYTES \<and>
    (\<exists>h'. parseHeader (hb @ ciphertext) = Inr h' \<and> hd_nonce h' = hd_nonce h \<and>
       uuidToBytes (hd_keyId h') = uuidToBytes (hd_keyId h))"
proof -
  obtain key where key: "uuidToBytes (hd_keyId h) = Inr key" "hb = MAGIC @ [1, 1] @ key @ hd_nonce h" "length (hd_nonce h) = 24"
    using assms by (auto simp: packHeader_Inr)
  have len: "length key = 16" using uuidToBytes_length [OF key(1)] .
  then obtain u where u: "bytesToUuid key = Inr u" by (simp add: bytesToUuid_def UUID_BYTES_def Let_def)
  have "parseHeader (hb @ ciphertext) = Inr \<lparr>hd_keyId = u, hd_nonce = hd_nonce h\<rparr>"
    using u key len by (simp add: parseHeader_Inr MAGIC_def)
  then show ?thesis
    using packHeader_length [OF assms] uuidToBytes_bytesToUuid [OF u] key(1) by (simp add: format_sizes)
qed

text \<open>Reading a header determines its bytes: what parses is exactly the 46 bytes the parsed header packs to,
  so the authenticated data of a blob is a function of the header read from it.\<close>

theorem header_determined:
  assumes "parseHeader blob = Inr h"
  shows "packHeader h = Inr (take HEADER_BYTES blob)"
proof -
  note P = assms [unfolded parseHeader_Inr]
  then have "uuidToBytes (hd_keyId h) = Inr (take 16 (drop 6 blob))" by (auto intro: uuidToBytes_bytesToUuid)
  moreover have "MAGIC @ [1, 1] @ take 16 (drop 6 blob) @ take 24 (drop 22 blob) = take 46 blob"
  proof -
    have "take 46 blob = take 6 blob @ take 16 (drop 6 blob) @ take 24 (drop 22 blob)"
      using take_add [of 6 40 blob] take_add [of 16 24 "drop 6 blob"] by (simp add: drop_drop)
    with P show ?thesis by simp
  qed
  ultimately show ?thesis using P by (auto simp: packHeader_Inr format_sizes)
qed

text \<open>A file sealed is a file that opens: sealing never fails, and the blob opens under its content key to
  the very bytes, is addressed by the hash of what is uploaded, and names its key.\<close>

theorem sealBlob_roundtrip:
  assumes "primitives_ok pm"
  shows "\<exists>sealed. sealBlob pm n plaintext = Inr sealed \<and>
    openBlob pm (sb_contentKey sealed) (sb_bytes sealed) = Inr plaintext \<and>
    sb_sha256 sealed = toHex (pm_sha256 pm (sb_bytes sealed)) \<and> length (sb_contentKey sealed) = KEY_BYTES \<and>
    sb_keyId sealed = pm_uuid pm n"
  using sealBlob_open [OF assms] by (simp add: KEY_BYTES_def)

text \<open>A value wrapped under a key unwraps under it to the same bytes, through the marker, the nonce and
  the base64; so does a name.\<close>

theorem seal_roundtrip:
  assumes "primitives_ok pm"
  shows "(\<exists>s. seal pm n key plaintext = Inr s \<and> openSealed pm key s = Inr plaintext) \<and>
    (\<exists>s. encryptName pm n key name = Inr s \<and> decryptName pm key s = Inr name)"
  using seal_open [OF assms, of n key plaintext] seal_open [OF assms, of n key "utf8 name"]
  by (auto simp: encryptName_def decryptName_def)

text \<open>A value this client cannot read and a wrong key are told apart: an unknown version or algorithm is
  refused with its number before the key is used, so the answer is the same for every key.\<close>

theorem openSealed_marker_first:
  assumes "fromBase64 sealed = Inr raw" "26 < length raw" "raw ! 0 \<noteq> WRAP_VERSION \<or> raw ! 1 \<noteq> ALG_XCHACHA20_POLY1305"
  shows "openSealed pm key sealed =
    Inl (if raw ! 0 \<noteq> WRAP_VERSION then ''unknown wrapping version '' @ showNat (unat (raw ! 0))
         else ''unknown algorithm '' @ showNat (unat (raw ! 1)))"
  using assms by (simp add: openSealed_def MARKER_BYTES_def NONCE_BYTES_def)

text \<open>The two ways to a deduplication tag are one derivation: from the bytes, and from the hexadecimal hash
  that was recorded for them.\<close>

theorem dedupTag_agrees: "dedupTagFromHash pm key (toHex (pm_sha256 pm plaintext)) = Inr (dedupTag pm key plaintext)"
  by (simp add: dedupTagFromHash_def dedupTag_def fromHex_def fromHexPairs_toHex)

subsection \<open>Transparent primitives for the witnesses\<close>

definition clearPrimitives :: primitives where
  "clearPrimitives =
     \<lparr>pm_xchachaEncrypt = (\<lambda>k n a p. 9 # p), pm_xchachaDecrypt = (\<lambda>k n a c. Inr (tl c)), pm_sha256 = (\<lambda>b. b),
      pm_hmac = (\<lambda>k b. k @ b), pm_nfc = (\<lambda>s. s), pm_rng = (\<lambda>t n at k. replicate k 7),
      pm_uuid = (\<lambda>n. ''07070707-0707-0707-0707-070707070707'')\<rparr>"

lemma clear_uuid: "bytesToUuid (replicate 16 7) = Inr ''07070707-0707-0707-0707-070707070707''"
  by code_simp

lemma clearPrimitives_ok: "primitives_ok clearPrimitives"
  unfolding primitives_ok_def using clear_uuid by (auto simp: clearPrimitives_def)

definition ex_header :: header where
  "ex_header = \<lparr>hd_keyId = ''07070707-0707-0707-0707-070707070707'', hd_nonce = replicate 24 5\<rparr>"

lemma ex_packed: "packHeader ex_header = Inr (MAGIC @ [1, 1] @ replicate 16 7 @ replicate 24 5)"
  by code_simp

theorem header_roundtrip_witness:
  "\<exists>h'. parseHeader ((MAGIC @ [1, 1] @ replicate 16 7 @ replicate 24 5) @ [1, 2, 3]) = Inr h' \<and> hd_nonce h' = replicate 24 5"
  using header_roundtrip [OF ex_packed, of "[1, 2, 3]"] by (auto simp: ex_header_def)

lemma ex_parsed: "parseHeader (MAGIC @ [1, 1] @ replicate 16 7 @ replicate 24 5 @ [8]) = Inr ex_header"
  by code_simp

theorem header_determined_witness:
  "packHeader ex_header = Inr (take HEADER_BYTES (MAGIC @ [1, 1] @ replicate 16 7 @ replicate 24 5 @ [8]))"
  by (rule header_determined [OF ex_parsed])

theorem sealBlob_roundtrip_witness:
  "\<exists>sealed. sealBlob clearPrimitives 0 [1, 2] = Inr sealed \<and>
     openBlob clearPrimitives (sb_contentKey sealed) (sb_bytes sealed) = Inr [1, 2]"
  using sealBlob_roundtrip [OF clearPrimitives_ok, of 0 "[1, 2]"] by blast

theorem seal_roundtrip_witness:
  "\<exists>s. encryptName clearPrimitives 0 [3] ''Note.md'' = Inr s \<and> decryptName clearPrimitives [3] s = Inr ''Note.md''"
  using seal_roundtrip [OF clearPrimitives_ok, of 0 "[3]" "[]" "''Note.md''"] by blast

theorem openSealed_marker_first_witness:
  "openSealed clearPrimitives [3] (toBase64 (replicate 30 2)) = Inl ''unknown wrapping version 2''"
proof -
  have "showNat (unat (2 :: 8 word)) = ''2''" by code_simp
  then show ?thesis
    using openSealed_marker_first [OF fromBase64_toBase64, of "replicate 30 2" clearPrimitives "[3]"]
    by (simp add: WRAP_VERSION_def)
qed

end
