(* ===== verification/Engine_Base.thy ===== *)
theory Engine_Base
  imports Effects Reconcile Scopes Remap Tree Sealing
begin

text \<open>
  What one pass of the engine works with (\<open>plugin/src/engine/engine.ts\<close>): the report, the context a
  pass mutates, the two seams it crosses (\<open>VaultWire\<close> of \<open>engine/wire.ts\<close>, \<open>VaultAdapter\<close> and
  \<open>StateStore\<close> of \<open>engine/vault.ts\<close> and \<open>state.ts\<close>) as records of operations on an abstract server
  and an abstract device, and the content step of \<open>engine/content.ts\<close>. Cryptography is a record of
  functions; what it draws at random, and the clock, are functions of a counter the world carries.
\<close>

subsection \<open>The wire\<close>

datatype delta_event = ShareEnded string string | AccountFrozen string

datatype cursor_rejection = RejRestore | RejReset | RejJournalTtl

datatype delta_answer =
    Answer "change list" "delta_event list" string bool
  | Rejected cursor_rejection
  | CursorUnverifiable string

record envelope =
  ev_scopeId :: string
  ev_wrappedKey :: string

record blob_envelope =
  be_sha256 :: string
  be_scope_id :: string
  be_wrapped_key :: string

record dedup_tag =
  dt_sha256 :: string
  dt_scope_id :: string
  dt_content_tag :: string

record material =
  ma_blob_envelopes :: "blob_envelope list"
  ma_dedup_tags :: "dedup_tag list"

record create_body =
  cb_parent_id :: string
  cb_isFile :: bool
  cb_sha256 :: "string option"
  cb_size :: "nat option"
  cb_mtime :: string
  cb_name :: name_fields
  cb_material :: material

record put_body =
  pb_sha256 :: string
  pb_size :: nat
  pb_mtime :: string
  pb_base_sha256 :: "string option"
  pb_material :: material

record move_body =
  mb_parent_id :: string
  mb_name :: name_fields

record put_conflict =
  pc_conflict :: string
  pc_sha256 :: "string option"
  pc_rev :: "nat option"

datatype put_answer = Put_Done nat | Put_Refused put_conflict

record 'srv vault_wire =
  wi_listNodes :: "('srv, change list \<times> string) io"
  wi_dedupLookup :: "string list \<Rightarrow> ('srv, (string, string) jmap) io"
  wi_putBlob :: "sealed_blob \<Rightarrow> ('srv, unit) io"
  wi_getBlob :: "string \<Rightarrow> ('srv, bytes option) io"
  wi_blobKeys :: "string option list \<Rightarrow> ('srv, (string, envelope list) jmap) io"
  wi_createNode :: "create_body \<Rightarrow> ('srv, string \<times> nat) io"
  wi_putContent :: "string \<Rightarrow> put_body \<Rightarrow> ('srv, put_answer) io"
  wi_moveNode :: "string \<Rightarrow> nat \<Rightarrow> move_body \<Rightarrow> ('srv, nat) io"
  wi_deleteNode :: "string \<Rightarrow> nat \<Rightarrow> ('srv, nat) io"
  wi_delta :: "string \<Rightarrow> nat \<Rightarrow> ('srv, delta_answer) io"

subsection \<open>The device\<close>

record 'dev vault_adapter =
  vt_configDir :: string
  vt_list :: "('dev, vault_file list) io"
  vt_listConfig :: "('dev, vault_file list) io"
  vt_read :: "path \<Rightarrow> ('dev, bytes) io"
  vt_write :: "path \<Rightarrow> bytes \<Rightarrow> int option \<Rightarrow> ('dev, unit) io"
  vt_stat :: "path \<Rightarrow> ('dev, (int \<times> nat) option) io"
  vt_delete :: "path \<Rightarrow> ('dev, unit) io"
  vt_folderExists :: "path \<Rightarrow> ('dev, bool) io"
  vt_rename :: "path \<Rightarrow> path \<Rightarrow> ('dev, unit) io"
  vt_load :: "('dev, vault_state) io"
  vt_save :: "vault_state \<Rightarrow> ('dev, unit) io"

subsection \<open>Cryptography\<close>

record 'key crypto =
  cr_plainHash :: "bytes \<Rightarrow> string"
  cr_dedupTagFromHash :: "'key \<Rightarrow> string \<Rightarrow> string"
  cr_nameUnder :: "nat \<Rightarrow> 'key \<Rightarrow> string \<Rightarrow> string \<Rightarrow> name_fields"
  cr_sealBlob :: "nat \<Rightarrow> bytes \<Rightarrow> sealed_blob"
  cr_wrapContentKey :: "nat \<Rightarrow> 'key \<Rightarrow> bytes \<Rightarrow> string"
  cr_unwrapContentKey :: "'key \<Rightarrow> string \<Rightarrow> string + bytes"
  cr_openBlob :: "bytes \<Rightarrow> bytes \<Rightarrow> string + bytes"
  cr_decryptName :: "'key \<Rightarrow> string \<Rightarrow> string option"

subsection \<open>The report and the context of one pass\<close>

record arrival =
  ar_path :: path
  ar_isNew :: bool
  ar_authorId :: "string option"
  ar_shareRoot :: "path option"
  ar_firstFromShare :: "bool option"

record sync_report =
  rp_scanned :: nat
  rp_pushed :: "path list"
  rp_pulled :: "arrival list"
  rp_matched :: "path list"
  rp_conflicts :: "(path \<times> path) list"
  rp_renamed :: "(path \<times> path) list"
  rp_deleted :: "path list"
  rp_removed :: "path list"
  rp_quarantined :: "(path \<times> path) list"
  rp_events :: "delta_event list"
  rp_vanished :: "path list"
  rp_unreadable :: "unreadable_folder list"
  rp_errors :: "(path \<times> string) list"

definition emptyReport :: sync_report where
  "emptyReport = \<lparr>rp_scanned = 0, rp_pushed = [], rp_pulled = [], rp_matched = [], rp_conflicts = [],
     rp_renamed = [], rp_deleted = [], rp_removed = [], rp_quarantined = [], rp_events = [], rp_vanished = [],
     rp_unreadable = [], rp_errors = []\<rparr>"

record pass_context =
  px_policy :: sync_policy
  px_tree :: tree
  px_byNodeId :: "(string, server_node) jmap"
  px_meta :: "(path, local_meta) jmap"
  px_dedup :: "(string, string) jmap"
  px_vanished :: "(string, vanished list) jmap"
  px_handled :: "path list"
  px_queue :: "vault_file list"
  px_rootNodeId :: string
  px_vaultScopeId :: string
  px_shareScopes :: "(string, string) jmap"
  px_crossed :: "path list"
  px_knownBefore :: "path list"
  px_sharesKnown :: "(path, bool) jmap"
  px_state :: vault_state
  px_report :: sync_report

record ('srv, 'dev) world =
  wd_ctx :: pass_context
  wd_srv :: 'srv
  wd_dev :: 'dev
  wd_draws :: nat
  wd_cache :: "tree_cache option"

text \<open>The constructor's arguments, and the clock: \<open>en_now\<close> is the reading (in milliseconds) at a draw
  and \<open>en_iso\<close> prints one.\<close>

record ('srv, 'dev, 'key) engine =
  en_client :: "'srv vault_wire"
  en_scopes :: "'key vault_scopes"
  en_vault :: "'dev vault_adapter"
  en_crypto :: "'key crypto"
  en_deviceLabel :: string
  en_syncObsidian :: bool
  en_now :: "nat \<Rightarrow> int"
  en_iso :: "int \<Rightarrow> string"

type_synonym ('srv, 'dev, 'a) pass = "(('srv, 'dev) world, 'a) io"

subsection \<open>Reaching the parts of the world\<close>

definition client :: "('srv, 'a) io \<Rightarrow> ('srv, 'dev, 'a) pass" where
  "client m = (\<lambda>w. case m (wd_srv w) of (r, s) \<Rightarrow> (r, w\<lparr>wd_srv := s\<rparr>))"

definition vault :: "('dev, 'a) io \<Rightarrow> ('srv, 'dev, 'a) pass" where
  "vault m = (\<lambda>w. case m (wd_dev w) of (r, d) \<Rightarrow> (r, w\<lparr>wd_dev := d\<rparr>))"

definition ctx :: "(pass_context \<Rightarrow> 'a) \<Rightarrow> ('srv, 'dev, 'a) pass" where
  "ctx f = io_get (\<lambda>w. f (wd_ctx w))"

definition ctx_mod :: "(pass_context \<Rightarrow> pass_context) \<Rightarrow> ('srv, 'dev, unit) pass" where
  "ctx_mod f = io_mod (\<lambda>w. w\<lparr>wd_ctx := f (wd_ctx w)\<rparr>)"

definition draw :: "('srv, 'dev, nat) pass" where
  "draw = (\<lambda>w. (Inr (wd_draws w), w\<lparr>wd_draws := Suc (wd_draws w)\<rparr>))"

definition report_mod :: "(sync_report \<Rightarrow> sync_report) \<Rightarrow> ('srv, 'dev, unit) pass" where
  "report_mod f = ctx_mod (\<lambda>c. c\<lparr>px_report := f (px_report c)\<rparr>)"

definition set_node :: "path \<Rightarrow> known_node \<Rightarrow> ('srv, 'dev, unit) pass" where
  "set_node p k = ctx_mod (\<lambda>c. c\<lparr>px_state := (px_state c)\<lparr>vs_nodes := jset p k (vs_nodes (px_state c))\<rparr>\<rparr>)"

definition del_node :: "path \<Rightarrow> ('srv, 'dev, unit) pass" where
  "del_node p = ctx_mod (\<lambda>c. c\<lparr>px_state := (px_state c)\<lparr>vs_nodes := jdel p (vs_nodes (px_state c))\<rparr>\<rparr>)"

definition handle :: "path \<Rightarrow> ('srv, 'dev, unit) pass" where
  "handle p = ctx_mod (\<lambda>c. c\<lparr>px_handled := sadd p (px_handled c)\<rparr>)"

definition error_at :: "path \<Rightarrow> string \<Rightarrow> ('srv, 'dev, unit) pass" where
  "error_at p e = report_mod (\<lambda>r. r\<lparr>rp_errors := rp_errors r @ [(p, e)]\<rparr>)"

text \<open>An identifier the source asserts with \<open>!\<close>.\<close>

definition asserted :: "string option \<Rightarrow> string" where
  "asserted s = (case s of None \<Rightarrow> [] | Some x \<Rightarrow> x)"

subsection \<open>Keys and scopes\<close>

definition tagFor :: "('srv, 'dev, 'key) engine \<Rightarrow> string \<Rightarrow> string \<Rightarrow> string" where
  "tagFor en scopeId plainHash =
     cr_dedupTagFromHash (en_crypto en)
       (case keyIfOpenable (en_scopes en) (Some scopeId) of Some k \<Rightarrow> k | None \<Rightarrow> sc_vaultKey (en_scopes en)) plainHash"

definition scopeKeyFor :: "('srv, 'dev, 'key) engine \<Rightarrow> string \<Rightarrow> ('srv, 'dev, 'key) pass" where
  "scopeKeyFor en scopeId = io_lift (keyFor (en_scopes en) (Some scopeId))"

definition contentScopeId :: "pass_context \<Rightarrow> path \<Rightarrow> string" where
  "contentScopeId c p = scopeAt (px_tree c) (px_shareScopes c) (px_vaultScopeId c) p"

definition inSyncScope :: "('srv, 'dev, 'key) engine \<Rightarrow> path \<Rightarrow> bool" where
  "inSyncScope en p = isSyncable p (en_syncObsidian en) (vt_configDir (en_vault en))"

text \<open>\<open>VaultScopes.fingerprint\<close>: which keys the names of a walk were read with.\<close>

definition fingerprint :: "'key vault_scopes \<Rightarrow> string" where
  "fingerprint sc =
     sc_vaultScopeId sc @ ''|'' @ joinWith '','' (sort (jkeys (sc_shareKeys sc))) @ ''|'' @
     joinWith '','' (sort (sc_unopenable sc))"

definition nameFor :: "('srv, 'dev, 'key) engine \<Rightarrow> string \<Rightarrow> string \<Rightarrow> ('srv, 'dev, name_fields) pass" where
  "nameFor en scopeId name =
     io_bind (scopeKeyFor en scopeId) (\<lambda>key. io_bind draw (\<lambda>n.
       io_ret (cr_nameUnder (en_crypto en) n key scopeId name)))"

subsection \<open>What a file's bytes become on the way to the server\<close>

definition resolveContent ::
  "('srv, 'dev, 'key) engine \<Rightarrow> bytes \<Rightarrow> string \<Rightarrow> 'key \<Rightarrow> (string, string) jmap \<Rightarrow> ('srv, 'dev, string \<times> material) pass"
where
  "resolveContent en plain scopeId key dedup =
     (let cr = en_crypto en;
          tag = cr_dedupTagFromHash cr key (cr_plainHash cr plain)
      in if truthy (jget dedup tag)
         then io_ret (the (jget dedup tag), \<lparr>ma_blob_envelopes = [], ma_dedup_tags = []\<rparr>)
         else io_bind draw (\<lambda>n. let sealed = cr_sealBlob cr n plain in
                io_seq (client (wi_putBlob (en_client en) sealed)) (io_bind draw (\<lambda>n'.
                  io_ret (sb_sha256 sealed,
                    \<lparr>ma_blob_envelopes = [\<lparr>be_sha256 = sb_sha256 sealed, be_scope_id = scopeId,
                                            be_wrapped_key = cr_wrapContentKey cr n' key (sb_contentKey sealed)\<rparr>],
                     ma_dedup_tags = [\<lparr>dt_sha256 = sb_sha256 sealed, dt_scope_id = scopeId,
                                        dt_content_tag = tag\<rparr>]\<rparr>)))))"

definition content :: "('srv, 'dev, 'key) engine \<Rightarrow> bytes \<Rightarrow> string \<Rightarrow> ('srv, 'dev, string \<times> material) pass" where
  "content en plain scopeId =
     io_bind (scopeKeyFor en scopeId) (\<lambda>key. io_bind (ctx px_dedup) (\<lambda>dedup.
       resolveContent en plain scopeId key dedup))"

subsection \<open>Describing files\<close>

definition hintFrom :: "local_meta \<Rightarrow> known_node \<Rightarrow> known_node" where
  "hintFrom m k = k\<lparr>kn_mtime := Some (lm_mtime m), kn_size := Some (lm_size m)\<rparr>"

definition hintFor :: "('srv, 'dev, 'key) engine \<Rightarrow> path \<Rightarrow> ('srv, 'dev, known_node \<Rightarrow> known_node) pass" where
  "hintFor en p =
     io_bind (vault (vt_stat (en_vault en) p)) (\<lambda>st.
       io_ret (\<lambda>k. case st of None \<Rightarrow> k\<lparr>kn_mtime := None, kn_size := None\<rparr>
                            | Some (mt, sz) \<Rightarrow> k\<lparr>kn_mtime := Some mt, kn_size := Some sz\<rparr>))"

definition knownAs :: "string \<Rightarrow> nat \<Rightarrow> string \<Rightarrow> string \<Rightarrow> known_node" where
  "knownAs nodeId r plainHash address =
     \<lparr>kn_nodeId = nodeId, kn_rev = r, kn_plainHash = plainHash, kn_address = address,
      kn_mtime = None, kn_size = None\<rparr>"

definition hashAndTag :: "('srv, 'dev, 'key) engine \<Rightarrow> vault_file \<Rightarrow> string \<Rightarrow> ('srv, 'dev, local_meta) pass" where
  "hashAndTag en f scopeId =
     io_bind (vault (vt_read (en_vault en) (vf_path f))) (\<lambda>bytes.
       let h = cr_plainHash (en_crypto en) bytes in
       io_ret \<lparr>lm_plainHash = h, lm_tag = tagFor en scopeId h, lm_mtime = vf_mtime f, lm_size = length bytes\<rparr>)"

definition localFiles :: "('srv, 'dev, 'key) engine \<Rightarrow> ('srv, 'dev, vault_file list) pass" where
  "localFiles en =
     io_bind (vault (vt_list (en_vault en))) (\<lambda>tracked.
       if \<not> en_syncObsidian en then io_ret tracked
       else io_bind (vault (vt_listConfig (en_vault en))) (\<lambda>config. io_ret (tracked @ config)))"

definition isoNow :: "('srv, 'dev, 'key) engine \<Rightarrow> ('srv, 'dev, string) pass" where
  "isoNow en = io_bind draw (\<lambda>n. io_ret (en_iso en (en_now en n)))"

end
