(* ===== verification/Adapter.thy ===== *)
theory Adapter
  imports Engine_Base
begin

text \<open>
  The device behind the engine: \<open>ObsidianVaultAdapter\<close> (\<open>plugin/src/obsidian/adapter.ts\<close>) over
  Obsidian's own API, which is not part of the repository and is a record of operations here. The
  locale \<open>vault_contract\<close> is what the engine relies on, \<open>obsidian_api\<close> what Obsidian documents; the
  adapter gives the first from the second.

  Two names may be one file, where the file system does not tell letter cases apart: \<open>same\<close> says which.
\<close>

definition lowerPath :: "path \<Rightarrow> path" where
  "lowerPath p = List.map toLower p"

subsection \<open>The contract the engine relies on\<close>

locale vault_contract =
  fixes V :: "'dev vault_adapter"
    and bytesAt :: "'dev \<Rightarrow> path \<Rightarrow> bytes option"
    and same :: "path \<Rightarrow> path \<Rightarrow> bool"
  assumes same_refl: "same p p"
    and same_sym: "same p q \<Longrightarrow> same q p"
    and same_trans: "same p q \<Longrightarrow> same q q' \<Longrightarrow> same p q'"
    and same_lower: "same p q \<Longrightarrow> lowerPath p = lowerPath q"
    and bytes_same: "same p q \<Longrightarrow> bytesAt d p = bytesAt d q"
    and read_law: "vt_read V p d = (rr, d') \<Longrightarrow> bytesAt d' = bytesAt d \<and> (\<forall>b. rr = Inr b \<longrightarrow> bytesAt d p = Some b)"
    and write_law: "vt_write V p b mt d = (ru, d') \<Longrightarrow>
      (\<forall>q. \<not> same p q \<longrightarrow> bytesAt d' q = bytesAt d q) \<and> (ru = Inr () \<longrightarrow> bytesAt d' p = Some b)"
    and delete_law: "vt_delete V p d = (ru, d') \<Longrightarrow> (\<forall>q. \<not> same p q \<longrightarrow> bytesAt d' q = bytesAt d q)"
    and stat_law: "vt_stat V p d = (st, d') \<Longrightarrow> bytesAt d' = bytesAt d"
    and folderExists_law: "vt_folderExists V p d = (ex, d') \<Longrightarrow> bytesAt d' = bytesAt d"
    and rename_law: "vt_rename V p q d = (ru, d') \<Longrightarrow> bytesAt d p = Some b \<Longrightarrow>
      (\<exists>q'. bytesAt d' q' = Some b) \<and> (ru = Inr () \<longrightarrow> bytesAt d' q = Some b)"
begin

lemma write_at: "vt_write V p b mt d = (Inr (), d') \<Longrightarrow> same p q \<Longrightarrow> bytesAt d' q = Some b"
  using write_law bytes_same by metis

lemma different_length: "length p \<noteq> length q \<Longrightarrow> \<not> same p q"
  using same_lower unfolding lowerPath_def by (metis length_map)

lemma different_lower: "lowerPath p \<noteq> lowerPath q \<Longrightarrow> \<not> same p q"
  using same_lower by blast

end

subsection \<open>Obsidian's API\<close>

datatype tracked = TFile path | TFolder path

record 'fs obsidian =
  ob_configDir :: string
  ob_getFiles :: "'fs \<Rightarrow> vault_file list"
  ob_tracked :: "'fs \<Rightarrow> path \<Rightarrow> tracked option"
  ob_modifyBinary :: "path \<Rightarrow> bytes \<Rightarrow> ('fs, unit) io"
  ob_vaultRename :: "path \<Rightarrow> path \<Rightarrow> ('fs, unit) io"
  ob_list :: "path \<Rightarrow> ('fs, path list \<times> path list) io"
  ob_stat :: "path \<Rightarrow> ('fs, (bool \<times> int \<times> nat) option) io"
  ob_exists :: "path \<Rightarrow> ('fs, bool) io"
  ob_readBinary :: "path \<Rightarrow> ('fs, bytes) io"
  ob_writeBinary :: "path \<Rightarrow> bytes \<Rightarrow> ('fs, unit) io"
  ob_mkdir :: "path \<Rightarrow> ('fs, unit) io"
  ob_remove :: "path \<Rightarrow> ('fs, unit) io"
  ob_rename :: "path \<Rightarrow> path \<Rightarrow> ('fs, unit) io"

subsection \<open>The adapter\<close>

definition ad_list :: "'fs obsidian \<Rightarrow> ('fs, vault_file list) io" where
  "ad_list ob = io_get (ob_getFiles ob)"

definition listedFiles :: "'fs obsidian \<Rightarrow> path list \<Rightarrow> ('fs, vault_file list) io" where
  "listedFiles ob ps =
     io_bind (io_map (\<lambda>p. io_bind (ob_stat ob p) (\<lambda>s. io_ret (p, s))) ps) (\<lambda>found.
       io_ret (List.map_filter (\<lambda>(p, s). map_option (\<lambda>(isFile, mt, sz). \<lparr>vf_path = p, vf_mtime = mt, vf_size = sz\<rparr>) s) found))"

text \<open>The recursion follows the directories; \<open>depth\<close> bounds how deep they nest.\<close>

fun walkConfig :: "'fs obsidian \<Rightarrow> nat \<Rightarrow> path \<Rightarrow> ('fs, vault_file list) io" where
  "walkConfig ob 0 dir = io_throw ''directories nested too deep''"
| "walkConfig ob (Suc n) dir =
     io_bind (ob_list ob dir) (\<lambda>(files, folders).
     io_bind (listedFiles ob files) (\<lambda>here.
     io_bind (io_map (walkConfig ob n) folders) (\<lambda>below. io_ret (here @ concat below))))"

definition ad_listConfig :: "'fs obsidian \<Rightarrow> nat \<Rightarrow> ('fs, vault_file list) io" where
  "ad_listConfig ob n =
     io_bind (ob_exists ob (ob_configDir ob)) (\<lambda>there.
       if there then walkConfig ob n (ob_configDir ob) else io_ret [])"

definition ad_write :: "'fs obsidian \<Rightarrow> path \<Rightarrow> bytes \<Rightarrow> int option \<Rightarrow> ('fs, unit) io" where
  "ad_write ob p b mtime =
     io_bind (io_get (\<lambda>fs. ob_tracked ob fs p)) (\<lambda>t.
       case t of
         Some (TFile q) \<Rightarrow> ob_modifyBinary ob q b
       | _ \<Rightarrow>
           io_seq
             (if parentPath p \<noteq> [] then
                io_bind (ob_exists ob (parentPath p)) (\<lambda>there. io_when (\<not> there) (ob_mkdir ob (parentPath p)))
              else io_ret ())
             (ob_writeBinary ob p b))"

definition ad_stat :: "'fs obsidian \<Rightarrow> path \<Rightarrow> ('fs, (int \<times> nat) option) io" where
  "ad_stat ob p =
     io_bind (ob_stat ob p) (\<lambda>s. io_ret
       (case s of Some (isFile, mt, sz) \<Rightarrow> if isFile then Some (mt, sz) else None | None \<Rightarrow> None))"

definition ad_delete :: "'fs obsidian \<Rightarrow> path \<Rightarrow> ('fs, unit) io" where
  "ad_delete ob p = io_bind (ob_exists ob p) (\<lambda>there. io_when there (ob_remove ob p))"

definition renameVia :: "path \<Rightarrow> path" where
  "renameVia p = p @ ''.syncserver-rename''"

definition ad_rename :: "'fs obsidian \<Rightarrow> path \<Rightarrow> path \<Rightarrow> ('fs, unit) io" where
  "ad_rename ob from to =
     io_bind (io_get (\<lambda>fs. ob_tracked ob fs from)) (\<lambda>t.
       if t \<noteq> None
       then io_seq (ob_vaultRename ob from (renameVia from)) (ob_vaultRename ob (renameVia from) to)
       else io_seq (ob_rename ob from (renameVia from)) (ob_rename ob (renameVia from) to))"

definition obsidianAdapter ::
  "'fs obsidian \<Rightarrow> nat \<Rightarrow> ('fs, vault_state) io \<Rightarrow> (vault_state \<Rightarrow> ('fs, unit) io) \<Rightarrow> 'fs vault_adapter"
where
  "obsidianAdapter ob n load save =
     \<lparr>vt_configDir = ob_configDir ob, vt_list = ad_list ob, vt_listConfig = ad_listConfig ob n,
      vt_read = ob_readBinary ob, vt_write = ad_write ob, vt_stat = ad_stat ob, vt_delete = ad_delete ob,
      vt_folderExists = ob_exists ob, vt_rename = ad_rename ob, vt_load = load, vt_save = save\<rparr>"

subsection \<open>What Obsidian documents, and what the adapter makes of it\<close>

locale obsidian_api =
  fixes ob :: "'fs obsidian"
    and bytesAt :: "'fs \<Rightarrow> path \<Rightarrow> bytes option"
    and same :: "path \<Rightarrow> path \<Rightarrow> bool"
  assumes same_refl: "same p p"
    and same_sym: "same p q \<Longrightarrow> same q p"
    and same_trans: "same p q \<Longrightarrow> same q q' \<Longrightarrow> same p q'"
    and same_lower: "same p q \<Longrightarrow> lowerPath p = lowerPath q"
    and bytes_same: "same p q \<Longrightarrow> bytesAt fs p = bytesAt fs q"
    and tracked_here: "ob_tracked ob fs p = Some (TFile q) \<Longrightarrow> q = p"
    and readBinary: "ob_readBinary ob p fs = (rr, fs') \<Longrightarrow> bytesAt fs' = bytesAt fs \<and> (\<forall>b. rr = Inr b \<longrightarrow> bytesAt fs p = Some b)"
    and modifyBinary: "ob_modifyBinary ob p b fs = (ru, fs') \<Longrightarrow>
      (\<forall>q. \<not> same p q \<longrightarrow> bytesAt fs' q = bytesAt fs q) \<and> (ru = Inr () \<longrightarrow> bytesAt fs' p = Some b)"
    and writeBinary: "ob_writeBinary ob p b fs = (ru, fs') \<Longrightarrow>
      (\<forall>q. \<not> same p q \<longrightarrow> bytesAt fs' q = bytesAt fs q) \<and> (ru = Inr () \<longrightarrow> bytesAt fs' p = Some b)"
    and mkdir: "ob_mkdir ob p fs = (ru, fs') \<Longrightarrow> bytesAt fs' = bytesAt fs"
    and exists: "ob_exists ob p fs = (ex, fs') \<Longrightarrow> bytesAt fs' = bytesAt fs"
    and stat: "ob_stat ob p fs = (st, fs') \<Longrightarrow> bytesAt fs' = bytesAt fs"
    and remove: "ob_remove ob p fs = (ru, fs') \<Longrightarrow> (\<forall>q. \<not> same p q \<longrightarrow> bytesAt fs' q = bytesAt fs q)"
    and rename: "ob_rename ob p q fs = (ru, fs') \<Longrightarrow>
      (if ru = Inr () then bytesAt fs' q = bytesAt fs p else bytesAt fs' = bytesAt fs)"
    and vaultRename: "ob_vaultRename ob p q fs = (ru, fs') \<Longrightarrow>
      (if ru = Inr () then bytesAt fs' q = bytesAt fs p else bytesAt fs' = bytesAt fs)"
begin

lemma ad_write_law:
  assumes "ad_write ob p b mt fs = (r, fs')"
  shows "(\<forall>q. \<not> same p q \<longrightarrow> bytesAt fs' q = bytesAt fs q) \<and> (r = Inr () \<longrightarrow> bytesAt fs' p = Some b)"
proof (cases "\<exists>q. ob_tracked ob fs p = Some (TFile q)")
  case True
  then obtain q where q: "ob_tracked ob fs p = Some (TFile q)" by blast
  with tracked_here have "q = p" by blast
  with assms q have "ob_modifyBinary ob p b fs = (r, fs')"
    by (simp add: ad_write_def io_bind_def io_get_def)
  then show ?thesis by (rule modifyBinary)
next
  case False
  define prepare where "prepare = (if parentPath p \<noteq> [] then
      io_bind (ob_exists ob (parentPath p)) (\<lambda>there. io_when (\<not> there) (ob_mkdir ob (parentPath p))) else io_ret ())"
  obtain r1 fs1 where p1: "prepare fs = (r1, fs1)" by fastforce
  have same_bytes: "bytesAt fs1 = bytesAt fs"
    using p1 unfolding prepare_def
    by (auto simp: io_bind_def io_ret_def io_when_def split: if_splits prod.splits sum.splits
        dest!: exists mkdir)
  have "ad_write ob p b mt fs = io_seq prepare (ob_writeBinary ob p b) fs"
    using False unfolding ad_write_def prepare_def
    by (auto simp: io_bind_def io_get_def split: option.splits tracked.splits)
  with assms p1 have "(case r1 of Inl e \<Rightarrow> (Inl e, fs1) | Inr u \<Rightarrow> ob_writeBinary ob p b fs1) = (r, fs')"
    by (simp add: io_seq_def io_bind_def split: sum.splits)
  then show ?thesis using same_bytes writeBinary [of p b fs1] by (auto split: sum.splits)
qed

lemma ad_rename_law:
  assumes "ad_rename ob p q fs = (r, fs')" and "bytesAt fs p = Some b"
  shows "(\<exists>q'. bytesAt fs' q' = Some b) \<and> (r = Inr () \<longrightarrow> bytesAt fs' q = Some b)"
proof -
  have two: "(\<exists>q'. bytesAt fs' q' = Some b) \<and> (r = Inr () \<longrightarrow> bytesAt fs' q = Some b)"
    if run: "io_seq (mv p (renameVia p)) (mv (renameVia p) q) fs = (r, fs')"
      and law: "\<And>p q fs r fs'. mv p q fs = (r, fs') \<Longrightarrow>
        (if r = Inr () then bytesAt fs' q = bytesAt fs p else bytesAt fs' = bytesAt fs)"
    for mv :: "path \<Rightarrow> path \<Rightarrow> ('fs, unit) io"
  proof -
    obtain r1 fs1 where m1: "mv p (renameVia p) fs = (r1, fs1)" by fastforce
    show ?thesis
    proof (cases r1)
      case (Inl e)
      with m1 run law [OF m1] assms(2) show ?thesis by (auto simp: io_seq_def io_bind_def)
    next
      case (Inr u)
      with m1 run have m2: "mv (renameVia p) q fs1 = (r, fs')" by (simp add: io_seq_def io_bind_def)
      from law [OF m1] Inr assms(2) have via: "bytesAt fs1 (renameVia p) = Some b" by simp
      from law [OF m2] via show ?thesis by (cases "r = Inr ()") auto
    qed
  qed
  have "io_seq (ob_vaultRename ob p (renameVia p)) (ob_vaultRename ob (renameVia p) q) fs = (r, fs') \<or>
      io_seq (ob_rename ob p (renameVia p)) (ob_rename ob (renameVia p) q) fs = (r, fs')"
    using assms(1) by (simp add: ad_rename_def io_bind_get split: if_splits)
  then show ?thesis
  proof
    assume "io_seq (ob_vaultRename ob p (renameVia p)) (ob_vaultRename ob (renameVia p) q) fs = (r, fs')"
    then show ?thesis by (rule two) (rule vaultRename)
  next
    assume "io_seq (ob_rename ob p (renameVia p)) (ob_rename ob (renameVia p) q) fs = (r, fs')"
    then show ?thesis by (rule two) (rule rename)
  qed
qed

end

sublocale obsidian_api \<subseteq> adapted: vault_contract "obsidianAdapter ob n load save" bytesAt same
proof unfold_locales
  fix p d r d' assume "vt_read (obsidianAdapter ob n load save) p d = (r, d')"
  then show "bytesAt d' = bytesAt d \<and> (\<forall>b. r = Inr b \<longrightarrow> bytesAt d p = Some b)"
    using readBinary by (simp add: obsidianAdapter_def)
next
  fix p b mt d r d' assume "vt_write (obsidianAdapter ob n load save) p b mt d = (r, d')"
  then show "(\<forall>q. \<not> same p q \<longrightarrow> bytesAt d' q = bytesAt d q) \<and> (r = Inr () \<longrightarrow> bytesAt d' p = Some b)"
    using ad_write_law by (simp add: obsidianAdapter_def)
next
  fix p d r d' assume "vt_delete (obsidianAdapter ob n load save) p d = (r, d')"
  then show "\<forall>q. \<not> same p q \<longrightarrow> bytesAt d' q = bytesAt d q"
    by (auto simp: obsidianAdapter_def ad_delete_def io_bind_def io_when_def io_ret_def
        split: if_splits prod.splits sum.splits dest!: exists remove)
next
  fix p d s d' assume "vt_stat (obsidianAdapter ob n load save) p d = (s, d')"
  then show "bytesAt d' = bytesAt d"
    by (auto simp: obsidianAdapter_def ad_stat_def io_bind_def io_ret_def
        split: prod.splits sum.splits dest!: stat)
next
  fix p d e d' assume "vt_folderExists (obsidianAdapter ob n load save) p d = (e, d')"
  then show "bytesAt d' = bytesAt d" using exists by (simp add: obsidianAdapter_def)
next
  fix p q d r d' b assume "vt_rename (obsidianAdapter ob n load save) p q d = (r, d')" "bytesAt d p = Some b"
  then show "(\<exists>q'. bytesAt d' q' = Some b) \<and> (r = Inr () \<longrightarrow> bytesAt d' q = Some b)"
    using ad_rename_law by (simp add: obsidianAdapter_def)
qed (fact same_refl same_sym same_trans same_lower bytes_same)+

context obsidian_api
begin

lemma adapter_contract: "vault_contract (obsidianAdapter ob n load save) bytesAt same"
  by (rule adapted.vault_contract_axioms)

end

end
