(* ===== verification/Engine_Ops.thy ===== *)
theory Engine_Ops
  imports Adapter
begin

text \<open>
  What the engine does to one file (\<open>plugin/src/engine/engine.ts\<close>): the uploads, the move, the delete,
  the conflict, the remote rename, the pull, and \<open>reconcileLocal\<close>, which asks \<open>decide\<close> and carries the
  answer out. Each method is one definition with its early returns and every change of state; what a
  method throws leaves what it did before in place.
\<close>

subsection \<open>Folders on the way to a file\<close>

definition folderNode :: "string \<Rightarrow> string \<Rightarrow> path \<Rightarrow> nat \<Rightarrow> string \<Rightarrow> server_node" where
  "folderNode nodeId parentId p r scopeId =
     \<lparr>sn_nodeId = nodeId, sn_parentId = Some parentId, sn_path = p, sn_rev = r, sn_address = None,
      sn_isFile = False, sn_nameKeyId = Some scopeId, sn_shareId = None, sn_authorId = None\<rparr>"

fun ensureParts :: "('srv, 'dev, 'key) engine \<Rightarrow> path \<Rightarrow> string \<Rightarrow> string list \<Rightarrow> ('srv, 'dev, string) pass" where
  "ensureParts en sofar parentId [] = io_ret parentId"
| "ensureParts en sofar parentId (part # parts) =
     (let sofar' = (if sofar \<noteq> [] then sofar @ slash # part else part) in
      io_bind (ctx px_tree) (\<lambda>tree.
        case jget tree sofar' of
          Some existing \<Rightarrow> ensureParts en sofar' (sn_nodeId existing) parts
        | None \<Rightarrow>
            io_bind (ctx (\<lambda>c. contentScopeId c sofar')) (\<lambda>scopeId.
            io_bind (isoNow en) (\<lambda>mtime.
            io_bind (nameFor en scopeId part) (\<lambda>name.
            io_bind (client (wi_createNode (en_client en)
                \<lparr>cb_parent_id = parentId, cb_isFile = False, cb_sha256 = None, cb_size = None, cb_mtime = mtime,
                 cb_name = name, cb_material = \<lparr>ma_blob_envelopes = [], ma_dedup_tags = []\<rparr>\<rparr>)) (\<lambda>(nodeId, r).
            io_seq (ctx_mod (\<lambda>c. c\<lparr>px_tree := jset sofar' (folderNode nodeId parentId sofar' r scopeId) (px_tree c),
                px_byNodeId := jset nodeId (folderNode nodeId parentId sofar' r scopeId) (px_byNodeId c)\<rparr>))
              (ensureParts en sofar' nodeId parts)))))))"

definition ensureFolders :: "('srv, 'dev, 'key) engine \<Rightarrow> path \<Rightarrow> ('srv, 'dev, string) pass" where
  "ensureFolders en filePath =
     io_bind (ctx px_rootNodeId) (\<lambda>root. ensureParts en [] root (butlast (splitOn slash filePath)))"

subsection \<open>A new node, a deleted node\<close>

definition fileNode :: "string \<Rightarrow> string \<Rightarrow> path \<Rightarrow> nat \<Rightarrow> string \<Rightarrow> string \<Rightarrow> server_node" where
  "fileNode nodeId parentId p r address scopeId =
     \<lparr>sn_nodeId = nodeId, sn_parentId = Some parentId, sn_path = p, sn_rev = r, sn_address = Some address,
      sn_isFile = True, sn_nameKeyId = Some scopeId, sn_shareId = None, sn_authorId = None\<rparr>"

definition pushNew :: "('srv, 'dev, 'key) engine \<Rightarrow> vault_file \<Rightarrow> local_meta \<Rightarrow> ('srv, 'dev, unit) pass" where
  "pushNew en f m =
     io_bind (vault (vt_read (en_vault en) (vf_path f))) (\<lambda>plain.
     io_bind (ctx (\<lambda>c. contentScopeId c (vf_path f))) (\<lambda>scopeId.
     io_bind (content en plain scopeId) (\<lambda>(address, mat).
     io_bind (ensureFolders en (vf_path f)) (\<lambda>parentId.
     io_bind (nameFor en scopeId (basePath (vf_path f))) (\<lambda>name.
     io_bind (client (wi_createNode (en_client en)
         \<lparr>cb_parent_id = parentId, cb_isFile = True, cb_sha256 = Some address, cb_size = Some (length plain),
          cb_mtime = en_iso en (vf_mtime f), cb_name = name, cb_material = mat\<rparr>)) (\<lambda>(nodeId, r).
     io_seq (set_node (vf_path f) (hintFrom m (knownAs nodeId r (lm_plainHash m) address)))
     (io_seq (ctx_mod (\<lambda>c. c\<lparr>px_tree := jset (vf_path f) (fileNode nodeId parentId (vf_path f) r address scopeId) (px_tree c),
         px_byNodeId := jset nodeId (fileNode nodeId parentId (vf_path f) r address scopeId) (px_byNodeId c)\<rparr>))
      (report_mod (\<lambda>rp. rp\<lparr>rp_pushed := rp_pushed rp @ [vf_path f]\<rparr>)))))))))"

definition pushDelete :: "('srv, 'dev, 'key) engine \<Rightarrow> vanished \<Rightarrow> ('srv, 'dev, unit) pass" where
  "pushDelete en v =
     io_bind (ctx (\<lambda>c. jget (px_byNodeId c) (va_nodeId v))) (\<lambda>onServer.
       case onServer of
         None \<Rightarrow> del_node (va_path v)
       | Some n \<Rightarrow>
           io_try
             (io_bind (client (wi_deleteNode (en_client en) (va_nodeId v) (sn_rev n))) (\<lambda>_.
              io_seq (ctx_mod (\<lambda>c. c\<lparr>px_tree := jdel (sn_path n) (px_tree c),
                                      px_byNodeId := jdel (va_nodeId v) (px_byNodeId c)\<rparr>))
              (io_seq (del_node (va_path v))
               (report_mod (\<lambda>rp. rp\<lparr>rp_deleted := rp_deleted rp @ [va_path v]\<rparr>)))))
             (error_at (va_path v)))"

subsection \<open>A move\<close>

definition crossesShare :: "pass_context \<Rightarrow> path \<Rightarrow> path \<Rightarrow> bool" where
  "crossesShare c from to \<longleftrightarrow> contentScopeId c from \<noteq> contentScopeId c to"

text \<open>Removing an entry of the tree only when it is still the given node's.\<close>

definition dropIfNode :: "path \<Rightarrow> string \<Rightarrow> tree \<Rightarrow> tree" where
  "dropIfNode p nodeId tree =
     (case jget tree p of
        Some n \<Rightarrow> if sn_nodeId n = nodeId then jdel p tree else tree
      | None \<Rightarrow> tree)"

text \<open>\<open>{ ...undefined }\<close>: the object a spread of a missing node leaves.\<close>

definition noNode :: server_node where
  "noNode = \<lparr>sn_nodeId = [], sn_parentId = None, sn_path = [], sn_rev = 0, sn_address = None, sn_isFile = False,
     sn_nameKeyId = None, sn_shareId = None, sn_authorId = None\<rparr>"

definition movedInto ::
  "vanished \<Rightarrow> path \<Rightarrow> path \<Rightarrow> string \<Rightarrow> nat \<Rightarrow> string \<Rightarrow> pass_context \<Rightarrow> pass_context"
where
  "movedInto source from to parentId r scopeId c =
     (let base = (case jget (px_byNodeId c) (va_nodeId source) of Some n \<Rightarrow> n | None \<Rightarrow> noNode);
          tree = dropIfNode from (va_nodeId source) (dropIfNode (va_path source) (va_nodeId source) (px_tree c))
      in c\<lparr>px_byNodeId := jset (va_nodeId source) (base\<lparr>sn_path := to, sn_parentId := Some parentId\<rparr>) (px_byNodeId c),
           px_tree := jset to (fileNode (va_nodeId source) parentId to r (va_address source) scopeId) tree\<rparr>)"

definition pushMove ::
  "('srv, 'dev, 'key) engine \<Rightarrow> vault_file \<Rightarrow> local_meta \<Rightarrow> vanished \<Rightarrow> ('srv, 'dev, unit) pass"
where
  "pushMove en f m source =
     io_bind (ensureFolders en (vf_path f)) (\<lambda>parentId.
     io_bind (ctx (\<lambda>c. jget (px_byNodeId c) (va_nodeId source))) (\<lambda>current.
     let from = (case current of Some n \<Rightarrow> sn_path n | None \<Rightarrow> va_path source);
         ifMatch = (case current of Some n \<Rightarrow> sn_rev n | None \<Rightarrow> va_rev source) in
     io_bind (ctx (\<lambda>c. crossesShare c from (vf_path f))) (\<lambda>crosses.
     if crosses then io_seq (pushNew en f m) (pushDelete en source)
     else
       io_bind (ctx (\<lambda>c. contentScopeId c (vf_path f))) (\<lambda>scopeId.
       io_bind (scopeKeyFor en scopeId) (\<lambda>_.
       io_bind (io_try
           (io_bind (nameFor en scopeId (basePath (vf_path f))) (\<lambda>name.
              client (wi_moveNode (en_client en) (va_nodeId source) ifMatch
                \<lparr>mb_parent_id = parentId, mb_name = name\<rparr>)))
           (\<lambda>e. io_seq (handle (va_path source)) (io_throw e))) (\<lambda>r.
       io_seq (del_node (va_path source))
       (io_seq (set_node (vf_path f) (hintFrom m (knownAs (va_nodeId source) r (lm_plainHash m) (va_address source))))
       (io_seq (ctx_mod (movedInto source from (vf_path f) parentId r scopeId))
        (report_mod (\<lambda>rp. rp\<lparr>rp_renamed := rp_renamed rp @ [(from, vf_path f)]\<rparr>))))))))))"

subsection \<open>The server's bytes\<close>

definition openNode ::
  "('srv, 'dev, 'key) engine \<Rightarrow> server_node \<Rightarrow> (string, envelope list) jmap \<Rightarrow> ('srv, 'dev, bytes) pass"
where
  "openNode en node envelopes =
     io_bind (ctx px_vaultScopeId) (\<lambda>vaultScopeId.
     let scopeId = (case sn_nameKeyId node of Some s \<Rightarrow> s | None \<Rightarrow> vaultScopeId) in
     case Option.bind (sn_address node) (\<lambda>a. Option.bind (jget envelopes a) (find (\<lambda>e. ev_scopeId e = scopeId))) of
       None \<Rightarrow> io_throw (''no content-key envelope under the node's scope ('' @ scopeId @ '')'')
     | Some envelope \<Rightarrow>
         io_bind (client (wi_getBlob (en_client en) (asserted (sn_address node)))) (\<lambda>blob.
           case blob of
             None \<Rightarrow> io_throw ''the server holds no bytes at that address''
           | Some ciphertext \<Rightarrow>
               io_bind (scopeKeyFor en scopeId) (\<lambda>key.
               io_bind (io_lift (cr_unwrapContentKey (en_crypto en) key (ev_wrappedKey envelope))) (\<lambda>contentKey.
               io_lift (cr_openBlob (en_crypto en) contentKey ciphertext)))))"

definition fetchPlain :: "('srv, 'dev, 'key) engine \<Rightarrow> server_node \<Rightarrow> ('srv, 'dev, bytes) pass" where
  "fetchPlain en node =
     (if \<not> truthy (sn_address node) then io_throw ''a folder has no content - this is a bug if it happens''
      else io_bind (client (wi_blobKeys (en_client en) [sn_address node])) (\<lambda>envelopes. openNode en node envelopes))"

subsection \<open>A conflict\<close>

definition recordServer :: "('srv, 'dev, 'key) engine \<Rightarrow> path \<Rightarrow> server_node \<Rightarrow> string \<Rightarrow> ('srv, 'dev, unit) pass" where
  "recordServer en p onServer plainHash =
     io_bind (hintFor en p) (\<lambda>hint.
       set_node p (hint (knownAs (sn_nodeId onServer) (sn_rev onServer) plainHash (asserted (sn_address onServer)))))"

definition queueCopy :: "('srv, 'dev, 'key) engine \<Rightarrow> path \<Rightarrow> nat \<Rightarrow> ('srv, 'dev, unit) pass" where
  "queueCopy en conflictPath localSize =
     io_bind (vault (vt_stat (en_vault en) conflictPath)) (\<lambda>copy.
     io_bind draw (\<lambda>n.
       ctx_mod (\<lambda>c. c\<lparr>px_queue := px_queue c @
         [\<lparr>vf_path = conflictPath,
           vf_mtime = (case copy of Some (mt, _) \<Rightarrow> mt | None \<Rightarrow> en_now en n),
           vf_size = (case copy of Some (_, sz) \<Rightarrow> sz | None \<Rightarrow> localSize)\<rparr>]\<rparr>)))"

definition keepBoth ::
  "('srv, 'dev, 'key) engine \<Rightarrow> path \<Rightarrow> server_node \<Rightarrow> bytes \<Rightarrow> bytes \<Rightarrow> ('srv, 'dev, unit) pass"
where
  "keepBoth en p onServer localPlain serverPlain =
     io_bind (isoNow en) (\<lambda>now.
     let conflictPath = conflictCopyName p (en_deviceLabel en) now in
     io_seq (vault (vt_write (en_vault en) conflictPath localPlain None))
     (io_seq (vault (vt_write (en_vault en) p serverPlain None))
     (io_seq (recordServer en p onServer (cr_plainHash (en_crypto en) serverPlain))
     (io_seq (report_mod (\<lambda>rp. rp\<lparr>rp_conflicts := rp_conflicts rp @ [(p, conflictPath)]\<rparr>))
     (queueCopy en conflictPath (length localPlain))))))"

definition resolveConflict ::
  "('srv, 'dev, 'key) engine \<Rightarrow> vault_file \<Rightarrow> server_node \<Rightarrow> bytes option \<Rightarrow> ('srv, 'dev, unit) pass"
where
  "resolveConflict en f onServer fetched =
     io_bind (case fetched of None \<Rightarrow> fetchPlain en onServer | Some b \<Rightarrow> io_ret b) (\<lambda>serverPlain.
     io_bind (vault (vt_read (en_vault en) (vf_path f))) (\<lambda>localPlain.
     if cr_plainHash (en_crypto en) localPlain = cr_plainHash (en_crypto en) serverPlain then
       io_seq (recordServer en (vf_path f) onServer (cr_plainHash (en_crypto en) localPlain))
       (report_mod (\<lambda>rp. rp\<lparr>rp_matched := rp_matched rp @ [vf_path f]\<rparr>))
     else keepBoth en (vf_path f) onServer localPlain serverPlain))"

subsection \<open>An edit\<close>

definition pushEdit ::
  "('srv, 'dev, 'key) engine \<Rightarrow> vault_file \<Rightarrow> local_meta \<Rightarrow> known_node \<Rightarrow> server_node \<Rightarrow> ('srv, 'dev, unit) pass"
where
  "pushEdit en f m known onServer =
     io_bind (vault (vt_read (en_vault en) (vf_path f))) (\<lambda>plain.
     io_bind (ctx (\<lambda>c. contentScopeId c (vf_path f))) (\<lambda>scopeId.
     io_bind (content en plain scopeId) (\<lambda>(address, mat).
     io_bind (ctx px_policy) (\<lambda>policy.
     io_bind (client (wi_putContent (en_client en) (sn_nodeId onServer)
         \<lparr>pb_sha256 = address, pb_size = length plain, pb_mtime = en_iso en (vf_mtime f),
          pb_base_sha256 = (if preferLocal policy then sn_address onServer else Some (kn_address known)),
          pb_material = mat\<rparr>)) (\<lambda>out.
     case out of
       Put_Refused pc \<Rightarrow>
         if pc_conflict pc \<noteq> ''base_mismatch'' then error_at (vf_path f) (''refused: '' @ pc_conflict pc)
         else
           (let current = onServer\<lparr>sn_address := (case pc_sha256 pc of Some a \<Rightarrow> Some a | None \<Rightarrow> sn_address onServer),
                                   sn_rev := (case pc_rev pc of Some r \<Rightarrow> r | None \<Rightarrow> sn_rev onServer)\<rparr> in
            io_bind (fetchPlain en current) (\<lambda>serverPlain. resolveConflict en f current (Some serverPlain)))
     | Put_Done r \<Rightarrow>
         io_seq (set_node (vf_path f) (hintFrom m (knownAs (sn_nodeId onServer) r (lm_plainHash m) address)))
         (report_mod (\<lambda>rp. rp\<lparr>rp_pushed := rp_pushed rp @ [vf_path f]\<rparr>)))))))"

subsection \<open>A rename on the server\<close>

definition relocate :: "('srv, 'dev, 'key) engine \<Rightarrow> vault_file \<Rightarrow> path \<Rightarrow> ('srv, 'dev, unit) pass" where
  "relocate en f to =
     (if lowerPath (vf_path f) = lowerPath to then vault (vt_rename (en_vault en) (vf_path f) to)
      else io_bind (vault (vt_read (en_vault en) (vf_path f))) (\<lambda>plain.
           io_seq (vault (vt_write (en_vault en) to plain (Some (vf_mtime f))))
           (vault (vt_delete (en_vault en) (vf_path f)))))"

definition recordRename ::
  "('srv, 'dev, 'key) engine \<Rightarrow> path \<Rightarrow> local_meta \<Rightarrow> known_node \<Rightarrow> server_node \<Rightarrow> ('srv, 'dev, unit) pass"
where
  "recordRename en from m known movedTo =
     io_seq (del_node from)
     (io_seq (io_bind (hintFor en (sn_path movedTo)) (\<lambda>hint.
         set_node (sn_path movedTo) (hint (knownAs (kn_nodeId known) (sn_rev movedTo) (lm_plainHash m) (asserted (sn_address movedTo))))))
     (io_seq (handle (sn_path movedTo))
     (report_mod (\<lambda>rp. rp\<lparr>rp_renamed := rp_renamed rp @ [(from, sn_path movedTo)]\<rparr>))))"

definition applyRemoteRename ::
  "('srv, 'dev, 'key) engine \<Rightarrow> vault_file \<Rightarrow> local_meta \<Rightarrow> known_node \<Rightarrow> server_node \<Rightarrow> ('srv, 'dev, unit) pass"
where
  "applyRemoteRename en f m known movedTo =
     io_seq (relocate en f (sn_path movedTo))
     (io_seq (recordRename en (vf_path f) m known movedTo)
     (io_when (kn_plainHash known \<noteq> lm_plainHash m)
        (pushEdit en \<lparr>vf_path = sn_path movedTo, vf_mtime = vf_mtime f, vf_size = lm_size m\<rparr> m known movedTo)))"

subsection \<open>Pulling\<close>

text \<open>The folders above a path, from the top: \<open>parts.slice(0, i).join('/')\<close> for \<open>i\<close> below the length.\<close>

definition foldersAbove :: "path \<Rightarrow> path list" where
  "foldersAbove p =
     (let parts = splitOn slash p
      in map (\<lambda>i. joinWith [slash] (take i parts)) [1 ..< length parts])"

definition shareRootAbove :: "pass_context \<Rightarrow> path \<Rightarrow> path option" where
  "shareRootAbove c p =
     find (\<lambda>folder. case jget (px_tree c) folder of
                      None \<Rightarrow> False
                    | Some at \<Rightarrow> \<not> sn_isFile at \<and> isShareRoot at (px_shareScopes c)) (foldersAbove p)"

definition arrival_of :: "server_node \<Rightarrow> ('srv, 'dev, arrival) pass" where
  "arrival_of node =
     io_bind (ctx (\<lambda>c. c)) (\<lambda>c.
     let base = \<lparr>ar_path = sn_path node, ar_isNew = (sn_path node \<notin> set (px_knownBefore c)),
                 ar_authorId = sn_authorId node, ar_shareRoot = None, ar_firstFromShare = None\<rparr> in
     case shareRootAbove c (sn_path node) of
       None \<Rightarrow> io_ret base
     | Some folder \<Rightarrow>
         (let known = (case jget (px_sharesKnown c) folder of
                         Some k \<Rightarrow> k
                       | None \<Rightarrow> list_ex (within folder) (px_knownBefore c)) in
          io_seq (ctx_mod (\<lambda>c. c\<lparr>px_sharesKnown := jset folder known (px_sharesKnown c)\<rparr>))
          (io_ret (base\<lparr>ar_shareRoot := Some folder, ar_firstFromShare := Some (\<not> known)\<rparr>))))"

definition pullOne ::
  "('srv, 'dev, 'key) engine \<Rightarrow> (string, envelope list) jmap \<Rightarrow> server_node \<Rightarrow> ('srv, 'dev, unit) pass"
where
  "pullOne en envelopes node =
     io_try
       (io_bind (openNode en node envelopes) (\<lambda>plain.
        io_seq (vault (vt_write (en_vault en) (sn_path node) plain None))
        (io_seq (recordServer en (sn_path node) node (cr_plainHash (en_crypto en) plain))
        (io_bind (arrival_of node) (\<lambda>a. report_mod (\<lambda>rp. rp\<lparr>rp_pulled := rp_pulled rp @ [a]\<rparr>))))))
       (error_at (sn_path node))"

definition pull :: "('srv, 'dev, 'key) engine \<Rightarrow> server_node list \<Rightarrow> ('srv, 'dev, unit) pass" where
  "pull en nodes =
     io_bind (client (wi_blobKeys (en_client en) (map sn_address nodes))) (\<lambda>envelopes.
       io_each (pullOne en envelopes) nodes)"

subsection \<open>One local file\<close>

definition situationOf :: "pass_context \<Rightarrow> path \<Rightarrow> local_meta \<Rightarrow> situation" where
  "situationOf c p m =
     \<lparr>si_meta = m, si_known = jget (vs_nodes (px_state c)) p, si_onServer = jget (px_tree c) p,
      si_byNodeId = px_byNodeId c, si_dedup = px_dedup c, si_vanished = px_vanished c, si_tree = px_tree c,
      si_policy = px_policy c\<rparr>"

fun carryOut :: "('srv, 'dev, 'key) engine \<Rightarrow> vault_file \<Rightarrow> local_meta \<Rightarrow> decision \<Rightarrow> ('srv, 'dev, unit) pass" where
  "carryOut en f m Nothing = io_ret ()"
| "carryOut en f m RefreshHint =
     ctx_mod (\<lambda>c. c\<lparr>px_state := (px_state c)\<lparr>vs_nodes :=
       (case jget (vs_nodes (px_state c)) (vf_path f) of
          Some k \<Rightarrow> jset (vf_path f) (hintFrom m k) (vs_nodes (px_state c))
        | None \<Rightarrow> vs_nodes (px_state c))\<rparr>\<rparr>)"
| "carryOut en f m (Pull node) = pull en [node]"
| "carryOut en f m (PushEdit known onServer) = pushEdit en f m known onServer"
| "carryOut en f m (Adopt onServer) =
     io_seq (set_node (vf_path f) (hintFrom m (knownAs (sn_nodeId onServer) (sn_rev onServer) (lm_plainHash m)
                                     (asserted (sn_address onServer)))))
     (report_mod (\<lambda>rp. rp\<lparr>rp_matched := rp_matched rp @ [vf_path f]\<rparr>))"
| "carryOut en f m (Conflict onServer) = resolveConflict en f onServer None"
| "carryOut en f m (RemoteRename known movedTo) = applyRemoteRename en f m known movedTo"
| "carryOut en f m RemoveLocal =
     io_seq (vault (vt_delete (en_vault en) (vf_path f)))
     (io_seq (del_node (vf_path f))
     (report_mod (\<lambda>rp. rp\<lparr>rp_removed := rp_removed rp @ [vf_path f]\<rparr>)))"
| "carryOut en f m (PushMove source) =
     io_seq (ctx_mod (\<lambda>c. c\<lparr>px_vanished := jdel (lm_plainHash m) (px_vanished c)\<rparr>)) (pushMove en f m source)"
| "carryOut en f m PushNew = pushNew en f m"

definition reconcileLocal :: "('srv, 'dev, 'key) engine \<Rightarrow> vault_file \<Rightarrow> ('srv, 'dev, unit) pass" where
  "reconcileLocal en f =
     io_bind (ctx (\<lambda>c. c)) (\<lambda>c.
     io_bind (case jget (px_meta c) (vf_path f) of
                Some m \<Rightarrow> io_ret m
              | None \<Rightarrow> hashAndTag en f (contentScopeId c (vf_path f))) (\<lambda>m.
     io_bind (ctx (\<lambda>c. situationOf c (vf_path f) m)) (\<lambda>s. carryOut en f m (decide s))))"

end
