(* ===== verification/Engine_Folders.thy ===== *)
theory Engine_Folders
  imports Engine_Ops
begin

text \<open>
  What the engine does to whole folders (\<open>plugin/src/engine/engine.ts\<close>): carrying out the plan of
  \<open>folderMoves\<close>, holding back a shared folder that disappeared without a move that explains it, putting
  back one that was deleted, and removing emptied and deleted folders from the server.
\<close>

subsection \<open>Claiming and releasing vanished files\<close>

definition keepVanished :: "(vanished \<Rightarrow> bool) \<Rightarrow> (string, vanished list) jmap \<Rightarrow> (string, vanished list) jmap" where
  "keepVanished P m =
     foldl (\<lambda>m' (hash, list). if filter P list \<noteq> [] then jset hash (filter P list) m' else jdel hash m') m m"

definition handleAll :: "path list \<Rightarrow> pass_context \<Rightarrow> pass_context" where
  "handleAll ps c = c\<lparr>px_handled := foldl (\<lambda>hs p. sadd p hs) (px_handled c) ps\<rparr>"

text \<open>One child of a held move: its vanished entry under the source is claimed, any other of the same
  bytes stays.\<close>

definition holdChild :: "path \<Rightarrow> pass_context \<Rightarrow> moved_child \<Rightarrow> pass_context" where
  "holdChild from c child =
     (let list = (case jget (px_vanished c) (mc_hash child) of Some l \<Rightarrow> l | None \<Rightarrow> []);
          rest = filter (\<lambda>v. \<not> within from (va_path v)) list;
          c' = handleAll (map va_path (filter (\<lambda>v. within from (va_path v)) list)) c
      in c'\<lparr>px_vanished := (if rest \<noteq> [] then jset (mc_hash child) rest (px_vanished c)
                             else jdel (mc_hash child) (px_vanished c))\<rparr>)"

definition holdBackCtx :: "folder_move \<Rightarrow> pass_context \<Rightarrow> pass_context" where
  "holdBackCtx move c =
     (let c1 = foldl (holdChild (fm_from move)) c (fm_children move);
          inside = (\<lambda>f. within (fm_to move) (vf_path f));
          c2 = handleAll (map vf_path (filter inside (px_queue c1))) c1
      in c2\<lparr>px_queue := filter (\<lambda>f. \<not> inside f) (px_queue c2)\<rparr>)"

definition holdBack :: "folder_move \<Rightarrow> ('srv, 'dev, unit) pass" where
  "holdBack move = ctx_mod (holdBackCtx move)"

definition stillHere :: "('srv, 'dev, 'key) engine \<Rightarrow> path \<Rightarrow> path \<Rightarrow> ('srv, 'dev, bool) pass" where
  "stillHere en from to =
     (if lowerPath from = lowerPath to then io_ret False else vault (vt_folderExists (en_vault en) from))"

subsection \<open>Shared folders that disappeared\<close>

definition regroupedUnder :: "path list \<Rightarrow> path list \<Rightarrow> path option" where
  "regroupedUnder rels paths =
     (case rels of
        [] \<Rightarrow> None
      | first # _ \<Rightarrow>
          (case find (\<lambda>p. endsWith p (slash # first) \<and>
                       list_all (\<lambda>rel. take (length p - length first - 1) p @ slash # rel \<in> set paths) rels) paths of
             None \<Rightarrow> None
           | Some p \<Rightarrow> Some (take (length p - length first - 1) p)))"

definition planCovers :: "folder_move list \<Rightarrow> path \<Rightarrow> bool" where
  "planCovers plan p = list_ex (\<lambda>m. fm_from m = p \<or> within p (fm_from m) \<or> within (fm_from m) p) plan"

definition turnedUp :: "pass_context \<Rightarrow> path list \<Rightarrow> vault_file \<Rightarrow> bool" where
  "turnedUp c rels f =
     (\<not> jhas (vs_nodes (px_state c)) (vf_path f) \<and>
      list_ex (\<lambda>rel. vf_path f = rel \<or> endsWith (vf_path f) (slash # rel)) rels)"

definition share_root_moved :: string where
  "share_root_moved = ''this shared folder is gone from here and it is not clear where to - nothing about it was sent. Rename it back, or rename it with nothing else changed inside it. To stop sharing it, use Leave in the Sharing section.''"

definition share_root_merged :: "path \<Rightarrow> string" where
  "share_root_merged p = ''there is already a folder '' @ p @ '' on the server, and a shared folder cannot be merged into one - nothing about it was sent. Move it back, or give it a name that is free there.''"

definition share_root_restored :: string where
  "share_root_restored = ''this shared folder was deleted here, and deleting it would have deleted its files for everybody in the share - so they were put back. To stop sharing it, leave the share first (Sharing section); after that the folder is yours to delete.''"

definition share_into_share :: string where
  "share_into_share = ''a shared folder cannot be moved into another shared folder - move it back''"

definition holdShareRoot ::
  "('srv, 'dev, 'key) engine \<Rightarrow> folder_move list \<Rightarrow> path list \<Rightarrow> path \<times> server_node \<Rightarrow> ('srv, 'dev, unit) pass"
where
  "holdShareRoot en plan here e =
     (let p = fst e; node = snd e in
      io_bind (ctx (\<lambda>c. c)) (\<lambda>c.
      if sn_isFile node \<or> \<not> isShareRoot node (px_shareScopes c) then io_ret ()
      else if list_ex (within p) here then io_ret ()
      else if planCovers plan p then io_ret ()
      else io_bind (vault (vt_folderExists (en_vault en) p)) (\<lambda>present.
        if present then io_ret ()
        else
          (let rels = foldl (\<lambda>rs v. sadd (drop (Suc (length p)) (va_path v)) rs) []
                        (filter (\<lambda>v. within p (va_path v)) (concat (map snd (px_vanished c))));
               couldBe = turnedUp c rels;
               under = regroupedUnder rels (map vf_path (filter couldBe (px_queue c)));
               regrouped = (case under of Some u \<Rightarrow> if basePath u = basePath p then Some u else None | None \<Rightarrow> None)
           in if \<not> truthy regrouped \<and>
                 \<not> list_ex (\<lambda>f. couldBe f \<and> \<not> jhas (px_tree c) (parentPath (vf_path f))) (px_queue c)
              then io_ret ()
              else
                io_seq (ctx_mod (\<lambda>c.
                    let c1 = handleAll (map va_path (filter (\<lambda>v. within p (va_path v)) (concat (map snd (px_vanished c))))) c;
                        c2 = c1\<lparr>px_vanished := keepVanished (\<lambda>v. \<not> within p (va_path v)) (px_vanished c1)\<rparr>;
                        c3 = handleAll (map vf_path (filter couldBe (px_queue c2))) c2
                    in c3\<lparr>px_queue := filter (\<lambda>f. \<not> couldBe f) (px_queue c3)\<rparr>))
                (error_at p (case regrouped of
                   Some u \<Rightarrow> if jhas (px_tree c) u then share_root_merged u else share_root_moved
                 | None \<Rightarrow> share_root_moved))))))"

definition holdShareRoots ::
  "('srv, 'dev, 'key) engine \<Rightarrow> folder_move list \<Rightarrow> path list \<Rightarrow> ('srv, 'dev, unit) pass"
where
  "holdShareRoots en plan here = io_bind (ctx px_tree) (\<lambda>tree. io_each (holdShareRoot en plan here) tree)"

definition restoreDeletedShareRoot ::
  "('srv, 'dev, 'key) engine \<Rightarrow> folder_move list \<Rightarrow> path list \<Rightarrow> path \<times> server_node \<Rightarrow> ('srv, 'dev, unit) pass"
where
  "restoreDeletedShareRoot en plan here e =
     (let p = fst e; node = snd e in
      io_bind (ctx (\<lambda>c. c)) (\<lambda>c.
      if sn_isFile node \<or> \<not> isShareRoot node (px_shareScopes c) then io_ret ()
      else if list_ex (within p) here then io_ret ()
      else if planCovers plan p then io_ret ()
      else
        (let gone = filter (\<lambda>v. within p (va_path v) \<and>
                       map_option sn_path (jget (px_byNodeId c) (va_nodeId v)) = Some (va_path v))
                     (concat (map snd (px_vanished c)));
             rels = map (\<lambda>v. drop (Suc (length p)) (va_path v)) gone
         in if gone = [] then io_ret ()
            else if list_ex (turnedUp c rels) (px_queue c) then io_ret ()
            else io_bind (vault (vt_folderExists (en_vault en) p)) (\<lambda>present.
              if present then io_ret ()
              else
                io_seq (ctx_mod (\<lambda>c. c\<lparr>px_vanished := keepVanished (\<lambda>v. v \<notin> set gone) (px_vanished c)\<rparr>))
                (io_seq (io_each (\<lambda>v. del_node (va_path v)) gone)
                 (error_at p share_root_restored))))))"

definition restoreDeletedShareRoots ::
  "('srv, 'dev, 'key) engine \<Rightarrow> folder_move list \<Rightarrow> path list \<Rightarrow> ('srv, 'dev, unit) pass"
where
  "restoreDeletedShareRoots en plan here =
     io_bind (ctx px_tree) (\<lambda>tree. io_each (restoreDeletedShareRoot en plan here) tree)"

subsection \<open>Carrying out the plan\<close>

definition afterMove :: "folder_move \<Rightarrow> nat \<Rightarrow> vault_file list \<Rightarrow> pass_context \<Rightarrow> pass_context" where
  "afterMove move r files c =
     (let c1 = c\<lparr>px_tree := remapTree (px_tree c) (fm_from move) (fm_to move) r,
                 px_state := (px_state c)\<lparr>vs_nodes := remapState (vs_nodes (px_state c)) (fm_from move) (fm_to move)\<rparr>,
                 px_vanished := foldl (\<lambda>m child. jdel (mc_hash child) m) (px_vanished c) (fm_children move)\<rparr>
      in handleAll (map mc_to (fm_children move) @ [fm_to move] @
           map vf_path (filter (\<lambda>f. within (fm_to move) (vf_path f)) files)) c1)"

definition sendMove ::
  "('srv, 'dev, 'key) engine \<Rightarrow> vault_file list \<Rightarrow> folder_move \<Rightarrow> string \<Rightarrow> ('srv, 'dev, unit) pass"
where
  "sendMove en files move destParentId =
     io_seq
       (case fm_replaces move of
          None \<Rightarrow> io_ret ()
        | Some (nodeId, r) \<Rightarrow>
            io_bind (client (wi_deleteNode (en_client en) nodeId r)) (\<lambda>_.
              ctx_mod (\<lambda>c. c\<lparr>px_tree := jdel (fm_to move) (px_tree c), px_byNodeId := jdel nodeId (px_byNodeId c)\<rparr>)))
     (io_bind (ctx (\<lambda>c. contentScopeId c (fm_to move))) (\<lambda>scopeId.
      io_bind (nameFor en scopeId (basePath (fm_to move))) (\<lambda>name.
      io_bind (client (wi_moveNode (en_client en) (fm_nodeId move) (fm_rev move)
          \<lparr>mb_parent_id = destParentId, mb_name = name\<rparr>)) (\<lambda>r.
      io_seq (ctx_mod (afterMove move r files))
      (report_mod (\<lambda>rp. rp\<lparr>rp_renamed := rp_renamed rp @ [(fm_from move, fm_to move)]\<rparr>))))))"

definition moveFolder ::
  "('srv, 'dev, 'key) engine \<Rightarrow> vault_file list \<Rightarrow> folder_move \<Rightarrow> ('srv, 'dev, unit) pass"
where
  "moveFolder en files move =
     io_bind (ctx (\<lambda>c. c)) (\<lambda>c.
     if crossesShare c (fm_from move) (fm_to move) then
       (case jget (px_tree c) (fm_from move) of
          None \<Rightarrow> io_throw ''Cannot read properties of undefined''
        | Some node \<Rightarrow>
            if isShareRoot node (px_shareScopes c)
            then io_seq (holdBack move) (error_at (fm_to move) share_into_share)
            else ctx_mod (\<lambda>c. c\<lparr>px_crossed := px_crossed c @ [fm_from move]\<rparr>))
     else
       (let destParent = (if fm_to move \<noteq> [] then parentPath (fm_to move) else []) in
        case (if destParent \<noteq> [] then map_option sn_nodeId (jget (px_tree c) destParent) else Some (px_rootNodeId c)) of
          None \<Rightarrow> io_throw ''Cannot read properties of undefined''
        | Some destParentId \<Rightarrow>
            io_try (sendMove en files move destParentId)
              (\<lambda>e. io_seq (holdBack move) (error_at (fm_from move) e))))"

definition moveRenamedFolders ::
  "('srv, 'dev, 'key) engine \<Rightarrow> vault_file list \<Rightarrow> path list \<Rightarrow> ('srv, 'dev, unit) pass"
where
  "moveRenamedFolders en files here =
     io_bind (ctx (\<lambda>c. folderMoves (px_vanished c) (px_tree c) (px_meta c) here)) (\<lambda>moves.
     io_bind (io_filter (\<lambda>move. io_bind (stillHere en (fm_from move) (fm_to move)) (\<lambda>still. io_ret (\<not> still))) moves) (\<lambda>plan.
     io_seq (holdShareRoots en plan here)
     (io_seq (restoreDeletedShareRoots en plan here)
     (io_each (moveFolder en files) plan))))"

subsection \<open>Folders to remove\<close>

definition emptyOnServer :: "pass_context \<Rightarrow> path \<Rightarrow> server_node option" where
  "emptyOnServer c p =
     (case jget (px_tree c) p of
        None \<Rightarrow> None
      | Some folder \<Rightarrow> if list_ex (within p) (jkeys (px_tree c)) then None else Some folder)"

definition removeCrossedFolder :: "('srv, 'dev, 'key) engine \<Rightarrow> path \<Rightarrow> ('srv, 'dev, unit) pass" where
  "removeCrossedFolder en p =
     io_bind (ctx (\<lambda>c. emptyOnServer c p)) (\<lambda>found. case found of
       None \<Rightarrow> io_ret ()
     | Some folder \<Rightarrow>
         io_try
           (io_bind (client (wi_deleteNode (en_client en) (sn_nodeId folder) (sn_rev folder))) (\<lambda>_.
              ctx_mod (\<lambda>c. c\<lparr>px_tree := jdel p (px_tree c), px_byNodeId := jdel (sn_nodeId folder) (px_byNodeId c)\<rparr>)))
           (error_at p))"

definition removeCrossedFolders :: "('srv, 'dev, 'key) engine \<Rightarrow> ('srv, 'dev, unit) pass" where
  "removeCrossedFolders en =
     io_bind (ctx px_crossed) (\<lambda>crossed.
       io_each (removeCrossedFolder en) (sort_key (\<lambda>p. - int (depth p)) crossed))"

definition removeDeletedFolder :: "('srv, 'dev, 'key) engine \<Rightarrow> path \<Rightarrow> ('srv, 'dev, unit) pass" where
  "removeDeletedFolder en p =
     io_bind (ctx (\<lambda>c. emptyOnServer c p)) (\<lambda>found. case found of
       None \<Rightarrow> io_ret ()
     | Some folder \<Rightarrow>
         io_bind (vault (vt_folderExists (en_vault en) p)) (\<lambda>present.
         if present then io_ret ()
         else
           io_try
             (io_bind (client (wi_deleteNode (en_client en) (sn_nodeId folder) (sn_rev folder))) (\<lambda>_.
                io_seq (ctx_mod (\<lambda>c. c\<lparr>px_tree := jdel p (px_tree c), px_byNodeId := jdel (sn_nodeId folder) (px_byNodeId c)\<rparr>))
                (report_mod (\<lambda>rp. rp\<lparr>rp_deleted := rp_deleted rp @ [p]\<rparr>))))
             (error_at p)))"

definition removeDeletedFolders :: "('srv, 'dev, 'key) engine \<Rightarrow> (path \<Rightarrow> bool) \<Rightarrow> ('srv, 'dev, unit) pass" where
  "removeDeletedFolders en inScope =
     io_bind (ctx (\<lambda>c. c)) (\<lambda>c.
     if \<not> pushDeletes (px_policy c) then io_ret ()
     else io_each (removeDeletedFolder en)
       (sort_key (\<lambda>p. - int (depth p))
         (map fst (filter (\<lambda>(p, n). \<not> sn_isFile n \<and> inScope p \<and> \<not> isShareRoot n (px_shareScopes c)) (px_tree c)))))"

end
