(* ===== verification/Engine_Pass.thy ===== *)
theory Engine_Pass
  imports Engine_Folders
begin

text \<open>
  One pass of the engine (\<open>plugin/src/engine/engine.ts\<close>): the probe that says what an absence means,
  the walked or remembered tree, the pre-pass that describes the local files, the walk over the queue,
  the deletions, the pull, and the resync a reset asks for. The queue can grow while it is drained, so
  the walk takes fuel; running out of it is an error no run of the source has.
\<close>

subsection \<open>What an absence means\<close>

datatype remote_epoch = Continuous | JournalTtl | Restored | WasReset | Unverifiable

fun POLICY :: "remote_epoch \<Rightarrow> sync_policy" where
  "POLICY Continuous = \<lparr>pushDeletes = True, applyRemoteDeletes = True, preferLocal = False\<rparr>"
| "POLICY JournalTtl = \<lparr>pushDeletes = True, applyRemoteDeletes = True, preferLocal = False\<rparr>"
| "POLICY Restored = \<lparr>pushDeletes = False, applyRemoteDeletes = False, preferLocal = True\<rparr>"
| "POLICY Unverifiable = \<lparr>pushDeletes = False, applyRemoteDeletes = False, preferLocal = True\<rparr>"
| "POLICY WasReset = \<lparr>pushDeletes = False, applyRemoteDeletes = False, preferLocal = True\<rparr>"

fun rejectionEpoch :: "cursor_rejection \<Rightarrow> remote_epoch" where
  "rejectionEpoch RejRestore = Restored"
| "rejectionEpoch RejReset = WasReset"
| "rejectionEpoch RejJournalTtl = JournalTtl"

record epoch_probe =
  ep_epoch :: remote_epoch
  ep_events :: "delta_event list"
  ep_quiet :: bool

fun probeAnswer :: "delta_answer \<Rightarrow> epoch_probe" where
  "probeAnswer (Rejected r) = \<lparr>ep_epoch = rejectionEpoch r, ep_events = [], ep_quiet = False\<rparr>"
| "probeAnswer (CursorUnverifiable fault) = \<lparr>ep_epoch = Unverifiable, ep_events = [], ep_quiet = False\<rparr>"
| "probeAnswer (Answer changes events next_cursor has_more) =
     \<lparr>ep_epoch = Continuous, ep_events = events, ep_quiet = (changes = [] \<and> \<not> has_more)\<rparr>"

definition probeEpoch :: "('srv, 'dev, 'key) engine \<Rightarrow> string \<Rightarrow> ('srv, 'dev, epoch_probe) pass" where
  "probeEpoch en cursor =
     io_bind (client (wi_delta (en_client en) cursor 1)) (\<lambda>res. io_ret (probeAnswer res))"

subsection \<open>The tree, walked or remembered\<close>

definition rememberedTree ::
  "('srv, 'dev, 'key) engine \<Rightarrow> string option \<Rightarrow> bool \<Rightarrow> ('srv, 'dev, walked_tree option) pass"
where
  "rememberedTree en cursor quiet =
     io_get (\<lambda>w. if quiet \<and> truthy cursor
                 then (case wd_cache w of
                         None \<Rightarrow> None
                       | Some held \<Rightarrow>
                           map_option (\<lambda>t. \<lparr>wt_cursor = asserted cursor, wt_scopes = fingerprint (en_scopes en), wt_walked = t\<rparr>)
                             (cache_get held (asserted cursor) (fingerprint (en_scopes en))))
                 else None)"

definition readServerTree :: "('srv, 'dev, 'key) engine \<Rightarrow> string \<Rightarrow> ('srv, 'dev, walked \<times> string) pass" where
  "readServerTree en rootNodeId =
     io_bind (client (wi_listNodes (en_client en))) (\<lambda>(nodes, snapshot).
     io_bind (io_lift (treeFrom (cr_decryptName (en_crypto en)) nodes rootNodeId (en_scopes en))) (\<lambda>t.
       io_ret (t, snapshot)))"

definition remember :: "walked_tree \<Rightarrow> ('srv, 'dev, unit) pass" where
  "remember t = io_mod (\<lambda>w. w\<lparr>wd_cache := map_option (cache_put t) (wd_cache w)\<rparr>)"

definition walkedOrRemembered ::
  "('srv, 'dev, 'key) engine \<Rightarrow> string option \<Rightarrow> bool \<Rightarrow> ('srv, 'dev, walked_tree) pass"
where
  "walkedOrRemembered en cursor quiet =
     io_bind (rememberedTree en cursor quiet) (\<lambda>held. case held of
       Some t \<Rightarrow> io_ret t
     | None \<Rightarrow>
         io_bind (readServerTree en (sc_root_node_id (en_scopes en))) (\<lambda>(t, snapshot).
           let walked = \<lparr>wt_cursor = snapshot, wt_scopes = fingerprint (en_scopes en), wt_walked = t\<rparr>
           in io_seq (remember walked) (io_ret walked)))"

definition readTree :: "('srv, 'dev, 'key) engine \<Rightarrow> ('srv, 'dev, tree) pass" where
  "readTree en =
     io_bind (vault (vt_load (en_vault en))) (\<lambda>st.
     io_bind (io_get wd_cache) (\<lambda>cache.
     io_bind (if truthy (vs_cursor st) \<and> cache \<noteq> None
              then io_bind (probeEpoch en (asserted (vs_cursor st))) (\<lambda>probe.
                     rememberedTree en (vs_cursor st) (ep_quiet probe))
              else io_ret None) (\<lambda>held.
       case held of
         Some t \<Rightarrow> io_ret (wa_tree (wt_walked t))
       | None \<Rightarrow> io_bind (readServerTree en (sc_root_node_id (en_scopes en))) (\<lambda>(t, snapshot).
                   io_ret (wa_tree t)))))"

subsection \<open>The pre-pass\<close>

definition orphan_left_alone :: string where
  "orphan_left_alone = ''on the server this sits under a folder that was deleted, so it is left alone here until that folder is restored from the trash''"

definition orphans_left_out :: "nat \<Rightarrow> string" where
  "orphans_left_out n = showNat n @ '' item(s) on the server sit under a folder that was deleted; they are left out of this vault until that folder is restored''"

definition strandedPaths :: "string list \<Rightarrow> (path, known_node) jmap \<Rightarrow> path list" where
  "strandedPaths orphans nodes = map fst (filter (\<lambda>(p, known). kn_nodeId known \<in> set orphans) nodes)"

definition strandedErrors :: "string list \<Rightarrow> path list \<Rightarrow> (path \<times> string) list" where
  "strandedErrors orphans stranded =
     map (\<lambda>p. (p, orphan_left_alone)) stranded @
     (if length stranded < length orphans then [([], orphans_left_out (length orphans - length stranded))] else [])"

definition inScopeOf :: "('srv, 'dev, 'key) engine \<Rightarrow> unreadable_folder list \<Rightarrow> path list \<Rightarrow> path \<Rightarrow> bool" where
  "inScopeOf en unreadable stranded p \<longleftrightarrow>
     inSyncScope en p \<and> \<not> list_ex (\<lambda>u. p = uf_path u \<or> within (uf_path u) p) unreadable \<and> p \<notin> set stranded"

definition describe ::
  "('srv, 'dev, 'key) engine \<Rightarrow> bool \<Rightarrow> (path, known_node) jmap \<Rightarrow> (path \<Rightarrow> string) \<Rightarrow> vault_file \<Rightarrow>
   ('srv, 'dev, path \<times> local_meta) pass"
where
  "describe en trustHints nodes scopeOf f =
     (case jget nodes (vf_path f) of
        Some known \<Rightarrow>
          if trustHints \<and> kn_mtime known = Some (vf_mtime f) \<and> kn_size known = Some (vf_size f)
          then io_ret (vf_path f, \<lparr>lm_plainHash = kn_plainHash known,
                 lm_tag = tagFor en (scopeOf (vf_path f)) (kn_plainHash known),
                 lm_mtime = vf_mtime f, lm_size = vf_size f\<rparr>)
          else io_bind (hashAndTag en f (scopeOf (vf_path f))) (\<lambda>m. io_ret (vf_path f, m))
      | None \<Rightarrow> io_bind (hashAndTag en f (scopeOf (vf_path f))) (\<lambda>m. io_ret (vf_path f, m)))"

definition mightNeedATag :: "(path, known_node) jmap \<Rightarrow> tree \<Rightarrow> path \<times> local_meta \<Rightarrow> bool" where
  "mightNeedATag nodes tree pm =
     (case (jget nodes (fst pm), jget tree (fst pm)) of
        (Some known, Some onServer) \<Rightarrow>
          \<not> (kn_nodeId known = sn_nodeId onServer \<and> Some (kn_address known) = sn_address onServer \<and>
             kn_plainHash known = lm_plainHash (snd pm))
      | _ \<Rightarrow> True)"

definition asking :: "(path, known_node) jmap \<Rightarrow> tree \<Rightarrow> (path, local_meta) jmap \<Rightarrow> string list" where
  "asking nodes tree meta =
     foldl (\<lambda>ts t. sadd t ts) [] (map (\<lambda>(p, m). lm_tag m) (filter (mightNeedATag nodes tree) meta))"

definition collectVanished ::
  "(path \<Rightarrow> bool) \<Rightarrow> path list \<Rightarrow> (path, known_node) jmap \<Rightarrow> (string, vanished list) jmap"
where
  "collectVanished inScope here nodes =
     foldl (\<lambda>vmap (p, known).
       if \<not> inScope p \<or> p \<in> set here then vmap
       else (let v = \<lparr>va_path = p, va_nodeId = kn_nodeId known, va_rev = kn_rev known, va_address = kn_address known\<rparr>;
                 list = (case jget vmap (kn_plainHash known) of Some l \<Rightarrow> l | None \<Rightarrow> [])
             in jset (kn_plainHash known) (list @ [v]) vmap)) [] nodes"

subsection \<open>The walk\<close>

fun drain :: "('srv, 'dev, 'key) engine \<Rightarrow> nat \<Rightarrow> ('srv, 'dev, unit) pass" where
  "drain en 0 = io_throw ''out of fuel''"
| "drain en (Suc fuel) =
     io_bind (ctx px_queue) (\<lambda>queue. case queue of
       [] \<Rightarrow> io_ret ()
     | f # rest \<Rightarrow>
         io_seq (ctx_mod (\<lambda>c. c\<lparr>px_queue := rest\<rparr>))
         (io_seq (handle (vf_path f))
         (io_seq (io_try (reconcileLocal en f) (error_at (vf_path f)))
         (drain en fuel))))"

definition settleVanished :: "('srv, 'dev, 'key) engine \<Rightarrow> vanished \<Rightarrow> ('srv, 'dev, unit) pass" where
  "settleVanished en v =
     io_seq (handle (va_path v))
     (io_bind (ctx (\<lambda>c. c)) (\<lambda>c.
      case jget (px_byNodeId c) (va_nodeId v) of
        Some movedThere \<Rightarrow>
          if sn_path movedThere \<noteq> va_path v then del_node (va_path v)
          else if \<not> pushDeletes (px_policy c) then del_node (va_path v) else pushDelete en v
      | None \<Rightarrow> if \<not> pushDeletes (px_policy c) then del_node (va_path v) else pushDelete en v))"

definition serverOnly :: "('srv, 'dev, 'key) engine \<Rightarrow> pass_context \<Rightarrow> server_node list" where
  "serverOnly en c =
     filter (\<lambda>n. sn_isFile n \<and> truthy (sn_address n) \<and> inSyncScope en (sn_path n) \<and> sn_path n \<notin> set (px_handled c))
       (map snd (px_tree c))"

definition pullServerOnly :: "('srv, 'dev, 'key) engine \<Rightarrow> ('srv, 'dev, unit) pass" where
  "pullServerOnly en = io_bind (ctx (serverOnly en)) (pull en)"

definition saveState :: "('srv, 'dev, 'key) engine \<Rightarrow> string \<Rightarrow> ('srv, 'dev, sync_report) pass" where
  "saveState en cursor =
     io_seq (ctx_mod (\<lambda>c. c\<lparr>px_state := (px_state c)\<lparr>vs_cursor := Some cursor\<rparr>\<rparr>))
     (io_bind (ctx px_state) (\<lambda>st. io_seq (vault (vt_save (en_vault en) st)) (ctx px_report)))"

subsection \<open>After a reset\<close>

definition quarantineDest :: "string \<Rightarrow> path \<Rightarrow> path" where
  "quarantineDest today p = ''_Reset '' @ today @ slash # p"

definition displace :: "('srv, 'dev, 'key) engine \<Rightarrow> string \<Rightarrow> vault_file \<Rightarrow> ('srv, 'dev, unit) pass" where
  "displace en today f =
     io_bind (vault (vt_read (en_vault en) (vf_path f))) (\<lambda>bytes.
     io_seq (vault (vt_write (en_vault en) (quarantineDest today (vf_path f)) bytes (Some (vf_mtime f))))
     (io_seq (vault (vt_delete (en_vault en) (vf_path f)))
     (report_mod (\<lambda>rp. rp\<lparr>rp_quarantined := rp_quarantined rp @ [(vf_path f, quarantineDest today (vf_path f))]\<rparr>))))"

definition rebindOrDisplace :: "('srv, 'dev, 'key) engine \<Rightarrow> string \<Rightarrow> vault_file \<Rightarrow> ('srv, 'dev, unit) pass" where
  "rebindOrDisplace en today f =
     io_bind (ctx (\<lambda>c. c)) (\<lambda>c.
       case jget (px_tree c) (vf_path f) of
         None \<Rightarrow> displace en today f
       | Some onServer \<Rightarrow>
           (case jget (px_meta c) (vf_path f) of
              None \<Rightarrow> io_throw ''Cannot read properties of undefined''
            | Some m \<Rightarrow>
                if tagHits (px_dedup c) (lm_tag m) onServer then
                  io_seq (set_node (vf_path f) (hintFrom m (knownAs (sn_nodeId onServer) (sn_rev onServer)
                             (lm_plainHash m) (asserted (sn_address onServer)))))
                  (report_mod (\<lambda>rp. rp\<lparr>rp_matched := rp_matched rp @ [vf_path f]\<rparr>))
                else io_seq (displace en today f) (io_when (sn_isFile onServer) (pull en [onServer]))))"

definition resyncFile :: "('srv, 'dev, 'key) engine \<Rightarrow> string \<Rightarrow> vault_file \<Rightarrow> ('srv, 'dev, unit) pass" where
  "resyncFile en today f =
     io_seq (handle (vf_path f)) (io_try (rebindOrDisplace en today f) (error_at (vf_path f)))"

definition resyncAfterReset :: "('srv, 'dev, 'key) engine \<Rightarrow> vault_file list \<Rightarrow> ('srv, 'dev, unit) pass" where
  "resyncAfterReset en files =
     io_bind (isoNow en) (\<lambda>now.
     io_seq (ctx_mod (\<lambda>c. c\<lparr>px_state := (px_state c)\<lparr>vs_nodes := []\<rparr>, px_handled := []\<rparr>))
     (io_seq (io_each (resyncFile en (take 10 now)) files)
     (pullServerOnly en)))"

subsection \<open>The pass\<close>

definition pre_pass ::
  "('srv, 'dev, 'key) engine \<Rightarrow> bool \<Rightarrow> vault_state \<Rightarrow> epoch_probe \<Rightarrow> walked_tree \<Rightarrow>
   ('srv, 'dev, vault_file list \<times> (path \<Rightarrow> bool)) pass"
where
  "pre_pass en rescan st probe w =
     (let tree = wa_tree (wt_walked w);
          stranded = strandedPaths (wa_orphans (wt_walked w)) (vs_nodes st);
          inScope = inScopeOf en (wa_unreadable (wt_walked w)) stranded;
          shares = shareScopes (en_scopes en);
          vaultScopeId = sc_vaultScopeId (en_scopes en);
          trustHints = (\<not> rescan \<and> \<not> preferLocal (POLICY (ep_epoch probe)))
      in io_bind (localFiles en) (\<lambda>found.
         let files = filter (\<lambda>f. inScope (vf_path f)) found in
         io_bind (io_map (describe en trustHints (vs_nodes st) (scopeAt tree shares vaultScopeId)) files) (\<lambda>described.
         let meta = foldl (\<lambda>m (p, d). jset p d m) [] described in
         io_bind (client (wi_dedupLookup (en_client en) (asking (vs_nodes st) tree meta))) (\<lambda>dedup.
         io_seq (ctx_mod (\<lambda>_.
           \<lparr>px_policy = POLICY (ep_epoch probe), px_tree = tree,
            px_byNodeId = foldl (\<lambda>m n. jset (sn_nodeId n) n m) [] (map snd tree),
            px_meta = meta, px_dedup = dedup, px_vanished = [], px_handled = [], px_queue = [],
            px_rootNodeId = sc_root_node_id (en_scopes en), px_vaultScopeId = vaultScopeId,
            px_shareScopes = shares, px_crossed = [], px_knownBefore = jkeys (vs_nodes st), px_sharesKnown = [],
            px_state = st,
            px_report = emptyReport\<lparr>rp_scanned := length files, rp_events := ep_events probe,
              rp_unreadable := wa_unreadable (wt_walked w),
              rp_errors := strandedErrors (wa_orphans (wt_walked w)) stranded\<rparr>\<rparr>))
         (io_ret (files, inScope))))))"

definition walkFiles ::
  "('srv, 'dev, 'key) engine \<Rightarrow> nat \<Rightarrow> vault_file list \<Rightarrow> (path \<Rightarrow> bool) \<Rightarrow> ('srv, 'dev, unit) pass"
where
  "walkFiles en fuel files inScope =
     (let here = foldl (\<lambda>hs f. sadd (vf_path f) hs) [] files in
      io_seq (ctx_mod (\<lambda>c. c\<lparr>px_vanished := collectVanished inScope here (vs_nodes (px_state c)),
                              px_queue := sort_key (\<lambda>f. depth (vf_path f)) files\<rparr>))
      (io_seq (moveRenamedFolders en files here)
      (io_seq (drain en fuel)
      (io_seq (io_bind (ctx (\<lambda>c. concat (map snd (px_vanished c)))) (io_each (settleVanished en)))
      (io_seq (removeCrossedFolders en)
      (io_seq (removeDeletedFolders en inScope)
      (pullServerOnly en)))))))"

definition sync :: "('srv, 'dev, 'key) engine \<Rightarrow> nat \<Rightarrow> bool \<Rightarrow> ('srv, 'dev, sync_report) pass" where
  "sync en fuel rescan =
     io_bind (vault (vt_load (en_vault en))) (\<lambda>st.
     io_bind (if truthy (vs_cursor st) then probeEpoch en (asserted (vs_cursor st))
              else io_ret \<lparr>ep_epoch = Continuous, ep_events = [], ep_quiet = False\<rparr>) (\<lambda>probe.
     io_bind (walkedOrRemembered en (vs_cursor st) (ep_quiet probe)) (\<lambda>w.
     io_bind (pre_pass en rescan st probe w) (\<lambda>(files, inScope).
     io_seq (if ep_epoch probe = WasReset then resyncAfterReset en files
             else walkFiles en fuel files inScope)
     (saveState en (wt_cursor w))))))"

end
