(* ===== verification/Engine_Safety.thy ===== *)
theory Engine_Safety
  imports Engine_Pass
begin

text \<open>
  The engine's rule "never destroy the last local copy of content before its replacement exists"
  (\<open>plugin/src/engine/engine.ts\<close>), proved inside the contract of the vault: which steps touch the bytes
  on disk at all, and that the three places that move bytes about (a conflict, a remote rename, the
  quarantine of a reset) keep them somewhere whatever throws on the way.
\<close>

context vault_contract
begin

subsection \<open>Steps that leave the bytes on disk alone\<close>

text \<open>\<open>disk P\<close>: the bytes on the device satisfy \<open>P\<close>.\<close>

definition disk :: "((path \<Rightarrow> bytes option) \<Rightarrow> bool) \<Rightarrow> ('srv, 'dev) world \<Rightarrow> bool" where
  "disk P w \<longleftrightarrow> P (bytesAt (wd_dev w))"

lemma disk_client [io_rules]: "always (disk P) (client m)"
  by (simp add: always_def disk_def client_def split: prod.splits)

lemma disk_ctx [io_rules]: "always (disk P) (ctx f)"
  by (simp add: always_def disk_def ctx_def io_get_def)

lemma disk_get [io_rules]: "always (disk P) (io_get f)"
  by (simp add: always_def disk_def io_get_def)

lemma disk_ctx_mod [io_rules]: "always (disk P) (ctx_mod f)"
  by (simp add: always_def disk_def ctx_mod_def io_mod_def)

lemma disk_draw [io_rules]: "always (disk P) draw"
  by (simp add: always_def disk_def draw_def)

lemma disk_report [io_rules]: "always (disk P) (report_mod f)"
  unfolding report_mod_def by (rule io_rules)

lemma disk_set_node [io_rules]: "always (disk P) (set_node p k)"
  unfolding set_node_def by (rule io_rules)

lemma disk_del_node [io_rules]: "always (disk P) (del_node p)"
  unfolding del_node_def by (rule io_rules)

lemma disk_handle [io_rules]: "always (disk P) (handle p)"
  unfolding handle_def by (rule io_rules)

lemma disk_error_at [io_rules]: "always (disk P) (error_at p e)"
  unfolding error_at_def by (rule io_rules)

lemma disk_read [io_rules]: "always (disk P) (vault (vt_read V p))"
  using read_law by (fastforce simp: always_def disk_def vault_def split: prod.splits)

lemma disk_stat [io_rules]: "always (disk P) (vault (vt_stat V p))"
  using stat_law by (fastforce simp: always_def disk_def vault_def split: prod.splits)

lemma disk_folderExists [io_rules]: "always (disk P) (vault (vt_folderExists V p))"
  using folderExists_law by (fastforce simp: always_def disk_def vault_def split: prod.splits)

lemma disk_let [io_rules]: "always (disk P) (f x) \<Longrightarrow> always (disk P) (Let x f)"
  by simp

lemma disk_hintFor [io_rules]: "en_vault en = V \<Longrightarrow> always (disk P) (hintFor en p)"
  unfolding hintFor_def by (simp, intro io_rules)

lemma disk_hashAndTag [io_rules]: "en_vault en = V \<Longrightarrow> always (disk P) (hashAndTag en f s)"
  unfolding hashAndTag_def by (simp, intro io_rules)

lemma disk_isoNow [io_rules]: "always (disk P) (isoNow en)"
  unfolding isoNow_def by (intro io_rules)

lemma disk_scopeKeyFor [io_rules]: "always (disk P) (scopeKeyFor en s)"
  unfolding scopeKeyFor_def by (intro io_rules)

lemma disk_nameFor [io_rules]: "always (disk P) (nameFor en s n)"
  unfolding nameFor_def by (intro io_rules)

lemma disk_content [io_rules]: "always (disk P) (content en plain s)"
  unfolding content_def resolveContent_def Let_def by (intro io_rules)

lemma disk_ensureParts [io_rules]: "always (disk P) (ensureParts en sofar parent parts)"
proof (induction parts arbitrary: sofar parent)
  case Nil
  then show ?case by (simp, intro io_rules)
next
  case (Cons part parts)
  show ?case unfolding ensureParts.simps Let_def by (intro io_rules Cons.IH)
qed

lemma disk_ensureFolders [io_rules]: "always (disk P) (ensureFolders en p)"
  unfolding ensureFolders_def by (intro io_rules)

lemma disk_pushNew [io_rules]: "en_vault en = V \<Longrightarrow> always (disk P) (pushNew en f m)"
  unfolding pushNew_def by (simp, intro io_rules)

lemma disk_pushDelete [io_rules]: "always (disk P) (pushDelete en v)"
  unfolding pushDelete_def by (intro io_rules)

lemma disk_pushMove [io_rules]: "en_vault en = V \<Longrightarrow> always (disk P) (pushMove en f m v)"
  unfolding pushMove_def Let_def by (intro io_rules)

lemma disk_openNode [io_rules]: "always (disk P) (openNode en node envelopes)"
  unfolding openNode_def Let_def by (intro io_rules)

lemma disk_fetchPlain [io_rules]: "always (disk P) (fetchPlain en node)"
  unfolding fetchPlain_def by (intro io_rules)

lemma disk_arrival [io_rules]: "always (disk P) (arrival_of node)"
  unfolding arrival_of_def Let_def by (intro io_rules)

subsection \<open>Writing and deleting one path\<close>

lemma disk_write:
  "(\<And>p'. Q p' \<Longrightarrow> \<not> same p p') \<Longrightarrow>
   always (disk (\<lambda>B. \<exists>p'. Q p' \<and> B p' = Some c)) (vault (vt_write V p b mt))"
  using write_law by (fastforce simp: always_def disk_def vault_def split: prod.splits)

lemma disk_write_other: "\<not> same p q \<Longrightarrow> always (disk (\<lambda>B. B q = x)) (vault (vt_write V p b mt))"
  using write_law by (fastforce simp: always_def disk_def vault_def split: prod.splits)

lemma disk_delete_other: "\<not> same p q \<Longrightarrow> always (disk (\<lambda>B. B q = x)) (vault (vt_delete V p))"
  using delete_law by (fastforce simp: always_def disk_def vault_def split: prod.splits)

lemma holds_read:
  "holds (disk (\<lambda>B. B p = Some b)) (vault (vt_read V p)) (\<lambda>l w. disk (\<lambda>B. B p = Some b) w \<and> l = b)
     (disk (\<lambda>B. B p = Some b))"
  using read_law by (fastforce simp: holds_def disk_def vault_def split: prod.splits sum.splits)

lemma holds_write:
  "\<not> same p q \<Longrightarrow>
   holds (disk (\<lambda>B. B q = Some c)) (vault (vt_write V p b mt))
     (\<lambda>_. disk (\<lambda>B. B q = Some c \<and> B p = Some b)) (disk (\<lambda>B. B q = Some c))"
  using write_law by (fastforce simp: holds_def disk_def vault_def split: prod.splits sum.splits)

lemma disk_recordServer [io_rules]: "en_vault en = V \<Longrightarrow> always (disk P) (recordServer en p n h)"
  unfolding recordServer_def by (intro io_rules)

lemma disk_recordRename [io_rules]: "en_vault en = V \<Longrightarrow> always (disk P) (recordRename en p m k n)"
  unfolding recordRename_def by (intro io_rules)

lemma disk_queueCopy [io_rules]: "en_vault en = V \<Longrightarrow> always (disk P) (queueCopy en p n)"
  unfolding queueCopy_def by (simp, intro io_rules)

subsection \<open>A conflict keeps the local bytes\<close>

lemma not_same_copy:
  "\<not> same (conflictCopyName p device now) p" "\<not> same p (conflictCopyName p device now)"
  using different_length conflictCopyName_longer [of p device now] by force+

definition keptBeside :: "('srv, 'dev, 'key) engine \<Rightarrow> path \<Rightarrow> bytes \<Rightarrow> (path \<Rightarrow> bytes option) \<Rightarrow> bool" where
  "keptBeside en p b B \<longleftrightarrow> B p = Some b \<or> (\<exists>now. B (conflictCopyName p (en_deviceLabel en) now) = Some b)"

lemma kept_in_place: "disk (\<lambda>B. B p = Some b) w \<Longrightarrow> disk (keptBeside en p b) w"
  by (simp add: disk_def keptBeside_def)

lemma kept_as_copy: "disk (\<lambda>B. B (conflictCopyName p (en_deviceLabel en) now) = Some b) w \<Longrightarrow> disk (keptBeside en p b) w"
  by (auto simp: disk_def keptBeside_def)

lemma keepBoth_keeps:
  assumes [simp]: "en_vault en = V"
  shows "holds (disk (\<lambda>B. B p = Some b)) (keepBoth en p n b server)
    (\<lambda>_. disk (keptBeside en p b)) (disk (keptBeside en p b))"
  unfolding keepBoth_def Let_def assms
proof (rule holds_bind [where Q' = "\<lambda>_. disk (\<lambda>B. B p = Some b)"])
  show "holds (disk (\<lambda>B. B p = Some b)) (isoNow en) (\<lambda>_. disk (\<lambda>B. B p = Some b)) (disk (keptBeside en p b))"
    by (rule holds_post [OF always_holds]) (intro io_rules, auto intro: kept_in_place)
next
  fix now
  let ?cp = "conflictCopyName p (en_deviceLabel en) now"
  let ?C = "disk (\<lambda>B. B ?cp = Some b)"
  have first: "holds (disk (\<lambda>B. B p = Some b)) (vault (vt_write V ?cp b None)) (\<lambda>_. ?C) (disk (keptBeside en p b))"
    by (rule holds_post [OF holds_write]) (auto simp: not_same_copy disk_def keptBeside_def)
  have rest: "always ?C (io_seq (vault (vt_write V p server None))
      (io_seq (recordServer en p n (cr_plainHash (en_crypto en) server))
      (io_seq (report_mod (\<lambda>rp. rp\<lparr>rp_conflicts := rp_conflicts rp @ [(p, ?cp)]\<rparr>))
      (queueCopy en ?cp (length b)))))"
    by (intro io_rules disk_write_other) (simp_all add: not_same_copy)
  show "holds (disk (\<lambda>B. B p = Some b)) (io_seq (vault (vt_write V ?cp b None))
      (io_seq (vault (vt_write V p server None))
      (io_seq (recordServer en p n (cr_plainHash (en_crypto en) server))
      (io_seq (report_mod (\<lambda>rp. rp\<lparr>rp_conflicts := rp_conflicts rp @ [(p, ?cp)]\<rparr>))
      (queueCopy en ?cp (length b))))))
     (\<lambda>_. disk (keptBeside en p b)) (disk (keptBeside en p b))"
    by (rule holds_seq [OF first]) (rule holds_into_always [OF rest kept_as_copy])
qed

lemma resolveConflict_kept:
  assumes [simp]: "en_vault en = V"
  shows "holds (disk (\<lambda>B. B (vf_path f) = Some b)) (resolveConflict en f n fetched)
    (\<lambda>_. disk (keptBeside en (vf_path f) b)) (disk (keptBeside en (vf_path f) b))"
  unfolding resolveConflict_def assms
proof (rule holds_bind [where Q' = "\<lambda>_. disk (\<lambda>B. B (vf_path f) = Some b)"])
  show "holds (disk (\<lambda>B. B (vf_path f) = Some b)) (case fetched of None \<Rightarrow> fetchPlain en n | Some b \<Rightarrow> io_ret b)
      (\<lambda>_. disk (\<lambda>B. B (vf_path f) = Some b)) (disk (keptBeside en (vf_path f) b))"
    by (rule holds_post [OF always_holds]) (intro io_rules, auto intro: kept_in_place)
next
  fix server
  show "holds (disk (\<lambda>B. B (vf_path f) = Some b))
     (io_bind (vault (vt_read V (vf_path f))) (\<lambda>l.
        if cr_plainHash (en_crypto en) l = cr_plainHash (en_crypto en) server
        then io_seq (recordServer en (vf_path f) n (cr_plainHash (en_crypto en) l))
               (report_mod (\<lambda>rp. rp\<lparr>rp_matched := rp_matched rp @ [vf_path f]\<rparr>))
        else keepBoth en (vf_path f) n l server))
     (\<lambda>_. disk (keptBeside en (vf_path f) b)) (disk (keptBeside en (vf_path f) b))"
  proof (rule holds_bind)
    show "holds (disk (\<lambda>B. B (vf_path f) = Some b)) (vault (vt_read V (vf_path f)))
       (\<lambda>l w. disk (\<lambda>B. B (vf_path f) = Some b) w \<and> l = b) (disk (keptBeside en (vf_path f) b))"
      by (rule holds_post [OF holds_read]) (auto intro: kept_in_place)
  next
    fix l
    have match: "always (disk (\<lambda>B. B (vf_path f) = Some b))
        (io_seq (recordServer en (vf_path f) n h)
          (report_mod (\<lambda>rp. rp\<lparr>rp_matched := rp_matched rp @ [vf_path f]\<rparr>)))" for h
      by (intro io_rules) simp
    show "holds (\<lambda>w. disk (\<lambda>B. B (vf_path f) = Some b) w \<and> l = b)
       (if cr_plainHash (en_crypto en) l = cr_plainHash (en_crypto en) server
        then io_seq (recordServer en (vf_path f) n (cr_plainHash (en_crypto en) l))
               (report_mod (\<lambda>rp. rp\<lparr>rp_matched := rp_matched rp @ [vf_path f]\<rparr>))
        else keepBoth en (vf_path f) n l server)
       (\<lambda>_. disk (keptBeside en (vf_path f) b)) (disk (keptBeside en (vf_path f) b))"
      by (rule holds_const)
        (auto intro: holds_into_always [OF match kept_in_place] keepBoth_keeps)
  qed
qed

lemma keepBoth_both:
  assumes [simp]: "en_vault en = V"
  shows "holds (disk (\<lambda>B. B p = Some b)) (keepBoth en p n b server)
    (\<lambda>_. disk (\<lambda>B. B p = Some server \<and> (\<exists>now. B (conflictCopyName p (en_deviceLabel en) now) = Some b))) (\<lambda>_. True)"
  unfolding keepBoth_def Let_def assms
proof (rule holds_bind [where Q' = "\<lambda>_. disk (\<lambda>B. B p = Some b)"])
  show "holds (disk (\<lambda>B. B p = Some b)) (isoNow en) (\<lambda>_. disk (\<lambda>B. B p = Some b)) (\<lambda>_. True)"
    by (rule holds_post [OF always_holds]) (intro io_rules, auto)
next
  fix now
  let ?cp = "conflictCopyName p (en_deviceLabel en) now"
  let ?C = "disk (\<lambda>B. B ?cp = Some b)" and ?CS = "disk (\<lambda>B. B ?cp = Some b \<and> B p = Some server)"
  have first: "holds (disk (\<lambda>B. B p = Some b)) (vault (vt_write V ?cp b None)) (\<lambda>_. ?C) (\<lambda>_. True)"
    by (rule holds_post [OF holds_write]) (auto simp: not_same_copy disk_def)
  have second: "holds ?C (vault (vt_write V p server None)) (\<lambda>_. ?CS) (\<lambda>_. True)"
    by (rule holds_post [OF holds_write]) (auto simp: not_same_copy)
  have rest: "always ?CS (io_seq (recordServer en p n (cr_plainHash (en_crypto en) server))
      (io_seq (report_mod (\<lambda>rp. rp\<lparr>rp_conflicts := rp_conflicts rp @ [(p, ?cp)]\<rparr>)) (queueCopy en ?cp (length b))))"
    by (intro io_rules) simp_all
  show "holds (disk (\<lambda>B. B p = Some b)) (io_seq (vault (vt_write V ?cp b None))
      (io_seq (vault (vt_write V p server None))
      (io_seq (recordServer en p n (cr_plainHash (en_crypto en) server))
      (io_seq (report_mod (\<lambda>rp. rp\<lparr>rp_conflicts := rp_conflicts rp @ [(p, ?cp)]\<rparr>))
      (queueCopy en ?cp (length b))))))
     (\<lambda>_. disk (\<lambda>B. B p = Some server \<and> (\<exists>now. B (conflictCopyName p (en_deviceLabel en) now) = Some b))) (\<lambda>_. True)"
    by (rule holds_seq [OF first holds_seq [OF second holds_post [OF always_holds [OF rest]]]])
      (auto simp: disk_def)
qed

text \<open>A conflict that was settled left either the same bytes in place, or both sides.\<close>

lemma resolveConflict_settled:
  assumes V [simp]: "en_vault en = V"
  shows "holds (disk (\<lambda>B. B (vf_path f) = Some b)) (resolveConflict en f n (Some server))
    (\<lambda>_. disk (\<lambda>B. if cr_plainHash (en_crypto en) b = cr_plainHash (en_crypto en) server
         then B (vf_path f) = Some b
         else B (vf_path f) = Some server \<and>
           (\<exists>now. B (conflictCopyName (vf_path f) (en_deviceLabel en) now) = Some b))) (\<lambda>_. True)"
    (is "holds ?F _ (\<lambda>_. disk ?Q) _")
proof -
  let ?h = "cr_plainHash (en_crypto en)"
  have get: "holds ?F (vault (vt_read V (vf_path f))) (\<lambda>l w. ?F w \<and> l = b) (\<lambda>_. True)"
    by (rule holds_post [OF holds_read]) auto
  have match: "holds ?F (io_seq (recordServer en (vf_path f) n h)
      (report_mod (\<lambda>rp. rp\<lparr>rp_matched := rp_matched rp @ [vf_path f]\<rparr>))) (\<lambda>_. ?F) (\<lambda>_. True)" for h
    by (rule holds_post [OF always_holds]) (intro io_rules, simp_all)
  have both: "holds ?F (keepBoth en (vf_path f) n b server) (\<lambda>_. disk ?Q) (\<lambda>_. True)" if "?h b \<noteq> ?h server"
    by (rule holds_post [OF keepBoth_both [OF V]]) (use that in simp_all)
  have body: "holds (\<lambda>w. ?F w \<and> l = b)
      (if ?h l = ?h server
       then io_seq (recordServer en (vf_path f) n (?h l))
              (report_mod (\<lambda>rp. rp\<lparr>rp_matched := rp_matched rp @ [vf_path f]\<rparr>))
       else keepBoth en (vf_path f) n l server) (\<lambda>_. disk ?Q) (\<lambda>_. True)" for l
  proof (rule holds_const)
    assume l: "l = b"
    show "holds ?F (if ?h l = ?h server
       then io_seq (recordServer en (vf_path f) n (?h l))
              (report_mod (\<lambda>rp. rp\<lparr>rp_matched := rp_matched rp @ [vf_path f]\<rparr>))
       else keepBoth en (vf_path f) n l server) (\<lambda>_. disk ?Q) (\<lambda>_. True)"
    proof (cases "?h b = ?h server")
      case True
      then show ?thesis using l by (simp add: holds_post [OF match])
    next
      case False
      then show ?thesis using l both by simp
    qed
  qed
  have "resolveConflict en f n (Some server) = io_bind (vault (vt_read V (vf_path f))) (\<lambda>l.
      if ?h l = ?h server
      then io_seq (recordServer en (vf_path f) n (?h l))
             (report_mod (\<lambda>rp. rp\<lparr>rp_matched := rp_matched rp @ [vf_path f]\<rparr>))
      else keepBoth en (vf_path f) n l server)"
    by (simp add: resolveConflict_def io_bind_def io_ret_def fun_eq_iff)
  then show ?thesis using holds_bind [OF get body] by simp
qed

lemma pushEdit_kept:
  assumes [simp]: "en_vault en = V"
  shows "holds (disk (\<lambda>B. B (vf_path f) = Some b)) (pushEdit en f m k n)
    (\<lambda>_. disk (keptBeside en (vf_path f) b)) (disk (keptBeside en (vf_path f) b))"
proof -
  let ?F = "disk (\<lambda>B. B (vf_path f) = Some b)" and ?Q = "disk (keptBeside en (vf_path f) b)"
  have quiet: "always ?F m' \<Longrightarrow> holds ?F m' (\<lambda>_. ?F) ?Q" for m' :: "('srv, 'dev, 'x) pass"
    by (rule holds_post [OF always_holds]) (auto intro: kept_in_place)
  have finish: "always ?F m' \<Longrightarrow> holds ?F m' (\<lambda>_. ?Q) ?Q" for m' :: "('srv, 'dev, unit) pass"
    by (rule holds_into_always [OF _ kept_in_place])
  show ?thesis
    unfolding pushEdit_def Let_def assms
    apply (rule holds_bind [OF quiet], intro io_rules)
    apply (rule holds_bind [OF quiet], intro io_rules)
    apply (rule holds_bind [OF quiet], intro io_rules)
    apply (split prod.split, intro allI impI)
    apply (rule holds_bind [OF quiet], intro io_rules)
    apply (rule holds_bind [OF quiet], intro io_rules)
    apply (split put_answer.split, intro conjI allI impI)
     apply (rule finish, intro io_rules)
    apply (split if_split, intro conjI impI)
     apply (rule finish, intro io_rules)
    apply (rule holds_bind [OF quiet], intro io_rules)
    apply (rule resolveConflict_kept [OF assms])
    done
qed

subsection \<open>A rename and a pull\<close>

definition keptSomewhere :: "bytes \<Rightarrow> (path \<Rightarrow> bytes option) \<Rightarrow> bool" where
  "keptSomewhere b B \<longleftrightarrow> (\<exists>q. B q = Some b)"

lemma kept_anywhere: "disk (\<lambda>B. B p = Some b) w \<Longrightarrow> disk (keptSomewhere b) w"
  by (auto simp: disk_def keptSomewhere_def)

lemma kept_beside: "disk (keptBeside en p b) w \<Longrightarrow> disk (keptSomewhere b) w"
  by (auto simp: disk_def keptSomewhere_def keptBeside_def)

lemma holds_rename:
  "holds (disk (\<lambda>B. B p = Some b)) (vault (vt_rename V p q)) (\<lambda>_. disk (\<lambda>B. B q = Some b)) (disk (keptSomewhere b))"
  unfolding holds_def disk_def vault_def keptSomewhere_def
proof (intro allI impI)
  fix w :: "('srv, 'dev) world" assume b: "bytesAt (wd_dev w) p = Some b"
  obtain r d' where r: "vt_rename V p q (wd_dev w) = (r, d')" by fastforce
  from rename_law [OF r b] r show "case (case vt_rename V p q (wd_dev w) of (r, d) \<Rightarrow> (r, w\<lparr>wd_dev := d\<rparr>)) of
      (Inl e, w') \<Rightarrow> \<exists>q. bytesAt (wd_dev w') q = Some b
    | (Inr a, w') \<Rightarrow> bytesAt (wd_dev w') q = Some b"
    by (cases r) auto
qed

lemma relocate_kept:
  assumes [simp]: "en_vault en = V"
  shows "holds (disk (\<lambda>B. B (vf_path f) = Some b)) (relocate en f to)
    (\<lambda>_. disk (\<lambda>B. B to = Some b)) (disk (keptSomewhere b))"
proof (cases "lowerPath (vf_path f) = lowerPath to")
  case True
  then show ?thesis by (simp add: relocate_def holds_rename)
next
  case False
  then have ns: "\<not> same to (vf_path f)" "\<not> same (vf_path f) to" using different_lower by metis+
  have get: "holds (disk (\<lambda>B. B (vf_path f) = Some b)) (vault (vt_read V (vf_path f)))
      (\<lambda>l w. disk (\<lambda>B. B (vf_path f) = Some b) w \<and> l = b) (disk (keptSomewhere b))"
    by (rule holds_post [OF holds_read]) (auto intro: kept_anywhere)
  have put: "holds (disk (\<lambda>B. B (vf_path f) = Some b)) (vault (vt_write V to b mt))
      (\<lambda>_. disk (\<lambda>B. B to = Some b)) (disk (keptSomewhere b))" for mt
    by (rule holds_post [OF holds_write [OF ns(1)]]) (auto simp: disk_def keptSomewhere_def)
  have remove: "holds (disk (\<lambda>B. B to = Some b)) (vault (vt_delete V (vf_path f)))
      (\<lambda>_. disk (\<lambda>B. B to = Some b)) (disk (keptSomewhere b))"
    by (rule holds_post [OF always_holds [OF disk_delete_other [OF ns(2)]]]) (auto intro: kept_anywhere)
  have "holds (\<lambda>w. disk (\<lambda>B. B (vf_path f) = Some b) w \<and> l = b)
      (io_seq (vault (vt_write V to l (Some (vf_mtime f)))) (vault (vt_delete V (vf_path f))))
      (\<lambda>_. disk (\<lambda>B. B to = Some b)) (disk (keptSomewhere b))" for l
    by (rule holds_const) (simp, rule holds_seq [OF put remove])
  from holds_bind [OF get this] False show ?thesis unfolding relocate_def by simp
qed

lemma applyRemoteRename_kept:
  assumes [simp]: "en_vault en = V"
  shows "holds (disk (\<lambda>B. B (vf_path f) = Some b)) (applyRemoteRename en f m k n)
    (\<lambda>_. disk (keptSomewhere b)) (disk (keptSomewhere b))"
proof -
  let ?T = "disk (\<lambda>B. B (sn_path n) = Some b)" and ?Q = "disk (keptSomewhere b)"
  have noted: "holds ?T (recordRename en (vf_path f) m k n) (\<lambda>_. ?T) ?Q"
    by (rule holds_post [OF always_holds]) (intro io_rules, simp, auto intro: kept_anywhere)
  have edit: "holds ?T (io_when (kn_plainHash k \<noteq> lm_plainHash m)
      (pushEdit en \<lparr>vf_path = sn_path n, vf_mtime = vf_mtime f, vf_size = lm_size m\<rparr> m k n)) (\<lambda>_. ?Q) ?Q"
  proof (cases "kn_plainHash k = lm_plainHash m")
    case True
    then show ?thesis
      by (simp add: io_when_def) (rule holds_into_always [OF _ kept_anywhere], intro io_rules)
  next
    case False
    have "holds ?T (pushEdit en \<lparr>vf_path = sn_path n, vf_mtime = vf_mtime f, vf_size = lm_size m\<rparr> m k n) (\<lambda>_. ?Q) ?Q"
      using holds_post [OF pushEdit_kept [OF assms, of "\<lparr>vf_path = sn_path n, vf_mtime = vf_mtime f, vf_size = lm_size m\<rparr>"]
          kept_beside kept_beside] by simp
    with False show ?thesis by (simp add: io_when_def)
  qed
  show ?thesis
    unfolding applyRemoteRename_def
    by (rule holds_seq [OF relocate_kept [OF assms] holds_seq [OF noted edit]])
qed

lemma pullOne_other:
  "en_vault en = V \<Longrightarrow> \<not> same (sn_path n) q \<Longrightarrow> always (disk (\<lambda>B. B q = x)) (pullOne en envelopes n)"
  unfolding pullOne_def by (intro io_rules) (simp_all add: disk_write_other)

lemma pull_other:
  "en_vault en = V \<Longrightarrow> \<forall>n\<in>set nodes. \<not> same (sn_path n) q \<Longrightarrow> always (disk (\<lambda>B. B q = x)) (pull en nodes)"
  unfolding pull_def by (intro io_rules pullOne_other) auto

subsection \<open>One local file\<close>

text \<open>The bytes this device has not synchronised survive the reconciliation of their file, wherever it
  stops: whatever is decided, and whatever then fails.\<close>

lemma carryOut_kept:
  assumes [simp]: "en_vault en = V" and "\<not> overwrites d"
  shows "holds (disk (\<lambda>B. B (vf_path f) = Some b)) (carryOut en f m d)
    (\<lambda>_. disk (keptSomewhere b)) (disk (keptSomewhere b))"
proof -
  have quiet: "always (disk (\<lambda>B. B (vf_path f) = Some b)) m' \<Longrightarrow>
      holds (disk (\<lambda>B. B (vf_path f) = Some b)) m' (\<lambda>_. disk (keptSomewhere b)) (disk (keptSomewhere b))"
    for m' :: "('srv, 'dev, unit) pass"
    by (rule holds_into_always [OF _ kept_anywhere])
  show ?thesis
  proof (cases d)
    case (PushEdit k n)
    then show ?thesis using holds_post [OF pushEdit_kept [OF assms(1)] kept_beside kept_beside] by simp
  next
    case (Conflict n)
    then show ?thesis using holds_post [OF resolveConflict_kept [OF assms(1)] kept_beside kept_beside] by simp
  next
    case (RemoteRename k n)
    then show ?thesis using applyRemoteRename_kept [OF assms(1)] by simp
  next
    case Nothing
    then show ?thesis by simp (rule quiet, intro io_rules)
  next
    case RefreshHint
    then show ?thesis by simp (rule quiet, intro io_rules)
  next
    case (Adopt n)
    then show ?thesis by simp (rule quiet, intro io_rules)
  next
    case (PushMove v)
    then show ?thesis by simp (rule quiet, intro io_rules, simp)
  next
    case PushNew
    then show ?thesis by simp (rule quiet, intro io_rules, simp)
  qed (use assms(2) in simp_all)
qed

lemma reconcileLocal_kept:
  assumes V: "en_vault en = V" and b: "bytesAt (wd_dev w) (vf_path f) = Some b"
    and fresh: "\<And>m. jget (px_meta (wd_ctx w)) (vf_path f) = Some m \<Longrightarrow> lm_plainHash m = cr_plainHash (en_crypto en) b"
    and unsynced: "\<And>k. jget (vs_nodes (px_state (wd_ctx w))) (vf_path f) = Some k \<Longrightarrow>
      kn_plainHash k \<noteq> cr_plainHash (en_crypto en) b"
  shows "disk (keptSomewhere b) (snd (reconcileLocal en f w))"
proof -
  let ?c = "wd_ctx w"
  let ?m = "case jget (px_meta ?c) (vf_path f) of Some m \<Rightarrow> io_ret m
      | None \<Rightarrow> hashAndTag en f (contentScopeId ?c (vf_path f))"
  obtain r w1 where run: "?m w = (r, w1)" by fastforce
  have still: "disk (\<lambda>B. B (vf_path f) = Some b) w1" and same_ctx: "wd_ctx w1 = ?c"
    and hash: "\<And>m. r = Inr m \<Longrightarrow> lm_plainHash m = cr_plainHash (en_crypto en) b"
  proof -
    have "always (disk (\<lambda>B. B (vf_path f) = Some b)) ?m" using V by (intro io_rules) auto
    from alwaysD [OF this, of w] run b show "disk (\<lambda>B. B (vf_path f) = Some b) w1" by (simp add: disk_def)
    show "wd_ctx w1 = ?c"
      using run by (auto simp: hashAndTag_def io_bind_def vault_def io_ret_def Let_def split: option.splits prod.splits sum.splits)
    show "lm_plainHash m = cr_plainHash (en_crypto en) b" if "r = Inr m" for m
    proof (cases "jget (px_meta ?c) (vf_path f)")
      case (Some m')
      with run that fresh show ?thesis by (simp add: io_ret_def)
    next
      case None
      with run that V obtain l d where l: "vt_read V (vf_path f) (wd_dev w) = (Inr l, d)"
        "lm_plainHash m = cr_plainHash (en_crypto en) l"
        by (auto simp: hashAndTag_def io_bind_def vault_def io_ret_def Let_def split: prod.splits sum.splits)
      from read_law [OF l(1)] b l(2) show ?thesis by simp
    qed
  qed
  have unf: "reconcileLocal en f w = (case ?m w of (Inl e, w') \<Rightarrow> (Inl e, w')
      | (Inr m, w') \<Rightarrow> carryOut en f m (decide (situationOf (wd_ctx w') (vf_path f) m)) w')"
    unfolding reconcileLocal_def ctx_def by (simp add: io_bind_get) (simp add: io_bind_def io_get_def)
  show ?thesis
  proof (cases r)
    case (Inl e)
    with unf run kept_anywhere [OF still] show ?thesis by simp
  next
    case (Inr m)
    let ?s = "situationOf ?c (vf_path f) m"
    have "\<not> overwrites (decide ?s)"
    proof
      assume o: "overwrites (decide ?s)"
      then have "\<exists>k. si_known ?s = Some k \<and> kn_plainHash k = lm_plainHash (si_meta ?s)"
        using decide_Pull [of ?s] decide_RemoveLocal [of ?s] by (cases "decide ?s") auto
      with unsynced hash [OF Inr] show False by (auto simp: situationOf_def)
    qed
    from holds_run [OF carryOut_kept [OF V this] still] unf run Inr same_ctx show ?thesis by simp
  qed
qed

subsection \<open>After a reset\<close>

text \<open>The views of the context the resync relies on: it never changes the tree, and a handled path stays
  handled.\<close>

definition view :: "(tree \<Rightarrow> path list \<Rightarrow> bool) \<Rightarrow> ('srv, 'dev) world \<Rightarrow> bool" where
  "view P w \<longleftrightarrow> P (px_tree (wd_ctx w)) (px_handled (wd_ctx w))"

lemma view_client [io_rules]: "always (view P) (client m)"
  by (simp add: always_def client_def view_def split: prod.splits)

lemma view_vault [io_rules]: "always (view P) (vault m)"
  by (simp add: always_def vault_def view_def split: prod.splits)

lemma view_ctx [io_rules]: "always (view P) (ctx f)"
  by (simp add: always_def ctx_def io_get_def)

lemma view_ctx_mod:
  "(\<And>c. px_tree (f c) = px_tree c \<and> px_handled (f c) = px_handled c) \<Longrightarrow> always (view P) (ctx_mod f)"
  by (simp add: always_def ctx_mod_def io_mod_def view_def)

lemma view_report [io_rules]: "always (view P) (report_mod f)"
  unfolding report_mod_def by (rule view_ctx_mod) simp

lemma view_set_node [io_rules]: "always (view P) (set_node p k)"
  unfolding set_node_def by (rule view_ctx_mod) simp

lemma view_error_at [io_rules]: "always (view P) (error_at p e)"
  unfolding error_at_def by (rule io_rules)

lemma view_scopeKeyFor [io_rules]: "always (view P) (scopeKeyFor en s)"
  unfolding scopeKeyFor_def by (intro io_rules)

lemma view_let [io_rules]: "always (view P) (f x) \<Longrightarrow> always (view P) (Let x f)"
  by simp

lemma view_openNode [io_rules]: "always (view P) (openNode en node envelopes)"
  unfolding openNode_def Let_def by (intro io_rules)

lemma view_recordServer [io_rules]: "always (view P) (recordServer en p n h)"
  unfolding recordServer_def hintFor_def by (intro io_rules)

lemma view_arrival [io_rules]: "always (view P) (arrival_of node)"
  unfolding arrival_of_def Let_def by (intro io_rules view_ctx_mod) simp

lemma view_pullOne [io_rules]: "always (view P) (pullOne en envelopes n)"
  unfolding pullOne_def by (intro io_rules)

lemma view_pull [io_rules]: "always (view P) (pull en nodes)"
  unfolding pull_def by (intro io_rules)

lemma view_displace [io_rules]: "always (view P) (displace en today f)"
  unfolding displace_def by (intro io_rules)

lemma tree_handle: "always (view (\<lambda>t h. t = T)) (handle p)"
  by (simp add: always_def handle_def ctx_mod_def io_mod_def view_def)

lemma handle_grows: "always (view (\<lambda>t h. q \<in> set h)) (handle p)"
  by (simp add: always_def handle_def ctx_mod_def io_mod_def view_def)

lemma view_rebind [io_rules]: "always (view P) (rebindOrDisplace en today f)"
  unfolding rebindOrDisplace_def by (intro io_rules)

lemma tree_resyncFile: "always (view (\<lambda>t h. t = T)) (resyncFile en today f)"
  unfolding resyncFile_def by (intro io_rules tree_handle)

lemma handled_resyncFile: "always (view (\<lambda>t h. q \<in> set h)) (resyncFile en today f)"
  unfolding resyncFile_def by (intro io_rules handle_grows)

lemma resyncFile_handles:
  "holds P (resyncFile en today f) (\<lambda>_. view (\<lambda>t h. vf_path f \<in> set h)) (view (\<lambda>t h. vf_path f \<in> set h))"
  unfolding resyncFile_def
proof (rule holds_seq)
  show "holds P (handle (vf_path f)) (\<lambda>_. view (\<lambda>t h. vf_path f \<in> set h)) (view (\<lambda>t h. vf_path f \<in> set h))"
    by (simp add: holds_def handle_def ctx_mod_def io_mod_def view_def)
  show "holds (view (\<lambda>t h. vf_path f \<in> set h)) (io_try (rebindOrDisplace en today f) (error_at (vf_path f)))
      (\<lambda>_. view (\<lambda>t h. vf_path f \<in> set h)) (view (\<lambda>t h. vf_path f \<in> set h))"
    by (rule always_holds) (intro io_rules)
qed

text \<open>A file of the resync keeps its bytes at its place or in the quarantine, and no other file's.\<close>

definition keptAside :: "string \<Rightarrow> path \<Rightarrow> bytes \<Rightarrow> (path \<Rightarrow> bytes option) \<Rightarrow> bool" where
  "keptAside today p b B \<longleftrightarrow> B p = Some b \<or> B (quarantineDest today p) = Some b"

lemma not_same_dest: "\<not> same (quarantineDest today p) p" "\<not> same p (quarantineDest today p)"
  by (rule different_length, simp add: quarantineDest_def)+

lemma displace_kept:
  assumes [simp]: "en_vault en = V"
  shows "holds (disk (\<lambda>B. B (vf_path f) = Some b)) (displace en today f)
    (\<lambda>_. disk (\<lambda>B. B (quarantineDest today (vf_path f)) = Some b)) (disk (keptAside today (vf_path f) b))"
proof -
  let ?d = "quarantineDest today (vf_path f)"
  let ?F = "disk (\<lambda>B. B (vf_path f) = Some b)" and ?D = "disk (\<lambda>B. B ?d = Some b)"
    and ?Q = "disk (keptAside today (vf_path f) b)"
  have get: "holds ?F (vault (vt_read V (vf_path f))) (\<lambda>l w. ?F w \<and> l = b) ?Q"
    by (rule holds_post [OF holds_read]) (auto simp: disk_def keptAside_def)
  have put: "holds ?F (vault (vt_write V ?d b mt)) (\<lambda>_. ?D) ?Q" for mt
    by (rule holds_post [OF holds_write [OF not_same_dest(1)]]) (auto simp: disk_def keptAside_def)
  have rest: "holds ?D (io_seq (vault (vt_delete V (vf_path f)))
      (report_mod (\<lambda>rp. rp\<lparr>rp_quarantined := rp_quarantined rp @ [(vf_path f, ?d)]\<rparr>))) (\<lambda>_. ?D) ?Q"
    by (rule holds_post [OF always_holds]) (intro io_rules disk_delete_other, simp add: not_same_dest, auto simp: disk_def keptAside_def)
  have "holds (\<lambda>w. ?F w \<and> l = b) (io_seq (vault (vt_write V ?d l (Some (vf_mtime f))))
      (io_seq (vault (vt_delete V (vf_path f)))
      (report_mod (\<lambda>rp. rp\<lparr>rp_quarantined := rp_quarantined rp @ [(vf_path f, ?d)]\<rparr>)))) (\<lambda>_. ?D) ?Q" for l
    by (rule holds_const) (simp, rule holds_seq [OF put rest])
  from holds_bind [OF get this] show ?thesis unfolding displace_def by simp
qed

lemma disk_displace_other:
  "en_vault en = V \<Longrightarrow> \<not> same (vf_path f) q \<Longrightarrow> \<not> same (quarantineDest today (vf_path f)) q \<Longrightarrow>
   always (disk (\<lambda>B. B q = x)) (displace en today f)"
  unfolding displace_def by (intro io_rules) (simp_all add: disk_write_other disk_delete_other disk_read)

end

end
