(* ===== verification/Engine_Reset.thy ===== *)
theory Engine_Reset
  imports Engine_Safety
begin

text \<open>
  The resync after a reset (\<open>resyncAfterReset\<close> of \<open>plugin/src/engine/engine.ts\<close>) erases nothing: what
  every local file held before it is afterwards at its own place or in the quarantine folder,
  whichever of its reads, writes, deletes, downloads failed. Proved file by file under the contract of
  the vault.
\<close>

context vault_contract
begin

text \<open>The bytes and the tree at once.\<close>

definition at_tree :: "tree \<Rightarrow> ((path \<Rightarrow> bytes option) \<Rightarrow> bool) \<Rightarrow> ('srv, 'dev) world \<Rightarrow> bool" where
  "at_tree T P w \<longleftrightarrow> px_tree (wd_ctx w) = T \<and> disk P w"

lemma at_tree_always:
  "always (view (\<lambda>t h. t = T)) m \<Longrightarrow> always (disk P) m \<Longrightarrow> always (at_tree T P) m"
  unfolding at_tree_def view_def by (rule always_conj)

lemma rebind_run:
  "rebindOrDisplace en today f w =
     (case jget (px_tree (wd_ctx w)) (vf_path f) of
        None \<Rightarrow> displace en today f w
      | Some onServer \<Rightarrow>
          (case jget (px_meta (wd_ctx w)) (vf_path f) of
             None \<Rightarrow> io_throw ''Cannot read properties of undefined'' w
           | Some m \<Rightarrow>
               (if tagHits (px_dedup (wd_ctx w)) (lm_tag m) onServer then
                  io_seq (set_node (vf_path f) (hintFrom m (knownAs (sn_nodeId onServer) (sn_rev onServer)
                             (lm_plainHash m) (asserted (sn_address onServer)))))
                  (report_mod (\<lambda>rp. rp\<lparr>rp_matched := rp_matched rp @ [vf_path f]\<rparr>))
                else io_seq (displace en today f) (io_when (sn_isFile onServer) (pull en [onServer]))) w))"
  by (simp add: rebindOrDisplace_def ctx_def io_bind_get split: option.splits)

lemma disk_rebind_other:
  assumes "en_vault en = V" "tree_paths_ok T" "\<not> same (vf_path f) q" "\<not> same (quarantineDest today (vf_path f)) q"
    "at_tree T (\<lambda>B. B q = x) w"
  shows "disk (\<lambda>B. B q = x) (snd (rebindOrDisplace en today f w))"
proof -
  note away = disk_displace_other [OF assms(1,3,4)]
  have w: "disk (\<lambda>B. B q = x) w" and T: "px_tree (wd_ctx w) = T" using assms(5) by (auto simp: at_tree_def)
  have quiet: "always (disk (\<lambda>B. B q = x)) (io_seq (set_node p k) (report_mod g))" for p k g
    by (intro io_rules)
  have then_pull: "always (disk (\<lambda>B. B q = x)) (io_seq (displace en today f) (io_when (sn_isFile n) (pull en [n])))"
    if "jget T (vf_path f) = Some n" for n
    using tree_paths_okD [OF assms(2) that] assms(1,3) by (intro io_rules away pull_other) auto
  show ?thesis
    using alwaysD [OF away w] alwaysD [OF quiet w] alwaysD [OF then_pull w] w T
    unfolding rebind_run by (auto split: option.splits simp: io_throw_def)
qed

lemma tree_kept_rebind: "at_tree T P w \<Longrightarrow> px_tree (wd_ctx (snd (rebindOrDisplace en today f w))) = T"
  using alwaysD [OF view_rebind [of "\<lambda>t h. t = T" en today f], of w] by (simp add: view_def at_tree_def)

lemma at_tree_handle: "always (at_tree T P) (handle p)"
  by (rule at_tree_always) (intro io_rules tree_handle)+

lemma at_tree_error: "always (at_tree T P) (error_at p e)"
  by (rule at_tree_always) (intro io_rules)+

lemma at_tree_resync:
  assumes "\<And>w. at_tree T P w \<Longrightarrow> disk P (snd (rebindOrDisplace en today f w))"
  shows "always (at_tree T P) (resyncFile en today f)"
  unfolding resyncFile_def
proof (intro always_seq always_try at_tree_handle at_tree_error)
  show "always (at_tree T P) (rebindOrDisplace en today f)"
    unfolding always_def using assms tree_kept_rebind by (auto simp: at_tree_def)
qed

lemma resyncFile_other:
  assumes "en_vault en = V" "tree_paths_ok T" "\<not> same (vf_path f) q" "\<not> same (quarantineDest today (vf_path f)) q"
  shows "always (at_tree T (\<lambda>B. B q = x)) (resyncFile en today f)"
  by (rule at_tree_resync) (rule disk_rebind_other [OF assms])

lemma always_keptAside:
  "(\<And>q. q \<in> {p, quarantineDest today p} \<Longrightarrow> always (at_tree T (\<lambda>B. B q = Some b)) m) \<Longrightarrow>
   always (at_tree T (keptAside today p b)) m"
  unfolding always_def at_tree_def disk_def keptAside_def by blast

lemma disk_keptAside:
  "(\<And>q. q \<in> {p, quarantineDest today p} \<Longrightarrow> always (disk (\<lambda>B. B q = Some b)) m) \<Longrightarrow>
   always (disk (keptAside today p b)) m"
  unfolding always_def disk_def keptAside_def by blast

lemma rebind_kept:
  assumes V: "en_vault en = V" and T: "tree_paths_ok T" and w: "at_tree T (\<lambda>B. B (vf_path f) = Some b) w"
  shows "disk (keptAside today (vf_path f) b) (snd (rebindOrDisplace en today f w))"
proof -
  let ?F = "disk (\<lambda>B. B (vf_path f) = Some b)" and ?K = "disk (keptAside today (vf_path f) b)"
  let ?D = "disk (\<lambda>B. B (quarantineDest today (vf_path f)) = Some b)"
  have b: "?F w" and tree: "px_tree (wd_ctx w) = T" using w by (auto simp: at_tree_def)
  have in_place: "?F w' \<Longrightarrow> ?K w'" and aside: "?D w' \<Longrightarrow> ?K w'" for w' :: "('srv, 'dev) world"
    by (auto simp: disk_def keptAside_def)
  note out = displace_kept [OF V, of f b today]
  have alone: "holds ?F (displace en today f) (\<lambda>_. ?K) ?K"
    by (rule holds_post [OF out]) (auto intro: aside)
  have then_pull: "holds ?F (io_seq (displace en today f) (io_when (sn_isFile n) (pull en [n]))) (\<lambda>_. ?K) ?K"
    if "jget T (vf_path f) = Some n" for n
  proof (rule holds_seq [OF out], rule holds_into_always [OF _ aside])
    show "always ?D (io_when (sn_isFile n) (pull en [n]))"
      using tree_paths_okD [OF T that] V by (intro io_rules pull_other) (auto simp: not_same_dest)
  qed
  have matched: "holds ?F (io_seq (set_node p k) (report_mod g)) (\<lambda>_. ?K) ?K" for p k g
    by (rule holds_into_always [OF _ in_place]) (intro io_rules)
  show ?thesis
    using holds_run [OF alone b] holds_run [OF then_pull b] holds_run [OF matched b] in_place [OF b] tree
    unfolding rebind_run by (auto split: option.splits simp: io_throw_def)
qed

lemma resyncFile_kept:
  assumes V: "en_vault en = V" and T: "tree_paths_ok T"
  shows "holds (at_tree T (\<lambda>B. B (vf_path f) = Some b)) (resyncFile en today f)
    (\<lambda>_. at_tree T (keptAside today (vf_path f) b)) (at_tree T (keptAside today (vf_path f) b))"
  unfolding resyncFile_def
proof (rule holds_seq)
  let ?F = "at_tree T (\<lambda>B. B (vf_path f) = Some b)" and ?K = "at_tree T (keptAside today (vf_path f) b)"
  show "holds ?F (handle (vf_path f)) (\<lambda>_. ?F) ?K"
    by (rule holds_post [OF always_holds [OF at_tree_handle]]) (auto simp: at_tree_def disk_def keptAside_def)
  have ends: "?F w \<Longrightarrow> ?K (snd (rebindOrDisplace en today f w))" for w
    using rebind_kept [OF V T, of f b w today] tree_kept_rebind by (auto simp: at_tree_def)
  have "holds ?F (rebindOrDisplace en today f) (\<lambda>_. ?K) ?K"
    using ends by (fastforce simp: holds_def split: prod.splits sum.splits)
  then show "holds ?F (io_try (rebindOrDisplace en today f) (error_at (vf_path f))) (\<lambda>_. ?K) ?K"
    by (rule holds_try) (rule always_holds [OF at_tree_error])
qed

subsection \<open>The whole resync\<close>

text \<open>Two different names of a set are two different files.\<close>

definition apart :: "path set \<Rightarrow> bool" where
  "apart N \<longleftrightarrow> (\<forall>p\<in>N. \<forall>q\<in>N. same p q \<longrightarrow> p = q)"

lemma apartD: "apart N \<Longrightarrow> p \<in> N \<Longrightarrow> q \<in> N \<Longrightarrow> p \<noteq> q \<Longrightarrow> \<not> same p q"
  by (auto simp: apart_def)

definition resyncNames :: "string \<Rightarrow> vault_file list \<Rightarrow> tree \<Rightarrow> path set" where
  "resyncNames today files T =
     vf_path ` set files \<union> (\<lambda>f. quarantineDest today (vf_path f)) ` set files \<union> set (jkeys T)"

lemma each_resync_handles:
  "holds (\<lambda>w. True) (io_each (resyncFile en today) files)
     (\<lambda>_. view (\<lambda>t h. vf_path ` set files \<subseteq> set h)) (\<lambda>w. True)"
proof (induction files)
  case Nil
  then show ?case by (simp add: holds_def io_ret_def view_def)
next
  case (Cons f files)
  have "holds (view (\<lambda>t h. vf_path f \<in> set h)) (io_each (resyncFile en today) files)
      (\<lambda>_ w. view (\<lambda>t h. vf_path f \<in> set h) w \<and> view (\<lambda>t h. vf_path ` set files \<subseteq> set h) w) (\<lambda>w. True)"
    by (rule holds_weaken [OF holds_both [OF always_holds Cons.IH [THEN holds_weaken]]])
      (auto intro!: always_each handled_resyncFile)
  moreover have "holds (\<lambda>w. True) (resyncFile en today f) (\<lambda>_. view (\<lambda>t h. vf_path f \<in> set h)) (\<lambda>w. True)"
    by (rule holds_post [OF resyncFile_handles]) auto
  ultimately have "holds (\<lambda>w. True) (io_each (resyncFile en today) (f # files))
      (\<lambda>_ w. view (\<lambda>t h. vf_path f \<in> set h) w \<and> view (\<lambda>t h. vf_path ` set files \<subseteq> set h) w) (\<lambda>w. True)"
    unfolding io_each.simps by (intro holds_seq)
  then show ?case by (rule holds_post) (auto simp: view_def)
qed

lemma each_resync_kept:
  assumes V: "en_vault en = V" and T: "tree_paths_ok T" and names: "apart (resyncNames today files T)"
    and d: "distinct (map vf_path files)" and f: "f \<in> set files"
    and sync: "\<forall>g\<in>set files. inSyncScope en (vf_path g)"
  shows "holds (at_tree T (\<lambda>B. B (vf_path f) = Some b)) (io_each (resyncFile en today) files)
    (\<lambda>_. at_tree T (keptAside today (vf_path f) b)) (at_tree T (keptAside today (vf_path f) b))"
proof -
  let ?p = "vf_path f" and ?d = "\<lambda>g. quarantineDest today (vf_path g)"
  obtain xs ys where files: "files = xs @ f # ys" using split_list [OF f] by blast
  have away: "\<not> same (vf_path g) q \<and> \<not> same (?d g) q"
    if g: "g \<in> set xs \<or> g \<in> set ys" and q: "q \<in> {?p, ?d f}" for g q
  proof -
    have ne: "vf_path g \<noteq> ?p" using d files g by (auto simp: image_iff)
    have here: "inSyncScope en (vf_path g)" "inSyncScope en ?p" using sync g f files by auto
    have "vf_path g \<noteq> ?d f" "?d g \<noteq> ?p"
      using here isSyncable_reset unfolding inSyncScope_def quarantineDest_def by metis+
    moreover have "?d g \<noteq> ?d f" using ne by (simp add: quarantineDest_def)
    moreover have "{vf_path g, ?d g, ?p, ?d f} \<subseteq> resyncNames today files T"
      using g f by (auto simp: resyncNames_def files)
    ultimately show ?thesis
      using q ne apartD [OF names, of "vf_path g" q] apartD [OF names, of "?d g" q] by auto
  qed
  have before: "always (at_tree T (\<lambda>B. B ?p = Some b)) (io_each (resyncFile en today) xs)"
    using away by (intro always_each resyncFile_other [OF V T]) auto
  have after: "always (at_tree T (keptAside today ?p b)) (io_each (resyncFile en today) ys)"
    using away by (intro always_keptAside always_each resyncFile_other [OF V T]) auto
  have last: "holds (at_tree T (keptAside today ?p b)) (io_each (resyncFile en today) ys)
      (\<lambda>_. at_tree T (keptAside today ?p b)) (at_tree T (keptAside today ?p b))"
    by (rule always_holds [OF after])
  have first: "holds (at_tree T (\<lambda>B. B ?p = Some b)) (io_each (resyncFile en today) xs)
      (\<lambda>_. at_tree T (\<lambda>B. B ?p = Some b)) (at_tree T (keptAside today ?p b))"
    by (rule holds_post [OF always_holds [OF before]]) (auto simp: at_tree_def disk_def keptAside_def)
  show ?thesis
    unfolding files io_each_append io_each.simps
    by (rule holds_seq [OF first holds_seq [OF resyncFile_kept [OF V T] last]])
qed

lemma serverOnly_unhandled:
  "n \<in> set (serverOnly en c) \<Longrightarrow>
   n \<in> snd ` set (px_tree c) \<and> inSyncScope en (sn_path n) \<and> sn_path n \<notin> set (px_handled c)"
  by (auto simp: serverOnly_def)

lemma pullServerOnly_kept:
  assumes V: "en_vault en = V" and T: "tree_paths_ok T" and names: "apart (resyncNames today files T)"
    and f: "f \<in> set files" and w: "at_tree T (keptAside today (vf_path f) b) w"
    and handled: "view (\<lambda>t h. vf_path ` set files \<subseteq> set h) w"
  shows "disk (keptAside today (vf_path f) b) (snd (pullServerOnly en w))"
proof -
  have other: "\<not> same (sn_path n) q" if n: "n \<in> set (serverOnly en (wd_ctx w))"
    and q: "q \<in> {vf_path f, quarantineDest today (vf_path f)}" for n q
  proof -
    note N = serverOnly_unhandled [OF n]
    obtain k where k: "(k, n) \<in> set T" using N w by (auto simp: at_tree_def)
    then have key: "sn_path n = k" using T by (auto simp: tree_paths_ok_def)
    have "sn_path n \<noteq> quarantineDest today (vf_path f)"
      using N isSyncable_reset unfolding inSyncScope_def quarantineDest_def by metis
    moreover have "sn_path n \<noteq> vf_path f" using N handled f by (auto simp: view_def)
    moreover have "k \<in> set (jkeys T)" using k by force
    ultimately show ?thesis using apartD [OF names, of "sn_path n" q] q f key
      by (auto simp: resyncNames_def)
  qed
  have "always (disk (keptAside today (vf_path f) b)) (pull en (serverOnly en (wd_ctx w)))"
    by (rule disk_keptAside) (rule pull_other [OF V], use other in blast)
  from alwaysD [OF this, of w] w show ?thesis
    by (simp add: pullServerOnly_def ctx_def io_bind_get at_tree_def)
qed

lemma resyncAfterReset_kept:
  assumes V: "en_vault en = V" and T: "tree_paths_ok (px_tree (wd_ctx w))"
    and today: "today = take 10 (en_iso en (en_now en (wd_draws w)))"
    and names: "apart (resyncNames today files (px_tree (wd_ctx w)))"
    and d: "distinct (map vf_path files)" and sync: "\<forall>g\<in>set files. inSyncScope en (vf_path g)"
    and f: "f \<in> set files" and b: "bytesAt (wd_dev w) (vf_path f) = Some b"
  shows "disk (keptAside today (vf_path f) b) (snd (resyncAfterReset en files w))"
proof -
  let ?T = "px_tree (wd_ctx w)"
  let ?K = "at_tree ?T (keptAside today (vf_path f) b)"
  define w1 where "w1 = w\<lparr>wd_draws := Suc (wd_draws w),
      wd_ctx := (wd_ctx w)\<lparr>px_state := (px_state (wd_ctx w))\<lparr>vs_nodes := []\<rparr>, px_handled := []\<rparr>\<rparr>"
  have w1: "at_tree ?T (\<lambda>B. B (vf_path f) = Some b) w1"
    using b by (simp add: w1_def at_tree_def disk_def)
  have run: "resyncAfterReset en files w = io_seq (io_each (resyncFile en today) files) (pullServerOnly en) w1"
    by (simp add: resyncAfterReset_def isoNow_def draw_def ctx_mod_def io_mod_def io_ret_def io_bind_def io_seq_def w1_def today)
  have each: "holds (at_tree ?T (\<lambda>B. B (vf_path f) = Some b)) (io_each (resyncFile en today) files)
      (\<lambda>_ w. ?K w \<and> view (\<lambda>t h. vf_path ` set files \<subseteq> set h) w) ?K"
    by (rule holds_weaken [OF holds_both [OF each_resync_kept [OF V T names d f sync]
        holds_weaken [OF each_resync_handles]]]) auto
  have rest: "holds (\<lambda>w. ?K w \<and> view (\<lambda>t h. vf_path ` set files \<subseteq> set h) w) (pullServerOnly en)
      (\<lambda>_. disk (keptAside today (vf_path f) b)) (disk (keptAside today (vf_path f) b))"
    using pullServerOnly_kept [OF V T names f] by (fastforce simp: holds_def split: prod.splits sum.splits)
  have "holds (at_tree ?T (\<lambda>B. B (vf_path f) = Some b)) (io_seq (io_each (resyncFile en today) files) (pullServerOnly en))
      (\<lambda>_. disk (keptAside today (vf_path f) b)) (disk (keptAside today (vf_path f) b))"
    by (rule holds_seq [OF holds_post [OF each] rest]) (auto simp: at_tree_def)
  from holds_run [OF this w1] run show ?thesis by simp
qed

end

end
