(* ===== verification/Device.thy ===== *)
theory Device
  imports Adapter
begin

text \<open>
  A file system in memory behind Obsidian's API, for the interpretations and the witnesses: files with
  the name they are shown under, folders, paths whose operations fail, and a clock. \<open>key\<close> is the name a
  file system compares by: \<open>asNamed\<close> where it tells letter cases apart, \<open>lowerPath\<close> where it does not.
\<close>

record mem_fs =
  mf_files :: "(path, path \<times> bytes \<times> int) jmap"
  mf_folders :: "path list"
  mf_broken :: "path list"
  mf_now :: int
  mf_state :: vault_state

definition bytesIn :: "(path \<Rightarrow> path) \<Rightarrow> mem_fs \<Rightarrow> path \<Rightarrow> bytes option" where
  "bytesIn key fs p = map_option (\<lambda>(shown, b, t). b) (jget (mf_files fs) (key p))"

definition mem_read :: "(path \<Rightarrow> path) \<Rightarrow> path \<Rightarrow> (mem_fs, bytes) io" where
  "mem_read key p fs =
     (if p \<in> set (mf_broken fs) then (Inl ''EIO'', fs)
      else case bytesIn key fs p of None \<Rightarrow> (Inl ''ENOENT'', fs) | Some b \<Rightarrow> (Inr b, fs))"

definition mem_write :: "(path \<Rightarrow> path) \<Rightarrow> path \<Rightarrow> bytes \<Rightarrow> (mem_fs, unit) io" where
  "mem_write key p b fs =
     (if p \<in> set (mf_broken fs) then (Inl ''EIO'', fs)
      else (Inr (), fs\<lparr>mf_files := jset (key p)
        (case jget (mf_files fs) (key p) of None \<Rightarrow> p | Some (shown, _, _) \<Rightarrow> shown, b, mf_now fs) (mf_files fs),
        mf_now := mf_now fs + 1\<rparr>))"

definition mem_remove :: "(path \<Rightarrow> path) \<Rightarrow> path \<Rightarrow> (mem_fs, unit) io" where
  "mem_remove key p fs =
     (if p \<in> set (mf_broken fs) then (Inl ''EIO'', fs)
      else (Inr (), fs\<lparr>mf_files := jdel (key p) (mf_files fs)\<rparr>))"

definition mem_rename :: "(path \<Rightarrow> path) \<Rightarrow> path \<Rightarrow> path \<Rightarrow> (mem_fs, unit) io" where
  "mem_rename key p q fs =
     (case jget (mf_files fs) (key p) of
        None \<Rightarrow> (Inl ''ENOENT'', fs)
      | Some (_, b, t) \<Rightarrow>
          if p \<in> set (mf_broken fs) then (Inl ''EIO'', fs)
          else (Inr (), fs\<lparr>mf_files := jset (key q) (q, b, t) (jdel (key p) (mf_files fs))\<rparr>))"

definition mem_stat :: "(path \<Rightarrow> path) \<Rightarrow> path \<Rightarrow> (mem_fs, (bool \<times> int \<times> nat) option) io" where
  "mem_stat key p fs =
     (Inr (case jget (mf_files fs) (key p) of
             Some (_, b, t) \<Rightarrow> Some (True, t, length b)
           | None \<Rightarrow> if p \<in> set (mf_folders fs) then Some (False, 0, 0) else None), fs)"

definition mem_exists :: "(path \<Rightarrow> path) \<Rightarrow> path \<Rightarrow> (mem_fs, bool) io" where
  "mem_exists key p fs = (Inr (jhas (mf_files fs) (key p) \<or> p \<in> set (mf_folders fs)), fs)"

definition mem_mkdir :: "path \<Rightarrow> (mem_fs, unit) io" where
  "mem_mkdir p fs = (Inr (), fs\<lparr>mf_folders := sadd p (mf_folders fs)\<rparr>)"

definition mem_list :: "path \<Rightarrow> (mem_fs, path list \<times> path list) io" where
  "mem_list dir fs =
     (Inr (filter (\<lambda>p. parentPath p = dir) (map (\<lambda>(k, shown, _). shown) (mf_files fs)),
           filter (\<lambda>p. parentPath p = dir) (mf_folders fs)), fs)"

definition mem_tracked :: "(path \<Rightarrow> path) \<Rightarrow> mem_fs \<Rightarrow> path \<Rightarrow> tracked option" where
  "mem_tracked key fs p =
     (case jget (mf_files fs) (key p) of
        Some (shown, _) \<Rightarrow> if shown = p then Some (TFile p) else None
      | None \<Rightarrow> if p \<in> set (mf_folders fs) then Some (TFolder p) else None)"

definition memConfig :: path where
  "memConfig = ''.obsidian''"

definition memObsidian :: "(path \<Rightarrow> path) \<Rightarrow> mem_fs obsidian" where
  "memObsidian key =
     \<lparr>ob_configDir = memConfig,
      ob_getFiles = (\<lambda>fs. List.map_filter (\<lambda>(k, p, b, t).
        if within memConfig p then None else Some \<lparr>vf_path = p, vf_mtime = t, vf_size = length b\<rparr>) (mf_files fs)),
      ob_tracked = mem_tracked key, ob_modifyBinary = mem_write key, ob_vaultRename = mem_rename key,
      ob_list = mem_list, ob_stat = mem_stat key, ob_exists = mem_exists key, ob_readBinary = mem_read key,
      ob_writeBinary = mem_write key, ob_mkdir = mem_mkdir, ob_remove = mem_remove key, ob_rename = mem_rename key\<rparr>"

lemma bytesIn_unaffected [simp]:
  "bytesIn key (fs\<lparr>mf_folders := a\<rparr>) = bytesIn key fs" "bytesIn key (fs\<lparr>mf_now := n\<rparr>) = bytesIn key fs"
  by (simp_all add: bytesIn_def fun_eq_iff)

lemma mem_write_law:
  "mem_write key p b fs = (r, fs') \<Longrightarrow>
   (\<forall>q. key p \<noteq> key q \<longrightarrow> bytesIn key fs' q = bytesIn key fs q) \<and> (r = Inr () \<longrightarrow> bytesIn key fs' p = Some b)"
  by (auto simp: mem_write_def bytesIn_def split: if_splits)

lemma mem_rename_law:
  "mem_rename key p q fs = (r, fs') \<Longrightarrow>
   (if r = Inr () then bytesIn key fs' q = bytesIn key fs p else bytesIn key fs' = bytesIn key fs)"
  by (auto simp: mem_rename_def bytesIn_def split: if_splits option.splits)

text \<open>Either file system keeps what Obsidian documents.\<close>

lemma memObsidian_api:
  assumes "\<And>p q. key p = key q \<Longrightarrow> lowerPath p = lowerPath q"
  shows "obsidian_api (memObsidian key) (bytesIn key) (\<lambda>p q. key p = key q)"
proof
  fix p q :: path and fs fs' :: mem_fs and r :: "string + unit"
  show "ob_rename (memObsidian key) p q fs = (r, fs') \<Longrightarrow>
      (if r = Inr () then bytesIn key fs' q = bytesIn key fs p else bytesIn key fs' = bytesIn key fs)"
    and "ob_vaultRename (memObsidian key) p q fs = (r, fs') \<Longrightarrow>
      (if r = Inr () then bytesIn key fs' q = bytesIn key fs p else bytesIn key fs' = bytesIn key fs)"
    by (simp_all add: memObsidian_def mem_rename_law)
next
  fix p b fs r and fs' :: mem_fs
  show "ob_modifyBinary (memObsidian key) p b fs = (r, fs') \<Longrightarrow>
      (\<forall>q. key p \<noteq> key q \<longrightarrow> bytesIn key fs' q = bytesIn key fs q) \<and> (r = Inr () \<longrightarrow> bytesIn key fs' p = Some b)"
    and "ob_writeBinary (memObsidian key) p b fs = (r, fs') \<Longrightarrow>
      (\<forall>q. key p \<noteq> key q \<longrightarrow> bytesIn key fs' q = bytesIn key fs q) \<and> (r = Inr () \<longrightarrow> bytesIn key fs' p = Some b)"
    by (simp_all add: memObsidian_def mem_write_law)
next
  fix p and fs fs' :: mem_fs and rr :: "string + bytes"
  show "ob_readBinary (memObsidian key) p fs = (rr, fs') \<Longrightarrow>
      bytesIn key fs' = bytesIn key fs \<and> (\<forall>b. rr = Inr b \<longrightarrow> bytesIn key fs p = Some b)"
    by (auto simp: memObsidian_def mem_read_def split: if_splits option.splits)
next
  fix p q and fs :: mem_fs
  show "ob_tracked (memObsidian key) fs p = Some (TFile q) \<Longrightarrow> q = p"
    by (auto simp: memObsidian_def mem_tracked_def split: if_splits option.splits)
next
  fix p and fs fs' :: mem_fs and ru :: "string + unit"
  show "ob_remove (memObsidian key) p fs = (ru, fs') \<Longrightarrow> \<forall>q. key p \<noteq> key q \<longrightarrow> bytesIn key fs' q = bytesIn key fs q"
    by (auto simp: memObsidian_def mem_remove_def bytesIn_def split: if_splits)
next
  fix p q :: path assume "key p = key q"
  then show "lowerPath p = lowerPath q" by (rule assms)
qed (simp_all add: memObsidian_def mem_stat_def mem_exists_def mem_mkdir_def bytesIn_def)

definition asNamed :: "path \<Rightarrow> path" where
  "asNamed p = p"

interpretation cased: obsidian_api "memObsidian asNamed" "bytesIn asNamed" "\<lambda>p q. asNamed p = asNamed q"
  by (rule memObsidian_api) (simp add: asNamed_def)

interpretation caseless: obsidian_api "memObsidian lowerPath" "bytesIn lowerPath" "\<lambda>p q. lowerPath p = lowerPath q"
  by (rule memObsidian_api) simp

definition memAdapter :: "(path \<Rightarrow> path) \<Rightarrow> mem_fs vault_adapter" where
  "memAdapter key = obsidianAdapter (memObsidian key) 8 (io_get mf_state) (\<lambda>s. io_mod (\<lambda>fs. fs\<lparr>mf_state := s\<rparr>))"

lemma memAdapter_contract:
  assumes "\<And>p q. key p = key q \<Longrightarrow> lowerPath p = lowerPath q"
  shows "vault_contract (memAdapter key) (bytesIn key) (\<lambda>p q. key p = key q)"
  unfolding memAdapter_def
  by (rule obsidian_api.adapter_contract [OF memObsidian_api [OF assms]])

end
