(* ===== verification/Wire_Memory.thy ===== *)
theory Wire_Memory
  imports Engine_Reset Device
begin

text \<open>
  A server behind the wire that records what it is sent, and transparent cryptography: with the file
  system of \<open>Device\<close>, a concrete world in which the engine's passes are evaluated, for the witnesses
  and for the behaviours the properties single out. Nothing here models the repository's server.
\<close>

datatype wire_call =
    Created create_body
  | Uploaded string
  | Replaced string put_body
  | Moved string nat move_body
  | Erased string nat

record mem_srv =
  ms_log :: "wire_call list"
  ms_nodes :: "change list"
  ms_blobs :: "(string, bytes) jmap"
  ms_envelopes :: "(string, envelope list) jmap"
  ms_delta :: delta_answer
  ms_put :: put_answer
  ms_next :: nat

definition logged :: "wire_call \<Rightarrow> mem_srv \<Rightarrow> mem_srv" where
  "logged c s = s\<lparr>ms_log := ms_log s @ [c]\<rparr>"

definition memWire :: "mem_srv vault_wire" where
  "memWire =
     \<lparr>wi_listNodes = io_get (\<lambda>s. (ms_nodes s, ''c1'')),
      wi_dedupLookup = (\<lambda>tags. io_ret []),
      wi_putBlob = (\<lambda>b. io_mod (\<lambda>s. logged (Uploaded (sb_sha256 b)) s)),
      wi_getBlob = (\<lambda>a. io_get (\<lambda>s. jget (ms_blobs s) a)),
      wi_blobKeys = (\<lambda>as. io_get ms_envelopes),
      wi_createNode = (\<lambda>b s. (Inr (''new'' @ replicate (ms_next s) (CHR ''+''), 1),
                              logged (Created b) (s\<lparr>ms_next := Suc (ms_next s)\<rparr>))),
      wi_putContent = (\<lambda>nd b s. (Inr (ms_put s), logged (Replaced nd b) s)),
      wi_moveNode = (\<lambda>nd r b s. (Inr (Suc r), logged (Moved nd r b) s)),
      wi_deleteNode = (\<lambda>nd r s. (Inr (Suc r), logged (Erased nd r) s)),
      wi_delta = (\<lambda>c n. io_get ms_delta)\<rparr>"

definition memHash :: "bytes \<Rightarrow> string" where
  "memHash b = List.map (\<lambda>x. char_of (unat x)) b"

definition memCrypto :: "string crypto" where
  "memCrypto =
     \<lparr>cr_plainHash = memHash,
      cr_dedupTagFromHash = (\<lambda>k h. k @ CHR ''#'' # h),
      cr_nameUnder = (\<lambda>n k scope name. \<lparr>nf_name_enc = k @ CHR '':'' # name, nf_name_hmac = name, nf_name_key_id = scope\<rparr>),
      cr_sealBlob = (\<lambda>n b. \<lparr>sb_bytes = b, sb_sha256 = memHash b, sb_contentKey = [], sb_keyId = []\<rparr>),
      cr_wrapContentKey = (\<lambda>n k ck. k),
      cr_unwrapContentKey = (\<lambda>k wrapped. if wrapped = k then Inr [] else Inl ''wrong key''),
      cr_openBlob = (\<lambda>ck b. Inr b),
      cr_decryptName = (\<lambda>k enc. if startsWith enc (k @ '':'') then Some (drop (Suc (length k)) enc) else None)\<rparr>"

definition memScopes :: "string vault_scopes" where
  "memScopes = \<lparr>sc_root_node_id = ''root'',
     sc_scopes = [\<lparr>sco_scope = ''vault'', sco_key_id = ''v'', sco_share_id = None, sco_wrapped_key = None\<rparr>,
                  \<lparr>sco_scope = ''share'', sco_key_id = ''s'', sco_share_id = Some ''share'', sco_wrapped_key = None\<rparr>],
     sc_vaultKey = ''V'', sc_vaultScopeId = ''v'', sc_shareKeys = [(''s'', ''S'')], sc_unopenable = []\<rparr>"

definition memEngine :: "(path \<Rightarrow> path) \<Rightarrow> (mem_srv, mem_fs, string) engine" where
  "memEngine key =
     \<lparr>en_client = memWire, en_scopes = memScopes, en_vault = memAdapter key, en_crypto = memCrypto,
      en_deviceLabel = ''pc'', en_syncObsidian = False, en_now = (\<lambda>n. 0),
      en_iso = (\<lambda>t. ''2026-01-02T03:04:05.000Z'')\<rparr>"

definition memServer :: "change list \<Rightarrow> mem_srv" where
  "memServer nodes =
     \<lparr>ms_log = [], ms_nodes = nodes, ms_blobs = [], ms_envelopes = [], ms_delta = Answer [] [] ''c0'' False,
      ms_put = Put_Done 1, ms_next = 0\<rparr>"

definition memContext :: pass_context where
  "memContext =
     \<lparr>px_policy = POLICY Continuous, px_tree = [], px_byNodeId = [], px_meta = [], px_dedup = [], px_vanished = [],
      px_handled = [], px_queue = [], px_rootNodeId = [], px_vaultScopeId = [], px_shareScopes = [], px_crossed = [],
      px_knownBefore = [], px_sharesKnown = [], px_state = emptyState, px_report = emptyReport\<rparr>"

definition memDevice :: "(path \<times> bytes) list \<Rightarrow> vault_state \<Rightarrow> mem_fs" where
  "memDevice files st =
     \<lparr>mf_files = List.map (\<lambda>(p, b). (p, p, b, 5)) files, mf_folders = [], mf_broken = [], mf_now = 7, mf_state = st\<rparr>"

definition memWorld :: "mem_srv \<Rightarrow> mem_fs \<Rightarrow> (mem_srv, mem_fs) world" where
  "memWorld srv dev = \<lparr>wd_ctx = memContext, wd_srv = srv, wd_dev = dev, wd_draws = 0, wd_cache = None\<rparr>"

text \<open>A node of the listing, its name sealed under the scope's key.\<close>

definition listed :: "string \<Rightarrow> string \<Rightarrow> string \<Rightarrow> string \<Rightarrow> string \<Rightarrow> string option \<Rightarrow> string option \<Rightarrow> change" where
  "listed nd parent name scope key share address =
     \<lparr>ch_node_id = nd, ch_parent_id = Some parent, ch_name_enc = Some (key @ CHR '':'' # name),
      ch_name_hmac = None, ch_name_key_id = Some scope, ch_op = ''update'', ch_rev = 1, ch_sha256 = address,
      ch_size = None, ch_mtime = [], ch_share_id = share, ch_author_id = None\<rparr>"

end
