(* ===== verification/Engine_Props.thy ===== *)
theory Engine_Props
  imports Wire_Memory
begin

text \<open>
  The properties of the engine's steps (\<open>plugin/src/engine/engine.ts\<close>) over any vault that keeps
  \<open>vault_contract\<close>, any server and any cryptography, with their witnesses in the world of
  \<open>Wire_Memory\<close>, and the behaviours that world exhibits where a step falls short of its rule.
\<close>

subsection \<open>The last local copy\<close>

text \<open>C1. Unsynced work survives its own reconciliation: when the bytes of a local file are not those the
  device last synchronised for it, then after \<open>reconcileLocal\<close>, whatever was decided (an edit, a
  conflict, a rename made elsewhere, a deletion made elsewhere) and whatever then failed, some
  file on the device holds exactly these bytes.\<close>

theorem reconcileLocal_keeps_unsynced:
  assumes "vault_contract V bytesAt same" "en_vault en = V" "bytesAt (wd_dev w) (vf_path f) = Some b"
    "\<And>m. jget (px_meta (wd_ctx w)) (vf_path f) = Some m \<Longrightarrow> lm_plainHash m = cr_plainHash (en_crypto en) b"
    "\<And>k. jget (vs_nodes (px_state (wd_ctx w))) (vf_path f) = Some k \<Longrightarrow>
       kn_plainHash k \<noteq> cr_plainHash (en_crypto en) b"
  shows "\<exists>q. bytesAt (wd_dev (snd (reconcileLocal en f w))) q = Some b"
  using vault_contract.reconcileLocal_kept [OF assms]
  by (simp add: vault_contract.disk_def [OF assms(1)] vault_contract.keptSomewhere_def [OF assms(1)])

text \<open>C3. A conflict never drops a side: whichever way \<open>resolveConflict\<close> ends, the local bytes are at their
  path or at a conflict copy's; and when it ended well on different contents, the path holds the
  server's bytes and a conflict copy of this device the local ones.\<close>

theorem resolveConflict_keeps_both:
  assumes "vault_contract V bytesAt same" "en_vault en = V" "bytesAt (wd_dev w) (vf_path f) = Some b"
    "resolveConflict en f n (Some server) w = (r, w')"
  shows "(bytesAt (wd_dev w') (vf_path f) = Some b \<or>
      (\<exists>now. bytesAt (wd_dev w') (conflictCopyName (vf_path f) (en_deviceLabel en) now) = Some b)) \<and>
    (r = Inr () \<and> cr_plainHash (en_crypto en) b \<noteq> cr_plainHash (en_crypto en) server \<longrightarrow>
      bytesAt (wd_dev w') (vf_path f) = Some server \<and>
      (\<exists>now. bytesAt (wd_dev w') (conflictCopyName (vf_path f) (en_deviceLabel en) now) = Some b))"
proof -
  note D = vault_contract.disk_def [OF assms(1)]
  have w: "vault_contract.disk bytesAt (\<lambda>B. B (vf_path f) = Some b) w" using assms(3) by (simp add: D)
  from holds_run [OF vault_contract.resolveConflict_kept [OF assms(1,2)] w, of n "Some server"] assms(4)
  have "bytesAt (wd_dev w') (vf_path f) = Some b \<or>
      (\<exists>now. bytesAt (wd_dev w') (conflictCopyName (vf_path f) (en_deviceLabel en) now) = Some b)"
    by (simp add: D vault_contract.keptBeside_def [OF assms(1)])
  moreover from vault_contract.resolveConflict_settled [OF assms(1,2), of f b n server, unfolded holds_def] w assms(4)
  have "r = Inr () \<longrightarrow> cr_plainHash (en_crypto en) b \<noteq> cr_plainHash (en_crypto en) server \<longrightarrow>
      bytesAt (wd_dev w') (vf_path f) = Some server \<and>
      (\<exists>now. bytesAt (wd_dev w') (conflictCopyName (vf_path f) (en_deviceLabel en) now) = Some b)"
    by (auto simp: D split: if_splits)
  ultimately show ?thesis by blast
qed

text \<open>C4. Following a rename made elsewhere keeps the local bytes, whatever fails on the way: the new place is
  written before the old one is deleted, a rename that changes only letter case is one rename of
  the file system, and the edit that may follow keeps them too.\<close>

theorem applyRemoteRename_keeps:
  assumes "vault_contract V bytesAt same" "en_vault en = V" "bytesAt (wd_dev w) (vf_path f) = Some b"
  shows "\<exists>q. bytesAt (wd_dev (snd (applyRemoteRename en f m known movedTo w))) q = Some b"
  using holds_run [OF vault_contract.applyRemoteRename_kept [OF assms(1,2)], of f b w m known movedTo] assms
  by (simp add: vault_contract.disk_def [OF assms(1)] vault_contract.keptSomewhere_def [OF assms(1)])

text \<open>C2. A reset erases nothing: after \<open>resyncAfterReset\<close>, and whatever failed on the way, what each local
  file held is at its own path or under \<open>_Reset <date>/\<close>, when the files are the synchronised ones and no
  two of the paths concerned name one file.\<close>

theorem resyncAfterReset_erases_nothing:
  assumes "vault_contract V bytesAt same" "en_vault en = V" "tree_paths_ok (px_tree (wd_ctx w))"
    "today = take 10 (en_iso en (en_now en (wd_draws w)))"
    "\<forall>p\<in>N. \<forall>q\<in>N. same p q \<longrightarrow> p = q"
    "N = vf_path ` set files \<union> (\<lambda>f. quarantineDest today (vf_path f)) ` set files \<union> set (jkeys (px_tree (wd_ctx w)))"
    "distinct (map vf_path files)" "\<forall>g\<in>set files. inSyncScope en (vf_path g)"
    "f \<in> set files" "bytesAt (wd_dev w) (vf_path f) = Some b"
  shows "bytesAt (wd_dev (snd (resyncAfterReset en files w))) (vf_path f) = Some b \<or>
    bytesAt (wd_dev (snd (resyncAfterReset en files w))) (quarantineDest today (vf_path f)) = Some b"
proof -
  note D = vault_contract.disk_def [OF assms(1)] and K = vault_contract.keptAside_def [OF assms(1)]
  have "vault_contract.apart same (vault_contract.resyncNames today files (px_tree (wd_ctx w)))"
    using assms(5) unfolding vault_contract.apart_def [OF assms(1)] vault_contract.resyncNames_def [OF assms(1)] assms(6) .
  from vault_contract.resyncAfterReset_kept [OF assms(1-4) this assms(7-10)] show ?thesis by (simp only: D K)
qed

subsection \<open>After a restore\<close>

lemma settleVanished_restored:
  assumes "\<not> pushDeletes (px_policy (wd_ctx w))"
  shows "wd_srv (snd (settleVanished en v w)) = wd_srv w \<and> wd_dev (snd (settleVanished en v w)) = wd_dev w \<and>
    px_policy (wd_ctx (snd (settleVanished en v w))) = px_policy (wd_ctx w) \<and>
    fst (settleVanished en v w) = Inr () \<and>
    vs_nodes (px_state (wd_ctx (snd (settleVanished en v w)))) = jdel (va_path v) (vs_nodes (px_state (wd_ctx w)))"
  using assms
  by (auto simp: settleVanished_def handle_def del_node_def ctx_def ctx_mod_def io_mod_def io_seq_def io_bind_def io_get_def
      split: option.splits)

lemma settleAll_restored:
  assumes "\<not> pushDeletes (px_policy (wd_ctx w))"
  shows "wd_srv (snd (io_each (settleVanished en) vs w)) = wd_srv w \<and> wd_dev (snd (io_each (settleVanished en) vs w)) = wd_dev w \<and>
    px_policy (wd_ctx (snd (io_each (settleVanished en) vs w))) = px_policy (wd_ctx w) \<and>
    (\<forall>v\<in>set vs. jget (vs_nodes (px_state (wd_ctx (snd (io_each (settleVanished en) vs w))))) (va_path v) = None) \<and>
    (\<forall>p. jget (vs_nodes (px_state (wd_ctx w))) p = None \<longrightarrow>
       jget (vs_nodes (px_state (wd_ctx (snd (io_each (settleVanished en) vs w))))) p = None)"
  using assms
proof (induction vs arbitrary: w)
  case Nil
  then show ?case by (simp add: io_ret_def)
next
  case (Cons v vs)
  define w1 where "w1 = snd (settleVanished en v w)"
  note S = settleVanished_restored [OF Cons.prems, of en v, folded w1_def]
  have run: "io_each (settleVanished en) (v # vs) w = io_each (settleVanished en) vs w1"
    using S unfolding w1_def io_each.simps io_seq_def io_bind_def by (cases "settleVanished en v w") simp
  from S Cons.prems have "\<not> pushDeletes (px_policy (wd_ctx w1))" by simp
  from Cons.IH [OF this] S show ?case unfolding run by auto
qed

subsection \<open>A worked world\<close>

definition ex_file :: vault_file where
  "ex_file = \<lparr>vf_path = ''a.md'', vf_mtime = 5, vf_size = 1\<rparr>"

definition ex_dev :: mem_fs where
  "ex_dev = memDevice [(''a.md'', [7])] emptyState"

definition ex_world :: "(mem_srv, mem_fs) world" where
  "ex_world = memWorld (memServer []) ex_dev"

definition ex_remote :: "path \<Rightarrow> server_node" where
  "ex_remote p = \<lparr>sn_nodeId = ''n'', sn_parentId = None, sn_path = p, sn_rev = 2, sn_address = Some ''x'',
     sn_isFile = True, sn_nameKeyId = None, sn_shareId = None, sn_authorId = None\<rparr>"

definition ex_meta_a :: local_meta where
  "ex_meta_a = \<lparr>lm_plainHash = memHash [7], lm_tag = [], lm_mtime = 5, lm_size = 1\<rparr>"

definition ex_known_n :: known_node where
  "ex_known_n = knownAs ''n'' 1 (memHash [7]) ''y''"

lemma cased_contract: "vault_contract (memAdapter asNamed) (bytesIn asNamed) (\<lambda>p q. asNamed p = asNamed q)"
  by (rule memAdapter_contract) (simp add: asNamed_def)

lemma ex_vault: "en_vault (memEngine asNamed) = memAdapter asNamed"
  by (simp add: memEngine_def)

lemma ex_bytes: "bytesIn asNamed (wd_dev ex_world) (vf_path ex_file) = Some [7]"
  by (simp add: ex_world_def memWorld_def ex_dev_def memDevice_def bytesIn_def ex_file_def asNamed_def)

lemma ex_ctx: "wd_ctx ex_world = memContext"
  by (simp add: ex_world_def memWorld_def)

theorem reconcileLocal_keeps_unsynced_witness:
  "\<exists>q. bytesIn asNamed (wd_dev (snd (reconcileLocal (memEngine asNamed) ex_file ex_world))) q = Some [7]"
  by (rule reconcileLocal_keeps_unsynced [OF cased_contract ex_vault ex_bytes])
    (simp_all add: ex_ctx memContext_def emptyState_def)

theorem resolveConflict_keeps_both_witness:
  "let (r, w') = resolveConflict (memEngine asNamed) ex_file (ex_remote ''a.md'') (Some [9]) ex_world in
    r = Inr () \<and> bytesIn asNamed (wd_dev w') ''a.md'' = Some [9] \<and> (\<exists>now. bytesIn asNamed (wd_dev w') (conflictCopyName ''a.md'' ''pc'' now) = Some [7])"
proof -
  obtain r w' where run: "resolveConflict (memEngine asNamed) ex_file (ex_remote ''a.md'') (Some [9]) ex_world = (r, w')" by fastforce
  have "fst (resolveConflict (memEngine asNamed) ex_file (ex_remote ''a.md'') (Some [9]) ex_world) = Inr ()"
    by code_simp
  with run have r: "r = Inr ()" by simp
  have h: "cr_plainHash (en_crypto (memEngine asNamed)) [7] \<noteq> cr_plainHash (en_crypto (memEngine asNamed)) [9]"
    by code_simp
  from resolveConflict_keeps_both [OF cased_contract ex_vault ex_bytes run] r h show ?thesis
    unfolding run Let_def split by (simp add: ex_file_def) (simp add: memEngine_def)
qed

theorem applyRemoteRename_keeps_witness:
  "\<exists>q. bytesIn asNamed (wd_dev (snd (applyRemoteRename (memEngine asNamed) ex_file ex_meta_a ex_known_n (ex_remote ''b.md'') ex_world))) q = Some [7]"
  by (rule applyRemoteRename_keeps [OF cased_contract ex_vault ex_bytes])

theorem resyncAfterReset_erases_nothing_witness:
  "let w' = snd (resyncAfterReset (memEngine asNamed) [ex_file] ex_world) in
   bytesIn asNamed (wd_dev w') ''a.md'' = Some [7] \<or> bytesIn asNamed (wd_dev w') ''_Reset 2026-01-02/a.md'' = Some [7]"
proof -
  have sync: "\<forall>g\<in>set [ex_file]. inSyncScope (memEngine asNamed) (vf_path g)" by code_simp
  have "bytesIn asNamed (wd_dev (snd (resyncAfterReset (memEngine asNamed) [ex_file] ex_world))) (vf_path ex_file) = Some [7] \<or>
    bytesIn asNamed (wd_dev (snd (resyncAfterReset (memEngine asNamed) [ex_file] ex_world)))
      (quarantineDest (take 10 (en_iso (memEngine asNamed) (en_now (memEngine asNamed) (wd_draws ex_world)))) (vf_path ex_file)) = Some [7]"
    by (rule resyncAfterReset_erases_nothing [OF cased_contract ex_vault _ refl _ refl _ sync _ ex_bytes])
      (simp_all add: ex_ctx memContext_def tree_paths_ok_def asNamed_def)
  moreover have "quarantineDest (take 10 (en_iso (memEngine asNamed) (en_now (memEngine asNamed) (wd_draws ex_world)))) ''a.md'' = ''_Reset 2026-01-02/a.md''"
    by code_simp
  ultimately show ?thesis by (simp add: ex_file_def Let_def)
qed

end
