(* ===== verification/Engine_Deletions.thy ===== *)
theory Engine_Deletions
  imports Engine_Props
begin

text \<open>
  Which deletions a whole pass sends when an absence proves nothing, after a restore, a reset or an
  unverifiable cursor (\<open>sync\<close> of \<open>plugin/src/engine/engine.ts\<close>). The wire, any wire, is wrapped so that it
  keeps a log of what is sent; the log is an assertion carried through every step of the walk.
\<close>

subsection \<open>A wire that is watched\<close>

text \<open>What is sent, the newest first: the creation of a node that succeeded (a file or a folder), a deletion
  whether it succeeds or not, anything else that writes. What only reads is not noted.\<close>

datatype sent = SentCreate bool | SentDelete string | SentOther

definition noted :: "sent \<Rightarrow> sent \<Rightarrow> ('srv, 'a) io \<Rightarrow> ('srv \<times> sent list, 'a) io" where
  "noted ok failed m = (\<lambda>(s, l). case m s of
     (Inr a, s') \<Rightarrow> (Inr a, (s', ok # l))
   | (Inl e, s') \<Rightarrow> (Inl e, (s', failed # l)))"

definition unnoted :: "('srv, 'a) io \<Rightarrow> ('srv \<times> sent list, 'a) io" where
  "unnoted m = (\<lambda>(s, l). case m s of (r, s') \<Rightarrow> (r, (s', l)))"

definition watched :: "'srv vault_wire \<Rightarrow> ('srv \<times> sent list) vault_wire" where
  "watched W =
     \<lparr>wi_listNodes = unnoted (wi_listNodes W),
      wi_dedupLookup = (\<lambda>tags. unnoted (wi_dedupLookup W tags)),
      wi_putBlob = (\<lambda>b. noted SentOther SentOther (wi_putBlob W b)),
      wi_getBlob = (\<lambda>a. unnoted (wi_getBlob W a)),
      wi_blobKeys = (\<lambda>as. unnoted (wi_blobKeys W as)),
      wi_createNode = (\<lambda>b. noted (SentCreate (cb_isFile b)) SentOther (wi_createNode W b)),
      wi_putContent = (\<lambda>i b. noted SentOther SentOther (wi_putContent W i b)),
      wi_moveNode = (\<lambda>i r b. noted SentOther SentOther (wi_moveNode W i r b)),
      wi_deleteNode = (\<lambda>i r. noted (SentDelete i) (SentDelete i) (wi_deleteNode W i r)),
      wi_delta = (\<lambda>c n. unnoted (wi_delta W c n))\<rparr>"

text \<open>A log whose every deletion is of a node of \<open>L\<close>, or comes directly after a file was created.\<close>

fun explained :: "string set \<Rightarrow> sent list \<Rightarrow> bool" where
  "explained L [] \<longleftrightarrow> True"
| "explained L (SentDelete i # l) \<longleftrightarrow> (i \<in> L \<or> (\<exists>l'. l = SentCreate True # l')) \<and> explained L l"
| "explained L (SentCreate b # l) \<longleftrightarrow> explained L l"
| "explained L (SentOther # l) \<longleftrightarrow> explained L l"

subsection \<open>Assertions on the log, the policy and the crossings\<close>

definition seen :: "(sent list \<Rightarrow> sync_policy \<Rightarrow> path list \<Rightarrow> bool) \<Rightarrow> ('srv \<times> sent list, 'dev) world \<Rightarrow> bool" where
  "seen Q w \<longleftrightarrow> Q (snd (wd_srv w)) (px_policy (wd_ctx w)) (px_crossed (wd_ctx w))"

definition loggable :: "(sent list \<Rightarrow> sync_policy \<Rightarrow> path list \<Rightarrow> bool) \<Rightarrow> bool" where
  "loggable Q \<longleftrightarrow> (\<forall>l p c b. Q l p c \<longrightarrow> Q (SentCreate b # l) p c \<and> Q (SentOther # l) p c)"

definition onWatch :: "('srv \<times> sent list, 'dev, 'key) engine \<Rightarrow> bool" where
  "onWatch en \<longleftrightarrow> (\<exists>W. en_client en = watched W)"

lemma seen_unnoted: "always (seen Q) (client (unnoted m))"
  by (auto simp: always_def seen_def client_def unnoted_def split: prod.splits)

lemma seen_noted:
  "(\<And>l p c. Q l p c \<Longrightarrow> Q (ok # l) p c \<and> Q (failed # l) p c) \<Longrightarrow> always (seen Q) (client (noted ok failed m))"
  by (auto simp: always_def seen_def client_def noted_def split: prod.splits sum.splits)

lemma seen_reads [io_rules]:
  assumes "onWatch en"
  shows "always (seen Q) (client (wi_listNodes (en_client en)))" "always (seen Q) (client (wi_dedupLookup (en_client en) tags))"
    "always (seen Q) (client (wi_getBlob (en_client en) a))" "always (seen Q) (client (wi_blobKeys (en_client en) as))"
    "always (seen Q) (client (wi_delta (en_client en) cursor n))"
  using assms by (auto simp: onWatch_def watched_def seen_unnoted)

lemma seen_writes [io_rules]:
  assumes "onWatch en" "loggable Q"
  shows "always (seen Q) (client (wi_putBlob (en_client en) b))" "always (seen Q) (client (wi_createNode (en_client en) cb))"
    "always (seen Q) (client (wi_putContent (en_client en) i pb))" "always (seen Q) (client (wi_moveNode (en_client en) i r mb))"
  using assms by (auto simp: onWatch_def loggable_def watched_def intro!: seen_noted)

lemma seen_vault [io_rules]: "always (seen Q) (vault m)"
  by (auto simp: always_def seen_def vault_def split: prod.splits)

lemma seen_ctx [io_rules]: "always (seen Q) (ctx f)"
  by (simp add: always_def ctx_def io_get_def)

lemma seen_draw [io_rules]: "always (seen Q) draw"
  by (simp add: always_def seen_def draw_def)

lemma seen_ctx_mod:
  "(\<And>c. px_policy (f c) = px_policy c \<and> px_crossed (f c) = px_crossed c) \<Longrightarrow> always (seen Q) (ctx_mod f)"
  by (simp add: always_def seen_def ctx_mod_def io_mod_def)

lemma seen_let [io_rules]: "always (seen Q) (f x) \<Longrightarrow> always (seen Q) (Let x f)"
  by simp

lemma seen_put [io_rules]:
  "(\<And>pc. always (seen Q) (f pc)) \<Longrightarrow> (\<And>r. always (seen Q) (g r)) \<Longrightarrow>
   always (seen Q) (case out of Put_Refused pc \<Rightarrow> f pc | Put_Done r \<Rightarrow> g r)"
  by (cases out) simp_all

lemma seen_list [io_rules]:
  "always (seen Q) m \<Longrightarrow> (\<And>x xs. always (seen Q) (f x xs)) \<Longrightarrow> always (seen Q) (case l of [] \<Rightarrow> m | x # xs \<Rightarrow> f x xs)"
  by (cases l) simp_all

lemma seen_notes [io_rules]:
  "always (seen Q) (report_mod g)" "always (seen Q) (set_node p k)" "always (seen Q) (del_node p)"
  "always (seen Q) (handle p)" "always (seen Q) (error_at p e)"
  unfolding error_at_def report_mod_def set_node_def del_node_def handle_def by (rule seen_ctx_mod; simp)+

subsection \<open>Steps that delete nothing\<close>

lemma seen_small [io_rules]:
  "always (seen Q) (scopeKeyFor en sc)" "always (seen Q) (isoNow en)" "always (seen Q) (nameFor en sc n)"
  "always (seen Q) (hintFor en p)" "always (seen Q) (hashAndTag en f sc)" "always (seen Q) (recordServer en p node h)"
  "always (seen Q) (recordRename en p m k node)" "always (seen Q) (relocate en f p)"
  unfolding scopeKeyFor_def isoNow_def nameFor_def hintFor_def hashAndTag_def recordServer_def recordRename_def relocate_def
  by (intro io_rules)+

lemma seen_queueCopy [io_rules]: "always (seen Q) (queueCopy en p n)"
  unfolding queueCopy_def by (intro io_rules seen_ctx_mod) simp

lemma seen_content [io_rules]: "onWatch en \<Longrightarrow> loggable Q \<Longrightarrow> always (seen Q) (content en plain sc)"
  unfolding content_def resolveContent_def by (intro io_rules)

lemma seen_ensureParts [io_rules]: "onWatch en \<Longrightarrow> loggable Q \<Longrightarrow> always (seen Q) (ensureParts en sofar parent parts)"
proof (induction parts arbitrary: sofar parent)
  case Nil
  then show ?case by (simp, intro io_rules)
next
  case (Cons part parts)
  note IH = Cons.IH [OF Cons.prems]
  show ?case unfolding ensureParts.simps by (intro io_rules IH Cons.prems seen_ctx_mod) simp
qed

lemma seen_ensureFolders [io_rules]: "onWatch en \<Longrightarrow> loggable Q \<Longrightarrow> always (seen Q) (ensureFolders en p)"
  unfolding ensureFolders_def by (intro io_rules)

lemma seen_openNode [io_rules]: "onWatch en \<Longrightarrow> always (seen Q) (openNode en node envelopes)"
  unfolding openNode_def by (intro io_rules)

lemma seen_fetchPlain [io_rules]: "onWatch en \<Longrightarrow> always (seen Q) (fetchPlain en node)"
  unfolding fetchPlain_def by (intro io_rules)

lemma seen_resolveConflict [io_rules]: "onWatch en \<Longrightarrow> always (seen Q) (resolveConflict en f node fetched)"
  unfolding resolveConflict_def keepBoth_def by (intro io_rules)

lemma seen_pushEdit [io_rules]: "onWatch en \<Longrightarrow> loggable Q \<Longrightarrow> always (seen Q) (pushEdit en f m known node)"
  unfolding pushEdit_def by (intro io_rules)

lemma seen_applyRemoteRename [io_rules]: "onWatch en \<Longrightarrow> loggable Q \<Longrightarrow> always (seen Q) (applyRemoteRename en f m known node)"
  unfolding applyRemoteRename_def by (intro io_rules)

lemma seen_arrival [io_rules]: "always (seen Q) (arrival_of node)"
  unfolding arrival_of_def by (intro io_rules seen_ctx_mod) simp

lemma seen_pull [io_rules]: "onWatch en \<Longrightarrow> always (seen Q) (pull en nodes)"
  unfolding pull_def pullOne_def by (intro io_rules)

subsection \<open>A file that crosses a boundary\<close>

lemma seen_pushNew [io_rules]: "onWatch en \<Longrightarrow> loggable Q \<Longrightarrow> always (seen Q) (pushNew en f m)"
  unfolding pushNew_def by (intro io_rules seen_ctx_mod; simp)

text \<open>When a new file has been pushed, its creation is the last that was sent.\<close>

definition created :: "(sent list \<Rightarrow> sync_policy \<Rightarrow> path list \<Rightarrow> bool) \<Rightarrow> sent list \<Rightarrow> sync_policy \<Rightarrow> path list \<Rightarrow> bool" where
  "created Q l p c \<longleftrightarrow> Q l p c \<and> (\<exists>l'. l = SentCreate True # l')"

lemma holds_create:
  assumes "onWatch en" "loggable Q" "cb_isFile b"
  shows "holds (seen Q) (client (wi_createNode (en_client en) b)) (\<lambda>_. seen (created Q)) (seen Q)"
  using assms by (auto simp: onWatch_def loggable_def watched_def holds_def seen_def created_def client_def noted_def split: prod.splits sum.splits)

lemma created_seen: "seen (created Q) w \<Longrightarrow> seen Q w"
  by (simp add: seen_def created_def)

lemma holds_pushNew:
  assumes "onWatch en" "loggable Q"
  shows "holds (seen Q) (pushNew en f m) (\<lambda>_. seen (created Q)) (seen Q)"
proof -
  have tail: "holds (seen (created Q)) n (\<lambda>_. seen (created Q)) (seen Q)" if "always (seen (created Q)) n"
    for n :: "('a \<times> sent list, 'b, unit) pass"
    by (rule holds_post [OF always_holds [OF that]]) (auto intro: created_seen)
  show ?thesis unfolding pushNew_def
    apply (rule holds_bind [OF always_holds], rule seen_vault)
    apply (rule holds_bind [OF always_holds], rule seen_ctx)
    apply (rule holds_bind [OF always_holds], rule seen_content [OF assms])
    apply (simp only: split_beta)
    apply (rule holds_bind [OF always_holds], rule seen_ensureFolders [OF assms])
    apply (rule holds_bind [OF always_holds], rule seen_small)
    apply (rule holds_bind [OF holds_create [OF assms]], simp)
    apply (simp only: split_beta)
    apply (rule tail)
    apply (intro io_rules seen_ctx_mod)
    apply simp
    done
qed

lemma holds_pushDelete:
  assumes "onWatch en" "\<And>l p c. created Q l p c \<Longrightarrow> Q (SentDelete (va_nodeId v) # l) p c"
  shows "holds (seen (created Q)) (pushDelete en v) (\<lambda>_. seen Q) (seen Q)"
proof -
  have del: "holds (seen (created Q)) (client (wi_deleteNode (en_client en) (va_nodeId v) r)) (\<lambda>_. seen Q) (seen Q)" for r
    using assms by (auto simp: onWatch_def watched_def holds_def seen_def client_def noted_def split: prod.splits sum.splits)
  have look: "holds (seen (created Q)) (ctx g) (\<lambda>_. seen (created Q)) (seen Q)" for g
    by (rule holds_post [OF always_holds [OF seen_ctx]]) (auto intro: created_seen)
  show ?thesis unfolding pushDelete_def
  proof (rule holds_bind [OF look])
    fix onServer
    show "holds (seen (created Q)) (case onServer of None \<Rightarrow> del_node (va_path v) | Some n \<Rightarrow>
      io_try (io_bind (client (wi_deleteNode (en_client en) (va_nodeId v) (sn_rev n))) (\<lambda>_.
        io_seq (ctx_mod (\<lambda>c. c\<lparr>px_tree := jdel (sn_path n) (px_tree c), px_byNodeId := jdel (va_nodeId v) (px_byNodeId c)\<rparr>))
        (io_seq (del_node (va_path v)) (report_mod (\<lambda>rp. rp\<lparr>rp_deleted := rp_deleted rp @ [va_path v]\<rparr>)))))
      (error_at (va_path v))) (\<lambda>_. seen Q) (seen Q)"
    proof (cases onServer)
      case None
      show ?thesis unfolding None option.case by (rule holds_into_always [OF seen_notes(3)]) (rule created_seen)
    next
      case (Some n)
      show ?thesis unfolding Some option.case
        by (rule holds_try, rule holds_bind [OF del], rule always_holds, intro io_rules seen_ctx_mod, simp,
            rule always_holds, intro io_rules)
    qed
  qed
qed

text \<open>While deletions are not pushed, the assertion the walk carries: what was sent before is explained.\<close>

definition kept :: "string set \<Rightarrow> sent list \<Rightarrow> sync_policy \<Rightarrow> path list \<Rightarrow> bool" where
  "kept L l p c \<longleftrightarrow> explained L l \<and> \<not> pushDeletes p"

lemma kept_loggable [simp]: "loggable (kept L)"
  by (simp add: loggable_def kept_def)

lemma kept_pushMove [io_rules]:
  assumes "onWatch en"
  shows "always (seen (kept L)) (pushMove en f m v)"
proof -
  have cross: "always (seen (kept L)) (io_seq (pushNew en f m) (pushDelete en v))" for m
    unfolding holds_always
    by (rule holds_seq [OF holds_pushNew [OF assms kept_loggable]], rule holds_pushDelete [OF assms])
      (auto simp: kept_def created_def)
  show ?thesis unfolding pushMove_def Let_def
    by (intro io_rules cross assms kept_loggable seen_ctx_mod) (simp add: movedInto_def)
qed

lemma kept_carryOut [io_rules]:
  assumes "onWatch en"
  shows "always (seen (kept L)) (carryOut en f m d)"
  using assms by (cases d) (simp_all, (intro io_rules kept_loggable seen_ctx_mod; simp)+)

lemma kept_reconcileLocal [io_rules]: "onWatch en \<Longrightarrow> always (seen (kept L)) (reconcileLocal en f)"
  unfolding reconcileLocal_def by (intro io_rules)


subsection \<open>Folders\<close>

lemma seen_step:
  "(\<And>l c. Q l (px_policy c) (px_crossed c) \<Longrightarrow> Q l (px_policy (f c)) (px_crossed (f c))) \<Longrightarrow> always (seen Q) (ctx_mod f)"
  by (simp add: always_def seen_def ctx_mod_def io_mod_def)

lemma kept_delete: "onWatch en \<Longrightarrow> i \<in> L \<Longrightarrow> always (seen (kept L)) (client (wi_deleteNode (en_client en) i r))"
  by (auto simp: onWatch_def watched_def kept_def intro!: seen_noted)

lemma held_children:
  "px_policy (foldl (holdChild fr) c cs) = px_policy c \<and> px_crossed (foldl (holdChild fr) c cs) = px_crossed c"
  by (induction cs arbitrary: c) (simp_all add: holdChild_def handleAll_def Let_def)

lemma seen_holdBack [io_rules]: "always (seen Q) (holdBack move)"
  unfolding holdBack_def by (rule seen_ctx_mod) (simp add: holdBackCtx_def handleAll_def Let_def held_children)

lemma seen_stillHere [io_rules]: "always (seen Q) (stillHere en p q)"
  unfolding stillHere_def by (intro io_rules)

lemma seen_holdShareRoots [io_rules]: "always (seen Q) (holdShareRoots en plan here)"
  unfolding holdShareRoots_def holdShareRoot_def Let_def
  by (intro io_rules seen_ctx_mod) (simp add: handleAll_def)

lemma seen_restoreDeletedShareRoots [io_rules]: "always (seen Q) (restoreDeletedShareRoots en plan here)"
  unfolding restoreDeletedShareRoots_def restoreDeletedShareRoot_def Let_def
  by (intro io_rules seen_ctx_mod) simp

text \<open>A move that replaces something replaces a node of \<open>L\<close>.\<close>

definition replacesIn :: "string set \<Rightarrow> folder_move \<Rightarrow> bool" where
  "replacesIn L m \<longleftrightarrow> (case fm_replaces m of None \<Rightarrow> True | Some (i, r) \<Rightarrow> i \<in> L)"

lemma kept_sendMove [io_rules]:
  assumes "onWatch en" "replacesIn L m"
  shows "always (seen (kept L)) (sendMove en files m d)"
  unfolding sendMove_def
  by (intro io_rules kept_delete assms kept_loggable seen_ctx_mod)
    (use assms(2) in \<open>auto simp: replacesIn_def afterMove_def handleAll_def Let_def\<close>)

lemma kept_moveFolder [io_rules]:
  assumes "onWatch en" "replacesIn L m"
  shows "always (seen (kept L)) (moveFolder en files m)"
  unfolding moveFolder_def Let_def
  by (intro io_rules assms seen_step) (simp add: kept_def)





subsection \<open>The end of the walk\<close>

















end
