(* ===== verification/Engine_Behaviours.thy ===== *)
theory Engine_Behaviours
  imports Engine_Props
begin

text \<open>
  What the engine does in six worlds where a step falls short of its own rule, each a run of the model
  on the file system and the server of \<open>Wire_Memory\<close>. They say where the hypotheses of the properties
  are needed, and that they are: no theorem could drop them.
\<close>

subsection \<open>The first file of a new folder inside a share\<close>

fun scopeOfCall :: "wire_call \<Rightarrow> (bool \<times> string) list" where
  "scopeOfCall (Created b) = [(cb_isFile b, nf_name_key_id (cb_name b))]"
| "scopeOfCall _ = []"

definition ex_shared :: server_node where
  "ex_shared = (ex_remote ''S'')\<lparr>sn_nodeId := ''s1'', sn_isFile := False, sn_address := None,
     sn_nameKeyId := Some ''v'', sn_shareId := Some ''share''\<rparr>"

definition ex_share_world :: "(mem_srv, mem_fs) world" where
  "ex_share_world =
     (memWorld (memServer []) (memDevice [(''S/New/a.md'', [7])] emptyState))
       \<lparr>wd_ctx := memContext\<lparr>px_tree := [(''S'', ex_shared)], px_vaultScopeId := ''v'',
          px_shareScopes := [(''share'', ''s'')], px_rootNodeId := ''root''\<rparr>\<rparr>"

lemma pushNew_new_folder_scope:
  "concat (map scopeOfCall (ms_log (wd_srv (snd (pushNew (memEngine asNamed)
      \<lparr>vf_path = ''S/New/a.md'', vf_mtime = 5, vf_size = 1\<rparr> ex_meta_a ex_share_world))))) =
   [(False, ''s''), (True, ''v'')]"
  by code_simp

subsection \<open>A rename onto a file that was not synchronised\<close>

definition ex_swap_world :: "(mem_srv, mem_fs) world" where
  "ex_swap_world =
     (memWorld (memServer []) (memDevice [(''a.md'', [7]), (''b.md'', [8])] emptyState))
       \<lparr>wd_ctx := memContext\<lparr>px_tree := [(''b.md'', ex_remote ''b.md'')], px_byNodeId := [(''n'', ex_remote ''b.md'')],
          px_state := emptyState\<lparr>vs_nodes := [(''a.md'', ex_known_n)]\<rparr>,
          px_meta := [(''a.md'', ex_meta_a), (''b.md'', ex_meta_a\<lparr>lm_plainHash := memHash [8]\<rparr>)],
          px_queue := [ex_file, ex_file\<lparr>vf_path := ''b.md''\<rparr>]\<rparr>\<rparr>"

lemma rename_onto_unsynced:
  "mf_files (wd_dev ex_swap_world) = [(''a.md'', ''a.md'', [7], 5), (''b.md'', ''b.md'', [8], 5)] \<and>
   fst (drain (memEngine asNamed) 3 ex_swap_world) = Inr () \<and>
   mf_files (wd_dev (snd (drain (memEngine asNamed) 3 ex_swap_world))) = [(''b.md'', ''b.md'', [7], 7)]"
  by code_simp

subsection \<open>A second conflict of one note on one day\<close>

lemma second_conflict_same_name:
  "let once = snd (resolveConflict (memEngine asNamed) ex_file (ex_remote ''a.md'') (Some [9]) ex_world);
       edited = once\<lparr>wd_dev := snd (mem_write asNamed ''a.md'' [8] (wd_dev once))\<rparr>;
       twice = snd (resolveConflict (memEngine asNamed) ex_file (ex_remote ''a.md'') (Some [10]) edited)
   in map (\<lambda>(k, p, b, t). b) (mf_files (wd_dev once)) = [[9], [7]] \<and>
      map (\<lambda>(k, p, b, t). b) (mf_files (wd_dev twice)) = [[10], [8]]"
  by code_simp

end
