(* ===== verification/Human_Code.thy ===== *)
theory Human_Code
  imports Sealing
begin

text \<open>
  The code a person carries (\<open>plugin/src/crypto/human-code.ts\<close>): Crockford base32 by a bit buffer kept in
  a 32-bit integer that wraps around, the grouping for reading aloud, and what both devices agree the
  code is. The main lemma: the characters are the base-32 digits of the number the bytes spell, however
  often the buffer overflowed.
\<close>

unbundle bit_operations_syntax

definition ALPHABET :: string where
  "ALPHABET = ''0123456789ABCDEFGHJKMNPQRSTVWXYZ''"

definition SECRET_BYTES :: nat where "SECRET_BYTES = 16"

text \<open>The inner loop: the buffered bits by fives, from the top.\<close>

function emit :: "nat \<Rightarrow> 32 word \<Rightarrow> string \<Rightarrow> nat \<times> string" where
  "emit bits v out =
     (if 5 \<le> bits then emit (bits - 5) v (out @ [ALPHABET ! unat (drop_bit (bits - 5) v AND 31)])
      else (bits, out))"
  by auto
termination by (relation "measure (\<lambda>(bits, v, out). bits)") auto

declare emit.simps [simp del]

fun encodeFrom :: "bytes \<Rightarrow> nat \<Rightarrow> 32 word \<Rightarrow> string \<Rightarrow> string" where
  "encodeFrom [] bits v out =
     (if 0 < bits then out @ [ALPHABET ! unat (push_bit (5 - bits) v AND 31)] else out)"
| "encodeFrom (b # bs) bits v out =
     (let v' = push_bit 8 v OR ucast b;
          r = emit (bits + 8) v' out
      in encodeFrom bs (fst r) v' (snd r))"

definition encodeCode :: "bytes \<Rightarrow> string" where
  "encodeCode b = encodeFrom b 0 0 []"

text \<open>\<open>raw.match(/.{1,4}/g)\<close>.\<close>

function groupsOf4 :: "string \<Rightarrow> string list" where
  "groupsOf4 s = (if s = [] then [] else take 4 s # groupsOf4 (drop 4 s))"
  by auto
termination by (relation "measure length") auto

declare groupsOf4.simps [simp del]

definition newHumanCode :: "primitives \<Rightarrow> nat \<Rightarrow> string + string" where
  "newHumanCode pm n =
     bind_r (randomBytes (pm_rng pm ''human code'' n) SECRET_BYTES) (\<lambda>b. Inr (joinWith ''-'' (groupsOf4 (encodeCode b))))"

definition toUpper :: "char \<Rightarrow> char" where
  "toUpper c = (let n = of_char c in if 97 \<le> n \<and> n \<le> (122 :: nat) then char_of (n - 32) else c)"

definition readAs :: "char \<Rightarrow> char" where
  "readAs c = (if c = CHR ''I'' \<or> c = CHR ''L'' then CHR ''1'' else if c = CHR ''O'' then CHR ''0''
               else if c = CHR ''U'' then CHR ''V'' else c)"

definition normaliseHumanCode :: "string \<Rightarrow> string" where
  "normaliseHumanCode typed = map readAs (filter (\<lambda>c. \<not> jsSpace c \<and> c \<noteq> CHR ''-'') (map toUpper typed))"

subsection \<open>The number a code spells\<close>

definition digitOf :: "char \<Rightarrow> nat" where
  "digitOf c = (case indexOf c ALPHABET of None \<Rightarrow> 0 | Some i \<Rightarrow> i)"

definition spelled :: "string \<Rightarrow> nat" where
  "spelled s = foldl (\<lambda>a c. 32 * a + digitOf c) 0 s"

definition bytesNumber :: "bytes \<Rightarrow> nat" where
  "bytesNumber b = foldl (\<lambda>a x. 256 * a + unat x) 0 b"

lemma alphabet_digit: "n < 32 \<Longrightarrow> digitOf (ALPHABET ! n) = n \<and> ALPHABET ! n \<in> set ALPHABET"
proof -
  have "list_all (\<lambda>n. digitOf (ALPHABET ! n) = n) [0..<32]" by code_simp
  moreover have "length ALPHABET = 32" by (simp add: ALPHABET_def)
  ultimately show "n < 32 \<Longrightarrow> digitOf (ALPHABET ! n) = n \<and> ALPHABET ! n \<in> set ALPHABET"
    by (simp add: list_all_iff)
qed

lemma low_five: "unat (x AND 31 :: 32 word) = unat x mod 32"
proof -
  have "x AND 31 = take_bit 5 x" by (simp add: take_bit_eq_mask mask_numeral)
  then have "unat (x AND 31) = take_bit 5 (unat x)" by (simp only: unsigned_take_bit_eq)
  then show ?thesis by (simp add: take_bit_eq_mod)
qed

lemma buffered_digit:
  assumes "k + 5 \<le> 32"
  shows "unat (drop_bit k (of_nat N :: 32 word) AND 31) = N div 2 ^ k mod 32"
proof -
  have "take_bit 5 (drop_bit k (take_bit 32 N)) = take_bit 5 (drop_bit k N)"
    using assms by (simp add: drop_bit_take_bit min_def) linarith
  moreover have "unat (drop_bit k (of_nat N :: 32 word)) = drop_bit k (take_bit 32 N)"
    by (simp only: unsigned_drop_bit_eq unsigned_of_nat) simp
  ultimately show ?thesis
    unfolding low_five by (simp add: take_bit_eq_mod drop_bit_eq_div)
qed

lemma last_digit:
  assumes "k \<le> 5"
  shows "unat (push_bit k (of_nat N :: 32 word) AND 31) = N * 2 ^ k mod 32"
proof -
  have "push_bit k (of_nat N :: 32 word) = of_nat (N * 2 ^ k)" by (simp add: push_bit_eq_mult)
  then have "unat (push_bit k (of_nat N :: 32 word)) = N * 2 ^ k mod 2 ^ 32"
    by (simp only: unat_of_nat) (simp add: take_bit_eq_mod)
  moreover have "N * 2 ^ k mod 2 ^ 32 mod 32 = N * 2 ^ k mod (32 :: nat)" by (rule mod_mod_cancel) simp
  ultimately show ?thesis by (simp add: low_five)
qed

lemma buffered_byte: "push_bit 8 (of_nat N :: 32 word) OR ucast (b :: 8 word) = of_nat (256 * N + unat b)"
proof -
  have "push_bit 8 (of_nat N :: 32 word) AND ucast b = 0"
    by (rule bit_word_eqI) (auto simp: bit_simps dest: bit_imp_le_length)
  then have "push_bit 8 (of_nat N :: 32 word) OR ucast b = push_bit 8 (of_nat N) + ucast b"
    by (rule disjunctive_add_eq_or [symmetric])
  moreover have "of_nat (unat b) = (ucast b :: 32 word)" by (simp only: of_nat_unat)
  ultimately show ?thesis by (simp add: push_bit_eq_mult)
qed

lemma spelled_snoc: "spelled (s @ [c]) = 32 * spelled s + digitOf c"
  by (simp add: spelled_def)

lemma div_pow_step: "N div 2 ^ bits * 32 + N div 2 ^ (bits - 5) mod 32 = N div (2 :: nat) ^ (bits - 5)" if "5 \<le> bits"
proof -
  have "(2 :: nat) ^ bits = 2 ^ (bits - 5) * 32"
    using that power_add [of "2 :: nat" "bits - 5" 5] by simp
  then have "N div 2 ^ bits = N div 2 ^ (bits - 5) div 32" by (simp add: div_mult2_eq)
  then show ?thesis by simp
qed

lemma emit_spells:
  assumes "bits \<le> 12" "spelled out = N div 2 ^ bits" "set out \<subseteq> set ALPHABET"
  shows "fst (emit bits (of_nat N) out) = bits mod 5 \<and>
    spelled (snd (emit bits (of_nat N) out)) = N div 2 ^ (bits mod 5) \<and>
    length (snd (emit bits (of_nat N) out)) = length out + bits div 5 \<and>
    set (snd (emit bits (of_nat N) out)) \<subseteq> set ALPHABET"
  using assms
proof (induction bits "of_nat N :: 32 word" out rule: emit.induct)
  case (1 bits out)
  show ?case
  proof (cases "5 \<le> bits")
    case True
    let ?d = "N div 2 ^ (bits - 5) mod 32"
    have d: "unat (drop_bit (bits - 5) (of_nat N :: 32 word) AND 31) = ?d"
      using buffered_digit [of "bits - 5" N] 1(2) True by simp
    have dig: "digitOf (ALPHABET ! ?d) = ?d" "ALPHABET ! ?d \<in> set ALPHABET" using alphabet_digit [of ?d] by simp_all
    have "spelled (out @ [ALPHABET ! ?d]) = N div 2 ^ (bits - 5)"
      using div_pow_step [OF True, of N] 1(3) by (simp add: spelled_snoc dig mult.commute)
    moreover have "bits - 5 \<le> 12" using 1(2) by simp
    ultimately have IH: "fst (emit (bits - 5) (of_nat N) (out @ [ALPHABET ! ?d])) = (bits - 5) mod 5 \<and>
        spelled (snd (emit (bits - 5) (of_nat N) (out @ [ALPHABET ! ?d]))) = N div 2 ^ ((bits - 5) mod 5) \<and>
        length (snd (emit (bits - 5) (of_nat N) (out @ [ALPHABET ! ?d]))) = length out + 1 + (bits - 5) div 5 \<and>
        set (snd (emit (bits - 5) (of_nat N) (out @ [ALPHABET ! ?d]))) \<subseteq> set ALPHABET"
      using 1(1) [OF True] 1(4) d dig by simp
    have step: "emit bits (of_nat N) out = emit (bits - 5) (of_nat N) (out @ [ALPHABET ! ?d])"
      using True d by (subst emit.simps) simp
    have "(bits - 5) mod 5 = bits mod 5" "(bits - 5) div 5 + 1 = bits div 5"
      using True by (simp_all add: le_mod_geq le_div_geq)
    with IH show ?thesis unfolding step by simp
  next
    case False
    with 1 show ?thesis by (subst (1 2 3 4) emit.simps) simp
  qed
qed

lemma encodeFrom_spells:
  assumes "bits < 5" "spelled out = N div 2 ^ bits" "set out \<subseteq> set ALPHABET"
  shows "spelled (encodeFrom bs bits (of_nat N) out) =
      foldl (\<lambda>a x. 256 * a + unat x) N bs * 2 ^ ((5 - (bits + 8 * length bs) mod 5) mod 5) \<and>
    length (encodeFrom bs bits (of_nat N) out) = length out + (bits + 8 * length bs + 4) div 5 \<and>
    set (encodeFrom bs bits (of_nat N) out) \<subseteq> set ALPHABET"
  using assms
proof (induction bs arbitrary: bits N out)
  case Nil
  show ?case
  proof (cases "bits = 0")
    case True
    with Nil show ?thesis by simp
  next
    case False
    let ?d = "N * 2 ^ (5 - bits) mod 32"
    have d: "unat (push_bit (5 - bits) (of_nat N :: 32 word) AND 31) = ?d" by (rule last_digit) simp
    have dig: "digitOf (ALPHABET ! ?d) = ?d" "ALPHABET ! ?d \<in> set ALPHABET" using alphabet_digit [of ?d] by simp_all
    have "(2 :: nat) ^ bits * 2 ^ (5 - bits) = 32" using Nil(1) by (simp flip: power_add)
    then have "N * 2 ^ (5 - bits) div 32 = N div 2 ^ bits"
      using div_mult_mult2 [of "2 ^ (5 - bits) :: nat" N "2 ^ bits"] by simp
    then have "N div 2 ^ bits * 32 + ?d = N * 2 ^ (5 - bits)"
      using div_mult_mod_eq [of "N * 2 ^ (5 - bits)" 32] by simp
    then have "spelled (out @ [ALPHABET ! ?d]) = N * 2 ^ (5 - bits)"
      using Nil(2) by (simp add: spelled_snoc dig mult.commute)
    moreover have "(bits + 4) div 5 = 1" "(5 - bits mod 5) mod 5 = 5 - bits" using False Nil(1) by simp_all
    ultimately show ?thesis using False d dig Nil(3) by simp
  qed
next
  case (Cons b bs)
  let ?M = "256 * N + unat b"
  let ?e = "emit (bits + 8) (of_nat ?M) out"
  have "?M div 2 ^ (bits + 8) = N div 2 ^ bits"
  proof -
    have "?M div 2 ^ (bits + 8) = ?M div 256 div 2 ^ bits" by (simp add: power_add div_mult2_eq mult.commute [of "2 ^ bits"])
    also have "?M div 256 = N" using unat_byte [of b] by simp
    finally show ?thesis .
  qed
  with emit_spells [of "bits + 8" out ?M] Cons.prems
  have E: "fst ?e = (bits + 8) mod 5" "spelled (snd ?e) = ?M div 2 ^ ((bits + 8) mod 5)"
    "length (snd ?e) = length out + (bits + 8) div 5" "set (snd ?e) \<subseteq> set ALPHABET"
    by auto
  have unf: "encodeFrom (b # bs) bits (of_nat N) out = encodeFrom bs ((bits + 8) mod 5) (of_nat ?M) (snd ?e)"
    by (simp only: encodeFrom.simps Let_def buffered_byte E(1))
  define q r where "q = (bits + 8) div 5" and "r = (bits + 8) mod 5"
  have r: "bits + 8 = q * 5 + r" "r < 5" unfolding q_def r_def by simp_all
  have m: "(bits + 8 * length (b # bs)) mod 5 = (r + 8 * length bs) mod 5"
  proof -
    have "bits + 8 * length (b # bs) = (r + 8 * length bs) + q * 5" using r(1) by simp
    then show ?thesis by (simp only: mod_mult_self1)
  qed
  have l: "(bits + 8 * length (b # bs) + 4) div 5 = q + (r + 8 * length bs + 4) div 5"
  proof -
    have "bits + 8 * length (b # bs) + 4 = (r + 8 * length bs + 4) + q * 5" using r(1) by simp
    then show ?thesis by simp
  qed
  note IH = Cons.IH [OF r(2) E(2) [folded r_def] E(4)]
  show ?case
    unfolding unf m l foldl_Cons r_def [symmetric]
    using IH E(3) [folded q_def] by (simp only: conj_assoc) (simp only: add.assoc simp_thms)
qed

lemma foldl_number: "foldl (\<lambda>a x. 256 * a + unat (x :: 8 word)) N bs = N * 256 ^ length bs + bytesNumber bs"
proof (induction bs arbitrary: N)
  case Nil
  then show ?case by (simp add: bytesNumber_def)
next
  case (Cons b bs)
  show ?case
    using Cons [of "256 * N + unat b"] Cons [of "unat b"] by (simp add: bytesNumber_def algebra_simps)
qed

lemma bytesNumber_Cons: "bytesNumber (b # bs) = unat b * 256 ^ length bs + bytesNumber bs"
  using foldl_number [of "unat b" bs] by (simp add: bytesNumber_def)

lemma bytesNumber_less: "bytesNumber bs < 256 ^ length bs"
proof (induction bs)
  case Nil
  then show ?case by (simp add: bytesNumber_def)
next
  case (Cons b bs)
  have "unat b * 256 ^ length bs + bytesNumber bs < (unat b + 1) * 256 ^ length bs"
    using Cons by simp
  also have "\<dots> \<le> 256 * 256 ^ length bs" using unat_byte [of b] by (intro mult_right_mono) auto
  finally show ?case by (simp add: bytesNumber_Cons)
qed

lemma bytesNumber_inj: "length a = length b \<Longrightarrow> bytesNumber a = bytesNumber b \<Longrightarrow> a = b"
proof (induction a b rule: list_induct2)
  case Nil
  then show ?case by simp
next
  case (Cons x xs y ys)
  let ?k = "256 ^ length ys :: nat"
  have k: "bytesNumber xs < ?k" "bytesNumber ys < ?k" using bytesNumber_less [of xs] bytesNumber_less [of ys] Cons by simp_all
  have eq: "unat x * ?k + bytesNumber xs = unat y * ?k + bytesNumber ys"
    using Cons.prems Cons.hyps by (simp add: bytesNumber_Cons)
  from arg_cong [OF eq, of "\<lambda>n. n div ?k"] k have "unat x = unat y" by simp
  moreover from this eq have "bytesNumber xs = bytesNumber ys" by simp
  ultimately show ?case using Cons.IH by (auto intro: unsigned_word_eqI)
qed

subsection \<open>Reading a code back\<close>

lemma groupsOf4_Nil: "groupsOf4 s = [] \<longleftrightarrow> s = []"
  by (subst groupsOf4.simps) simp

lemma joinWith_Cons: "joinWith sep (x # xs) = (if xs = [] then x else x @ sep @ joinWith sep xs)"
  by (cases xs) simp_all

lemma groupsOf4_join: "filter (\<lambda>c. c \<noteq> CHR ''-'') (joinWith ''-'' (groupsOf4 s)) = filter (\<lambda>c. c \<noteq> CHR ''-'') s"
proof (induction s rule: groupsOf4.induct)
  case (1 s)
  show ?case
  proof (cases "s = []")
    case True
    then show ?thesis by (simp add: groupsOf4.simps [of "[]"])
  next
    case False
    let ?f = "filter (\<lambda>c. c \<noteq> CHR ''-'')"
    have split: "?f s = ?f (take 4 s) @ ?f (drop 4 s)" by (simp flip: filter_append)
    have "joinWith ''-'' (groupsOf4 s) =
        (if drop 4 s = [] then take 4 s else take 4 s @ ''-'' @ joinWith ''-'' (groupsOf4 (drop 4 s)))"
      using False by (subst groupsOf4.simps) (simp add: joinWith_Cons groupsOf4_Nil)
    then show ?thesis using 1 [OF False] split by (cases "drop 4 s = []") simp_all
  qed
qed

lemma alphabet_plain:
  assumes "c \<in> set ALPHABET"
  shows "toUpper c = c" "\<not> jsSpace c" "c \<noteq> CHR ''-''" "readAs c = c"
proof -
  have "list_all (\<lambda>c. toUpper c = c \<and> \<not> jsSpace c \<and> c \<noteq> CHR ''-'' \<and> readAs c = c) ALPHABET" by code_simp
  with assms show "toUpper c = c" "\<not> jsSpace c" "c \<noteq> CHR ''-''" "readAs c = c" by (auto simp: list_all_iff)
qed

lemma normalise_filter:
  "normaliseHumanCode s = map readAs (filter (\<lambda>c. \<not> jsSpace c) (map toUpper (filter (\<lambda>c. toUpper c \<noteq> CHR ''-'') s)))"
  by (induction s) (auto simp: normaliseHumanCode_def)

lemma toUpper_dash: "toUpper c = CHR ''-'' \<longleftrightarrow> c = CHR ''-''"
proof
  assume dash: "toUpper c = CHR ''-''"
  show "c = CHR ''-''"
  proof (cases "97 \<le> (of_char c :: nat) \<and> (of_char c :: nat) \<le> 122")
    case True
    then have "toUpper c = char_of (of_char c - 32 :: nat)" by (simp add: toUpper_def Let_def)
    with dash have "of_char (char_of (of_char c - 32 :: nat) :: char) = (45 :: nat)" by simp
    moreover have "of_char (char_of (of_char c - 32 :: nat) :: char) = (of_char c - 32) mod (256 :: nat)" by simp
    ultimately show ?thesis using True mod_less [of "of_char c - 32" 256] by linarith
  next
    case False
    with dash show ?thesis by (simp add: toUpper_def Let_def)
  qed
qed (simp add: toUpper_def)

lemma normalise_shown:
  assumes "set s \<subseteq> set ALPHABET"
  shows "normaliseHumanCode (joinWith ''-'' (groupsOf4 s)) = s"
proof -
  note P = alphabet_plain
  have "filter (\<lambda>c. c \<noteq> CHR ''-'') s = s" using assms P by (auto simp: filter_id_conv)
  moreover have "map toUpper s = s" "filter (\<lambda>c. \<not> jsSpace c) s = s" "map readAs s = s"
    using assms P by (auto simp: filter_id_conv intro!: map_idI)
  ultimately show ?thesis by (simp add: normalise_filter toUpper_dash groupsOf4_join)
qed

subsection \<open>Properties\<close>

lemma encodeCode_spells:
  "spelled (encodeCode b) = bytesNumber b * 2 ^ ((5 - 8 * length b mod 5) mod 5) \<and>
   length (encodeCode b) = (8 * length b + 4) div 5 \<and> set (encodeCode b) \<subseteq> set ALPHABET"
  using encodeFrom_spells [of 0 "[]" 0 b] by (simp add: encodeCode_def bytesNumber_def spelled_def)

text \<open>The code spells its bytes: read in base 32, the characters of the encoder are the number the bytes
  are, shifted to a whole number of characters, and all of them are in the alphabet, although the
  32-bit buffer of the encoder has overflowed long before the end.\<close>

theorem encodeCode_base32:
  "spelled (encodeCode b) = bytesNumber b * 2 ^ ((5 - 8 * length b mod 5) mod 5) \<and>
   length (encodeCode b) = (8 * length b + 4) div 5 \<and> set (encodeCode b) \<subseteq> set ALPHABET"
  by (rule encodeCode_spells)

text \<open>No two secrets share a code: the encoding of secrets of one length is injective, so the 128 bits of
  the secret survive in the 26 characters.\<close>

theorem encodeCode_injective:
  assumes "length a = length b" "encodeCode a = encodeCode b"
  shows "a = b"
  using assms encodeCode_spells [of a] encodeCode_spells [of b] bytesNumber_inj [of a b] by simp

text \<open>What is shown is what is hashed: the code in groups of four, typed with its dashes or not, normalises
  to the very characters of the encoder, 26 of them.\<close>

theorem newHumanCode_normalises:
  assumes "primitives_ok pm"
  shows "\<exists>b shown. length b = SECRET_BYTES \<and> newHumanCode pm n = Inr shown \<and>
    normaliseHumanCode shown = encodeCode b \<and> length (encodeCode b) = 26"
proof -
  obtain b where "randomBytes (pm_rng pm ''human code'' n) 16 = Inr b" "length b = 16"
    using primitives_okD(3) [OF assms, of "''human code''" n 16] by auto
  then show ?thesis
    using encodeCode_spells [of b] normalise_shown [of "encodeCode b"]
    by (intro exI [of _ b]) (simp add: newHumanCode_def SECRET_BYTES_def)
qed

theorem encodeCode_injective_witness: "encodeCode [255, 1] \<noteq> encodeCode [255, 2]"
  using encodeCode_injective [of "[255, 1]" "[255, 2]"] by auto

theorem newHumanCode_normalises_witness:
  "\<exists>shown. newHumanCode clearPrimitives 0 = Inr shown \<and> length (normaliseHumanCode shown) = 26"
  using newHumanCode_normalises [OF clearPrimitives_ok, of 0] by auto

end
