(* ===== verification/Vault_Crypto.thy ===== *)
theory Vault_Crypto
  imports Wire_Memory
begin

text \<open>
  The engine's cryptography from the sealing formats: the contract the engine relies on (what is sealed
  opens, what is wrapped unwraps) as a locale, its interpretation on the functions of \<open>Sealing\<close>, and what
  it gives the engine: the bytes a device uploads are the bytes another one opens.
\<close>

locale sealing =
  fixes cr :: "'key crypto"
  assumes blob_law: "cr_openBlob cr (sb_contentKey (cr_sealBlob cr n plain)) (sb_bytes (cr_sealBlob cr n plain)) = Inr plain"
    and wrap_law: "cr_unwrapContentKey cr key (cr_wrapContentKey cr n key contentKey) = Inr contentKey"
begin

text \<open>What \<open>content\<close> hands the write when it uploads: one envelope and one tag, both under the scope, and the
  address of the blob it put.\<close>

lemma content_uploaded:
  assumes "en_crypto en = cr" "content en plain scopeId w = (Inr (address, mat), w')" "ma_blob_envelopes mat \<noteq> []"
  shows "\<exists>key n m s. keyIfOpenable (en_scopes en) (Some scopeId) = Some key \<and>
    wi_putBlob (en_client en) (cr_sealBlob cr n plain) (wd_srv w) = (Inr (), s) \<and> wd_srv w' = s \<and>
    address = sb_sha256 (cr_sealBlob cr n plain) \<and>
    ma_blob_envelopes mat = [\<lparr>be_sha256 = address, be_scope_id = scopeId,
      be_wrapped_key = cr_wrapContentKey cr m key (sb_contentKey (cr_sealBlob cr n plain))\<rparr>] \<and>
    ma_dedup_tags mat = [\<lparr>dt_sha256 = address, dt_scope_id = scopeId,
      dt_content_tag = cr_dedupTagFromHash cr key (cr_plainHash cr plain)\<rparr>]"
  using assms
  by (fastforce simp: content_def resolveContent_def scopeKeyFor_def keyFor_def io_bind_def io_seq_def io_lift_def io_ret_def
      ctx_def io_get_def draw_def client_def Let_def split: option.splits sum.splits prod.splits if_splits)

lemma openNode_reads:
  assumes "en_crypto en = cr" "sn_address node = Some address" "sn_nameKeyId node = Some scopeId"
    "keyIfOpenable (en_scopes en) (Some scopeId) = Some key"
    "Option.bind (jget envelopes address) (find (\<lambda>e. ev_scopeId e = scopeId)) =
       Some \<lparr>ev_scopeId = scopeId, ev_wrappedKey = cr_wrapContentKey cr m key (sb_contentKey (cr_sealBlob cr n plain))\<rparr>"
    "wi_getBlob (en_client en) address (wd_srv w) = (Inr (Some (sb_bytes (cr_sealBlob cr n plain))), s)"
  shows "openNode en node envelopes w = (Inr plain, w\<lparr>wd_srv := s\<rparr>)"
  using assms
  by (simp add: openNode_def ctx_def io_bind_def io_get_def client_def scopeKeyFor_def io_lift_def keyFor_def
      asserted_def wrap_law blob_law)

end

subsection \<open>The engine's cryptography\<close>

definition vaultCrypto :: "primitives \<Rightarrow> bytes crypto" where
  "vaultCrypto pm =
     \<lparr>cr_plainHash = (\<lambda>b. toHex (pm_sha256 pm b)),
      cr_dedupTagFromHash = (\<lambda>k h. case dedupTagFromHash pm k h of Inl e \<Rightarrow> e | Inr tag \<Rightarrow> tag),
      cr_nameUnder = (\<lambda>n k scope name. projr (Sealing.nameUnder pm n k scope name)),
      cr_sealBlob = (\<lambda>n b. projr (sealBlob pm n b)),
      cr_wrapContentKey = (\<lambda>n k ck. projr (wrapContentKey pm n k ck)),
      cr_unwrapContentKey = unwrapContentKey pm,
      cr_openBlob = openBlob pm,
      cr_decryptName = (\<lambda>k enc. case decryptName pm k enc of Inl e \<Rightarrow> None | Inr name \<Rightarrow> Some name)\<rparr>"

lemma vaultCrypto_sealing:
  assumes "primitives_ok pm"
  shows "sealing (vaultCrypto pm)"
proof
  fix n plain
  from sealBlob_open [OF assms, of n plain]
  show "cr_openBlob (vaultCrypto pm) (sb_contentKey (cr_sealBlob (vaultCrypto pm) n plain)) (sb_bytes (cr_sealBlob (vaultCrypto pm) n plain)) = Inr plain"
    by (auto simp: vaultCrypto_def)
next
  fix key n contentKey
  from seal_open [OF assms, of n key contentKey]
  show "cr_unwrapContentKey (vaultCrypto pm) key (cr_wrapContentKey (vaultCrypto pm) n key contentKey) = Inr contentKey"
    by (auto simp: vaultCrypto_def wrapContentKey_def unwrapContentKey_def)
qed

interpretation clear: sealing "vaultCrypto clearPrimitives"
  by (rule vaultCrypto_sealing) (rule clearPrimitives_ok)

subsection \<open>Property\<close>

text \<open>C18. What one device uploads another opens: when \<open>content\<close> uploaded a file's bytes under a scope, then any
  device that holds the scope's key, is given the envelope of that write and is served the uploaded blob
  at its address opens exactly these bytes; and the write named the scope and the address throughout.\<close>

theorem upload_then_open:
  assumes "primitives_ok pm" "en_crypto en = vaultCrypto pm" "en_crypto en' = vaultCrypto pm"
    "content en plain scopeId w = (Inr (address, mat), w')" "ma_blob_envelopes mat \<noteq> []"
    "keyIfOpenable (en_scopes en') (Some scopeId) = keyIfOpenable (en_scopes en) (Some scopeId)"
    "sn_address node = Some address" "sn_nameKeyId node = Some scopeId"
    "Option.bind (jget envelopes address) (find (\<lambda>e. ev_scopeId e = scopeId)) =
       Some \<lparr>ev_scopeId = scopeId, ev_wrappedKey = be_wrapped_key (hd (ma_blob_envelopes mat))\<rparr>"
    "\<And>n s. wi_putBlob (en_client en) (cr_sealBlob (vaultCrypto pm) n plain) (wd_srv w) = (Inr (), s) \<Longrightarrow>
       sb_sha256 (cr_sealBlob (vaultCrypto pm) n plain) = address \<Longrightarrow>
       wi_getBlob (en_client en') address (wd_srv v) =
         (Inr (Some (sb_bytes (cr_sealBlob (vaultCrypto pm) n plain))), wd_srv v)"
  shows "fst (openNode en' node envelopes v) = Inr plain \<and>
    map be_scope_id (ma_blob_envelopes mat) = [scopeId] \<and> map be_sha256 (ma_blob_envelopes mat) = [address] \<and>
    map dt_scope_id (ma_dedup_tags mat) = [scopeId] \<and> map dt_sha256 (ma_dedup_tags mat) = [address]"
proof -
  note S = vaultCrypto_sealing [OF assms(1)]
  from sealing.content_uploaded [OF S assms(2,4,5)] obtain key n m s where
    key: "keyIfOpenable (en_scopes en) (Some scopeId) = Some key"
    and put: "wi_putBlob (en_client en) (cr_sealBlob (vaultCrypto pm) n plain) (wd_srv w) = (Inr (), s)"
    and address: "address = sb_sha256 (cr_sealBlob (vaultCrypto pm) n plain)"
    and mat: "ma_blob_envelopes mat = [\<lparr>be_sha256 = address, be_scope_id = scopeId,
      be_wrapped_key = cr_wrapContentKey (vaultCrypto pm) m key (sb_contentKey (cr_sealBlob (vaultCrypto pm) n plain))\<rparr>]"
      "ma_dedup_tags mat = [\<lparr>dt_sha256 = address, dt_scope_id = scopeId,
      dt_content_tag = cr_dedupTagFromHash (vaultCrypto pm) key (cr_plainHash (vaultCrypto pm) plain)\<rparr>]"
    by blast
  from assms(10) [OF put] address
  have get: "wi_getBlob (en_client en') address (wd_srv v) = (Inr (Some (sb_bytes (cr_sealBlob (vaultCrypto pm) n plain))), wd_srv v)"
    by simp
  have "keyIfOpenable (en_scopes en') (Some scopeId) = Some key" using key assms(6) by simp
  from sealing.openNode_reads [OF S assms(3,7,8) this _ get, of envelopes m] assms(9)
  show ?thesis by (simp add: mat)
qed

subsection \<open>A worked upload\<close>

definition ex_sealer :: "(mem_srv, mem_fs, bytes) engine" where
  "ex_sealer =
     \<lparr>en_client = memWire,
      en_scopes = \<lparr>sc_root_node_id = ''root'', sc_scopes = [], sc_vaultKey = [1], sc_vaultScopeId = ''v'',
                   sc_shareKeys = [], sc_unopenable = []\<rparr>,
      en_vault = memAdapter asNamed, en_crypto = vaultCrypto clearPrimitives, en_deviceLabel = ''pc'',
      en_syncObsidian = False, en_now = (\<lambda>n. 0), en_iso = (\<lambda>t. [])\<rparr>"

definition ex_blob :: sealed_blob where
  "ex_blob = cr_sealBlob (vaultCrypto clearPrimitives) 0 [5, 6]"

definition ex_written :: material where
  "ex_written =
     \<lparr>ma_blob_envelopes = [\<lparr>be_sha256 = sb_sha256 ex_blob, be_scope_id = ''v'',
        be_wrapped_key = cr_wrapContentKey (vaultCrypto clearPrimitives) 1 [1] (sb_contentKey ex_blob)\<rparr>],
      ma_dedup_tags = [\<lparr>dt_sha256 = sb_sha256 ex_blob, dt_scope_id = ''v'',
        dt_content_tag = cr_dedupTagFromHash (vaultCrypto clearPrimitives) [1] (cr_plainHash (vaultCrypto clearPrimitives) [5, 6])\<rparr>]\<rparr>"

definition ex_reader :: "(mem_srv, mem_fs) world" where
  "ex_reader = memWorld ((memServer [])\<lparr>ms_blobs := [(sb_sha256 ex_blob, sb_bytes ex_blob)]\<rparr>) (memDevice [] emptyState)"

lemma ex_blob_any: "cr_sealBlob (vaultCrypto clearPrimitives) n [5, 6] = ex_blob"
  by (simp add: ex_blob_def vaultCrypto_def sealBlob_def clearPrimitives_def randomBytes_def)

lemma ex_content:
  "content ex_sealer [5, 6] ''v'' (memWorld (memServer []) (memDevice [] emptyState)) =
     (Inr (sb_sha256 ex_blob, ex_written), (memWorld ((memServer [])\<lparr>ms_log := [Uploaded (sb_sha256 ex_blob)]\<rparr>)
        (memDevice [] emptyState))\<lparr>wd_draws := 2\<rparr>)"
  by (simp add: content_def scopeKeyFor_def keyFor_def keyIfOpenable_def ex_sealer_def io_bind_def io_lift_def ctx_def
      io_get_def memWorld_def memContext_def resolveContent_def Let_def truthy_def draw_def io_seq_def client_def memWire_def
      io_mod_def logged_def io_ret_def memServer_def ex_blob_any ex_written_def)

theorem upload_then_open_witness:
  "fst (openNode ex_sealer (folderNode ''n'' ''root'' ''a.md'' 1 ''v''\<lparr>sn_isFile := True, sn_address := Some (sb_sha256 ex_blob)\<rparr>)
     [(sb_sha256 ex_blob, [\<lparr>ev_scopeId = ''v'', ev_wrappedKey = be_wrapped_key (hd (ma_blob_envelopes ex_written))\<rparr>])] ex_reader)
   = Inr [5, 6]"
  by (rule upload_then_open [OF clearPrimitives_ok _ _ ex_content, THEN conjunct1])
    (simp_all add: ex_sealer_def ex_written_def folderNode_def ex_blob_any memWire_def io_get_def ex_reader_def memWorld_def)

end
