(* ===== verification/Server_Db.thy ===== *)
theory Server_Db
  imports Prelude
begin

text \<open>
  The server's database as the write path sees it, and a transaction over it: the tables are lists of
  rows, a statement is a function of the store, and a transaction is a function that returns a result
  and the new store or an error, in which case the store it had written is gone (\<open>db.ts\<close>).

  The rules of \<open>server/db/schema.sql\<close> that a node write can meet are written out (\<open>rowTriggers\<close>,
  \<open>journalChecks\<close>, \<open>commitChecks\<close>); the rest of the schema (key material, share membership, account
  states, foreign keys) is the parameter \<open>pg\<close>: it may refuse any statement and any commit, so what is
  proved holds whatever it refuses. PostgreSQL itself, its clock and its identifiers are the library's.
\<close>

subsection \<open>Tables\<close>

datatype node_type = NodeFile | NodeFolder
datatype journal_op = OpPut | OpDel | OpMove
datatype share_state = SharePreparing | ShareActive | ShareCancelled | ShareEnded

text \<open>Moments are microseconds, the resolution of a \<open>timestamptz\<close>.\<close>

abbreviation second :: nat where "second \<equiv> 1000000"
abbreviation day :: nat where "day \<equiv> 86400 * second"

record user_row =
  us_id :: string
  us_login :: string
  us_active :: bool
  us_pubkey :: "string option"
  us_quota :: nat
  us_history_days :: nat
  us_frozen_at :: "nat option"

record vault_row =
  vr_id :: string
  vr_user :: string
  vr_key_id :: string
  vr_root :: string
  vr_head_rev :: nat
  vr_reset_epoch :: nat

record node_row =
  nr_vault :: string
  nr_id :: string
  nr_parent :: "string option"
  nr_name_enc :: "string option"
  nr_name_hmac :: "string option"
  nr_name_key :: "string option"
  nr_type :: node_type
  nr_sha :: "string option"
  nr_size :: "nat option"
  nr_mtime :: string
  nr_rev :: nat
  nr_deleted :: "nat option"
  nr_ancestry :: "string list"
  nr_share :: "string option"
  nr_item :: "string option"

record journal_row =
  jr_vault :: string
  jr_rev :: nat
  jr_node :: string
  jr_prev :: "string option"
  jr_op :: journal_op
  jr_node_rev :: "nat option"
  jr_at :: nat

record version_row =
  vn_vault :: string
  vn_node :: string
  vn_rev :: nat
  vn_sha :: string
  vn_size :: nat
  vn_author :: string
  vn_at :: nat

record user_blob_row =
  ub_user :: string
  ub_sha :: string
  ub_own :: nat
  ub_pending :: nat
  ub_since :: "nat option"
  ub_device :: "string option"

record blob_row =
  bl_sha :: string
  bl_size :: nat
  bl_storageKey :: string
  bl_encAlg :: string
  bl_keyId :: string
  bl_marked :: "nat option"

record device_row =
  dv_id :: string
  dv_user :: string
  dv_revoked :: "nat option"

record share_row =
  sh_id :: string
  sh_initiator :: string
  sh_vault :: string
  sh_node :: string
  sh_state :: share_state
  sh_root_item :: string
  sh_key :: "string option"
  sh_wrapped :: "string option"
  sh_created :: nat
  sh_terminal :: "nat option"

record member_row =
  mb_share :: string
  mb_user :: string
  mb_vault :: "string option"
  mb_joined :: "nat option"
  mb_finalizing :: "nat option"
  mb_left :: "nat option"
  mb_invited :: nat
  mb_wrapped :: "string option"

record db =
  db_now :: nat
  db_drawn :: nat
  db_restore_epoch :: nat
  db_users :: "user_row list"
  db_vaults :: "vault_row list"
  db_nodes :: "node_row list"
  db_journal :: "journal_row list"
  db_versions :: "version_row list"
  db_blobs :: "blob_row list"
  db_user_blobs :: "user_blob_row list"
  db_blob_keys :: "((string \<times> string) \<times> string) list"
  db_dedup :: "((string \<times> string) \<times> string) list"
  db_shares :: "share_row list"
  db_members :: "member_row list"
  db_devices :: "device_row list"
  db_scopes :: "string list"

definition userRow :: "db \<Rightarrow> string \<Rightarrow> user_row option" where
  "userRow d u = find (\<lambda>r. us_id r = u) (db_users d)"

definition vaultRow :: "db \<Rightarrow> string \<Rightarrow> vault_row option" where
  "vaultRow d v = find (\<lambda>r. vr_id r = v) (db_vaults d)"

definition shareRow :: "db \<Rightarrow> string \<Rightarrow> share_row option" where
  "shareRow d s = find (\<lambda>r. sh_id r = s) (db_shares d)"

definition memberRow :: "db \<Rightarrow> string \<Rightarrow> string \<Rightarrow> member_row option" where
  "memberRow d s u = find (\<lambda>m. mb_share m = s \<and> mb_user m = u) (db_members d)"

definition blobRow :: "db \<Rightarrow> string \<Rightarrow> blob_row option" where
  "blobRow d sha = find (\<lambda>b. bl_sha b = sha) (db_blobs d)"

definition nodeRow :: "db \<Rightarrow> string \<Rightarrow> string \<Rightarrow> node_row option" where
  "nodeRow d v n = find (\<lambda>r. nr_vault r = v \<and> nr_id r = n) (db_nodes d)"

definition liveNode :: "db \<Rightarrow> string \<Rightarrow> string \<Rightarrow> node_row option" where
  "liveNode d v n = find (\<lambda>r. nr_vault r = v \<and> nr_id r = n \<and> nr_deleted r = None) (db_nodes d)"

subsection \<open>Refusals\<close>

record preparation_gap =
  pg_nodeId :: string
  pg_missing :: string

datatype refusal =
    not_found | no_such_version | device_revoked | frozen | over_quota | too_large | part_too_large
  | too_many_unfinished | address_mismatch | size_mismatch | share_boundary | folder_not_empty
  | base_mismatch "string option" nat
  | rev_mismatch nat
  | name_taken "string option"
  | rate_limited nat
  | parts_missing "nat list"
  | invalid_write string
  | already_settled | not_approved | named_by_a_share | vault_exists
  | share_not_preparing string
  | share_not_active string
  | share_not_prepared "preparation_gap list"
  | invite_failed | console_account | initiator_cannot_be_removed
  | finalization_incomplete "string list"

text \<open>What PostgreSQL throws, by the codes the server reads.\<close>

datatype db_error =
    CheckViolation string
  | RestrictViolation string bool
  | UniqueViolation string
  | ForeignKeyViolation string
  | OtherDbError string

datatype tx_error = Database db_error | Thrown string

fun refusalFromDatabase :: "tx_error \<Rightarrow> refusal option" where
  "refusalFromDatabase (Database (UniqueViolation c)) =
     (if c = ''nodes_unique_sibling'' then Some (name_taken None) else None)"
| "refusalFromDatabase (Database (RestrictViolation message hinted)) =
     (if hinted then Some frozen else Some (invalid_write message))"
| "refusalFromDatabase (Database (CheckViolation message)) = Some (invalid_write message)"
| "refusalFromDatabase (Database (ForeignKeyViolation _)) = None"
| "refusalFromDatabase (Database (OtherDbError _)) = None"
| "refusalFromDatabase (Thrown _) = None"

subsection \<open>Transactions\<close>

type_synonym 'a tx = "db \<Rightarrow> tx_error + ('a \<times> db)"

definition tx_ret :: "'a \<Rightarrow> 'a tx" where
  "tx_ret a = (\<lambda>d. Inr (a, d))"

definition tx_throw :: "tx_error \<Rightarrow> 'a tx" where
  "tx_throw e = (\<lambda>d. Inl e)"

definition tx_bind :: "'a tx \<Rightarrow> ('a \<Rightarrow> 'b tx) \<Rightarrow> 'b tx" where
  "tx_bind m f = (\<lambda>d. case m d of Inl e \<Rightarrow> Inl e | Inr (a, d') \<Rightarrow> f a d')"

definition tx_seq :: "unit tx \<Rightarrow> 'b tx \<Rightarrow> 'b tx" where
  "tx_seq m n = tx_bind m (\<lambda>_. n)"

definition tx_get :: "(db \<Rightarrow> 'a) \<Rightarrow> 'a tx" where
  "tx_get f = (\<lambda>d. Inr (f d, d))"

text \<open>The store as it is read before anything below is written.\<close>

definition reading :: "(db \<Rightarrow> 'a tx) \<Rightarrow> 'a tx" where
  "reading f = (\<lambda>d. f d d)"

definition tx_when :: "bool \<Rightarrow> unit tx \<Rightarrow> unit tx" where
  "tx_when b m = (if b then m else tx_ret ())"

fun tx_each :: "('x \<Rightarrow> unit tx) \<Rightarrow> 'x list \<Rightarrow> unit tx" where
  "tx_each f [] = tx_ret ()"
| "tx_each f (x # xs) = tx_seq (f x) (tx_each f xs)"

text \<open>The rest of the schema and the identifiers PostgreSQL makes.\<close>

record pg =
  pg_uuid :: "nat \<Rightarrow> string"
  pg_statement :: "db \<Rightarrow> db \<Rightarrow> db_error option"
  pg_commit :: "db \<Rightarrow> db \<Rightarrow> db_error option"

text \<open>A PostgreSQL that refuses nothing more, for the examples.\<close>

definition openPg :: pg where
  "openPg = \<lparr>pg_uuid = (\<lambda>n. ''u'' @ showNat n), pg_statement = (\<lambda>_ _. None), pg_commit = (\<lambda>_ _. None)\<rparr>"

definition statement :: "pg \<Rightarrow> (db \<Rightarrow> db) \<Rightarrow> unit tx" where
  "statement pg f = (\<lambda>d. case pg_statement pg d (f d) of Some e \<Rightarrow> Inl (Database e) | None \<Rightarrow> Inr ((), f d))"

definition randomUUID :: "pg \<Rightarrow> string tx" where
  "randomUUID pg = (\<lambda>d. Inr (pg_uuid pg (db_drawn d), d\<lparr>db_drawn := Suc (db_drawn d)\<rparr>))"

subsection \<open>The schema's rules on nodes and journal\<close>

definition ownerFrozen :: "db \<Rightarrow> string \<Rightarrow> bool" where
  "ownerFrozen d v =
     (case vaultRow d v of
        None \<Rightarrow> False
      | Some va \<Rightarrow> (case userRow d (vr_user va) of None \<Rightarrow> False | Some u \<Rightarrow> us_frozen_at u \<noteq> None))"

text \<open>\<open>nodes_reject_frozen_write\<close>: a frozen account may leave a share, and move or delete its own nodes.\<close>

definition leavesShare :: "node_row \<Rightarrow> node_row \<Rightarrow> bool" where
  "leavesShare old new \<longleftrightarrow>
     nr_share old \<noteq> None \<and> nr_share new = None \<and> nr_parent new = nr_parent old \<and> nr_sha new = nr_sha old \<and>
     nr_size new = nr_size old \<and> nr_mtime new = nr_mtime old \<and> nr_rev new = nr_rev old \<and> nr_deleted new = nr_deleted old"

definition frozenWrite :: "db \<Rightarrow> node_row option \<Rightarrow> node_row \<Rightarrow> db_error option" where
  "frozenWrite d old new =
     (let shared = (nr_share new \<noteq> None \<or> (case old of None \<Rightarrow> False | Some r \<Rightarrow> nr_share r \<noteq> None));
          grows = (case old of None \<Rightarrow> True | Some r \<Rightarrow> nr_sha new \<noteq> nr_sha r);
          leaves = (case old of None \<Rightarrow> False | Some r \<Rightarrow> leavesShare r new)
      in if \<not> ownerFrozen d (nr_vault new) then None
         else if leaves then None
         else if shared then Some (RestrictViolation ''over quota; their copy does not move until the freeze lifts'' True)
         else if grows then Some (RestrictViolation ''over quota; nothing that grows usage may be sent until the freeze lifts'' True)
         else None)"

text \<open>\<open>nodes_reject_cycle\<close> and the checks of the \<open>nodes\<close> table.\<close>

definition underItself :: "db \<Rightarrow> node_row \<Rightarrow> bool" where
  "underItself d new =
     (case nr_parent new of
        None \<Rightarrow> False
      | Some p \<Rightarrow> p = nr_id new \<or>
          (case nodeRow d (nr_vault new) p of None \<Rightarrow> False | Some r \<Rightarrow> nr_id new \<in> set (nr_ancestry r)))"

definition rowChecks :: "node_row \<Rightarrow> bool" where
  "rowChecks r \<longleftrightarrow>
     (nr_parent r = None \<longleftrightarrow> nr_name_enc r = None) \<and> (nr_parent r = None \<longleftrightarrow> nr_name_hmac r = None) \<and>
     (nr_type r = NodeFolder \<longrightarrow> nr_sha r = None \<and> nr_size r = None) \<and>
     (nr_type r = NodeFile \<and> nr_deleted r = None \<longrightarrow> nr_sha r \<noteq> None \<and> nr_size r \<noteq> None) \<and>
     (nr_share r = None \<longleftrightarrow> nr_item r = None)"

definition sameKey :: "node_row \<Rightarrow> node_row \<Rightarrow> bool" where
  "sameKey a b \<longleftrightarrow> nr_vault a = nr_vault b \<and> nr_id a = nr_id b"

definition siblingTaken :: "db \<Rightarrow> node_row \<Rightarrow> bool" where
  "siblingTaken d new \<longleftrightarrow> nr_deleted new = None \<and> nr_parent new \<noteq> None \<and>
     list_ex (\<lambda>r. \<not> sameKey r new \<and> nr_vault r = nr_vault new \<and> nr_parent r = nr_parent new \<and>
       nr_name_hmac r = nr_name_hmac new \<and> nr_deleted r = None) (db_nodes d)"

definition itemTaken :: "db \<Rightarrow> node_row \<Rightarrow> bool" where
  "itemTaken d new \<longleftrightarrow> nr_share new \<noteq> None \<and>
     list_ex (\<lambda>r. \<not> sameKey r new \<and> nr_vault r = nr_vault new \<and> nr_share r = nr_share new \<and> nr_item r = nr_item new) (db_nodes d)"

text \<open>What may refuse the insert (\<open>old\<close> absent) or the update of one row. When several rules refuse, which
  one is named first is PostgreSQL's order; here it is the order below.\<close>

definition rowTriggers :: "db \<Rightarrow> node_row option \<Rightarrow> node_row \<Rightarrow> db_error option" where
  "rowTriggers d old new =
     (if frozenWrite d old new \<noteq> None then frozenWrite d old new
      else if underItself d new then Some (CheckViolation ''node cannot be moved under its own descendant'')
      else if \<not> rowChecks new then Some (CheckViolation ''nodes row check'')
      else if old = None \<and> nodeRow d (nr_vault new) (nr_id new) \<noteq> None then Some (UniqueViolation ''nodes_pkey'')
      else if nr_parent new = None \<and> list_ex (\<lambda>r. \<not> sameKey r new \<and> nr_vault r = nr_vault new \<and> nr_parent r = None) (db_nodes d)
        then Some (UniqueViolation ''nodes_single_root'')
      else if siblingTaken d new then Some (UniqueViolation ''nodes_unique_sibling'')
      else if itemTaken d new then Some (UniqueViolation ''nodes_one_replica_per_item'')
      else if nr_parent new \<noteq> None \<and> nodeRow d (nr_vault new) (the (nr_parent new)) = None
        then Some (ForeignKeyViolation ''nodes_vault_id_parent_id_fkey'')
      else None)"

definition setNode :: "string \<Rightarrow> string \<Rightarrow> (node_row \<Rightarrow> node_row) \<Rightarrow> db \<Rightarrow> db" where
  "setNode v n f d = d\<lparr>db_nodes := map (\<lambda>r. if nr_vault r = v \<and> nr_id r = n then f r else r) (db_nodes d)\<rparr>"

definition updateNode :: "pg \<Rightarrow> string \<Rightarrow> string \<Rightarrow> (node_row \<Rightarrow> node_row) \<Rightarrow> unit tx" where
  "updateNode pg v n f =
     (\<lambda>d. case nodeRow d v n of
        None \<Rightarrow> Inr ((), d)
      | Some old \<Rightarrow> (case rowTriggers d (Some old) (f old) of
          Some e \<Rightarrow> Inl (Database e)
        | None \<Rightarrow> statement pg (setNode v n f) d))"

definition insertNode :: "pg \<Rightarrow> node_row \<Rightarrow> unit tx" where
  "insertNode pg r =
     (\<lambda>d. case rowTriggers d None r of
        Some e \<Rightarrow> Inl (Database e)
      | None \<Rightarrow> statement pg (\<lambda>d. d\<lparr>db_nodes := db_nodes d @ [r]\<rparr>) d)"

definition journalChecks :: "db \<Rightarrow> journal_row \<Rightarrow> db_error option" where
  "journalChecks d j =
     (if (jr_op j = OpMove) \<noteq> (jr_prev j \<noteq> None) then Some (CheckViolation ''move_carries_prev_parent'')
      else if jr_op j = OpPut \<and> jr_node_rev j = None then Some (CheckViolation ''put_carries_node_rev'')
      else if list_ex (\<lambda>r. jr_vault r = jr_vault j \<and> jr_rev r = jr_rev j) (db_journal d)
        then Some (UniqueViolation ''journal_pkey'')
      else None)"

text \<open>The deferred triggers: \<open>nodes_check_ancestry\<close>, \<open>nodes_check_live_under_live\<close>,
  \<open>vaults_check_revision_integrity\<close>, on the rows the transaction touched.\<close>

definition parentChain :: "db \<Rightarrow> node_row \<Rightarrow> string list option" where
  "parentChain d r =
     (case nr_parent r of
        None \<Rightarrow> Some []
      | Some p \<Rightarrow> (case nodeRow d (nr_vault r) p of None \<Rightarrow> None | Some q \<Rightarrow> Some (nr_ancestry q @ [p])))"

definition ancestryMatches :: "db \<Rightarrow> node_row \<Rightarrow> bool" where
  "ancestryMatches d r \<longleftrightarrow> parentChain d r = Some (nr_ancestry r) \<and>
     list_all (\<lambda>c. nr_vault c = nr_vault r \<and> nr_parent c = Some (nr_id r) \<longrightarrow> nr_ancestry c = nr_ancestry r @ [nr_id r]) (db_nodes d)"

definition liveUnderLive :: "db \<Rightarrow> node_row \<Rightarrow> bool" where
  "liveUnderLive d r \<longleftrightarrow>
     (if nr_deleted r = None
      then (case nr_parent r of None \<Rightarrow> True | Some p \<Rightarrow>
        (case nodeRow d (nr_vault r) p of None \<Rightarrow> True | Some q \<Rightarrow> nr_deleted q = None))
      else list_all (\<lambda>c. \<not> (nr_vault c = nr_vault r \<and> nr_parent c = Some (nr_id r) \<and> nr_deleted c = None)) (db_nodes d))"

definition revisionsWithin :: "db \<Rightarrow> vault_row \<Rightarrow> bool" where
  "revisionsWithin d va \<longleftrightarrow>
     list_all (\<lambda>r. nr_vault r = vr_id va \<longrightarrow> nr_rev r \<le> vr_head_rev va) (db_nodes d) \<and>
     list_all (\<lambda>j. jr_vault j = vr_id va \<longrightarrow> jr_rev j \<le> vr_head_rev va \<and>
       (case jr_node_rev j of None \<Rightarrow> True | Some k \<Rightarrow> k \<le> vr_head_rev va)) (db_journal d) \<and>
     list_all (\<lambda>x. vn_vault x = vr_id va \<longrightarrow>
       (case nodeRow d (vn_vault x) (vn_node x) of None \<Rightarrow> True | Some r \<Rightarrow> vn_rev x \<le> nr_rev r)) (db_versions d)"

definition touched :: "db \<Rightarrow> db \<Rightarrow> node_row list" where
  "touched d d' = filter (\<lambda>r. r \<notin> set (db_nodes d)) (db_nodes d')"

definition commitChecks :: "db \<Rightarrow> db \<Rightarrow> db_error option" where
  "commitChecks d d' =
     (if \<not> list_all (ancestryMatches d') (touched d d') then Some (CheckViolation ''ancestry does not match the parent chain'')
      else if \<not> list_all (liveUnderLive d') (touched d d') then Some (CheckViolation ''folder cannot be deleted while it still holds a live node'')
      else if \<not> list_all (revisionsWithin d') (db_vaults d') then Some (CheckViolation ''revision beyond the head revision'')
      else None)"

subsection \<open>A guarded transaction\<close>

datatype 'a outcome = Done 'a | Refused refusal | Crashed tx_error

definition txGuarded :: "pg \<Rightarrow> (refusal + 'a) tx \<Rightarrow> db \<Rightarrow> 'a outcome \<times> db" where
  "txGuarded pg fn d =
     (let thrown = (\<lambda>e. (case refusalFromDatabase e of Some r \<Rightarrow> Refused r | None \<Rightarrow> Crashed e, d))
      in case fn d of
           Inl e \<Rightarrow> thrown e
         | Inr (Inl r, d') \<Rightarrow> (Refused r, d)
         | Inr (Inr a, d') \<Rightarrow>
             (case commitChecks d d' of
                Some e \<Rightarrow> thrown (Database e)
              | None \<Rightarrow> (case pg_commit pg d d' of Some e \<Rightarrow> thrown (Database e) | None \<Rightarrow> (Done a, d'))))"

text \<open>A guarded transaction changes the store only when it is answered as done.\<close>

lemma txGuarded_cases:
  obtains (committed) a d' where "fn d = Inr (Inr a, d')" "txGuarded pg fn d = (Done a, d')" "commitChecks d d' = None" "pg_commit pg d d' = None"
  | (kept) "\<And>a. fst (txGuarded pg fn d) \<noteq> Done a" "snd (txGuarded pg fn d) = d"
proof (cases "\<exists>a d'. fn d = Inr (Inr a, d') \<and> commitChecks d d' = None \<and> pg_commit pg d d' = None")
  case True
  then obtain a d' where "fn d = Inr (Inr a, d')" "commitChecks d d' = None" "pg_commit pg d d' = None" by blast
  then show ?thesis by (intro committed) (simp_all add: txGuarded_def)
next
  case False
  then have "(\<forall>a. fst (txGuarded pg fn d) \<noteq> Done a) \<and> snd (txGuarded pg fn d) = d"
    by (auto simp: txGuarded_def Let_def split: sum.splits option.splits)
  then show ?thesis by (intro kept) blast+
qed

lemma txGuarded_done:
  assumes "txGuarded pg fn d = (Done a, d')"
  shows "fn d = Inr (Inr a, d') \<and> commitChecks d d' = None"
  using assms by (cases rule: txGuarded_cases [of fn d pg]) auto

lemma txGuarded_refused:
  assumes "txGuarded pg fn d = (Refused r, d')"
  shows "d' = d"
  using assms by (cases rule: txGuarded_cases [of fn d pg]) auto

subsection \<open>A plain transaction\<close>

text \<open>\<open>db.tx\<close>: what the body throws, or the deferred checks, rolls everything back.\<close>

definition plainTx :: "pg \<Rightarrow> 'a tx \<Rightarrow> db \<Rightarrow> (tx_error + 'a) \<times> db" where
  "plainTx pg fn d =
     (case fn d of
        Inl e \<Rightarrow> (Inl e, d)
      | Inr (a, d') \<Rightarrow>
          (case commitChecks d d' of
             Some e \<Rightarrow> (Inl (Database e), d)
           | None \<Rightarrow> (case pg_commit pg d d' of Some e \<Rightarrow> (Inl (Database e), d) | None \<Rightarrow> (Inr a, d'))))"

lemma plainTx_cases:
  obtains (committed) a d' where "fn d = Inr (a, d')" "plainTx pg fn d = (Inr a, d')" "commitChecks d d' = None"
  | (kept) e where "plainTx pg fn d = (Inl e, d)"
proof (cases "\<exists>a d'. fn d = Inr (a, d') \<and> commitChecks d d' = None \<and> pg_commit pg d d' = None")
  case True
  then obtain a d' where "fn d = Inr (a, d')" "commitChecks d d' = None" "pg_commit pg d d' = None" by blast
  then show ?thesis by (intro committed) (simp_all add: plainTx_def)
next
  case False
  then have "\<exists>e. plainTx pg fn d = (Inl e, d)"
    by (auto simp: plainTx_def split: sum.splits option.splits)
  then show ?thesis using kept by blast
qed

end
