(* ===== verification/Server_Ledger.thy ===== *)
theory Server_Ledger
  imports Server_Db
begin

text \<open>
  What every write to a vault shares: who owns it (\<open>account.ts\<close>), the next revision and its journal row
  (\<open>revision.ts\<close>), the claims and versions that follow bytes (\<open>holdings.ts\<close>), key material
  (\<open>material.ts\<close>), the quota (\<open>quota.ts\<close>), a subtree's ancestry (\<open>ancestry.ts\<close>) and the populations of
  a share (\<open>shares/membership.ts\<close>).
\<close>

subsection \<open>Accounts\<close>

definition ownsVault :: "db \<Rightarrow> string \<Rightarrow> string \<Rightarrow> bool" where
  "ownsVault d userId vaultId \<longleftrightarrow> list_ex (\<lambda>v. vr_id v = vaultId \<and> vr_user v = userId) (db_vaults d)"

definition ownerOf :: "db \<Rightarrow> string \<Rightarrow> (string \<times> nat) option" where
  "ownerOf d vaultId = map_option (\<lambda>v. (vr_user v, vr_head_rev v)) (vaultRow d vaultId)"

datatype owner_access = OwnerNotFound | OwnerFrozen string | OwnerOk string

definition ownerAndFrozen :: "db \<Rightarrow> string \<Rightarrow> owner_access" where
  "ownerAndFrozen d vaultId =
     (case vaultRow d vaultId of
        None \<Rightarrow> OwnerNotFound
      | Some v \<Rightarrow> (case userRow d (vr_user v) of
          None \<Rightarrow> OwnerNotFound
        | Some u \<Rightarrow> if us_frozen_at u \<noteq> None then OwnerFrozen (vr_user v) else OwnerOk (vr_user v)))"

definition isFrozen :: "db \<Rightarrow> string \<Rightarrow> bool" where
  "isFrozen d userId = (case userRow d userId of None \<Rightarrow> False | Some u \<Rightarrow> us_frozen_at u \<noteq> None)"

subsection \<open>Revisions\<close>

definition nextRev :: "pg \<Rightarrow> string \<Rightarrow> nat tx" where
  "nextRev pg vaultId =
     (\<lambda>d. case vaultRow d vaultId of
        None \<Rightarrow> Inl (Thrown ''Cannot read properties of undefined (reading 'head')'')
      | Some va \<Rightarrow> tx_bind
          (statement pg (\<lambda>d. d\<lparr>db_vaults :=
             map (\<lambda>v. if vr_id v = vaultId then v\<lparr>vr_head_rev := vr_head_rev v + 1\<rparr> else v) (db_vaults d)\<rparr>))
          (\<lambda>_. tx_ret (vr_head_rev va + 1)) d)"

definition journalEntry :: "pg \<Rightarrow> string \<Rightarrow> nat \<Rightarrow> string \<Rightarrow> journal_op \<Rightarrow> string option \<Rightarrow> unit tx" where
  "journalEntry pg vaultId rv nodeId op prevParent =
     (\<lambda>d. let j = \<lparr>jr_vault = vaultId, jr_rev = rv, jr_node = nodeId, jr_prev = prevParent, jr_op = op,
                   jr_node_rev = Some rv, jr_at = db_now d\<rparr>
          in case journalChecks d j of
               Some e \<Rightarrow> Inl (Database e)
             | None \<Rightarrow> statement pg (\<lambda>d. d\<lparr>db_journal := db_journal d @ [j]\<rparr>) d)"

subsection \<open>Claims and versions\<close>

definition upsertBlob :: "pg \<Rightarrow> string \<Rightarrow> string \<Rightarrow> (user_blob_row \<Rightarrow> user_blob_row) \<Rightarrow> unit tx" where
  "upsertBlob pg userId sha f =
     statement pg (\<lambda>d. d\<lparr>db_user_blobs :=
       (if list_ex (\<lambda>b. ub_user b = userId \<and> ub_sha b = sha) (db_user_blobs d)
        then map (\<lambda>b. if ub_user b = userId \<and> ub_sha b = sha then f b else b) (db_user_blobs d)
        else db_user_blobs d @ [\<lparr>ub_user = userId, ub_sha = sha, ub_own = 1, ub_pending = 0, ub_since = None, ub_device = None\<rparr>])\<rparr>)"

definition claimBlob :: "pg \<Rightarrow> string \<Rightarrow> string \<Rightarrow> unit tx" where
  "claimBlob pg userId sha = upsertBlob pg userId sha (\<lambda>b. b\<lparr>ub_own := ub_own b + 1\<rparr>)"

text \<open>\<open>GREATEST(refs_pending - 1, 0)\<close> is subtraction on natural numbers.\<close>

definition bindBlob :: "pg \<Rightarrow> string \<Rightarrow> string \<Rightarrow> unit tx" where
  "bindBlob pg userId sha =
     upsertBlob pg userId sha (\<lambda>b. b\<lparr>ub_own := ub_own b + 1, ub_pending := ub_pending b - 1,
       ub_since := (if ub_pending b - 1 = 0 then None else ub_since b)\<rparr>)"

definition ownedBy :: "db \<Rightarrow> string \<Rightarrow> string \<Rightarrow> bool" where
  "ownedBy d userId vaultId = (case vaultRow d vaultId of None \<Rightarrow> False | Some v \<Rightarrow> vr_user v = userId)"

definition referenced :: "db \<Rightarrow> string \<Rightarrow> string \<Rightarrow> bool" where
  "referenced d userId sha \<longleftrightarrow>
     list_ex (\<lambda>n. ownedBy d userId (nr_vault n) \<and> nr_sha n = Some sha \<and> nr_deleted n = None) (db_nodes d) \<or>
     list_ex (\<lambda>v. ownedBy d userId (vn_vault v) \<and> vn_sha v = sha) (db_versions d)"

definition dropUnreferenced :: "pg \<Rightarrow> string \<Rightarrow> unit tx" where
  "dropUnreferenced pg userId =
     statement pg (\<lambda>d. d\<lparr>db_user_blobs :=
       filter (\<lambda>b. \<not> (ub_user b = userId \<and> \<not> referenced d userId (ub_sha b) \<and> ub_pending b = 0)) (db_user_blobs d)\<rparr>)"

text \<open>A version row given without a moment takes the clock's.\<close>

definition recordVersion :: "pg \<Rightarrow> string \<Rightarrow> string \<Rightarrow> nat \<Rightarrow> string \<Rightarrow> nat \<Rightarrow> string \<Rightarrow> nat option \<Rightarrow> unit tx" where
  "recordVersion pg vaultId nodeId rv sha sz authorId at =
     (\<lambda>d. if list_ex (\<lambda>v. vn_vault v = vaultId \<and> vn_node v = nodeId \<and> vn_rev v = rv) (db_versions d)
          then Inl (Database (UniqueViolation ''versions_pkey''))
          else statement pg (\<lambda>d. d\<lparr>db_versions := db_versions d @
            [\<lparr>vn_vault = vaultId, vn_node = nodeId, vn_rev = rv, vn_sha = sha, vn_size = sz, vn_author = authorId,
              vn_at = (case at of None \<Rightarrow> db_now d | Some t \<Rightarrow> t)\<rparr>]\<rparr>) d)"

record version_to_copy =
  vc_targetNodeId :: string
  vc_rev :: nat
  vc_sha256 :: string
  vc_size :: nat
  vc_authorId :: string
  vc_at :: nat

definition copyVersions :: "pg \<Rightarrow> string \<Rightarrow> string \<Rightarrow> version_to_copy list \<Rightarrow> nat tx" where
  "copyVersions pg vaultId userId versions =
     tx_bind (tx_each (\<lambda>v. tx_seq
         (recordVersion pg vaultId (vc_targetNodeId v) (vc_rev v) (vc_sha256 v) (vc_size v) (vc_authorId v) (Some (vc_at v)))
         (claimBlob pg userId (vc_sha256 v))) versions)
       (\<lambda>_. tx_ret (length versions))"

subsection \<open>Key material\<close>

record wire_material =
  mt_envelopes :: "(string \<times> string \<times> string) list"
  mt_dedupTags :: "(string \<times> string \<times> string) list"

definition writeEnvelope :: "pg \<Rightarrow> string \<times> string \<times> string \<Rightarrow> unit tx" where
  "writeEnvelope pg = (\<lambda>(sha, scopeId, wrappedKey).
     statement pg (\<lambda>d. d\<lparr>db_blob_keys :=
       (if jget (db_blob_keys d) (sha, scopeId) = None then db_blob_keys d @ [((sha, scopeId), wrappedKey)]
        else db_blob_keys d)\<rparr>))"

definition writeTag :: "pg \<Rightarrow> string \<times> string \<times> string \<Rightarrow> unit tx" where
  "writeTag pg = (\<lambda>(sha, scopeId, contentTag).
     statement pg (\<lambda>d. d\<lparr>db_dedup := jset (scopeId, contentTag) sha (db_dedup d)\<rparr>))"

definition writeMaterial :: "pg \<Rightarrow> wire_material \<Rightarrow> unit tx" where
  "writeMaterial pg m =
     tx_seq (tx_each (writeEnvelope pg) (mt_envelopes m)) (tx_each (writeTag pg) (mt_dedupTags m))"

subsection \<open>Quota\<close>

definition blobSize :: "db \<Rightarrow> string \<Rightarrow> nat" where
  "blobSize d sha = (case blobRow d sha of None \<Rightarrow> 0 | Some b \<Rightarrow> bl_size b)"

definition usedBytes :: "db \<Rightarrow> string \<Rightarrow> nat" where
  "usedBytes d userId = sum_list (map (\<lambda>b. blobSize d (ub_sha b)) (filter (\<lambda>b. ub_user b = userId) (db_user_blobs d)))"

definition alreadyHeld :: "db \<Rightarrow> string \<Rightarrow> string \<Rightarrow> bool" where
  "alreadyHeld d userId sha \<longleftrightarrow> list_ex (\<lambda>b. ub_user b = userId \<and> ub_sha b = sha) (db_user_blobs d)"

definition quotaRead :: "db \<Rightarrow> string \<Rightarrow> string option \<Rightarrow> (nat \<times> nat \<times> bool) option" where
  "quotaRead d userId sha =
     map_option (\<lambda>u. (usedBytes d userId, us_quota u,
       case sha of None \<Rightarrow> False | Some s \<Rightarrow> alreadyHeld d userId s)) (userRow d userId)"

definition usageOf :: "db \<Rightarrow> string \<Rightarrow> (nat \<times> nat) option" where
  "usageOf d userId = map_option (\<lambda>(used, quota, held). (used, quota)) (quotaRead d userId None)"

definition fits :: "db \<Rightarrow> string \<Rightarrow> string \<Rightarrow> nat \<Rightarrow> bool" where
  "fits d userId sha sz =
     (case quotaRead d userId (Some sha) of
        None \<Rightarrow> False
      | Some (used, quota, held) \<Rightarrow> used + (if held then 0 else sz) \<le> quota)"

definition headroom :: "db \<Rightarrow> string \<Rightarrow> int option" where
  "headroom d userId = map_option (\<lambda>(used, quota, held). int quota - int used) (quotaRead d userId None)"

definition freezeIfOverQuota :: "pg \<Rightarrow> string \<Rightarrow> bool tx" where
  "freezeIfOverQuota pg userId =
     (\<lambda>d. case quotaRead d userId None of
        None \<Rightarrow> Inr (False, d)
      | Some (used, quota, held) \<Rightarrow>
          if used \<le> quota then Inr (False, d)
          else tx_bind (statement pg (\<lambda>d. d\<lparr>db_users :=
                 map (\<lambda>u. if us_id u = userId \<and> us_frozen_at u = None then u\<lparr>us_frozen_at := Some (db_now d)\<rparr> else u) (db_users d)\<rparr>))
               (\<lambda>_. tx_ret True) d)"

subsection \<open>Ancestry\<close>

definition below :: "string \<Rightarrow> string list \<Rightarrow> string list" where
  "below nodeId ancestry = tl (dropWhile (\<lambda>a. a \<noteq> nodeId) ancestry)"

definition rewriteSubtreeAncestry :: "pg \<Rightarrow> string \<Rightarrow> string \<Rightarrow> string list \<Rightarrow> unit tx" where
  "rewriteSubtreeAncestry pg vaultId nodeId newAncestry =
     statement pg (\<lambda>d. d\<lparr>db_nodes := map (\<lambda>r.
       if nr_vault r = vaultId \<and> nodeId \<in> set (nr_ancestry r)
       then r\<lparr>nr_ancestry := newAncestry @ nodeId # below nodeId (nr_ancestry r)\<rparr> else r) (db_nodes d)\<rparr>)"

subsection \<open>Populations of a share\<close>

definition PRESENT :: "member_row \<Rightarrow> bool" where "PRESENT m \<longleftrightarrow> mb_left m = None"
definition JOINED :: "member_row \<Rightarrow> bool" where "JOINED m \<longleftrightarrow> mb_joined m \<noteq> None \<and> mb_left m = None"
definition LIVE :: "member_row \<Rightarrow> bool" where "LIVE m \<longleftrightarrow> mb_joined m \<noteq> None \<and> mb_finalizing m = None \<and> mb_left m = None"
definition LIVE_UNFROZEN :: "db \<Rightarrow> member_row \<Rightarrow> bool" where
  "LIVE_UNFROZEN d m \<longleftrightarrow> LIVE m \<and> (case userRow d (mb_user m) of None \<Rightarrow> False | Some u \<Rightarrow> us_frozen_at u = None)"
definition INVITED :: "member_row \<Rightarrow> bool" where "INVITED m \<longleftrightarrow> mb_joined m = None"
definition INVITATION :: "member_row \<Rightarrow> bool" where "INVITATION m \<longleftrightarrow> mb_joined m = None \<and> mb_left m = None"
definition FINALIZING :: "member_row \<Rightarrow> bool" where "FINALIZING m \<longleftrightarrow> mb_finalizing m \<noteq> None \<and> mb_left m = None"
definition NOT_FINALIZING :: "member_row \<Rightarrow> bool" where "NOT_FINALIZING m \<longleftrightarrow> mb_left m = None \<and> mb_finalizing m = None"
definition NOT_STARTED :: "member_row \<Rightarrow> bool" where "NOT_STARTED m \<longleftrightarrow> mb_finalizing m = None"

lemmas populations = PRESENT_def JOINED_def LIVE_def LIVE_UNFROZEN_def INVITED_def INVITATION_def FINALIZING_def
  NOT_FINALIZING_def NOT_STARTED_def

end
