(* ===== verification/Server_Nodes.thy ===== *)
theory Server_Nodes
  imports Server_Ledger Sync_Types "HOL-Library.List_Lexorder" "HOL-Library.Char_ord"
begin

text \<open>
  Node writes and their propagation: another participant's copy (\<open>shares/replica.ts\<close>), the fan-out of a
  write inside a shared folder (\<open>shares/propagate.ts\<close>), the lookup by content tag and the four write
  handlers (\<open>nodes/service.ts\<close>).
\<close>

subsection \<open>Another participant's copy\<close>

record counterpart =
  cp_id :: string
  cp_ancestry :: "string list"

definition counterpartOf :: "string \<Rightarrow> string \<Rightarrow> bool \<Rightarrow> counterpart option tx" where
  "counterpartOf vaultId shareItemId includeDeleted =
     tx_get (\<lambda>d. map_option (\<lambda>r. \<lparr>cp_id = nr_id r, cp_ancestry = nr_ancestry r\<rparr>)
       (find (\<lambda>r. nr_vault r = vaultId \<and> nr_item r = Some shareItemId \<and> (includeDeleted \<or> nr_deleted r = None)) (db_nodes d)))"

record item_name =
  in_nameEnc :: string
  in_nameHmac :: string
  in_nameKeyId :: string

record replica_item = item_name +
  ri_shareItemId :: string
  ri_type :: node_type
  ri_sha256 :: "string option"
  ri_size :: "nat option"
  ri_mtime :: string

definition createCounterpart :: "pg \<Rightarrow> string \<Rightarrow> string \<Rightarrow> counterpart \<Rightarrow> replica_item \<Rightarrow> (counterpart \<times> nat) tx" where
  "createCounterpart pg vaultId shareId parent item =
     tx_bind (nextRev pg vaultId) (\<lambda>rv.
     let ancestry = cp_ancestry parent @ [cp_id parent]
     in tx_bind (randomUUID pg) (\<lambda>nodeId.
        tx_seq (insertNode pg
          \<lparr>nr_vault = vaultId, nr_id = nodeId, nr_parent = Some (cp_id parent), nr_name_enc = Some (in_nameEnc item),
           nr_name_hmac = Some (in_nameHmac item), nr_name_key = Some (in_nameKeyId item), nr_type = ri_type item,
           nr_sha = ri_sha256 item, nr_size = ri_size item, nr_mtime = ri_mtime item, nr_rev = rv, nr_deleted = None,
           nr_ancestry = ancestry, nr_share = Some shareId, nr_item = Some (ri_shareItemId item)\<rparr>)
        (tx_seq (journalEntry pg vaultId rv nodeId OpPut None)
        (tx_ret (\<lparr>cp_id = nodeId, cp_ancestry = ancestry\<rparr>, rv)))))"

definition moveCounterpart :: "pg \<Rightarrow> string \<Rightarrow> string \<Rightarrow> counterpart \<Rightarrow> 'a item_name_scheme \<Rightarrow> bool \<Rightarrow> nat tx" where
  "moveCounterpart pg vaultId nodeId parent name undelete =
     tx_bind (nextRev pg vaultId) (\<lambda>rv.
     let ancestry = cp_ancestry parent @ [cp_id parent]
     in tx_bind (tx_get (\<lambda>d. Option.bind (nodeRow d vaultId nodeId) nr_parent)) (\<lambda>prevParent.
        tx_seq (updateNode pg vaultId nodeId (\<lambda>r.
          r\<lparr>nr_parent := Some (cp_id parent), nr_name_enc := Some (in_nameEnc name), nr_name_hmac := Some (in_nameHmac name),
            nr_name_key := Some (in_nameKeyId name), nr_rev := rv, nr_ancestry := ancestry,
            nr_deleted := (if undelete then None else nr_deleted r)\<rparr>))
        (tx_seq (rewriteSubtreeAncestry pg vaultId nodeId ancestry)
        (tx_seq (journalEntry pg vaultId rv nodeId OpMove prevParent)
        (tx_ret rv)))))"

subsection \<open>Fan-out\<close>

record fan_create = replica_item +
  fc_vaultId :: string
  fc_shareId :: "string option"
  fc_shareItemId :: "string option"
  fc_parentShareItemId :: "string option"
  fc_authorId :: string

record fan_put =
  fp_vaultId :: string
  fp_shareId :: "string option"
  fp_shareItemId :: "string option"
  fp_sha256 :: string
  fp_size :: nat
  fp_mtime :: string
  fp_authorId :: string

record fan_mark =
  fm_vaultId :: string
  fm_shareId :: "string option"
  fm_shareItemId :: "string option"

record fan_move = item_name +
  fv_vaultId :: string
  fv_shareId :: "string option"
  fv_shareItemId :: "string option"
  fv_parentShareItemId :: "string option"

datatype fanout_event =
    FanCreate fan_create
  | FanPut fan_put
  | FanDelete fan_mark
  | FanUndelete fan_mark
  | FanMove fan_move

definition fanoutTargets :: "string \<Rightarrow> string \<Rightarrow> (string \<times> string) list tx" where
  "fanoutTargets shareId exceptVaultId =
     tx_get (\<lambda>d. map (\<lambda>m. (mb_user m, the (mb_vault m)))
       (sort_key mb_user (filter (\<lambda>m. mb_share m = shareId \<and> LIVE_UNFROZEN d m \<and>
          mb_vault m \<noteq> None \<and> mb_vault m \<noteq> Some exceptVaultId) (db_members d))))"

definition putOne :: "pg \<Rightarrow> fan_put \<Rightarrow> string \<Rightarrow> string \<times> string \<Rightarrow> unit tx" where
  "putOne pg item shareItemId = (\<lambda>(userId, vaultId).
     tx_bind (counterpartOf vaultId shareItemId False) (\<lambda>node. case node of
       None \<Rightarrow> tx_ret ()
     | Some n \<Rightarrow> tx_bind (nextRev pg vaultId) (\<lambda>rv.
         tx_seq (updateNode pg vaultId (cp_id n) (\<lambda>r.
           r\<lparr>nr_sha := Some (fp_sha256 item), nr_size := Some (fp_size item), nr_mtime := fp_mtime item, nr_rev := rv\<rparr>))
         (tx_seq (journalEntry pg vaultId rv (cp_id n) OpPut None)
         (tx_seq (recordVersion pg vaultId (cp_id n) rv (fp_sha256 item) (fp_size item) (fp_authorId item) None)
         (tx_seq (claimBlob pg userId (fp_sha256 item))
         (tx_bind (freezeIfOverQuota pg userId) (\<lambda>_. tx_ret ()))))))))"

definition createOne :: "pg \<Rightarrow> fan_create \<Rightarrow> string \<Rightarrow> string \<Rightarrow> string \<Rightarrow> string \<times> string \<Rightarrow> unit tx" where
  "createOne pg item shareId shareItemId parentShareItemId = (\<lambda>(userId, vaultId).
     tx_bind (counterpartOf vaultId parentShareItemId False) (\<lambda>parent. case parent of
       None \<Rightarrow> tx_ret ()
     | Some p \<Rightarrow> tx_bind (createCounterpart pg vaultId shareId p
           ((replica_item.truncate item)\<lparr>ri_shareItemId := shareItemId\<rparr>)) (\<lambda>(node, rv).
         (case (ri_sha256 item, ri_size item) of
            (Some sha, Some sz) \<Rightarrow>
              tx_seq (recordVersion pg vaultId (cp_id node) rv sha sz (fc_authorId item) None)
              (tx_seq (claimBlob pg userId sha)
              (tx_bind (freezeIfOverQuota pg userId) (\<lambda>_. tx_ret ())))
          | _ \<Rightarrow> tx_ret ()))))"

definition deleteOne :: "pg \<Rightarrow> string \<Rightarrow> string \<times> string \<Rightarrow> unit tx" where
  "deleteOne pg shareItemId = (\<lambda>(userId, vaultId).
     tx_bind (counterpartOf vaultId shareItemId False) (\<lambda>node. case node of
       None \<Rightarrow> tx_ret ()
     | Some n \<Rightarrow> tx_bind (tx_get db_now) (\<lambda>now. tx_bind (nextRev pg vaultId) (\<lambda>rv.
         tx_seq (updateNode pg vaultId (cp_id n) (\<lambda>r. r\<lparr>nr_deleted := Some now, nr_rev := rv\<rparr>))
         (tx_seq (journalEntry pg vaultId rv (cp_id n) OpDel None) (tx_ret ()))))))"

definition moveOne :: "pg \<Rightarrow> fan_move \<Rightarrow> string \<Rightarrow> string \<Rightarrow> string \<times> string \<Rightarrow> unit tx" where
  "moveOne pg item shareItemId parentShareItemId = (\<lambda>(userId, vaultId).
     tx_bind (counterpartOf vaultId shareItemId False) (\<lambda>node.
     tx_bind (counterpartOf vaultId parentShareItemId False) (\<lambda>parent.
     (case (node, parent) of
        (Some n, Some p) \<Rightarrow> tx_bind (moveCounterpart pg vaultId (cp_id n) p item False) (\<lambda>_. tx_ret ())
      | _ \<Rightarrow> tx_ret ()))))"

definition undeleteOne :: "pg \<Rightarrow> string \<Rightarrow> string \<times> string \<Rightarrow> unit tx" where
  "undeleteOne pg shareItemId = (\<lambda>(userId, vaultId).
     tx_bind (tx_get (\<lambda>d. find (\<lambda>r. nr_vault r = vaultId \<and> nr_item r = Some shareItemId \<and> nr_deleted r \<noteq> None) (db_nodes d)))
       (\<lambda>trashed. case trashed of
         None \<Rightarrow> tx_ret ()
       | Some n \<Rightarrow> tx_bind (nextRev pg vaultId) (\<lambda>rv.
           tx_seq (updateNode pg vaultId (nr_id n) (\<lambda>r. r\<lparr>nr_deleted := None, nr_rev := rv\<rparr>))
           (tx_seq (journalEntry pg vaultId rv (nr_id n) OpPut None) (tx_ret ())))))"

fun eventVault :: "fanout_event \<Rightarrow> string" where
  "eventVault (FanCreate e) = fc_vaultId e"
| "eventVault (FanPut e) = fp_vaultId e"
| "eventVault (FanDelete e) = fm_vaultId e"
| "eventVault (FanUndelete e) = fm_vaultId e"
| "eventVault (FanMove e) = fv_vaultId e"

fun eventShare :: "fanout_event \<Rightarrow> string option" where
  "eventShare (FanCreate e) = fc_shareId e"
| "eventShare (FanPut e) = fp_shareId e"
| "eventShare (FanDelete e) = fm_shareId e"
| "eventShare (FanUndelete e) = fm_shareId e"
| "eventShare (FanMove e) = fv_shareId e"

fun eventItem :: "fanout_event \<Rightarrow> string option" where
  "eventItem (FanCreate e) = fc_shareItemId e"
| "eventItem (FanPut e) = fp_shareItemId e"
| "eventItem (FanDelete e) = fm_shareItemId e"
| "eventItem (FanUndelete e) = fm_shareItemId e"
| "eventItem (FanMove e) = fv_shareItemId e"

fun lacksParent :: "fanout_event \<Rightarrow> bool" where
  "lacksParent (FanCreate e) = (\<not> truthy (fc_parentShareItemId e))"
| "lacksParent (FanMove e) = (\<not> truthy (fv_parentShareItemId e))"
| "lacksParent _ = False"

fun propagate :: "pg \<Rightarrow> string \<Rightarrow> string \<Rightarrow> fanout_event \<Rightarrow> string \<times> string \<Rightarrow> unit tx" where
  "propagate pg shareId item (FanCreate e) = createOne pg e shareId item (the (fc_parentShareItemId e))"
| "propagate pg shareId item (FanPut e) = putOne pg e item"
| "propagate pg shareId item (FanDelete e) = deleteOne pg item"
| "propagate pg shareId item (FanUndelete e) = undeleteOne pg item"
| "propagate pg shareId item (FanMove e) = moveOne pg e item (the (fv_parentShareItemId e))"

definition fanOut :: "pg \<Rightarrow> fanout_event \<Rightarrow> unit tx" where
  "fanOut pg event =
     (if \<not> truthy (eventShare event) \<or> \<not> truthy (eventItem event) then tx_ret ()
      else if lacksParent event then tx_ret ()
      else tx_bind (fanoutTargets (the (eventShare event)) (eventVault event)) (\<lambda>targets.
        tx_each (propagate pg (the (eventShare event)) (the (eventItem event)) event) targets))"

subsection \<open>The write handlers\<close>

definition dedupLookup :: "db \<Rightarrow> string \<Rightarrow> string \<Rightarrow> string list \<Rightarrow> (string \<times> string) list" where
  "dedupLookup d userId vaultId tags =
     (let own = map vr_key_id (filter (\<lambda>v. vr_id v = vaultId \<and> vr_user v = userId) (db_vaults d));
          shared = List.map_filter (\<lambda>m.
            if mb_vault m = Some vaultId \<and> mb_user m = userId \<and> JOINED m then Option.bind (shareRow d (mb_share m)) sh_key else None)
            (db_members d)
      in List.map_filter (\<lambda>((scopeId, tag), sha). if scopeId \<in> set (own @ shared) \<and> tag \<in> set tags then Some (tag, sha) else None)
           (db_dedup d))"

record create_input = item_name +
  ci_vaultId :: string
  ci_parentId :: string
  ci_type :: node_type
  ci_sha256 :: "string option"
  ci_size :: "nat option"
  ci_mtime :: string
  ci_material :: wire_material

definition tx_refuse :: "refusal \<Rightarrow> (refusal + 'a) tx" where
  "tx_refuse r = tx_ret (Inl r)"

definition bindContent :: "pg \<Rightarrow> create_input \<Rightarrow> string \<Rightarrow> nat \<Rightarrow> string \<Rightarrow> unit tx" where
  "bindContent pg input nodeId rv owner =
     (if \<not> truthy (ci_sha256 input) then tx_ret ()
      else (case ci_size input of
        None \<Rightarrow> tx_throw (Thrown ''a node with content must have a size'')
      | Some sz \<Rightarrow> tx_seq (recordVersion pg (ci_vaultId input) nodeId rv (the (ci_sha256 input)) sz owner None)
          (bindBlob pg owner (the (ci_sha256 input)))))"

definition createBody :: "pg \<Rightarrow> create_input \<Rightarrow> (refusal + (string \<times> nat)) tx" where
  "createBody pg input =
     reading (\<lambda>d. case ownerAndFrozen d (ci_vaultId input) of
        OwnerNotFound \<Rightarrow> tx_refuse not_found
      | OwnerFrozen _ \<Rightarrow> tx_refuse frozen
      | OwnerOk owner \<Rightarrow> (case liveNode d (ci_vaultId input) (ci_parentId input) of
          None \<Rightarrow> tx_refuse not_found
        | Some into \<Rightarrow>
            tx_bind (if truthy (nr_share into) then tx_bind (randomUUID pg) (\<lambda>u. tx_ret (Some u)) else tx_ret None) (\<lambda>shareItemId.
            tx_seq (writeMaterial pg (ci_material input))
            (tx_bind (nextRev pg (ci_vaultId input)) (\<lambda>rv.
             tx_bind (randomUUID pg) (\<lambda>nodeId.
             tx_seq (insertNode pg
               \<lparr>nr_vault = ci_vaultId input, nr_id = nodeId, nr_parent = Some (ci_parentId input),
                nr_name_enc = Some (in_nameEnc input), nr_name_hmac = Some (in_nameHmac input), nr_name_key = Some (in_nameKeyId input),
                nr_type = ci_type input, nr_sha = ci_sha256 input, nr_size = ci_size input, nr_mtime = ci_mtime input, nr_rev = rv,
                nr_deleted = None, nr_ancestry = nr_ancestry into @ [ci_parentId input], nr_share = nr_share into, nr_item = shareItemId\<rparr>)
             (tx_seq (journalEntry pg (ci_vaultId input) rv nodeId OpPut None)
             (tx_seq (bindContent pg input nodeId rv owner)
             (tx_seq (fanOut pg (FanCreate
                \<lparr>in_nameEnc = in_nameEnc input, in_nameHmac = in_nameHmac input, in_nameKeyId = in_nameKeyId input,
                 ri_shareItemId = [], ri_type = ci_type input, ri_sha256 = ci_sha256 input, ri_size = ci_size input, ri_mtime = ci_mtime input,
                 fc_vaultId = ci_vaultId input, fc_shareId = nr_share into, fc_shareItemId = shareItemId,
                 fc_parentShareItemId = nr_item into, fc_authorId = owner\<rparr>))
             (tx_ret (Inr (nodeId, rv))))))))))))"

definition createNode :: "pg \<Rightarrow> create_input \<Rightarrow> db \<Rightarrow> (string \<times> nat) outcome \<times> db" where
  "createNode pg input = txGuarded pg (createBody pg input)"

record put_input =
  pi_vaultId :: string
  pi_nodeId :: string
  pi_sha256 :: string
  pi_size :: nat
  pi_mtime :: string
  pi_baseSha256 :: "string option"
  pi_material :: wire_material

definition putBody :: "pg \<Rightarrow> put_input \<Rightarrow> (refusal + nat) tx" where
  "putBody pg input =
     reading (\<lambda>d. case ownerAndFrozen d (pi_vaultId input) of
        OwnerNotFound \<Rightarrow> tx_refuse not_found
      | OwnerFrozen _ \<Rightarrow> tx_refuse frozen
      | OwnerOk owner \<Rightarrow> (case liveNode d (pi_vaultId input) (pi_nodeId input) of
          None \<Rightarrow> tx_refuse not_found
        | Some row \<Rightarrow>
            if nr_type row \<noteq> NodeFile then tx_refuse not_found
            else if nr_sha row \<noteq> pi_baseSha256 input then tx_refuse (base_mismatch (nr_sha row) (nr_rev row))
            else tx_seq (writeMaterial pg (pi_material input))
              (tx_bind (nextRev pg (pi_vaultId input)) (\<lambda>rv.
               tx_seq (updateNode pg (pi_vaultId input) (pi_nodeId input) (\<lambda>r.
                 r\<lparr>nr_sha := Some (pi_sha256 input), nr_size := Some (pi_size input), nr_mtime := pi_mtime input, nr_rev := rv\<rparr>))
               (tx_seq (journalEntry pg (pi_vaultId input) rv (pi_nodeId input) OpPut None)
               (tx_seq (recordVersion pg (pi_vaultId input) (pi_nodeId input) rv (pi_sha256 input) (pi_size input) owner None)
               (tx_seq (bindBlob pg owner (pi_sha256 input))
               (tx_seq (fanOut pg (FanPut
                  \<lparr>fp_vaultId = pi_vaultId input, fp_shareId = nr_share row, fp_shareItemId = nr_item row, fp_sha256 = pi_sha256 input,
                   fp_size = pi_size input, fp_mtime = pi_mtime input, fp_authorId = owner\<rparr>))
               (tx_ret (Inr rv))))))))))"

definition putContent :: "pg \<Rightarrow> put_input \<Rightarrow> db \<Rightarrow> nat outcome \<times> db" where
  "putContent pg input = txGuarded pg (putBody pg input)"

definition deleteBody :: "pg \<Rightarrow> string \<Rightarrow> string \<Rightarrow> nat \<Rightarrow> (refusal + nat) tx" where
  "deleteBody pg vaultId nodeId ifMatchRev =
     reading (\<lambda>d. if ownerAndFrozen d vaultId = OwnerNotFound then tx_refuse not_found
      else (case liveNode d vaultId nodeId of
        None \<Rightarrow> tx_refuse not_found
      | Some row \<Rightarrow>
          if nr_rev row \<noteq> ifMatchRev then tx_refuse (rev_mismatch (nr_rev row))
          else if list_ex (\<lambda>r. nr_vault r = vaultId \<and> nr_parent r = Some nodeId \<and> nr_deleted r = None) (db_nodes d)
            then tx_refuse folder_not_empty
          else tx_bind (nextRev pg vaultId) (\<lambda>rv.
            tx_seq (updateNode pg vaultId nodeId (\<lambda>r. r\<lparr>nr_deleted := Some (db_now d), nr_rev := rv\<rparr>))
            (tx_seq (journalEntry pg vaultId rv nodeId OpDel None)
            (tx_seq (fanOut pg (FanDelete \<lparr>fm_vaultId = vaultId, fm_shareId = nr_share row, fm_shareItemId = nr_item row\<rparr>))
            (tx_ret (Inr rv)))))))"

definition deleteNode :: "pg \<Rightarrow> string \<Rightarrow> string \<Rightarrow> nat \<Rightarrow> db \<Rightarrow> nat outcome \<times> db" where
  "deleteNode pg vaultId nodeId ifMatchRev = txGuarded pg (deleteBody pg vaultId nodeId ifMatchRev)"

record move_input = item_name +
  mi_vaultId :: string
  mi_nodeId :: string
  mi_parentId :: string
  mi_ifMatchRev :: nat

definition parentShare :: "db \<Rightarrow> node_row \<Rightarrow> string option" where
  "parentShare d r = Option.bind (nr_parent r) (\<lambda>p. Option.bind (nodeRow d (nr_vault r) p) nr_share)"

definition moveBody :: "pg \<Rightarrow> move_input \<Rightarrow> (refusal + nat) tx" where
  "moveBody pg input =
     reading (\<lambda>d. if ownerAndFrozen d (mi_vaultId input) = OwnerNotFound then tx_refuse not_found
      else (case liveNode d (mi_vaultId input) (mi_nodeId input) of
        None \<Rightarrow> tx_refuse not_found
      | Some row \<Rightarrow>
          if nr_rev row \<noteq> mi_ifMatchRev input then tx_refuse (rev_mismatch (nr_rev row))
          else (case liveNode d (mi_vaultId input) (mi_parentId input) of
            None \<Rightarrow> tx_refuse not_found
          | Some dest \<Rightarrow>
              if parentShare d row \<noteq> nr_share dest then tx_refuse share_boundary
              else (let newAncestry = nr_ancestry dest @ [mi_parentId input]
                in tx_bind (nextRev pg (mi_vaultId input)) (\<lambda>rv.
                   tx_seq (updateNode pg (mi_vaultId input) (mi_nodeId input) (\<lambda>r.
                     r\<lparr>nr_parent := Some (mi_parentId input), nr_name_enc := Some (in_nameEnc input), nr_name_hmac := Some (in_nameHmac input),
                       nr_name_key := Some (in_nameKeyId input), nr_rev := rv, nr_ancestry := newAncestry\<rparr>))
                   (tx_seq (rewriteSubtreeAncestry pg (mi_vaultId input) (mi_nodeId input) newAncestry)
                   (tx_seq (journalEntry pg (mi_vaultId input) rv (mi_nodeId input) OpMove (nr_parent row))
                   (tx_seq (fanOut pg (FanMove
                      \<lparr>in_nameEnc = in_nameEnc input, in_nameHmac = in_nameHmac input, in_nameKeyId = in_nameKeyId input,
                       fv_vaultId = mi_vaultId input, fv_shareId = nr_share row, fv_shareItemId = nr_item row,
                       fv_parentShareItemId = nr_item dest\<rparr>))
                   (tx_ret (Inr rv))))))))))"

definition moveNode :: "pg \<Rightarrow> move_input \<Rightarrow> db \<Rightarrow> nat outcome \<times> db" where
  "moveNode pg input = txGuarded pg (moveBody pg input)"

end
