(* ===== verification/Server_Steps.thy ===== *)
theory Server_Steps
  imports Server_Nodes
begin

text \<open>
  An abstract machine of a vault's tree and the refinement of the write handlers to it. A step of the
  machine is one revision of one vault: a row is stamped, planted under a parent that is there, or
  shifted with its subtree; each is journalled under the revision it was given. Every handler of
  \<open>Server_Nodes\<close>, fan-out included, is a sequence of such steps, whatever the rest of the schema refuses;
  the invariants (the ancestry of a row is its parent chain, revisions and journal agree) are proved on
  the machine by rule induction.
\<close>

subsection \<open>The machine\<close>

record store =
  st_nodes :: "node_row list"
  st_vaults :: "vault_row list"
  st_journal :: "journal_row list"

definition core :: "db \<Rightarrow> store" where
  "core d = \<lparr>st_nodes = db_nodes d, st_vaults = db_vaults d, st_journal = db_journal d\<rparr>"

definition headOf :: "store \<Rightarrow> string \<Rightarrow> nat option" where
  "headOf s v = map_option vr_head_rev (find (\<lambda>r. vr_id r = v) (st_vaults s))"

definition nodeIn :: "store \<Rightarrow> string \<Rightarrow> string \<Rightarrow> node_row option" where
  "nodeIn s v n = find (\<lambda>r. nr_vault r = v \<and> nr_id r = n) (st_nodes s)"

definition bump :: "string \<Rightarrow> store \<Rightarrow> store" where
  "bump v s = s\<lparr>st_vaults := map (\<lambda>r. if vr_id r = v then r\<lparr>vr_head_rev := vr_head_rev r + 1\<rparr> else r) (st_vaults s)\<rparr>"

definition rewriteNode :: "string \<Rightarrow> string \<Rightarrow> (node_row \<Rightarrow> node_row) \<Rightarrow> store \<Rightarrow> store" where
  "rewriteNode v n f s = s\<lparr>st_nodes := map (\<lambda>r. if nr_vault r = v \<and> nr_id r = n then f r else r) (st_nodes s)\<rparr>"

definition rewriteBelow :: "string \<Rightarrow> string \<Rightarrow> string list \<Rightarrow> store \<Rightarrow> store" where
  "rewriteBelow v n anc s = s\<lparr>st_nodes := map (\<lambda>r.
     if nr_vault r = v \<and> n \<in> set (nr_ancestry r) then r\<lparr>nr_ancestry := anc @ n # below n (nr_ancestry r)\<rparr> else r) (st_nodes s)\<rparr>"

definition addNode :: "node_row \<Rightarrow> store \<Rightarrow> store" where
  "addNode r s = s\<lparr>st_nodes := st_nodes s @ [r]\<rparr>"

definition log :: "journal_row \<Rightarrow> store \<Rightarrow> store" where
  "log j s = s\<lparr>st_journal := st_journal s @ [j]\<rparr>"

inductive tree_step :: "store \<Rightarrow> store \<Rightarrow> bool" where
  stamp: "headOf s v = Some h \<Longrightarrow>
     (\<And>r. nr_vault (f r) = nr_vault r \<and> nr_id (f r) = nr_id r \<and> nr_parent (f r) = nr_parent r \<and>
       nr_ancestry (f r) = nr_ancestry r \<and> nr_rev (f r) = Suc h) \<Longrightarrow>
     jr_vault j = v \<Longrightarrow> jr_rev j = Suc h \<Longrightarrow> jr_node j = n \<Longrightarrow>
     tree_step s (log j (rewriteNode v n f (bump v s)))"
| plant: "headOf s v = Some h \<Longrightarrow> nr_vault r = v \<Longrightarrow> nr_rev r = Suc h \<Longrightarrow> nr_parent r = Some p \<Longrightarrow>
     nodeIn s v p = Some q \<Longrightarrow> nr_ancestry r = nr_ancestry q @ [p] \<Longrightarrow> nodeIn s v (nr_id r) = None \<Longrightarrow>
     jr_vault j = v \<Longrightarrow> jr_rev j = Suc h \<Longrightarrow> jr_node j = nr_id r \<Longrightarrow>
     tree_step s (log j (addNode r (bump v s)))"
| shift: "headOf s v = Some h \<Longrightarrow> nodeIn s v p = Some q \<Longrightarrow> p \<noteq> n \<Longrightarrow> n \<notin> set (nr_ancestry q) \<Longrightarrow>
     anc = nr_ancestry q @ [p] \<Longrightarrow>
     (\<And>r. nr_vault (f r) = nr_vault r \<and> nr_id (f r) = nr_id r \<and> nr_parent (f r) = Some p \<and>
       nr_ancestry (f r) = anc \<and> nr_rev (f r) = Suc h) \<Longrightarrow>
     jr_vault j = v \<Longrightarrow> jr_rev j = Suc h \<Longrightarrow> jr_node j = n \<Longrightarrow>
     tree_step s (log j (rewriteBelow v n anc (rewriteNode v n f (bump v s))))"

abbreviation tree_steps :: "store \<Rightarrow> store \<Rightarrow> bool" where
  "tree_steps \<equiv> tree_step\<^sup>*\<^sup>*"

definition keysOk :: "store \<Rightarrow> bool" where
  "keysOk s \<longleftrightarrow> distinct (map (\<lambda>r. (nr_vault r, nr_id r)) (st_nodes s))"

lemma store_simps [simp]:
  "st_nodes (bump v s) = st_nodes s" "st_journal (bump v s) = st_journal s" "st_nodes (log j s) = st_nodes s"
  "st_vaults (log j s) = st_vaults s" "st_journal (log j s) = st_journal s @ [j]" "st_nodes (addNode r s) = st_nodes s @ [r]"
  "st_vaults (addNode r s) = st_vaults s" "st_journal (addNode r s) = st_journal s"
  "st_vaults (rewriteNode v n f s) = st_vaults s" "st_journal (rewriteNode v n f s) = st_journal s"
  "st_vaults (rewriteBelow v n anc s) = st_vaults s" "st_journal (rewriteBelow v n anc s) = st_journal s"
  "st_nodes (rewriteNode v n f s) = map (\<lambda>r. if nr_vault r = v \<and> nr_id r = n then f r else r) (st_nodes s)"
  "st_nodes (rewriteBelow v n anc s) = map (\<lambda>r.
     if nr_vault r = v \<and> n \<in> set (nr_ancestry r) then r\<lparr>nr_ancestry := anc @ n # below n (nr_ancestry r)\<rparr> else r) (st_nodes s)"
  by (simp_all add: bump_def log_def addNode_def rewriteNode_def rewriteBelow_def)

lemma tree_step_keys: "tree_step s s' \<Longrightarrow> keysOk s \<Longrightarrow> keysOk s'"
proof (induction rule: tree_step.induct)
  case (stamp s v h f j n)
  have "map (\<lambda>r. (nr_vault r, nr_id r)) (map (\<lambda>r. if nr_vault r = v \<and> nr_id r = n then f r else r) (st_nodes s)) =
      map (\<lambda>r. (nr_vault r, nr_id r)) (st_nodes s)" using stamp by simp
  with stamp show ?case unfolding keysOk_def by (simp only: store_simps)
next
  case (plant s v h r p q j)
  then have "\<forall>x\<in>set (st_nodes s). \<not> (nr_vault x = v \<and> nr_id x = nr_id r)" by (auto simp: nodeIn_def find_None_iff)
  with plant show ?case by (auto simp: keysOk_def)
next
  case (shift s v h p q n anc f j)
  have "map (\<lambda>r. (nr_vault r, nr_id r)) (st_nodes (rewriteBelow v n anc (rewriteNode v n f (bump v s)))) =
      map (\<lambda>r. (nr_vault r, nr_id r)) (st_nodes s)" using shift by simp
  with shift show ?case unfolding keysOk_def by (simp only: store_simps(3))
qed

lemma tree_steps_keys: "tree_steps s s' \<Longrightarrow> keysOk s \<Longrightarrow> keysOk s'"
  by (induction rule: rtranclp_induct) (auto intro: tree_step_keys)

lemma keysOk_find:
  assumes "keysOk s" "r \<in> set (st_nodes s)"
  shows "nodeIn s (nr_vault r) (nr_id r) = Some r"
proof -
  obtain r' where r': "nodeIn s (nr_vault r) (nr_id r) = Some r'"
    using assms(2) by (cases "nodeIn s (nr_vault r) (nr_id r)") (auto simp: nodeIn_def find_None_iff)
  then have "r' \<in> set (st_nodes s)" "nr_vault r' = nr_vault r" "nr_id r' = nr_id r"
    by (auto simp: nodeIn_def find_Some_iff)
  with assms have "r' = r" by (auto simp: keysOk_def distinct_map inj_on_def)
  with r' show ?thesis by simp
qed

lemma core_simps [simp]:
  "st_nodes (core d) = db_nodes d" "st_vaults (core d) = db_vaults d" "st_journal (core d) = db_journal d"
  by (simp_all add: core_def)

lemma nodeIn_core [simp]: "nodeIn (core d) v n = nodeRow d v n"
  by (simp add: nodeIn_def nodeRow_def)

lemma headOf_core [simp]: "headOf (core d) v = map_option vr_head_rev (vaultRow d v)"
  by (simp add: headOf_def vaultRow_def)

subsection \<open>Transactions that refine the machine\<close>

text \<open>\<open>does P m\<close>: from a store whose tree satisfies \<open>P\<close>, \<open>m\<close> makes machine steps; \<open>aside m\<close>: it makes none.\<close>

definition does :: "(store \<Rightarrow> bool) \<Rightarrow> 'a tx \<Rightarrow> bool" where
  "does P m \<longleftrightarrow> (\<forall>d a d'. keysOk (core d) \<longrightarrow> P (core d) \<longrightarrow> m d = Inr (a, d') \<longrightarrow> tree_steps (core d) (core d'))"

definition aside :: "'a tx \<Rightarrow> bool" where
  "aside m \<longleftrightarrow> (\<forall>d a d'. m d = Inr (a, d') \<longrightarrow> core d' = core d)"

named_theorems tx_rules \<open>rules that follow the structure of a transaction\<close>

lemma aside_ret [tx_rules]: "aside (tx_ret a)" and aside_get [tx_rules]: "aside (tx_get g)" and aside_throw [tx_rules]: "aside (tx_throw e)"
  by (auto simp: aside_def tx_ret_def tx_get_def tx_throw_def)

lemma aside_bind [tx_rules]: "aside m \<Longrightarrow> (\<And>a. aside (f a)) \<Longrightarrow> aside (tx_bind m f)"
  by (fastforce simp: aside_def tx_bind_def split: sum.splits prod.splits)

lemma aside_seq [tx_rules]: "aside m \<Longrightarrow> aside n \<Longrightarrow> aside (tx_seq m n)"
  unfolding tx_seq_def by (rule aside_bind)

lemma aside_each: "(\<And>x. aside (f x)) \<Longrightarrow> aside (tx_each f xs)"
  by (induction xs) (auto intro: tx_rules)

lemma aside_statement: "(\<And>d. core (f d) = core d) \<Longrightarrow> aside (statement pg f)"
  by (auto simp: aside_def statement_def split: option.splits)

lemma does_aside: "aside m \<Longrightarrow> does P m"
  by (auto simp: does_def aside_def)

lemma does_ret: "does P (tx_ret a)"
  by (rule does_aside, rule aside_ret)

lemma tx_bindE:
  assumes "tx_bind m f d = Inr (b, d'')"
  obtains a d' where "m d = Inr (a, d')" "f a d' = Inr (b, d'')"
  using assms by (auto simp: tx_bind_def split: sum.splits)

lemma does_bind: "does P m \<Longrightarrow> (\<And>a. does (\<lambda>_. True) (f a)) \<Longrightarrow> does P (tx_bind m f)"
  unfolding does_def by (metis tx_bindE rtranclp_trans tree_steps_keys)

lemma does_seq: "does P m \<Longrightarrow> does (\<lambda>_. True) n \<Longrightarrow> does P (tx_seq m n)"
  unfolding tx_seq_def by (rule does_bind)

lemma does_after: "aside m \<Longrightarrow> (\<And>a. does P (f a)) \<Longrightarrow> does P (tx_bind m f)"
  unfolding does_def aside_def by (metis tx_bindE)

lemma does_after_seq: "aside m \<Longrightarrow> does P n \<Longrightarrow> does P (tx_seq m n)"
  unfolding tx_seq_def by (rule does_after)

lemma does_read:
  assumes "\<And>x. does (\<lambda>s. P s \<and> (\<exists>d. core d = s \<and> g d = x)) (f x)"
  shows "does P (tx_bind (tx_get g) f)"
proof (unfold does_def, intro allI impI)
  fix d a d'
  assume "keysOk (core d)" "P (core d)" "tx_bind (tx_get g) f d = Inr (a, d')"
  moreover from this(3) have "f (g d) d = Inr (a, d')" by (simp add: tx_bind_def tx_get_def)
  ultimately show "tree_steps (core d) (core d')"
    using assms [of "g d"] unfolding does_def by blast
qed

lemma does_each: "(\<And>x. does (\<lambda>_. True) (f x)) \<Longrightarrow> does P (tx_each f xs)"
proof (induction xs arbitrary: P)
  case Nil
  then show ?case by (simp add: does_ret)
next
  case (Cons x xs)
  have "does P (f x)" using Cons.prems [of x] by (auto simp: does_def)
  then show ?case using Cons by (auto intro: does_seq)
qed

lemma does_weaken: "does Q m \<Longrightarrow> (\<And>s. keysOk s \<Longrightarrow> P s \<Longrightarrow> Q s) \<Longrightarrow> does P m"
  by (auto simp: does_def)

lemma aside_uuid [tx_rules]: "aside (randomUUID pg)"
  by (auto simp: aside_def randomUUID_def core_def)

lemma aside_upsert: "aside (upsertBlob pg u sha f)"
  by (auto simp: upsertBlob_def core_def intro: aside_statement)

lemma aside_claim [tx_rules]: "aside (claimBlob pg u sha)" and aside_bindBlob [tx_rules]: "aside (bindBlob pg u sha)"
  by (simp_all add: claimBlob_def bindBlob_def aside_upsert)

lemma aside_drop [tx_rules]: "aside (dropUnreferenced pg u)"
  by (auto simp: dropUnreferenced_def core_def intro: aside_statement)

lemma aside_version [tx_rules]: "aside (recordVersion pg v n rv sha sz au at)"
  by (auto simp: recordVersion_def aside_def statement_def core_def split: option.splits if_splits)

lemma aside_material [tx_rules]: "aside (writeMaterial pg m)"
  by (auto simp: writeMaterial_def writeEnvelope_def writeTag_def core_def intro!: aside_seq aside_each aside_statement split: prod.splits)

lemma aside_freeze [tx_rules]: "aside (freezeIfOverQuota pg u)"
  by (auto simp: freezeIfOverQuota_def aside_def statement_def core_def tx_bind_def tx_ret_def split: option.splits if_splits prod.splits)

subsection \<open>The statements of a revision\<close>

lemma nextRev_Inr:
  assumes "nextRev pg v d = Inr (rv, d')"
  shows "headOf (core d) v = Some (rv - 1) \<and> 0 < rv \<and> core d' = bump v (core d) \<and> db_nodes d' = db_nodes d"
  using assms by (auto simp: nextRev_def tx_bind_def tx_ret_def statement_def core_def bump_def headOf_def vaultRow_def
      split: option.splits sum.splits)

lemma updateNode_Inr:
  assumes "updateNode pg v n f d = Inr (u, d')"
  shows "core d' = rewriteNode v n f (core d) \<and> (\<forall>old. nodeRow d v n = Some old \<longrightarrow> rowTriggers d (Some old) (f old) = None)"
proof (cases "nodeRow d v n")
  case None
  then have "(if nr_vault r = v \<and> nr_id r = n then f r else r) = r" if "r \<in> set (db_nodes d)" for r
    using that by (auto simp: nodeRow_def find_None_iff)
  then have "map (\<lambda>r. if nr_vault r = v \<and> nr_id r = n then f r else r) (db_nodes d) = db_nodes d"
    by (simp add: map_idI)
  with None assms show ?thesis by (simp add: updateNode_def rewriteNode_def core_def)
next
  case (Some old)
  with assms show ?thesis
    by (auto simp: updateNode_def rewriteNode_def core_def statement_def setNode_def split: option.splits)
qed

lemma journalEntry_Inr:
  assumes "journalEntry pg v rv n op prev d = Inr (u, d')"
  obtains j where "jr_vault j = v" "jr_rev j = rv" "jr_node j = n" "core d' = log j (core d)"
proof -
  let ?j = "\<lparr>jr_vault = v, jr_rev = rv, jr_node = n, jr_prev = prev, jr_op = op, jr_node_rev = Some rv, jr_at = db_now d\<rparr>"
  from assms have "core d' = log ?j (core d)"
    by (auto simp: journalEntry_def Let_def statement_def core_def log_def split: option.splits)
  then show ?thesis by (intro that [of ?j]) simp_all
qed

lemma insertNode_Inr:
  assumes "insertNode pg r d = Inr (u, d')"
  shows "rowTriggers d None r = None \<and> core d' = addNode r (core d)"
  using assms by (auto simp: insertNode_def statement_def core_def addNode_def split: option.splits)

lemma rewriteSubtreeAncestry_Inr:
  assumes "rewriteSubtreeAncestry pg v n anc d = Inr (u, d')"
  shows "core d' = rewriteBelow v n anc (core d)"
  using assms by (auto simp: rewriteSubtreeAncestry_def statement_def core_def rewriteBelow_def split: option.splits)

lemma randomUUID_Inr: "randomUUID pg d = Inr (u, d') \<Longrightarrow> core d' = core d"
  using aside_uuid by (auto simp: aside_def)

lemma core_nodes_eq: "core d' = core d \<Longrightarrow> db_nodes d' = db_nodes d"
  by (simp add: core_def)

lemma rowTriggers_None:
  assumes "rowTriggers d old r = None"
  shows "\<not> underItself d r \<and> (old = None \<longrightarrow> nodeRow d (nr_vault r) (nr_id r) = None)"
  using assms by (auto simp: rowTriggers_def split: if_splits)

lemma stamp_block:
  assumes "nextRev pg v d = Inr (rv, d1)" "updateNode pg v n f d1 = Inr (u, d2)" "journalEntry pg v rv n op prev d2 = Inr (u', d3)"
    and f: "\<And>r. nr_vault (f r) = nr_vault r \<and> nr_id (f r) = nr_id r \<and> nr_parent (f r) = nr_parent r \<and>
       nr_ancestry (f r) = nr_ancestry r \<and> nr_rev (f r) = rv"
  shows "tree_step (core d) (core d3)"
proof -
  from nextRev_Inr [OF assms(1)] have h: "headOf (core d) v = Some (rv - 1)" "rv = Suc (rv - 1)" "core d1 = bump v (core d)" by auto
  from updateNode_Inr [OF assms(2)] h(3) have 2: "core d2 = rewriteNode v n f (bump v (core d))" by simp
  from journalEntry_Inr [OF assms(3)] obtain j where j: "jr_vault j = v" "jr_rev j = rv" "jr_node j = n" "core d3 = log j (core d2)" .
  show ?thesis unfolding j(4) 2
    by (rule tree_step.stamp [OF h(1) _ j(1) _ j(3)]) (use f h(2) j(2) in auto)
qed

lemma plant_block:
  assumes "nextRev pg v d = Inr (rv, d1)" "core d1' = core d1" "insertNode pg r d1' = Inr (u, d2)"
    "journalEntry pg v rv (nr_id r) op prev d2 = Inr (u', d3)"
    and r: "nr_vault r = v" "nr_rev r = rv" "nr_parent r = Some p" "nodeRow d v p = Some q" "nr_ancestry r = nr_ancestry q @ [p]"
  shows "tree_step (core d) (core d3)"
proof -
  from nextRev_Inr [OF assms(1)] have h: "headOf (core d) v = Some (rv - 1)" "rv = Suc (rv - 1)" "core d1 = bump v (core d)"
    "db_nodes d1 = db_nodes d" by auto
  from insertNode_Inr [OF assms(3)] have 2: "core d2 = addNode r (bump v (core d))" and new: "nodeRow d1' v (nr_id r) = None"
    using h(3) assms(2) r(1) rowTriggers_None by auto
  from new core_nodes_eq [OF assms(2)] h(4) have "nodeRow d v (nr_id r) = None" by (simp add: nodeRow_def)
  then have new: "nodeIn (core d) v (nr_id r) = None" by simp
  from journalEntry_Inr [OF assms(4)] obtain j where j: "jr_vault j = v" "jr_rev j = rv" "jr_node j = nr_id r" "core d3 = log j (core d2)" .
  show ?thesis unfolding j(4) 2
    by (rule tree_step.plant [OF h(1) r(1) _ r(3) _ r(5) new j(1) _ j(3)]) (use r h(2) j(2) in auto)
qed

lemma shift_block:
  assumes "nextRev pg v d = Inr (rv, d1)" "updateNode pg v n f d1 = Inr (u, d2)" "rewriteSubtreeAncestry pg v n anc d2 = Inr (u', d3)"
    "journalEntry pg v rv n op prev d3 = Inr (u'', d4)"
    and n: "nodeRow d v n = Some row" and p: "nodeRow d v p = Some q" "anc = nr_ancestry q @ [p]"
    and f: "\<And>r. nr_vault (f r) = nr_vault r \<and> nr_id (f r) = nr_id r \<and> nr_parent (f r) = Some p \<and>
       nr_ancestry (f r) = anc \<and> nr_rev (f r) = rv"
  shows "tree_step (core d) (core d4)"
proof -
  from nextRev_Inr [OF assms(1)] have h: "headOf (core d) v = Some (rv - 1)" "rv = Suc (rv - 1)" "core d1 = bump v (core d)"
    "db_nodes d1 = db_nodes d" by auto
  from h(4) have rows: "nodeRow d1 = nodeRow d" by (simp add: nodeRow_def fun_eq_iff)
  from updateNode_Inr [OF assms(2)] n rows have 2: "core d2 = rewriteNode v n f (bump v (core d))"
    and ok: "\<not> underItself d1 (f row)" using h(3) rowTriggers_None by auto
  from n have row: "nr_vault row = v \<and> nr_id row = n" by (auto simp: nodeRow_def find_Some_iff)
  with ok f [of row] p(1) rows have out: "p \<noteq> n" "n \<notin> set (nr_ancestry q)" by (auto simp: underItself_def)
  from rewriteSubtreeAncestry_Inr [OF assms(3)] 2 have 3: "core d3 = rewriteBelow v n anc (rewriteNode v n f (bump v (core d)))" by simp
  from journalEntry_Inr [OF assms(4)] obtain j where j: "jr_vault j = v" "jr_rev j = rv" "jr_node j = n" "core d4 = log j (core d3)" .
  show ?thesis unfolding j(4) 3
    by (rule tree_step.shift [OF h(1) _ out p(2) _ j(1) _ j(3)]) (use f p h(2) j(2) in auto)
qed

subsection \<open>The handlers refine the machine\<close>

lemma tx_seqE:
  assumes "tx_seq m n d = Inr (b, d'')"
  obtains u d' where "m d = Inr (u, d')" "n d' = Inr (b, d'')"
  using assms unfolding tx_seq_def by (elim tx_bindE)

lemma does_stamp:
  assumes f: "\<And>rv r. nr_vault (f rv r) = nr_vault r \<and> nr_id (f rv r) = nr_id r \<and> nr_parent (f rv r) = nr_parent r \<and>
       nr_ancestry (f rv r) = nr_ancestry r \<and> nr_rev (f rv r) = rv"
    and rest: "\<And>rv. does (\<lambda>_. True) (rest rv)"
  shows "does P (tx_bind (nextRev pg v) (\<lambda>rv. tx_seq (updateNode pg v n (f rv)) (tx_seq (journalEntry pg v rv n op prev) (rest rv))))"
proof (unfold does_def, intro allI impI)
  fix d a d'
  assume keys: "keysOk (core d)"
  assume "tx_bind (nextRev pg v) (\<lambda>rv. tx_seq (updateNode pg v n (f rv)) (tx_seq (journalEntry pg v rv n op prev) (rest rv))) d = Inr (a, d')"
  then obtain rv d1 u d2 u' d3 where b: "nextRev pg v d = Inr (rv, d1)" "updateNode pg v n (f rv) d1 = Inr (u, d2)"
    "journalEntry pg v rv n op prev d2 = Inr (u', d3)" "rest rv d3 = Inr (a, d')"
    by (elim tx_bindE tx_seqE) blast
  from stamp_block [OF b(1-3)] f have "tree_step (core d) (core d3)" by blast
  moreover from this keys have "keysOk (core d3)" by (rule tree_step_keys)
  with rest b(4) have "tree_steps (core d3) (core d')" by (auto simp: does_def)
  ultimately show "tree_steps (core d) (core d')" by (rule converse_rtranclp_into_rtranclp)
qed

lemma does_plant:
  assumes r: "\<And>rv n. nr_vault (r rv n) = v \<and> nr_id (r rv n) = n \<and> nr_rev (r rv n) = rv \<and> nr_parent (r rv n) = Some p \<and>
       nr_ancestry (r rv n) = anc @ [p]"
    and rest: "\<And>rv n. does (\<lambda>_. True) (rest rv n)"
  shows "does (\<lambda>s. \<exists>q. nodeIn s v p = Some q \<and> nr_ancestry q = anc)
     (tx_bind (nextRev pg v) (\<lambda>rv. tx_bind (randomUUID pg) (\<lambda>n. tx_seq (insertNode pg (r rv n))
       (tx_seq (journalEntry pg v rv n op prev) (rest rv n)))))"
proof (unfold does_def, intro allI impI)
  fix d a d'
  assume keys: "keysOk (core d)"
  assume "\<exists>q. nodeIn (core d) v p = Some q \<and> nr_ancestry q = anc"
  then obtain q where q: "nodeRow d v p = Some q" "nr_ancestry q = anc" by auto
  assume "tx_bind (nextRev pg v) (\<lambda>rv. tx_bind (randomUUID pg) (\<lambda>n. tx_seq (insertNode pg (r rv n))
       (tx_seq (journalEntry pg v rv n op prev) (rest rv n)))) d = Inr (a, d')"
  then obtain rv d1 n d1' u d2 u' d3 where b: "nextRev pg v d = Inr (rv, d1)" "randomUUID pg d1 = Inr (n, d1')"
    "insertNode pg (r rv n) d1' = Inr (u, d2)" "journalEntry pg v rv n op prev d2 = Inr (u', d3)" "rest rv n d3 = Inr (a, d')"
    by (elim tx_bindE tx_seqE) blast
  from b(4) r have b4: "journalEntry pg v rv (nr_id (r rv n)) op prev d2 = Inr (u', d3)" by simp
  from plant_block [OF b(1) randomUUID_Inr [OF b(2)] b(3) b4 _ _ _ q(1)] r q have "tree_step (core d) (core d3)" by simp
  moreover from this keys have "keysOk (core d3)" by (rule tree_step_keys)
  with rest b(5) have "tree_steps (core d3) (core d')" by (auto simp: does_def)
  ultimately show "tree_steps (core d) (core d')" by (rule converse_rtranclp_into_rtranclp)
qed

lemma does_shift_get:
  assumes f: "\<And>rv r. nr_vault (f rv r) = nr_vault r \<and> nr_id (f rv r) = nr_id r \<and> nr_parent (f rv r) = Some p \<and>
       nr_ancestry (f rv r) = anc @ [p] \<and> nr_rev (f rv r) = rv"
    and rest: "\<And>rv. does (\<lambda>_. True) (rest rv)"
  shows "does (\<lambda>s. (\<exists>q. nodeIn s v p = Some q \<and> nr_ancestry q = anc) \<and> nodeIn s v n \<noteq> None)
     (tx_bind (nextRev pg v) (\<lambda>rv. tx_bind (tx_get g) (\<lambda>prev. tx_seq (updateNode pg v n (f rv))
       (tx_seq (rewriteSubtreeAncestry pg v n (anc @ [p])) (tx_seq (journalEntry pg v rv n op prev) (rest rv))))))"
proof (unfold does_def, intro allI impI)
  fix d a d'
  assume keys: "keysOk (core d)"
  assume "(\<exists>q. nodeIn (core d) v p = Some q \<and> nr_ancestry q = anc) \<and> nodeIn (core d) v n \<noteq> None"
  then obtain q row where q: "nodeRow d v p = Some q" "nr_ancestry q = anc" "nodeRow d v n = Some row" by auto
  assume "tx_bind (nextRev pg v) (\<lambda>rv. tx_bind (tx_get g) (\<lambda>prev. tx_seq (updateNode pg v n (f rv))
       (tx_seq (rewriteSubtreeAncestry pg v n (anc @ [p])) (tx_seq (journalEntry pg v rv n op prev) (rest rv))))) d = Inr (a, d')"
  then obtain rv d1 prev u d2 u' d3 u'' d4 where b: "nextRev pg v d = Inr (rv, d1)" "updateNode pg v n (f rv) d1 = Inr (u, d2)"
    "rewriteSubtreeAncestry pg v n (anc @ [p]) d2 = Inr (u', d3)" "journalEntry pg v rv n op prev d3 = Inr (u'', d4)" "rest rv d4 = Inr (a, d')"
    by (elim tx_bindE tx_seqE) (auto simp: tx_get_def)
  from shift_block [OF b(1-4) q(3,1) _ f] q have "tree_step (core d) (core d4)" by simp
  moreover from this keys have "keysOk (core d4)" by (rule tree_step_keys)
  with rest b(5) have "tree_steps (core d4) (core d')" by (auto simp: does_def)
  ultimately show "tree_steps (core d) (core d')" by (rule converse_rtranclp_into_rtranclp)
qed

lemma bind_get_const: "tx_bind (tx_get (\<lambda>_. x)) f = f x"
  by (rule ext) (simp add: tx_bind_def tx_get_def)

lemmas does_shift = does_shift_get [where g = "\<lambda>_. prev" for prev, unfolded bind_get_const]

subsection \<open>Fan-out\<close>

lemma does_counterpart:
  assumes "does P (k None)"
    "\<And>c r. nr_vault r = v \<Longrightarrow> nr_id r = cp_id c \<Longrightarrow> nr_ancestry r = cp_ancestry c \<Longrightarrow>
       does (\<lambda>s. P s \<and> nodeIn s v (cp_id c) = Some r) (k (Some c))"
  shows "does P (tx_bind (counterpartOf v item del) k)"
proof (unfold does_def, intro allI impI)
  fix d a d'
  assume d: "keysOk (core d)" "P (core d)" and run: "tx_bind (counterpartOf v item del) k d = Inr (a, d')"
  let ?f = "find (\<lambda>r. nr_vault r = v \<and> nr_item r = Some item \<and> (del \<or> nr_deleted r = None)) (db_nodes d)"
  show "tree_steps (core d) (core d')"
  proof (cases ?f)
    case None
    with run have "k None d = Inr (a, d')" by (simp add: counterpartOf_def tx_bind_def tx_get_def)
    with assms(1) d show ?thesis by (auto simp: does_def)
  next
    case (Some r)
    let ?c = "\<lparr>cp_id = nr_id r, cp_ancestry = nr_ancestry r\<rparr>"
    from Some run have k: "k (Some ?c) d = Inr (a, d')" by (simp add: counterpartOf_def tx_bind_def tx_get_def)
    from Some have r: "r \<in> set (db_nodes d)" "nr_vault r = v" by (auto simp: find_Some_iff)
    with keysOk_find [of "core d" r] d(1) have "nodeIn (core d) v (cp_id ?c) = Some r" by simp
    with assms(2) [of r ?c] r d k show ?thesis by (auto simp: does_def)
  qed
qed

lemma does_putOne: "does (\<lambda>_. True) (putOne pg item i t)"
proof (cases t)
  case (Pair u v)
  show ?thesis unfolding putOne_def Pair prod.case
  proof (rule does_counterpart, goal_cases)
    case 1
    show ?case by (simp add: does_ret)
  next
    case (2 c r)
    show ?case unfolding option.case by (rule does_stamp) (auto intro!: does_aside tx_rules)
  qed
qed

lemma does_createCounterpart:
  "does (\<lambda>s. \<exists>q. nodeIn s v (cp_id p) = Some q \<and> nr_ancestry q = cp_ancestry p) (createCounterpart pg v share p item)"
  unfolding createCounterpart_def Let_def by (intro does_plant does_ret) simp_all

lemma does_createOne: "does (\<lambda>_. True) (createOne pg item share i pi t)"
proof (cases t)
  case (Pair u v)
  show ?thesis unfolding createOne_def Pair prod.case
  proof (rule does_counterpart, goal_cases)
    case 1
    show ?case by (simp add: does_ret)
  next
    case (2 c r)
    show ?case unfolding option.case
    proof (rule does_bind, goal_cases)
      case 1
      from 2 show ?case by (intro does_weaken [OF does_createCounterpart]) auto
    next
      case (2 a)
      show ?case by (cases a; cases "ri_sha256 item"; cases "ri_size item") (auto intro!: does_aside tx_rules)
    qed
  qed
qed

lemma does_moveCounterpart:
  "does (\<lambda>s. (\<exists>q. nodeIn s v (cp_id p) = Some q \<and> nr_ancestry q = cp_ancestry p) \<and> nodeIn s v n \<noteq> None)
     (moveCounterpart pg v n p name un)"
  unfolding moveCounterpart_def Let_def by (intro does_shift_get does_ret) simp_all

lemma does_moveOne: "does (\<lambda>_. True) (moveOne pg item i pi t)"
proof (cases t)
  case (Pair u v)
  show ?thesis unfolding moveOne_def Pair prod.case
  proof (rule does_counterpart, goal_cases)
    case 1
    show ?case by (simp add: does_aside counterpartOf_def tx_rules)
  next
    case (2 c r)
    show ?case
    proof (rule does_counterpart, goal_cases)
      case 1
      show ?case by (simp add: does_ret)
    next
      case (2 c' r')
      then show ?case unfolding prod.case option.case
        by (intro does_bind does_ret does_weaken [OF does_moveCounterpart]) auto
    qed
  qed
qed

lemma does_deleteOne: "does (\<lambda>_. True) (deleteOne pg i t)"
proof (cases t)
  case (Pair u v)
  show ?thesis unfolding deleteOne_def Pair prod.case
  proof (rule does_counterpart, goal_cases)
    case 1
    show ?case by (simp add: does_ret)
  next
    case (2 c r)
    show ?case unfolding option.case by (rule does_read, rule does_stamp) (simp_all add: does_ret)
  qed
qed

lemma does_undeleteOne: "does (\<lambda>_. True) (undeleteOne pg i t)"
proof (cases t)
  case (Pair u v)
  have "does P (case x of None \<Rightarrow> tx_ret () | Some n \<Rightarrow> tx_bind (nextRev pg v) (\<lambda>rv.
           tx_seq (updateNode pg v (nr_id n) (\<lambda>r. r\<lparr>nr_deleted := None, nr_rev := rv\<rparr>))
           (tx_seq (journalEntry pg v rv (nr_id n) OpPut None) (tx_ret ()))))" for P x
    by (cases x) (auto intro!: does_ret does_stamp)
  then show ?thesis unfolding undeleteOne_def Pair prod.case by (rule does_read)
qed

lemma does_propagate: "does (\<lambda>_. True) (propagate pg share i e t)"
  by (cases e) (simp_all add: does_putOne does_createOne does_moveOne does_deleteOne does_undeleteOne)

lemma does_fanOut: "does (\<lambda>_. True) (fanOut pg e)"
proof (cases "\<not> truthy (eventShare e) \<or> \<not> truthy (eventItem e) \<or> lacksParent e")
  case True
  then show ?thesis by (auto simp: fanOut_def does_ret)
next
  case False
  have "does (\<lambda>_. True) (tx_bind (fanoutTargets x y) (tx_each (propagate pg share i e)))" for x y share i
    unfolding fanoutTargets_def by (intro does_read does_each does_propagate)
  with False show ?thesis by (simp add: fanOut_def)
qed

subsection \<open>The handlers\<close>

lemma does_state: "(\<And>x. does (\<lambda>s. s = core x) (F x)) \<Longrightarrow> does P (reading F)"
  by (auto simp: does_def reading_def)

lemma does_refuse: "does P (tx_refuse r)"
  by (simp add: tx_refuse_def does_ret)

lemma liveNode_in: "keysOk (core d) \<Longrightarrow> liveNode d v n = Some r \<Longrightarrow> nodeRow d v n = Some r"
  using keysOk_find [of "core d" r] by (auto simp: liveNode_def find_Some_iff)

lemma does_fan_ret: "does (\<lambda>_. True) (tx_seq (fanOut pg e) (tx_ret a))"
  by (intro does_seq does_fanOut does_ret)

lemma aside_bindContent: "aside (bindContent pg input n rv owner)"
  by (cases "ci_size input") (auto simp: bindContent_def intro: tx_rules)

lemma does_createBody: "does (\<lambda>_. True) (createBody pg input)"
  unfolding createBody_def
proof (rule does_state, goal_cases)
  case (1 x)
  let ?v = "ci_vaultId input" and ?p = "ci_parentId input"
  show ?case
  proof (cases "\<exists>owner into. ownerAndFrozen x ?v = OwnerOk owner \<and> liveNode x ?v ?p = Some into")
    case False
    then show ?thesis by (cases "ownerAndFrozen x ?v"; cases "liveNode x ?v ?p") (simp_all add: does_refuse)
  next
    case True
    then obtain owner into where own: "ownerAndFrozen x ?v = OwnerOk owner" and into: "liveNode x ?v ?p = Some into" by blast
    show ?thesis unfolding own into owner_access.case option.case
    proof (rule does_after, goal_cases)
      case 1
      show ?case by (auto intro: tx_rules)
    next
      case (2 i)
      show ?case
        by (rule does_after_seq [OF aside_material], rule does_weaken, rule does_plant [where anc = "nr_ancestry into"])
          (use into liveNode_in in \<open>auto intro!: does_after_seq aside_bindContent does_fan_ret\<close>)
    qed
  qed
qed

lemma does_putBody: "does (\<lambda>_. True) (putBody pg input)"
  unfolding putBody_def
proof (rule does_state, goal_cases)
  case (1 x)
  show ?case
    by (auto simp: does_refuse split: owner_access.splits option.splits
        intro!: does_after_seq aside_material does_stamp aside_version aside_bindBlob does_fan_ret)
qed

lemma does_deleteBody: "does (\<lambda>_. True) (deleteBody pg v n rv)"
  unfolding deleteBody_def
proof (rule does_state, goal_cases)
  case (1 x)
  show ?case
    by (auto simp: does_refuse split: option.splits intro!: does_stamp does_fan_ret)
qed

lemma does_moveBody: "does (\<lambda>_. True) (moveBody pg input)"
  unfolding moveBody_def
proof (rule does_state, goal_cases)
  case (1 x)
  have go: "does (\<lambda>s. s = core x) (tx_bind (nextRev pg (mi_vaultId input)) (\<lambda>rv.
      tx_seq (updateNode pg (mi_vaultId input) (mi_nodeId input) (\<lambda>r.
        r\<lparr>nr_parent := Some (mi_parentId input), nr_name_enc := Some (in_nameEnc input), nr_name_hmac := Some (in_nameHmac input),
          nr_name_key := Some (in_nameKeyId input), nr_rev := rv, nr_ancestry := nr_ancestry dest @ [mi_parentId input]\<rparr>))
      (tx_seq (rewriteSubtreeAncestry pg (mi_vaultId input) (mi_nodeId input) (nr_ancestry dest @ [mi_parentId input]))
      (tx_seq (journalEntry pg (mi_vaultId input) rv (mi_nodeId input) OpMove prev)
      (tx_seq (fanOut pg e) (tx_ret (Inr rv)))))))"
    if "liveNode x (mi_vaultId input) (mi_parentId input) = Some dest" "liveNode x (mi_vaultId input) (mi_nodeId input) = Some row"
    for dest row prev e
    by (rule does_weaken, rule does_shift) (use that liveNode_in in \<open>auto intro!: does_fan_ret\<close>)
  show ?case
    by (auto simp: does_refuse Let_def split: option.splits intro!: go)
qed

lemma txGuarded_steps:
  assumes "does (\<lambda>_. True) body" "keysOk (core d)"
  shows "tree_steps (core d) (core (snd (txGuarded pg body d)))"
  using assms by (cases rule: txGuarded_cases [of body d pg]) (auto simp: does_def)

end
