(* ===== verification/Server_Invariants.thy ===== *)
theory Server_Invariants
  imports Server_Steps
begin

text \<open>
  What every write keeps of a store: a row's ancestry is its parent chain (the fact the schema only
  verifies), no revision is beyond its vault's head, and the journal names every row's newest revision,
  so that a delta read from the journal misses nothing. Proved on the machine of \<open>Server_Steps\<close> by
  rule induction, then for every store the handlers reach.
\<close>

subsection \<open>The ancestry is the parent chain\<close>

definition chainOk :: "store \<Rightarrow> node_row \<Rightarrow> bool" where
  "chainOk s r \<longleftrightarrow>
     (case nr_parent r of
        None \<Rightarrow> nr_ancestry r = []
      | Some p \<Rightarrow> (\<exists>q\<in>set (st_nodes s). nr_vault q = nr_vault r \<and> nr_id q = p \<and> nr_ancestry r = nr_ancestry q @ [p]))"

definition chains :: "store \<Rightarrow> bool" where
  "chains s \<longleftrightarrow> list_all (chainOk s) (st_nodes s)"

lemma chainsD: "chains s \<Longrightarrow> r \<in> set (st_nodes s) \<Longrightarrow> chainOk s r"
  by (simp add: chains_def list_all_iff)

lemma nodeIn_Some: "nodeIn s v n = Some r \<Longrightarrow> r \<in> set (st_nodes s) \<and> nr_vault r = v \<and> nr_id r = n"
  by (auto simp: nodeIn_def find_Some_iff)

lemma same_key:
  assumes "keysOk s" "a \<in> set (st_nodes s)" "b \<in> set (st_nodes s)" "nr_vault a = nr_vault b" "nr_id a = nr_id b"
  shows "a = b"
  by (metis keysOk_find [OF assms(1,2)] keysOk_find [OF assms(1,3)] assms(4,5) option.inject)

lemma chainOk_snoc:
  assumes "chainOk s r" "nr_ancestry r = a @ [x]"
  shows "\<exists>q\<in>set (st_nodes s). nr_vault q = nr_vault r \<and> nr_id q = x \<and> nr_ancestry q = a"
proof (cases "nr_parent r")
  case None
  with assms show ?thesis by (simp add: chainOk_def)
next
  case (Some p)
  with assms(1) obtain q where q: "q \<in> set (st_nodes s)" "nr_vault q = nr_vault r" "nr_id q = p" and "nr_ancestry r = nr_ancestry q @ [p]"
    by (auto simp: chainOk_def)
  with assms(2) have "nr_ancestry q = a" "p = x" by simp_all
  with q show ?thesis by blast
qed

lemma ancestor_row:
  assumes "keysOk s" "chains s" "r \<in> set (st_nodes s)" "nr_ancestry r = a @ x # b"
  shows "\<exists>q\<in>set (st_nodes s). nr_vault q = nr_vault r \<and> nr_id q = x \<and> nr_ancestry q = a"
  using assms(3,4)
proof (induction b arbitrary: r rule: rev_induct)
  case Nil
  with chainOk_snoc [OF chainsD [OF assms(2) Nil(1)]] show ?case by blast
next
  case (snoc y b)
  from chainOk_snoc [OF chainsD [OF assms(2) snoc.prems(1)], of "a @ x # b" y] snoc.prems(2)
  obtain q where q: "q \<in> set (st_nodes s)" "nr_vault q = nr_vault r" "nr_ancestry q = a @ x # b" by auto
  from snoc.IH [OF q(1,3)] show ?case unfolding q(2) .
qed

lemma not_own_ancestor:
  assumes "keysOk s" "chains s" "r \<in> set (st_nodes s)"
  shows "nr_id r \<notin> set (nr_ancestry r)"
proof
  assume "nr_id r \<in> set (nr_ancestry r)"
  then obtain a b where ab: "nr_ancestry r = a @ nr_id r # b" by (meson split_list)
  from ancestor_row [OF assms this] same_key [OF assms(1) _ assms(3)] have "nr_ancestry r = a" by auto
  with ab show False by simp
qed

lemma below_append: "n \<notin> set a \<Longrightarrow> below n (a @ n # b) = b"
  by (induction a) (auto simp: below_def)

lemma below_snoc: "n \<in> set xs \<Longrightarrow> below n (xs @ [y]) = below n xs @ [y]"
  by (induction xs) (auto simp: below_def)

text \<open>A shift rewrites the moved row's subtree to hang below the new place.\<close>

definition moved :: "string \<Rightarrow> string \<Rightarrow> string list \<Rightarrow> (node_row \<Rightarrow> node_row) \<Rightarrow> node_row \<Rightarrow> node_row" where
  "moved v n anc f r =
     (let r' = (if nr_vault r = v \<and> nr_id r = n then f r else r)
      in if nr_vault r' = v \<and> n \<in> set (nr_ancestry r')
         then r'\<lparr>nr_ancestry := anc @ n # below n (nr_ancestry r')\<rparr> else r')"

lemma shifted_nodes: "st_nodes (rewriteBelow v n anc (rewriteNode v n f (bump v s))) = map (moved v n anc f) (st_nodes s)"
  by (simp add: moved_def Let_def)

lemma chains_shift:
  assumes s: "keysOk s" "chains s" and q: "nodeIn s v p = Some q" and out: "p \<noteq> n" "n \<notin> set (nr_ancestry q)"
    and anc: "anc = nr_ancestry q @ [p]"
    and f: "\<And>r. nr_vault (f r) = nr_vault r \<and> nr_id (f r) = nr_id r \<and> nr_parent (f r) = Some p \<and> nr_ancestry (f r) = anc"
    and nodes: "st_nodes s' = map (moved v n anc f) (st_nodes s)"
  shows "chains s'"
proof -
  let ?m = "moved v n anc f"
  have keep: "nr_vault (?m r) = nr_vault r \<and> nr_id (?m r) = nr_id r" for r using f by (auto simp: moved_def Let_def)
  have nanc: "n \<notin> set anc" using out anc by simp
  have self: "?m r = f r" if "nr_vault r = v" "nr_id r = n" for r
    using that f nanc by (auto simp: moved_def Let_def)
  have other: "?m r = (if nr_vault r = v \<and> n \<in> set (nr_ancestry r) then r\<lparr>nr_ancestry := anc @ n # below n (nr_ancestry r)\<rparr> else r)"
    if "\<not> (nr_vault r = v \<and> nr_id r = n)" for r
    using that by (auto simp: moved_def Let_def)
  from nodeIn_Some [OF q] have q': "q \<in> set (st_nodes s)" "nr_vault q = v" "nr_id q = p" by auto
  have mq: "?m q = q" using other [of q] q' out by auto
  have "chainOk s' (?m r)" if r: "r \<in> set (st_nodes s)" for r
  proof (cases "nr_vault r = v \<and> nr_id r = n")
    case True
    have "q \<in> set (st_nodes s')" using q'(1) mq by (auto simp: nodes image_iff intro: bexI [of _ q])
    with True f anc q' self [of r] show ?thesis by (auto simp: chainOk_def)
  next
    case False
    have parent: "nr_parent (?m r) = nr_parent r" using other [OF False] by simp
    show ?thesis
    proof (cases "nr_parent r")
      case None
      with chainsD [OF s(2) r] have "nr_ancestry r = []" by (simp add: chainOk_def)
      with None other [OF False] show ?thesis by (simp add: chainOk_def)
    next
      case (Some p')
      with chainsD [OF s(2) r] obtain t where t: "t \<in> set (st_nodes s)" "nr_vault t = nr_vault r" "nr_id t = p'"
        "nr_ancestry r = nr_ancestry t @ [p']" by (auto simp: chainOk_def)
      have "nr_ancestry (?m r) = nr_ancestry (?m t) @ [p']"
      proof (cases "nr_vault r = v \<and> p' = n")
        case True
        then have "n \<notin> set (nr_ancestry t)" using not_own_ancestor [OF s t(1)] t(3) by simp
        with True t f self [of t] other [OF False] show ?thesis by (simp add: below_append)
      next
        case p': False
        with t other [OF False] other [of t] show ?thesis by (auto simp: below_snoc)
      qed
      moreover have "?m t \<in> set (st_nodes s')" using t(1) by (simp add: nodes)
      ultimately show ?thesis
        unfolding chainOk_def parent Some option.case using keep [of r] keep [of t] t by (intro bexI [of _ "?m t"]) simp_all
    qed
  qed
  then show ?thesis by (auto simp: chains_def list_all_iff nodes)
qed

lemma chains_stamp:
  assumes "chains s" and f: "\<And>r. nr_vault (f r) = nr_vault r \<and> nr_id (f r) = nr_id r \<and> nr_parent (f r) = nr_parent r \<and> nr_ancestry (f r) = nr_ancestry r"
    and nodes: "st_nodes s' = map (\<lambda>r. if nr_vault r = v \<and> nr_id r = n then f r else r) (st_nodes s)"
  shows "chains s'"
proof -
  let ?m = "\<lambda>r. if nr_vault r = v \<and> nr_id r = n then f r else r"
  have keep: "nr_vault (?m r) = nr_vault r \<and> nr_id (?m r) = nr_id r \<and> nr_parent (?m r) = nr_parent r \<and> nr_ancestry (?m r) = nr_ancestry r" for r
    using f by simp
  have "chainOk s' (?m r)" if r: "r \<in> set (st_nodes s)" for r
  proof (cases "nr_parent r")
    case None
    with keep [of r] chainsD [OF assms(1) r] show ?thesis by (simp add: chainOk_def)
  next
    case (Some p)
    with chainsD [OF assms(1) r] obtain q where q: "q \<in> set (st_nodes s)" "nr_vault q = nr_vault r" "nr_id q = p"
      "nr_ancestry r = nr_ancestry q @ [p]" by (auto simp: chainOk_def)
    have "?m q \<in> set (st_nodes s')" using q(1) by (simp only: nodes set_map) (rule imageI)
    with q keep [of q] keep [of r] Some have "\<exists>t\<in>set (st_nodes s'). nr_vault t = nr_vault (?m r) \<and> nr_id t = p \<and>
      nr_ancestry (?m r) = nr_ancestry t @ [p]" by (intro bexI [of _ "?m q"]) presburger+
    moreover have "nr_parent (?m r) = Some p" using keep [of r] Some by presburger
    ultimately show ?thesis unfolding chainOk_def by (simp only: option.case)
  qed
  then have "\<forall>r\<in>set (st_nodes s). chainOk s' (?m r)" by blast
  then show ?thesis by (simp only: chains_def list_all_iff nodes set_map ball_simps)
qed

lemma chains_plant:
  assumes "chains s" "nodeIn s v p = Some q" "nr_vault r = v" "nr_parent r = Some p" "nr_ancestry r = nr_ancestry q @ [p]"
    and nodes: "st_nodes s' = st_nodes s @ [r]"
  shows "chains s'"
proof -
  have "chainOk s' x" if "x \<in> set (st_nodes s)" for x
    using chainsD [OF assms(1) that] by (fastforce simp: chainOk_def nodes split: option.splits)
  moreover have "chainOk s' r" using nodeIn_Some [OF assms(2)] assms(3-5) by (auto simp: chainOk_def nodes)
  ultimately show ?thesis by (auto simp: chains_def list_all_iff nodes)
qed

lemma tree_step_chains: "tree_step s s' \<Longrightarrow> keysOk s \<Longrightarrow> chains s \<Longrightarrow> chains s'"
proof (induction rule: tree_step.induct)
  case (stamp s v h f j n)
  show ?case by (rule chains_stamp [OF stamp.prems(2), of f _ v n]) (use stamp in auto)
next
  case (plant s v h r p q j)
  show ?case by (rule chains_plant [OF plant.prems(2) plant.hyps(5,2,4,6)]) simp
next
  case (shift s v h p q n anc f j)
  show ?case
  proof (rule chains_shift [OF shift.prems shift.hyps(2-5), of f])
    show "nr_vault (f r) = nr_vault r \<and> nr_id (f r) = nr_id r \<and> nr_parent (f r) = Some p \<and> nr_ancestry (f r) = anc" for r
      using shift.hyps(6) by blast
    show "st_nodes (log j (rewriteBelow v n anc (rewriteNode v n f (bump v s)))) = map (moved v n anc f) (st_nodes s)"
      by (simp only: store_simps(3) shifted_nodes)
  qed
qed

subsection \<open>Revisions and the journal\<close>

text \<open>\<open>bottom v\<close> is the revision up to which the journal of \<open>v\<close> may have been pruned.\<close>

definition revsOk :: "(string \<Rightarrow> nat) \<Rightarrow> store \<Rightarrow> bool" where
  "revsOk bottom s \<longleftrightarrow>
     (\<forall>r\<in>set (st_nodes s). \<exists>h. headOf s (nr_vault r) = Some h \<and> nr_rev r \<le> h) \<and>
     (\<forall>j\<in>set (st_journal s). \<exists>h. headOf s (jr_vault j) = Some h \<and> jr_rev j \<le> h) \<and>
     distinct (map (\<lambda>j. (jr_vault j, jr_rev j)) (st_journal s)) \<and>
     (\<forall>j\<in>set (st_journal s). \<forall>r\<in>set (st_nodes s). jr_vault j = nr_vault r \<and> jr_node j = nr_id r \<longrightarrow> jr_rev j \<le> nr_rev r) \<and>
     (\<forall>r\<in>set (st_nodes s). bottom (nr_vault r) < nr_rev r \<longrightarrow>
        (\<exists>j\<in>set (st_journal s). jr_vault j = nr_vault r \<and> jr_node j = nr_id r \<and> jr_rev j = nr_rev r))"

lemma find_bump:
  assumes "map_option vr_head_rev (find (\<lambda>r. vr_id r = v) vs) = Some h"
  shows "map_option vr_head_rev (find (\<lambda>r. vr_id r = v)
    (map (\<lambda>r. if vr_id r = v then r\<lparr>vr_head_rev := vr_head_rev r + 1\<rparr> else r) vs)) = Some (Suc h)"
  using assms by (induction vs) auto

lemma find_bump_other:
  assumes "w \<noteq> v"
  shows "map_option vr_head_rev (find (\<lambda>r. vr_id r = w)
    (map (\<lambda>r. if vr_id r = v then r\<lparr>vr_head_rev := vr_head_rev r + 1\<rparr> else r) vs)) = map_option vr_head_rev (find (\<lambda>r. vr_id r = w) vs)"
  using assms by (induction vs) auto

lemma headOf_bump:
  assumes "headOf s v = Some h"
  shows "headOf (bump v s) w = (if w = v then Some (Suc h) else headOf s w)"
proof -
  have st: "st_vaults (bump v s) = map (\<lambda>r. if vr_id r = v then r\<lparr>vr_head_rev := vr_head_rev r + 1\<rparr> else r) (st_vaults s)"
    by (simp add: bump_def)
  show ?thesis
  proof (cases "w = v")
    case True
    with find_bump [OF assms [unfolded headOf_def]] show ?thesis unfolding headOf_def st by (simp del: map_option_eq_Some)
  next
    case False
    then show ?thesis unfolding headOf_def st find_bump_other [OF False] by simp
  qed
qed

lemma headOf_vaults: "st_vaults s' = st_vaults s \<Longrightarrow> headOf s' = headOf s"
  by (simp add: headOf_def fun_eq_iff)

lemma revs_write:
  assumes ok: "revsOk bottom s" and h: "headOf s v = Some h" and head: "st_vaults s' = st_vaults (bump v s)"
    and journal: "st_journal s' = st_journal s @ [j]" and j: "jr_vault j = v" "jr_rev j = Suc h" "jr_node j = n"
    and nodes: "\<And>r'. r' \<in> set (st_nodes s') \<Longrightarrow> (nr_vault r' = v \<and> nr_id r' = n \<and> nr_rev r' = Suc h) \<or>
      (\<exists>r\<in>set (st_nodes s). nr_vault r = nr_vault r' \<and> nr_id r = nr_id r' \<and> nr_rev r = nr_rev r' \<and> \<not> (nr_vault r = v \<and> nr_id r = n))"
  shows "revsOk bottom s'"
proof -
  have heads: "headOf s' w = (if w = v then Some (Suc h) else headOf s w)" for w
    using headOf_vaults [OF head] headOf_bump [OF h] by simp
  have old: "jr_rev i \<le> h" if "i \<in> set (st_journal s)" "jr_vault i = v" for i
    using ok that h by (auto simp: revsOk_def)
  have le: "nr_rev r \<le> h" if "r \<in> set (st_nodes s)" "nr_vault r = v" for r
    using ok that h by (auto simp: revsOk_def)
  have 1: "\<exists>k. headOf s' (nr_vault r) = Some k \<and> nr_rev r \<le> k" if "r \<in> set (st_nodes s')" for r
    using nodes [OF that]
  proof
    assume "\<exists>q\<in>set (st_nodes s). nr_vault q = nr_vault r \<and> nr_id q = nr_id r \<and> nr_rev q = nr_rev r \<and> \<not> (nr_vault q = v \<and> nr_id q = n)"
    then obtain q where "q \<in> set (st_nodes s)" "nr_vault q = nr_vault r" "nr_rev q = nr_rev r" by blast
    with ok le [of q] show ?thesis unfolding heads by (force simp: revsOk_def)
  qed (simp add: heads)
  have 2: "\<exists>k. headOf s' (jr_vault i) = Some k \<and> jr_rev i \<le> k" if "i \<in> set (st_journal s')" for i
    using that ok old [of i] j by (auto simp: journal heads revsOk_def)
  have 3: "distinct (map (\<lambda>j. (jr_vault j, jr_rev j)) (st_journal s'))"
    using ok old j by (fastforce simp: journal revsOk_def)
  have 4: "jr_rev i \<le> nr_rev r" if i: "i \<in> set (st_journal s')" and r: "r \<in> set (st_nodes s')" and same: "jr_vault i = nr_vault r" "jr_node i = nr_id r" for i r
    using nodes [OF r]
  proof
    assume new: "nr_vault r = v \<and> nr_id r = n \<and> nr_rev r = Suc h"
    then show ?thesis using i same old [of i] j by (auto simp: journal)
  next
    assume "\<exists>q\<in>set (st_nodes s). nr_vault q = nr_vault r \<and> nr_id q = nr_id r \<and> nr_rev q = nr_rev r \<and> \<not> (nr_vault q = v \<and> nr_id q = n)"
    then obtain q where q: "q \<in> set (st_nodes s)" "nr_vault q = nr_vault r" "nr_id q = nr_id r" "nr_rev q = nr_rev r"
      "\<not> (nr_vault q = v \<and> nr_id q = n)" by blast
    with i j same have "i \<in> set (st_journal s)" by (auto simp: journal)
    with ok q same show ?thesis unfolding revsOk_def by metis
  qed
  have 5: "\<exists>i\<in>set (st_journal s'). jr_vault i = nr_vault r \<and> jr_node i = nr_id r \<and> jr_rev i = nr_rev r"
    if r: "r \<in> set (st_nodes s')" and above: "bottom (nr_vault r) < nr_rev r" for r
    using nodes [OF r]
  proof
    assume "nr_vault r = v \<and> nr_id r = n \<and> nr_rev r = Suc h"
    then show ?thesis using j by (simp add: journal)
  next
    assume "\<exists>q\<in>set (st_nodes s). nr_vault q = nr_vault r \<and> nr_id q = nr_id r \<and> nr_rev q = nr_rev r \<and> \<not> (nr_vault q = v \<and> nr_id q = n)"
    then obtain q where q: "q \<in> set (st_nodes s)" "nr_vault q = nr_vault r" "nr_id q = nr_id r" "nr_rev q = nr_rev r" by blast
    with ok above obtain i where "i \<in> set (st_journal s)" "jr_vault i = nr_vault q" "jr_node i = nr_id q" "jr_rev i = nr_rev q"
      unfolding revsOk_def by metis
    with q show ?thesis by (auto simp: journal)
  qed
  from 1 2 3 4 5 show ?thesis unfolding revsOk_def by blast
qed

lemma tree_step_revs: "tree_step s s' \<Longrightarrow> revsOk bottom s \<Longrightarrow> revsOk bottom s'"
proof (induction rule: tree_step.induct)
  case (stamp s v h f j n)
  show ?case
    by (rule revs_write [OF stamp.prems stamp.hyps(1), of _ j n]) (use stamp.hyps in auto)
next
  case (plant s v h r p q j)
  have "\<forall>x\<in>set (st_nodes s). \<not> (nr_vault x = v \<and> nr_id x = nr_id r)"
    using plant.hyps(7) by (auto simp: nodeIn_def find_None_iff)
  then show ?case
    by (intro revs_write [OF plant.prems plant.hyps(1), of _ j "nr_id r"]) (use plant.hyps in auto)
next
  case (shift s v h p q n anc f j)
  show ?case
  proof (rule revs_write [OF shift.prems shift.hyps(1), of _ j n])
    fix r'
    assume "r' \<in> set (st_nodes (log j (rewriteBelow v n anc (rewriteNode v n f (bump v s)))))"
    then obtain r where r: "r \<in> set (st_nodes s)" "r' = moved v n anc f r"
      by (auto simp only: store_simps(3) shifted_nodes set_map)
    show "(nr_vault r' = v \<and> nr_id r' = n \<and> nr_rev r' = Suc h) \<or>
      (\<exists>r\<in>set (st_nodes s). nr_vault r = nr_vault r' \<and> nr_id r = nr_id r' \<and> nr_rev r = nr_rev r' \<and> \<not> (nr_vault r = v \<and> nr_id r = n))"
    proof (cases "nr_vault r = v \<and> nr_id r = n")
      case True
      with r(2) shift.hyps(6) [of r] show ?thesis by (auto simp: moved_def Let_def)
    next
      case False
      with r show ?thesis by (intro disjI2 bexI [of _ r]) (auto simp: moved_def Let_def)
    qed
  qed (use shift.hyps in auto)
qed

lemma tree_steps_invariant:
  assumes "tree_steps s s'" "keysOk s" "chains s" "revsOk bottom s"
  shows "keysOk s' \<and> chains s' \<and> revsOk bottom s'"
  using assms by (induction rule: rtranclp_induct) (auto intro: tree_step_keys tree_step_chains tree_step_revs)

subsection \<open>Every store the handlers reach\<close>

datatype request =
    ReqCreate create_input
  | ReqPut put_input
  | ReqDelete string string nat
  | ReqMove move_input

fun serve :: "pg \<Rightarrow> request \<Rightarrow> db \<Rightarrow> db" where
  "serve pg (ReqCreate input) d = snd (createNode pg input d)"
| "serve pg (ReqPut input) d = snd (putContent pg input d)"
| "serve pg (ReqDelete v n rv) d = snd (deleteNode pg v n rv d)"
| "serve pg (ReqMove input) d = snd (moveNode pg input d)"

text \<open>Between two writes anything may happen that leaves nodes, vaults and journal alone: time passes, blobs
  are uploaded, people join, accounts freeze.\<close>

inductive served :: "pg \<Rightarrow> db \<Rightarrow> db \<Rightarrow> bool" for pg :: pg and d0 :: db where
  start: "served pg d0 d0"
| request: "served pg d0 d \<Longrightarrow> served pg d0 (serve pg req d)"
| elsewhere: "served pg d0 d \<Longrightarrow> core d' = core d \<Longrightarrow> served pg d0 d'"

definition wellFormed :: "(string \<Rightarrow> nat) \<Rightarrow> db \<Rightarrow> bool" where
  "wellFormed bottom d \<longleftrightarrow> keysOk (core d) \<and> chains (core d) \<and> revsOk bottom (core d)"

lemma serve_refines: "keysOk (core d) \<Longrightarrow> tree_steps (core d) (core (serve pg req d))"
  by (cases req)
    (simp_all add: createNode_def putContent_def deleteNode_def moveNode_def txGuarded_steps does_createBody does_putBody
      does_deleteBody does_moveBody)

lemma served_steps: "served pg d0 d \<Longrightarrow> keysOk (core d0) \<Longrightarrow> tree_steps (core d0) (core d)"
proof (induction rule: served.induct)
  case start
  show ?case by simp
next
  case (request d req)
  then have "tree_steps (core d0) (core d)" by simp
  moreover from this request.prems have "keysOk (core d)" by (rule tree_steps_keys)
  ultimately show ?case using serve_refines by (meson rtranclp_trans)
next
  case (elsewhere d d')
  then show ?case by simp
qed

lemma served_wellFormed: "served pg d0 d \<Longrightarrow> wellFormed bottom d0 \<Longrightarrow> wellFormed bottom d"
  unfolding wellFormed_def using served_steps tree_steps_invariant by blast

lemma wellFormed_chain:
  assumes "wellFormed bottom d" "r \<in> set (db_nodes d)"
  shows "parentChain d r = Some (nr_ancestry r)"
proof (cases "nr_parent r")
  case None
  with assms show ?thesis by (auto simp: wellFormed_def parentChain_def chainOk_def dest!: chainsD)
next
  case (Some p)
  from assms have keys: "keysOk (core d)" and "chainOk (core d) r" by (auto simp: wellFormed_def intro: chainsD)
  with Some obtain q where q: "q \<in> set (db_nodes d)" "nr_vault q = nr_vault r" "nr_id q = p" "nr_ancestry r = nr_ancestry q @ [p]"
    by (auto simp: chainOk_def)
  with keysOk_find [OF keys, of q] Some show ?thesis by (simp add: parentChain_def)
qed

lemma wellFormed_ancestry: "wellFormed bottom d \<Longrightarrow> r \<in> set (db_nodes d) \<Longrightarrow> ancestryMatches d r"
proof -
  assume w: "wellFormed bottom d" and r: "r \<in> set (db_nodes d)"
  have "nr_ancestry c = nr_ancestry r @ [nr_id r]" if "c \<in> set (db_nodes d)" "nr_vault c = nr_vault r" "nr_parent c = Some (nr_id r)" for c
    using wellFormed_chain [OF w that(1)] keysOk_find [of "core d" r] w r that(2,3)
    by (simp add: parentChain_def wellFormed_def)
  with wellFormed_chain [OF w r] show "ancestryMatches d r" by (simp add: ancestryMatches_def list_all_iff)
qed

lemma body_wellFormed:
  assumes "does (\<lambda>_. True) body" "wellFormed bottom d" "body d = Inr (a, d')"
  shows "wellFormed bottom d'"
proof -
  from assms have "tree_steps (core d) (core d')" by (auto simp: does_def wellFormed_def)
  with assms(2) show ?thesis unfolding wellFormed_def using tree_steps_invariant by blast
qed

lemma commit_keeps_live:
  assumes keys: "keysOk (core d)" "keysOk (core d')" and live: "list_all (liveUnderLive d) (db_nodes d)"
    and commit: "commitChecks d d' = None"
  shows "list_all (liveUnderLive d') (db_nodes d')"
proof -
  have touched: "liveUnderLive d' r" if "r \<in> set (db_nodes d')" "r \<notin> set (db_nodes d)" for r
    using commit that by (auto simp: commitChecks_def touched_def list_all_iff split: if_splits)
  have "liveUnderLive d' r" if r: "r \<in> set (db_nodes d')" "r \<in> set (db_nodes d)" for r
  proof (cases "nr_deleted r")
    case None
    show ?thesis
    proof (cases "nr_parent r")
      case parent: (Some p)
      show ?thesis
      proof (cases "nodeRow d' (nr_vault r) p")
        case (Some q)
        then have q: "q \<in> set (db_nodes d')" "nr_vault q = nr_vault r" "nr_id q = p"
          by (auto simp: nodeRow_def find_Some_iff)
        have "nr_deleted q = None"
        proof (cases "q \<in> set (db_nodes d)")
          case True
          with keysOk_find [of "core d" q] keys q have "nodeRow d (nr_vault r) p = Some q" by simp
          moreover from live r(2) have "liveUnderLive d r" by (simp add: list_all_iff)
          ultimately show ?thesis using None parent by (simp add: liveUnderLive_def)
        next
          case False
          from touched [OF q(1) False] r(1) q parent None show ?thesis
            by (auto simp: liveUnderLive_def list_all_iff split: if_splits)
        qed
        with None parent Some show ?thesis by (simp add: liveUnderLive_def)
      qed (use None parent in \<open>simp add: liveUnderLive_def\<close>)
    qed (use None in \<open>simp add: liveUnderLive_def\<close>)
  next
    case (Some at)
    have "\<not> (nr_vault c = nr_vault r \<and> nr_parent c = Some (nr_id r) \<and> nr_deleted c = None)" if c: "c \<in> set (db_nodes d')" for c
    proof (cases "c \<in> set (db_nodes d)")
      case True
      from live r(2) have "liveUnderLive d r" by (simp add: list_all_iff)
      with True Some show ?thesis by (auto simp: liveUnderLive_def list_all_iff)
    next
      case False
      from keysOk_find [of "core d'" r] keys r(1) have "nodeRow d' (nr_vault r) (nr_id r) = Some r" by simp
      with touched [OF c False] Some show ?thesis by (cases "nr_deleted c") (auto simp: liveUnderLive_def)
    qed
    with Some show ?thesis by (simp add: liveUnderLive_def list_all_iff)
  qed
  with touched show ?thesis by (auto simp: list_all_iff)
qed

lemma liveUnderLive_core: "core d' = core d \<Longrightarrow> liveUnderLive d' = liveUnderLive d"
proof (rule ext)
  fix r
  assume "core d' = core d"
  then have n: "db_nodes d' = db_nodes d" by (rule core_nodes_eq)
  then have "nodeRow d' = nodeRow d" by (simp add: fun_eq_iff nodeRow_def)
  with n show "liveUnderLive d' r = liveUnderLive d r" by (simp only: liveUnderLive_def)
qed

lemma txGuarded_live:
  assumes "does (\<lambda>_. True) body" "keysOk (core d)" "list_all (liveUnderLive d) (db_nodes d)"
  shows "list_all (liveUnderLive (snd (txGuarded pg body d))) (db_nodes (snd (txGuarded pg body d)))"
proof (cases rule: txGuarded_cases [of body d pg])
  case (committed a d')
  from txGuarded_steps [OF assms(1,2), of pg] assms(2) committed(2) have "keysOk (core d')"
    by (auto intro: tree_steps_keys)
  from commit_keeps_live [OF assms(2) this assms(3) committed(3)] committed(2) show ?thesis by simp
next
  case kept
  with assms(3) show ?thesis by simp
qed

lemma served_live:
  "served pg d0 d \<Longrightarrow> keysOk (core d0) \<Longrightarrow> list_all (liveUnderLive d0) (db_nodes d0) \<Longrightarrow> list_all (liveUnderLive d) (db_nodes d)"
proof (induction rule: served.induct)
  case (request d req)
  from tree_steps_keys [OF served_steps [OF request.hyps request.prems(1)] request.prems(1)]
  have "keysOk (core d)" .
  with request.IH [OF request.prems] show ?case
    by (cases req)
      (simp_all add: createNode_def putContent_def deleteNode_def moveNode_def txGuarded_live does_createBody does_putBody
        does_deleteBody does_moveBody)
next
  case (elsewhere d d')
  then show ?case using liveUnderLive_core [OF elsewhere.hyps(2)] core_nodes_eq [OF elsewhere.hyps(2)] by simp
qed simp

subsection \<open>Properties\<close>

text \<open>C7. Refinement: whatever a request asks and whatever the rest of the schema refuses, the tree, the
  revisions and the journal change only by whole revisions: each one row stamped, planted under a parent
  that is there, or shifted with its subtree to a place outside it, journalled under its own number. A
  propagation to other participants' copies is more such steps of the same transaction.\<close>

theorem writes_refine:
  assumes "keysOk (core d)"
  shows "tree_steps (core d) (core (serve pg req d))"
  using assms by (rule serve_refines)

text \<open>C6. In every store the handlers reach from a well-formed one, however requests interleave with the rest
  of the server, a row's stored ancestry is the chain of its parents, no row is its own ancestor, no revision
  is beyond its vault's head, and every row changed since the journal was last pruned is journalled under its
  present revision, which no other entry for it exceeds.\<close>

theorem served_tree_invariant:
  assumes "served pg d0 d" "wellFormed bottom d0" "r \<in> set (db_nodes d)"
  shows "parentChain d r = Some (nr_ancestry r) \<and> nr_id r \<notin> set (nr_ancestry r) \<and>
    (\<exists>va. vaultRow d (nr_vault r) = Some va \<and> nr_rev r \<le> vr_head_rev va) \<and>
    (bottom (nr_vault r) < nr_rev r \<longrightarrow>
       (\<exists>j\<in>set (db_journal d). jr_vault j = nr_vault r \<and> jr_node j = nr_id r \<and> jr_rev j = nr_rev r)) \<and>
    (\<forall>j\<in>set (db_journal d). jr_vault j = nr_vault r \<and> jr_node j = nr_id r \<longrightarrow> jr_rev j \<le> nr_rev r)"
proof -
  from served_wellFormed [OF assms(1,2)] have w: "wellFormed bottom d" .
  from wellFormed_chain [OF this assms(3)] w not_own_ancestor [of "core d" r] assms(3)
  have "parentChain d r = Some (nr_ancestry r) \<and> nr_id r \<notin> set (nr_ancestry r)" by (simp add: wellFormed_def)
  moreover from w assms(3) have "\<exists>va. vaultRow d (nr_vault r) = Some va \<and> nr_rev r \<le> vr_head_rev va"
    by (fastforce simp: wellFormed_def revsOk_def)
  moreover from w assms(3) have "bottom (nr_vault r) < nr_rev r \<longrightarrow>
      (\<exists>j\<in>set (db_journal d). jr_vault j = nr_vault r \<and> jr_node j = nr_id r \<and> jr_rev j = nr_rev r)"
    by (simp add: wellFormed_def revsOk_def)
  moreover from w assms(3) have "\<forall>j\<in>set (db_journal d). jr_vault j = nr_vault r \<and> jr_node j = nr_id r \<longrightarrow> jr_rev j \<le> nr_rev r"
    by (simp add: wellFormed_def revsOk_def)
  ultimately show ?thesis by blast
qed

text \<open>A move rewrites its subtree completely: when the move handler's statements all ran on a well-formed
  store, the deferred ancestry check of the schema, which compares every touched row with its parent chain
  and every child of it, has nothing to refuse, in the vault of the move and in every copy it reached.\<close>

theorem move_passes_ancestry_check:
  assumes "wellFormed bottom d" "moveBody pg input d = Inr (Inr rv, d')"
  shows "list_all (ancestryMatches d') (touched d d')"
  using wellFormed_ancestry [OF body_wellFormed [OF does_moveBody assms]] by (auto simp: list_all_iff touched_def)

subsection \<open>A worked store\<close>

text \<open>Two people with a vault each and a shared folder \<open>s\<close> in both; the first person's vault has a private
  folder too.\<close>

definition exRow :: "string \<Rightarrow> string \<Rightarrow> string list \<Rightarrow> nat \<Rightarrow> string option \<Rightarrow> string option \<Rightarrow> node_row" where
  "exRow v n anc rv sha item =
     \<lparr>nr_vault = v, nr_id = n, nr_parent = (if anc = [] then None else Some (last anc)),
      nr_name_enc = (if anc = [] then None else Some n), nr_name_hmac = (if anc = [] then None else Some n), nr_name_key = Some ''k'',
      nr_type = (if sha = None then NodeFolder else NodeFile), nr_sha = sha, nr_size = map_option (\<lambda>_. 1) sha, nr_mtime = ''t'',
      nr_rev = rv, nr_deleted = None, nr_ancestry = anc, nr_share = map_option (\<lambda>_. ''share'') item, nr_item = item\<rparr>"

definition exLog :: "string \<Rightarrow> nat \<Rightarrow> string \<Rightarrow> journal_row" where
  "exLog v rv n = \<lparr>jr_vault = v, jr_rev = rv, jr_node = n, jr_prev = None, jr_op = OpPut, jr_node_rev = Some rv, jr_at = 0\<rparr>"

definition exMember :: "string \<Rightarrow> string \<Rightarrow> member_row" where
  "exMember u v = \<lparr>mb_share = ''share'', mb_user = u, mb_vault = Some v, mb_joined = Some 0, mb_finalizing = None, mb_left = None,
    mb_invited = 0, mb_wrapped = Some ''w''\<rparr>"

definition exBlob :: "string \<Rightarrow> blob_row" where
  "exBlob h = \<lparr>bl_sha = h, bl_size = 1, bl_storageKey = h, bl_encAlg = ''x'', bl_keyId = ''c'', bl_marked = None\<rparr>"

definition exShare :: share_row where
  "exShare = \<lparr>sh_id = ''share'', sh_initiator = ''ann'', sh_vault = ''A'', sh_node = ''s'', sh_state = ShareActive, sh_root_item = ''i'',
     sh_key = Some ''ks'', sh_wrapped = Some ''w'', sh_created = 0, sh_terminal = None\<rparr>"

definition exStore :: db where
  "exStore =
     \<lparr>db_now = 9, db_drawn = 0, db_restore_epoch = 1,
      db_users = [\<lparr>us_id = ''ann'', us_login = ''ann'', us_active = True, us_pubkey = Some ''pk'', us_quota = 100, us_history_days = 365, us_frozen_at = None\<rparr>, \<lparr>us_id = ''bob'', us_login = ''bob'', us_active = True, us_pubkey = Some ''pk'', us_quota = 100, us_history_days = 365, us_frozen_at = None\<rparr>],
      db_vaults = [\<lparr>vr_id = ''A'', vr_user = ''ann'', vr_key_id = ''ka'', vr_root = ''ra'', vr_head_rev = 4, vr_reset_epoch = 1\<rparr>,
                   \<lparr>vr_id = ''B'', vr_user = ''bob'', vr_key_id = ''kb'', vr_root = ''rb'', vr_head_rev = 3, vr_reset_epoch = 1\<rparr>],
      db_nodes =
        [exRow ''A'' ''ra'' [] 1 None None, exRow ''A'' ''s'' [''ra''] 2 None (Some ''i''),
         exRow ''A'' ''n'' [''ra'', ''s''] 3 (Some ''h1'') (Some ''j''), exRow ''A'' ''p'' [''ra''] 4 None None,
         exRow ''B'' ''rb'' [] 1 None None, exRow ''B'' ''s2'' [''rb''] 2 None (Some ''i''),
         exRow ''B'' ''n2'' [''rb'', ''s2''] 3 (Some ''h1'') (Some ''j'')],
      db_journal =
        [exLog ''A'' 1 ''ra'', exLog ''A'' 2 ''s'', exLog ''A'' 3 ''n'', exLog ''A'' 4 ''p'', exLog ''B'' 1 ''rb'', exLog ''B'' 2 ''s2'', exLog ''B'' 3 ''n2''],
      db_versions = [], db_blobs = [exBlob ''h1'', exBlob ''h2''], db_user_blobs = [], db_blob_keys = [], db_dedup = [],
      db_shares = [exShare], db_members = [exMember ''ann'' ''A'', exMember ''bob'' ''B''],
      db_devices = [], db_scopes = [''ka'', ''kb'', ''ks'']\<rparr>"

lemma exStore_wellFormed: "wellFormed (\<lambda>_. 0) exStore"
  by (simp add: wellFormed_def keysOk_def chains_def chainOk_def revsOk_def exStore_def exRow_def exLog_def core_def headOf_def)

text \<open>The shared folder moves below the private one: a rename of its root, which is its holder's alone.\<close>

definition exMove :: move_input where
  "exMove = \<lparr>in_nameEnc = ''x'', in_nameHmac = ''x'', in_nameKeyId = ''k'', mi_vaultId = ''A'', mi_nodeId = ''s'', mi_parentId = ''p'', mi_ifMatchRev = 2\<rparr>"

definition exMoved :: db where
  "exMoved = (case moveBody openPg exMove exStore of Inl e \<Rightarrow> exStore | Inr (x, d) \<Rightarrow> d)"

lemma exMove_runs: "moveBody openPg exMove exStore = Inr (Inr 5, exMoved)"
  by code_simp

theorem writes_refine_witness:
  "tree_steps (core exStore) (core (serve openPg (ReqMove exMove) exStore))"
  by (rule writes_refine) (use exStore_wellFormed in \<open>simp add: wellFormed_def\<close>)

theorem move_passes_ancestry_check_witness: "list_all (ancestryMatches exMoved) (touched exStore exMoved)"
  by (rule move_passes_ancestry_check [OF exStore_wellFormed exMove_runs])

lemma exMoved_row: "nodeRow exMoved ''A'' ''n'' = Some (exRow ''A'' ''n'' [''ra'', ''s''] 3 (Some ''h1'') (Some ''j'')\<lparr>nr_ancestry := [''ra'', ''p'', ''s'']\<rparr>)"
  by code_simp

lemma exMoved_served: "served openPg exStore exMoved"
proof -
  have "serve openPg (ReqMove exMove) exStore = exMoved" by code_simp
  with served.request [OF served.start, of openPg exStore "ReqMove exMove"] show ?thesis by simp
qed

theorem served_tree_invariant_witness:
  "parentChain exMoved (exRow ''A'' ''n'' [''ra'', ''s''] 3 (Some ''h1'') (Some ''j'')\<lparr>nr_ancestry := [''ra'', ''p'', ''s'']\<rparr>) =
     Some [''ra'', ''p'', ''s'']"
  using served_tree_invariant [OF exMoved_served exStore_wellFormed, of "exRow ''A'' ''n'' [''ra'', ''s''] 3 (Some ''h1'') (Some ''j'')\<lparr>nr_ancestry := [''ra'', ''p'', ''s'']\<rparr>"]
    exMoved_row by (auto simp: nodeRow_def find_Some_iff)

end
