(* ===== verification/Server_Delta.thy ===== *)
theory Server_Delta
  imports Server_Invariants Tree
begin

text \<open>
  Reading a vault: the signed cursor (\<open>delta/cursor.ts\<close>), the pages of the delta and the full listing
  (\<open>delta/service.ts\<close>, the handlers of \<open>delta/routes.ts\<close>), and the journal's pruning (the last step of
  \<open>collector.ts\<close>). JSON, base64url and HMAC are the platform's and enter as a record of functions.
\<close>

subsection \<open>The cursor\<close>

record cursor_payload =
  cu_v :: nat
  cu_uid :: string
  cu_vid :: string
  cu_restore :: nat
  cu_reset :: nat
  cu_rev :: nat
  cu_hwm :: "nat option"

record cursor_codec =
  cc_write :: "cursor_payload \<Rightarrow> string"
  cc_read :: "string \<Rightarrow> cursor_payload option"
  cc_hmac :: "string \<Rightarrow> string \<Rightarrow> string"

datatype cursor_fault = CursorCannotBeVerified | CursorWrongSubject

definition encodeCursor :: "cursor_codec \<Rightarrow> string \<Rightarrow> cursor_payload \<Rightarrow> string" where
  "encodeCursor cc secret payload =
     (let body = cc_write cc payload in body @ ''.'' @ cc_hmac cc secret body)"

definition decodeCursor :: "cursor_codec \<Rightarrow> string \<Rightarrow> string \<Rightarrow> string \<Rightarrow> string \<Rightarrow> cursor_fault + cursor_payload" where
  "decodeCursor cc secret token userId vaultId =
     (case indexOf CHR ''.'' token of
        None \<Rightarrow> Inl CursorCannotBeVerified
      | Some dot \<Rightarrow>
          if dot < 1 then Inl CursorCannotBeVerified
          else (let body = take dot token; tag = drop (dot + 1) token
            in if tag \<noteq> cc_hmac cc secret body then Inl CursorCannotBeVerified
               else (case cc_read cc body of
                  None \<Rightarrow> Inl CursorCannotBeVerified
                | Some payload \<Rightarrow>
                    if cu_v payload \<noteq> 1 then Inl CursorCannotBeVerified
                    else if cu_uid payload \<noteq> userId \<or> cu_vid payload \<noteq> vaultId then Inl CursorWrongSubject
                    else Inr payload)))"

subsection \<open>Where a vault stands\<close>

record vault_position =
  po_headRev :: nat
  po_resetEpoch :: nat
  po_restoreEpoch :: nat
  po_oldestJournalRev :: "nat option"

definition vaultLog :: "db \<Rightarrow> string \<Rightarrow> journal_row list" where
  "vaultLog d v = filter (\<lambda>j. jr_vault j = v) (db_journal d)"

definition readPosition :: "db \<Rightarrow> string \<Rightarrow> vault_position option" where
  "readPosition d vaultId =
     map_option (\<lambda>va. \<lparr>po_headRev = vr_head_rev va, po_resetEpoch = vr_reset_epoch va, po_restoreEpoch = db_restore_epoch d,
       po_oldestJournalRev = (if vaultLog d vaultId = [] then None else Some (Min (jr_rev ` set (vaultLog d vaultId))))\<rparr>)
       (vaultRow d vaultId)"

datatype stale = StaleRestore | StaleReset | StaleJournalTtl

definition rejectionFor :: "cursor_payload \<Rightarrow> vault_position \<Rightarrow> stale option" where
  "rejectionFor cursor at =
     (if cu_restore cursor \<noteq> po_restoreEpoch at then Some StaleRestore
      else if cu_reset cursor \<noteq> po_resetEpoch at then Some StaleReset
      else (case po_oldestJournalRev at of
          None \<Rightarrow> None
        | Some oldest \<Rightarrow> if oldest > cu_rev cursor + 1 then Some StaleJournalTtl else None))"

subsection \<open>Changes\<close>

fun opText :: "journal_op \<Rightarrow> string" where
  "opText OpPut = ''put''"
| "opText OpDel = ''del''"
| "opText OpMove = ''move''"

definition versionAuthor :: "db \<Rightarrow> string \<Rightarrow> string \<Rightarrow> nat option \<Rightarrow> string option" where
  "versionAuthor d v n at =
     map_option vn_author (find (\<lambda>x. vn_vault x = v \<and> vn_node x = n \<and> Some (vn_rev x) = at) (db_versions d))"

definition toChange :: "node_row \<Rightarrow> string \<Rightarrow> nat \<Rightarrow> string option \<Rightarrow> change" where
  "toChange r op rv author =
     \<lparr>ch_node_id = nr_id r, ch_parent_id = nr_parent r, ch_name_enc = nr_name_enc r, ch_name_hmac = nr_name_hmac r,
      ch_name_key_id = nr_name_key r, ch_op = op, ch_rev = rv, ch_sha256 = nr_sha r, ch_size = nr_size r,
      ch_mtime = nr_mtime r, ch_share_id = nr_share r, ch_author_id = author\<rparr>"

text \<open>The rows a snapshot keeps: the latest of each node's inside it, of the nodes that still have a row.\<close>

definition latestIn :: "db \<Rightarrow> string \<Rightarrow> nat \<Rightarrow> journal_row \<Rightarrow> bool" where
  "latestIn d v upTo j \<longleftrightarrow>
     \<not> list_ex (\<lambda>l. jr_vault l = v \<and> jr_node l = jr_node j \<and> jr_rev l > jr_rev j \<and> jr_rev l \<le> upTo) (db_journal d)"

definition changeRows :: "db \<Rightarrow> string \<Rightarrow> nat \<Rightarrow> nat \<Rightarrow> journal_row list" where
  "changeRows d v after upTo =
     sort_key jr_rev (filter (\<lambda>j. jr_vault j = v \<and> after < jr_rev j \<and> jr_rev j \<le> upTo \<and> nodeRow d v (jr_node j) \<noteq> None \<and>
       latestIn d v upTo j) (db_journal d))"

definition rowChange :: "db \<Rightarrow> string \<Rightarrow> journal_row \<Rightarrow> change" where
  "rowChange d v j = toChange (the (nodeRow d v (jr_node j))) (opText (jr_op j)) (jr_rev j)
     (versionAuthor d v (jr_node j) (jr_node_rev j))"

definition readChanges :: "db \<Rightarrow> string \<Rightarrow> nat \<Rightarrow> nat \<Rightarrow> nat \<Rightarrow> change list" where
  "readChanges d v after upTo limit = map (rowChange d v) (take limit (changeRows d v after upTo))"

definition newestAuthor :: "db \<Rightarrow> node_row \<Rightarrow> string option" where
  "newestAuthor d r =
     (case filter (\<lambda>x. vn_vault x = nr_vault r \<and> vn_node x = nr_id r) (db_versions d) of
        [] \<Rightarrow> None
      | x # xs \<Rightarrow> Some (vn_author (last (sort_key vn_rev (x # xs)))))"

definition listSubtree :: "db \<Rightarrow> string \<Rightarrow> string option \<Rightarrow> change list" where
  "listSubtree d v subtree =
     map (\<lambda>r. toChange r ''put'' (nr_rev r) (newestAuthor d r))
       (sort_key (\<lambda>r. length (nr_ancestry r)) (sort_key nr_id
         (filter (\<lambda>r. nr_vault r = v \<and> nr_deleted r = None \<and>
            (case subtree of None \<Rightarrow> True | Some u \<Rightarrow> nr_id r = u \<or> u \<in> set (nr_ancestry r))) (db_nodes d))))"

subsection \<open>The handlers\<close>

definition MAX_LIMIT :: nat where "MAX_LIMIT = 500"

definition pageLimit :: "nat option \<Rightarrow> nat" where
  "pageLimit limit = min (case limit of None \<Rightarrow> MAX_LIMIT | Some n \<Rightarrow> if n = 0 then MAX_LIMIT else n) MAX_LIMIT"

datatype delta_response =
    DeltaNotFound
  | DeltaFault cursor_fault
  | DeltaGone stale
  | DeltaPage "change list" string bool

definition startCursor :: "string \<Rightarrow> string \<Rightarrow> vault_position \<Rightarrow> cursor_payload" where
  "startCursor userId vaultId at =
     \<lparr>cu_v = 1, cu_uid = userId, cu_vid = vaultId, cu_restore = po_restoreEpoch at, cu_reset = po_resetEpoch at, cu_rev = 0, cu_hwm = None\<rparr>"

definition deltaPage :: "db \<Rightarrow> string \<Rightarrow> string \<Rightarrow> vault_position \<Rightarrow> cursor_payload \<Rightarrow> nat \<Rightarrow> change list \<times> cursor_payload \<times> bool" where
  "deltaPage d userId vaultId at cursor limit =
     (let hwm = (case cu_hwm cursor of None \<Rightarrow> po_headRev at | Some h \<Rightarrow> h);
          changes = readChanges d vaultId (cu_rev cursor) hwm (limit + 1);
          hasMore = length changes > limit;
          page = (if hasMore then take limit changes else changes);
          nextRev = (if page \<noteq> [] then ch_rev (last page) else hwm)
      in (page,
          \<lparr>cu_v = 1, cu_uid = userId, cu_vid = vaultId, cu_restore = po_restoreEpoch at, cu_reset = po_resetEpoch at,
           cu_rev = (if hasMore then nextRev else hwm), cu_hwm = (if hasMore then Some hwm else None)\<rparr>,
          hasMore))"

definition deltaRoute :: "cursor_codec \<Rightarrow> string \<Rightarrow> db \<Rightarrow> string \<Rightarrow> string \<Rightarrow> string option \<Rightarrow> nat option \<Rightarrow> delta_response" where
  "deltaRoute cc secret d userId vaultId token limit =
     (if \<not> ownsVault d userId vaultId then DeltaNotFound
      else (case readPosition d vaultId of
        None \<Rightarrow> DeltaNotFound
      | Some at \<Rightarrow>
          (case (if truthy token then decodeCursor cc secret (the token) userId vaultId else Inr (startCursor userId vaultId at)) of
             Inl fault \<Rightarrow> DeltaFault fault
           | Inr cursor \<Rightarrow>
               (case rejectionFor cursor at of
                  Some rejection \<Rightarrow> DeltaGone rejection
                | None \<Rightarrow>
                    (let (page, next, hasMore) = deltaPage d userId vaultId at cursor (pageLimit limit)
                     in DeltaPage page (encodeCursor cc secret next) hasMore)))))"

definition listRoute :: "cursor_codec \<Rightarrow> string \<Rightarrow> db \<Rightarrow> string \<Rightarrow> string \<Rightarrow> string option \<Rightarrow> (change list \<times> string) option" where
  "listRoute cc secret d userId vaultId subtree =
     (if \<not> ownsVault d userId vaultId then None
      else (case readPosition d vaultId of
        None \<Rightarrow> None
      | Some at \<Rightarrow> Some (listSubtree d vaultId subtree,
          encodeCursor cc secret ((startCursor userId vaultId at)\<lparr>cu_rev := po_headRev at\<rparr>))))"

definition pruneJournal :: "nat \<Rightarrow> db \<Rightarrow> db" where
  "pruneJournal journalTtlSeconds d =
     d\<lparr>db_journal := filter (\<lambda>j. \<not> jr_at j + journalTtlSeconds * second < db_now d) (db_journal d)\<rparr>"

subsection \<open>Cutting pages\<close>

lemma drop_by_key:
  assumes "sorted_wrt (<) (map f xs)" "k < length xs"
  shows "filter (\<lambda>x. (f (xs ! k) :: nat) < f x) xs = drop (Suc k) xs"
proof -
  from assms have split: "xs = take (Suc k) xs @ drop (Suc k) xs" by simp
  have lt: "f (xs ! i) < f (xs ! j)" if "i < j" "j < length xs" for i j
    using assms(1) that by (simp add: sorted_wrt_iff_nth_less)
  have "f (xs ! i) \<le> f (xs ! k)" if "i \<le> k" for i using lt [of i k] that assms(2) by (cases "i = k") auto
  then have "\<not> f (xs ! k) < f x" if "x \<in> set (take (Suc k) xs)" for x
    using that assms(2) by (auto simp: in_set_conv_nth not_less less_Suc_eq_le)
  then have 1: "filter (\<lambda>x. f (xs ! k) < f x) (take (Suc k) xs) = []" by (simp add: filter_empty_conv)
  have "\<forall>x\<in>set (drop (Suc k) xs). f (xs ! k) < f x"
    using lt assms(2) by (fastforce simp: in_set_conv_nth)
  then have 2: "filter (\<lambda>x. f (xs ! k) < f x) (drop (Suc k) xs) = drop (Suc k) xs" by (simp add: filter_True)
  show ?thesis by (subst split, simp only: filter_append 1 2) simp
qed

lemma changeRows_set:
  "j \<in> set (changeRows d v after upTo) \<longleftrightarrow>
     j \<in> set (db_journal d) \<and> jr_vault j = v \<and> after < jr_rev j \<and> jr_rev j \<le> upTo \<and> nodeRow d v (jr_node j) \<noteq> None \<and> latestIn d v upTo j"
  by (auto simp: changeRows_def)

lemma changeRows_sorted:
  assumes "revsOk bottom (core d)"
  shows "sorted_wrt (<) (map jr_rev (changeRows d v after upTo))"
proof -
  have "distinct (db_journal d)" using assms by (auto simp: revsOk_def distinct_map)
  moreover have "jr_rev a = jr_rev b \<longrightarrow> a = b" if "a \<in> set (changeRows d v after upTo)" "b \<in> set (changeRows d v after upTo)" for a b
    using assms that by (auto simp: revsOk_def changeRows_set distinct_map inj_on_def)
  ultimately have "distinct (map jr_rev (changeRows d v after upTo))"
    by (auto simp: distinct_map inj_on_def changeRows_def)
  then show ?thesis by (simp add: strict_sorted_iff changeRows_def)
qed

lemma changeRows_from:
  assumes "after \<le> r"
  shows "changeRows d v r upTo = filter (\<lambda>j. r < jr_rev j) (changeRows d v after upTo)"
proof -
  have "filter (\<lambda>j. jr_vault j = v \<and> r < jr_rev j \<and> jr_rev j \<le> upTo \<and> nodeRow d v (jr_node j) \<noteq> None \<and> latestIn d v upTo j) (db_journal d)
      = filter (\<lambda>j. r < jr_rev j) (filter (\<lambda>j. jr_vault j = v \<and> after < jr_rev j \<and> jr_rev j \<le> upTo \<and> nodeRow d v (jr_node j) \<noteq> None \<and> latestIn d v upTo j) (db_journal d))"
    using assms by (auto intro!: filter_cong)
  then show ?thesis unfolding changeRows_def by (simp only: filter_sort)
qed

lemma changeRows_rest:
  assumes "revsOk bottom (core d)" "k < length (changeRows d v after upTo)"
  shows "changeRows d v (jr_rev (changeRows d v after upTo ! k)) upTo = drop (Suc k) (changeRows d v after upTo)"
proof -
  have "changeRows d v after upTo ! k \<in> set (changeRows d v after upTo)" using assms(2) by simp
  then have "after \<le> jr_rev (changeRows d v after upTo ! k)" by (simp add: changeRows_set)
  from changeRows_from [OF this] drop_by_key [OF changeRows_sorted [OF assms(1)] assms(2)] show ?thesis by simp
qed

lemma rowChange_rev [simp]: "ch_rev (rowChange d v j) = jr_rev j"
  by (simp add: rowChange_def toChange_def)

lemma nodeRow_key: "nodeRow d v n = Some r \<Longrightarrow> r \<in> set (db_nodes d) \<and> nr_vault r = v \<and> nr_id r = n"
  by (auto simp: nodeRow_def find_Some_iff)

lemma rowChange_id: "nodeRow d v (jr_node j) \<noteq> None \<Longrightarrow> ch_node_id (rowChange d v j) = jr_node j"
  using nodeRow_key by (auto simp: rowChange_def toChange_def)

definition snapshotOf :: "cursor_payload \<Rightarrow> vault_position \<Rightarrow> nat" where
  "snapshotOf cursor at = (case cu_hwm cursor of None \<Rightarrow> po_headRev at | Some h \<Rightarrow> h)"

lemma deltaPage_page:
  fixes d u v at cursor limit
  defines "rows \<equiv> changeRows d v (cu_rev cursor) (snapshotOf cursor at)"
  shows "deltaPage d u v at cursor limit =
    (map (rowChange d v) (take limit rows),
     \<lparr>cu_v = 1, cu_uid = u, cu_vid = v, cu_restore = po_restoreEpoch at, cu_reset = po_resetEpoch at,
      cu_rev = (if limit < length rows then (if 0 < limit then jr_rev (rows ! (limit - 1)) else snapshotOf cursor at) else snapshotOf cursor at),
      cu_hwm = (if limit < length rows then Some (snapshotOf cursor at) else None)\<rparr>,
     limit < length rows)"
proof -
  have changes: "readChanges d v (cu_rev cursor) (snapshotOf cursor at) (limit + 1) = map (rowChange d v) (take (limit + 1) rows)"
    by (simp add: readChanges_def rows_def)
  have hm: "limit < length (map (rowChange d v) (take (limit + 1) rows)) \<longleftrightarrow> limit < length rows" by auto
  have cut: "take limit (map (rowChange d v) (take (limit + 1) rows)) = map (rowChange d v) (take limit rows)" by (simp add: take_map)
  have all: "\<not> limit < length rows \<Longrightarrow> map (rowChange d v) (take (limit + 1) rows) = map (rowChange d v) (take limit rows)" by simp
  have nonempty: "limit < length rows \<Longrightarrow> take limit rows \<noteq> [] \<longleftrightarrow> 0 < limit" by auto
  have lst: "limit < length rows \<Longrightarrow> 0 < limit \<Longrightarrow> ch_rev (last (map (rowChange d v) (take limit rows))) = jr_rev (rows ! (limit - 1))"
    using nonempty by (simp add: last_map) (simp add: last_conv_nth)
  show ?thesis
    unfolding deltaPage_def snapshotOf_def [symmetric] Let_def changes hm cut
    using all nonempty lst by (cases "limit < length rows") simp_all
qed

subsection \<open>A snapshot under later writes\<close>

text \<open>What writes after the snapshot leave as it was: the journal up to it, and the rows it names.\<close>

definition sameSnapshot :: "string \<Rightarrow> nat \<Rightarrow> store \<Rightarrow> store \<Rightarrow> bool" where
  "sameSnapshot v upTo s t \<longleftrightarrow>
     filter (\<lambda>j. jr_vault j = v \<and> jr_rev j \<le> upTo) (st_journal t) = filter (\<lambda>j. jr_vault j = v \<and> jr_rev j \<le> upTo) (st_journal s) \<and>
     (\<forall>n. nodeIn s v n \<noteq> None \<longrightarrow> nodeIn t v n \<noteq> None)"

lemma sameSnapshot_refl: "sameSnapshot v upTo s s"
  by (simp add: sameSnapshot_def)

lemma sameSnapshot_trans: "sameSnapshot v upTo s t \<Longrightarrow> sameSnapshot v upTo t u \<Longrightarrow> sameSnapshot v upTo s u"
  by (simp add: sameSnapshot_def)

lemma nodeIn_None: "nodeIn s v n = None \<longleftrightarrow> (\<forall>r\<in>set (st_nodes s). \<not> (nr_vault r = v \<and> nr_id r = n))"
  by (auto simp: nodeIn_def find_None_iff)

lemma nodeIn_map:
  assumes "st_nodes t = map g (st_nodes s)" "\<And>r. nr_vault (g r) = nr_vault r \<and> nr_id (g r) = nr_id r"
  shows "nodeIn t v n = None \<longleftrightarrow> nodeIn s v n = None"
  using assms(2) unfolding nodeIn_None assms(1) by simp

lemma tree_step_snapshot:
  assumes "tree_step s t" "headOf s v = Some h" "upTo \<le> h"
  shows "sameSnapshot v upTo s t \<and> (\<exists>h'. headOf t v = Some h' \<and> upTo \<le> h')"
  using assms
proof (induction rule: tree_step.induct)
  case (stamp s w k f j n)
  let ?t = "log j (rewriteNode w n f (bump w s))"
  have "headOf ?t = headOf (bump w s)" by (rule headOf_vaults) simp
  moreover have "nodeIn ?t v m = None \<longleftrightarrow> nodeIn s v m = None" for m
    by (rule nodeIn_map [where g = "\<lambda>r. if nr_vault r = w \<and> nr_id r = n then f r else r"]) (use stamp.hyps(2) in auto)
  ultimately show ?case using stamp headOf_bump [OF stamp.hyps(1)] by (auto simp: sameSnapshot_def)
next
  case (plant s w k r p q j)
  have "headOf (log j (addNode r (bump w s))) = headOf (bump w s)" by (rule headOf_vaults) simp
  with plant headOf_bump [OF plant.hyps(1)] show ?case by (auto simp: sameSnapshot_def nodeIn_None)
next
  case (shift s w k p q n anc f j)
  let ?t = "log j (rewriteBelow w n anc (rewriteNode w n f (bump w s)))"
  have "headOf ?t = headOf (bump w s)" by (rule headOf_vaults) simp
  moreover have "nodeIn ?t v m = None \<longleftrightarrow> nodeIn s v m = None" for m
    by (rule nodeIn_map [where g = "moved w n anc f"])
      (use shift.hyps(6) in \<open>auto simp only: store_simps(3) shifted_nodes, auto simp: moved_def Let_def\<close>)
  ultimately show ?case using shift headOf_bump [OF shift.hyps(1)] by (auto simp: sameSnapshot_def)
qed

lemma tree_steps_snapshot:
  assumes "tree_steps s t" "headOf s v = Some h" "upTo \<le> h"
  shows "sameSnapshot v upTo s t \<and> (\<exists>h'. headOf t v = Some h' \<and> upTo \<le> h')"
  using assms(1)
proof (induction rule: rtranclp_induct)
  case base
  with assms(2,3) show ?case by (simp add: sameSnapshot_refl)
next
  case (step t u)
  then obtain h' where "headOf t v = Some h'" "upTo \<le> h'" by blast
  from tree_step_snapshot [OF step.hyps(2) this] step.IH show ?case by (blast intro: sameSnapshot_trans)
qed

definition unpurged :: "db \<Rightarrow> string \<Rightarrow> bool" where
  "unpurged d v \<longleftrightarrow> list_all (\<lambda>j. jr_vault j = v \<longrightarrow> nodeRow d v (jr_node j) \<noteq> None) (db_journal d)"

lemma changeRows_snapshot:
  assumes "sameSnapshot v upTo (core d) (core d')" "unpurged d v"
  shows "changeRows d' v after upTo = changeRows d v after upTo"
proof -
  let ?in = "\<lambda>j. jr_vault j = v \<and> jr_rev j \<le> upTo"
  have j: "filter ?in (db_journal d') = filter ?in (db_journal d)" using assms(1) by (simp add: sameSnapshot_def)
  have mem: "x \<in> set (db_journal d') \<and> ?in x \<longleftrightarrow> x \<in> set (db_journal d) \<and> ?in x" for x
    using arg_cong [OF j, of set] by auto
  have latest: "latestIn e v upTo x = (\<not> list_ex (\<lambda>l. jr_node l = jr_node x \<and> jr_rev l > jr_rev x) (filter ?in (db_journal e)))" for e x
    by (auto simp: latestIn_def list_ex_iff)
  have same: "latestIn d' v upTo x = latestIn d v upTo x" for x
    by (simp only: latest [of d'] latest [of d] j)
  have here: "nodeRow d v (jr_node x) \<noteq> None \<and> nodeRow d' v (jr_node x) \<noteq> None" if "x \<in> set (db_journal d)" "jr_vault x = v" for x
    using assms that by (simp add: sameSnapshot_def unpurged_def list_all_iff)
  have rows: "filter (\<lambda>x. jr_vault x = v \<and> after < jr_rev x \<and> jr_rev x \<le> upTo \<and> nodeRow e v (jr_node x) \<noteq> None \<and> latestIn e v upTo x) (db_journal e)
      = filter (\<lambda>x. after < jr_rev x \<and> latestIn d v upTo x) (filter ?in (db_journal d))" if "e = d \<or> e = d'" for e
  proof -
    have "filter (\<lambda>x. jr_vault x = v \<and> after < jr_rev x \<and> jr_rev x \<le> upTo \<and> nodeRow e v (jr_node x) \<noteq> None \<and> latestIn e v upTo x) (db_journal e)
        = filter (\<lambda>x. after < jr_rev x \<and> latestIn e v upTo x) (filter ?in (db_journal e))"
      unfolding filter_filter using that here mem by (intro filter_cong) auto
    also have "\<dots> = filter (\<lambda>x. after < jr_rev x \<and> latestIn d v upTo x) (filter ?in (db_journal d))"
      using that by (elim disjE) (simp_all only: j same)
    finally show ?thesis .
  qed
  show ?thesis unfolding changeRows_def using rows [of d] rows [of d'] by simp
qed

subsection \<open>A series of pages\<close>

text \<open>A client reading on until the answer says there is no more: page by page, each from the store as it
  is when its request arrives; \<open>None\<close> when a page is refused or the fuel is out.\<close>

fun deltaSeries :: "(nat \<Rightarrow> db) \<Rightarrow> string \<Rightarrow> string \<Rightarrow> nat \<Rightarrow> nat \<Rightarrow> cursor_payload \<Rightarrow> change list list option" where
  "deltaSeries ds u v limit 0 cursor = None"
| "deltaSeries ds u v limit (Suc fuel) cursor =
     (case readPosition (ds fuel) v of
        None \<Rightarrow> None
      | Some at \<Rightarrow>
          if rejectionFor cursor at \<noteq> None then None
          else (let (page, next, hasMore) = deltaPage (ds fuel) u v at cursor limit
            in if hasMore then map_option (\<lambda>pages. page # pages) (deltaSeries ds u v limit fuel next) else Some [page]))"

lemma core_eq: "core d' = core d \<Longrightarrow> db_journal d' = db_journal d \<and> db_vaults d' = db_vaults d \<and> db_nodes d' = db_nodes d"
  by (simp add: core_def)

definition changeKey :: "change \<Rightarrow> string \<times> nat" where
  "changeKey c = (ch_node_id c, ch_rev c)"

lemma rowChange_key:
  assumes "j \<in> set (changeRows d v after upTo)"
  shows "changeKey (rowChange d v j) = (jr_node j, jr_rev j)"
  using assms by (simp add: changeKey_def rowChange_id changeRows_set)

lemma page_keys: "map changeKey (map (rowChange d v) (take k (changeRows d v after upTo))) =
    map (\<lambda>j. (jr_node j, jr_rev j)) (take k (changeRows d v after upTo))"
  unfolding map_map comp_def by (rule map_cong [OF refl]) (rule rowChange_key, erule in_set_takeD)

lemma deltaSeries_from:
  assumes "0 < limit"
    and "\<And>k. k < fuel \<Longrightarrow> sameSnapshot v upTo (core d) (core (ds k)) \<and> revsOk bottom (core (ds k))"
    and "\<And>k. k < fuel \<Longrightarrow> \<exists>at. readPosition (ds k) v = Some at \<and> po_restoreEpoch at = restore \<and> po_resetEpoch at = reset \<and>
      (\<exists>oldest. po_oldestJournalRev at = Some oldest \<and> oldest \<le> low + 1)"
    and "unpurged d v" "low \<le> cu_rev cursor" "cu_restore cursor = restore" "cu_reset cursor = reset"
    and "length (changeRows d v (cu_rev cursor) upTo) < fuel"
    and "\<And>at. readPosition (ds (fuel - 1)) v = Some at \<Longrightarrow> snapshotOf cursor at = upTo"
  shows "\<exists>pages. deltaSeries ds u v limit fuel cursor = Some pages \<and>
    map changeKey (concat pages) = map (\<lambda>j. (jr_node j, jr_rev j)) (changeRows d v (cu_rev cursor) upTo)"
  using assms
proof (induction fuel arbitrary: cursor)
  case 0
  then show ?case by simp
next
  case (Suc fuel)
  let ?rows = "changeRows d v (cu_rev cursor) upTo"
  from Suc.prems(3) [of fuel] obtain at oldest where at: "readPosition (ds fuel) v = Some at" "po_restoreEpoch at = restore"
    "po_resetEpoch at = reset" "po_oldestJournalRev at = Some oldest" "oldest \<le> low + 1" by auto
  with Suc.prems(5-7) have ok: "rejectionFor cursor at = None" by (simp add: rejectionFor_def)
  from Suc.prems(2) [of fuel] have same: "sameSnapshot v upTo (core d) (core (ds fuel))" and revs: "revsOk bottom (core (ds fuel))" by auto
  from changeRows_snapshot [OF same Suc.prems(4)] have rows: "changeRows (ds fuel) v a upTo = changeRows d v a upTo" for a .
  from Suc.prems(9) at(1) have snap: "snapshotOf cursor at = upTo" by simp
  let ?page = "map (rowChange (ds fuel) v) (take limit ?rows)"
  have keys: "map changeKey ?page = map (\<lambda>j. (jr_node j, jr_rev j)) (take limit ?rows)"
    using page_keys [of "ds fuel" v limit "cu_rev cursor" upTo] unfolding rows .
  note page = deltaPage_page [of "ds fuel" u v at cursor limit, unfolded snap rows]
  show ?case
  proof (cases "limit < length ?rows")
    case False
    with at(1) ok page keys show ?thesis by simp
  next
    case True
    let ?next = "\<lparr>cu_v = 1, cu_uid = u, cu_vid = v, cu_restore = po_restoreEpoch at, cu_reset = po_resetEpoch at,
      cu_rev = jr_rev (?rows ! (limit - 1)), cu_hwm = Some upTo\<rparr>"
    have "limit - 1 < length (changeRows (ds fuel) v (cu_rev cursor) upTo)" using True rows by simp
    from changeRows_rest [OF revs this] Suc.prems(1) have rest: "changeRows d v (cu_rev ?next) upTo = drop limit ?rows"
      unfolding rows by simp
    have "?rows ! (limit - 1) \<in> set ?rows" using True by simp
    then have "low \<le> cu_rev ?next" using Suc.prems(5) by (simp add: changeRows_set)
    then have "\<exists>pages. deltaSeries ds u v limit fuel ?next = Some pages \<and>
        map changeKey (concat pages) = map (\<lambda>j. (jr_node j, jr_rev j)) (changeRows d v (cu_rev ?next) upTo)"
    proof (intro Suc.IH)
      show "length (changeRows d v (cu_rev ?next) upTo) < fuel" using rest True Suc.prems(1,8) by simp
    qed (use Suc.prems(1-4) at in \<open>auto simp: snapshotOf_def\<close>)
    then obtain pages where pages: "deltaSeries ds u v limit fuel ?next = Some pages"
      "map changeKey (concat pages) = map (\<lambda>j. (jr_node j, jr_rev j)) (drop limit ?rows)" unfolding rest by blast
    have "deltaSeries ds u v limit (Suc fuel) cursor = Some (?page # pages)"
      using at(1) ok page True Suc.prems(1) pages(1) by simp
    moreover have "map changeKey (concat (?page # pages)) = map (\<lambda>j. (jr_node j, jr_rev j)) ?rows"
      by (simp only: concat.simps map_append keys pages(2)) (simp only: map_append [symmetric] append_take_drop_id)
    ultimately show ?thesis by blast
  qed
qed

lemma tree_steps_journal: "tree_steps s t \<Longrightarrow> \<exists>ext. st_journal t = st_journal s @ ext"
proof (induction rule: rtranclp_induct)
  case (step t u)
  from step.hyps(2) have "\<exists>j. st_journal u = st_journal t @ [j]" by (cases rule: tree_step.cases) auto
  with step.IH show ?case by auto
qed simp

lemma readPosition_oldest:
  assumes "vaultLog d v \<noteq> []" "set (vaultLog d v) \<subseteq> set (vaultLog d' v)" "readPosition d v = Some at" "readPosition d' v = Some at'"
  shows "\<exists>oldest oldest'. po_oldestJournalRev at = Some oldest \<and> po_oldestJournalRev at' = Some oldest' \<and> oldest' \<le> oldest"
proof -
  have "set (vaultLog d' v) \<noteq> {}" using assms(1,2) by auto
  then show ?thesis using assms Min_antimono [OF image_mono [OF assms(2)], of jr_rev] by (auto simp: readPosition_def)
qed

lemma served_reset_epoch:
  assumes "tree_steps s t"
  shows "map_option vr_reset_epoch (find (\<lambda>r. vr_id r = v) (st_vaults t)) = map_option vr_reset_epoch (find (\<lambda>r. vr_id r = v) (st_vaults s))"
proof -
  have bump: "map_option vr_reset_epoch (find (\<lambda>r. vr_id r = v) (map (\<lambda>r. if vr_id r = w then r\<lparr>vr_head_rev := vr_head_rev r + 1\<rparr> else r) vs)) =
      map_option vr_reset_epoch (find (\<lambda>r. vr_id r = v) vs)" for w vs
    by (induction vs) auto
  from assms show ?thesis
  proof (induction rule: rtranclp_induct)
    case (step t u)
    from step.hyps(2) obtain w where "st_vaults u = st_vaults (bump w t)" by (cases rule: tree_step.cases) auto
    then have "st_vaults u = map (\<lambda>r. if vr_id r = w then r\<lparr>vr_head_rev := vr_head_rev r + 1\<rparr> else r) (st_vaults t)"
      by (simp add: bump_def)
    with step.IH show ?case by (simp only: bump)
  qed simp
qed

lemma revs_newest:
  "revsOk bottom (core d) \<Longrightarrow> j \<in> set (db_journal d) \<Longrightarrow> r \<in> set (db_nodes d) \<Longrightarrow> jr_vault j = nr_vault r \<Longrightarrow>
     jr_node j = nr_id r \<Longrightarrow> jr_rev j \<le> nr_rev r"
  by (simp add: revsOk_def)

lemma changeRows_complete:
  assumes w: "wellFormed bottom d" and above: "\<And>j. j \<in> set (vaultLog d v) \<Longrightarrow> bottom v < jr_rev j"
    and at: "readPosition d v = Some at" "rejectionFor cursor at = None" "vaultLog d v \<noteq> []"
    and r: "r \<in> set (db_nodes d)" "nr_vault r = v" "cu_rev cursor < nr_rev r"
  shows "\<exists>j\<in>set (changeRows d v (cu_rev cursor) (po_headRev at)). jr_node j = nr_id r \<and> jr_rev j = nr_rev r"
proof -
  from at obtain i where "i \<in> set (vaultLog d v)" "jr_rev i \<le> cu_rev cursor + 1"
    by (auto simp: readPosition_def rejectionFor_def not_less split: if_splits)
  with above have "bottom v \<le> cu_rev cursor" by fastforce
  with r have "bottom (nr_vault r) < nr_rev r" by simp
  with w r(1) obtain j where j: "j \<in> set (db_journal d)" "jr_vault j = nr_vault r" "jr_node j = nr_id r" "jr_rev j = nr_rev r"
    by (auto simp: wellFormed_def revsOk_def)
  moreover have "latestIn d v (po_headRev at) j"
    using w r(1,2) j revs_newest [of bottom d _ r] by (fastforce simp: latestIn_def list_ex_iff wellFormed_def)
  moreover have "nodeRow d v (jr_node j) \<noteq> None"
    using keysOk_find [of "core d" r] w r j by (auto simp: wellFormed_def)
  moreover have "nr_rev r \<le> po_headRev at"
    using w r(1,2) at(1) by (auto simp: wellFormed_def revsOk_def readPosition_def)
  ultimately show ?thesis using r by (intro bexI [of _ j]) (auto simp: changeRows_set)
qed

lemma changeRows_nodes:
  assumes "revsOk bottom (core d)"
  shows "distinct (map jr_node (changeRows d v after upTo))"
proof -
  have "distinct (changeRows d v after upTo)"
    using changeRows_sorted [OF assms] by (metis distinct_map strict_sorted_iff)
  moreover have "a = b" if ab: "a \<in> set (changeRows d v after upTo)" "b \<in> set (changeRows d v after upTo)" "jr_node a = jr_node b" for a b
  proof -
    from ab have "\<not> jr_rev a < jr_rev b" "\<not> jr_rev b < jr_rev a"
      by (auto simp: changeRows_set latestIn_def list_ex_iff)
    then have "jr_rev a = jr_rev b" by simp
    with assms ab show ?thesis by (auto simp: revsOk_def changeRows_set distinct_map inj_on_def)
  qed
  ultimately show ?thesis by (simp add: distinct_map inj_on_def)
qed
subsection \<open>Properties\<close>

text \<open>C8. A client that reads the delta page by page, whatever the page size and whatever is written by others
  between its requests, gets an end: with fuel for one page per journal entry no page is refused, and
  together the pages hold exactly the nodes changed between the cursor and the moment of the first request,
  each once and in revision order, none of a vault's changed nodes missing.\<close>

theorem delta_series_complete:
  assumes d: "wellFormed bottom d" "unpurged d v" "\<And>j. j \<in> set (vaultLog d v) \<Longrightarrow> bottom v < jr_rev j" "vaultLog d v \<noteq> []"
    and at: "readPosition d v = Some at" "rejectionFor cursor at = None" "cu_hwm cursor = None"
    and ds: "\<And>k. served pg d (ds k)" "\<And>k. db_restore_epoch (ds k) = db_restore_epoch d" "ds fuel = d"
    and "0 < limit" "length (db_journal d) \<le> fuel"
  shows "\<exists>pages. deltaSeries ds u v limit (Suc fuel) cursor = Some pages \<and>
    sorted_wrt (<) (map ch_rev (concat pages)) \<and> distinct (map ch_node_id (concat pages)) \<and>
    (\<forall>r\<in>set (db_nodes d). nr_vault r = v \<and> cu_rev cursor < nr_rev r \<longrightarrow> (nr_id r, nr_rev r) \<in> changeKey ` set (concat pages))"
proof -
  let ?rows = "changeRows d v (cu_rev cursor) (po_headRev at)"
  have keys: "keysOk (core d)" and revs: "revsOk bottom (core d)" using d(1) by (simp_all add: wellFormed_def)
  obtain va where va: "vaultRow d v = Some va" "po_headRev at = vr_head_rev va" "po_resetEpoch at = vr_reset_epoch va" "po_restoreEpoch at = db_restore_epoch d"
    using at(1) by (auto simp: readPosition_def)
  have steps: "tree_steps (core d) (core (ds k))" for k using served_steps [OF ds(1) keys] .
  have snap: "sameSnapshot v (po_headRev at) (core d) (core (ds k)) \<and> revsOk bottom (core (ds k))" for k
    using tree_steps_snapshot [OF steps, of v] va served_wellFormed [OF ds(1) d(1)] by (auto simp: wellFormed_def)
  have positions: "\<exists>at'. readPosition (ds k) v = Some at' \<and> po_restoreEpoch at' = cu_restore cursor \<and> po_resetEpoch at' = cu_reset cursor \<and>
      (\<exists>oldest. po_oldestJournalRev at' = Some oldest \<and> oldest \<le> cu_rev cursor + 1)" for k
  proof -
    from served_reset_epoch [OF steps, of v k] va obtain va' where va': "vaultRow (ds k) v = Some va'" "vr_reset_epoch va' = vr_reset_epoch va"
      by (auto simp: vaultRow_def)
    then obtain at' where at': "readPosition (ds k) v = Some at'" "po_resetEpoch at' = vr_reset_epoch va" "po_restoreEpoch at' = db_restore_epoch d"
      using ds(2) by (auto simp: readPosition_def)
    from tree_steps_journal [OF steps, of k] have "set (vaultLog d v) \<subseteq> set (vaultLog (ds k) v)" by (auto simp: vaultLog_def)
    from readPosition_oldest [OF d(4) this at(1) at'(1)] at(2) at' va show ?thesis
      by (auto simp: rejectionFor_def split: if_splits)
  qed
  have "length ?rows \<le> length (db_journal d)" by (simp add: changeRows_def)
  then have "\<exists>pages. deltaSeries ds u v limit (Suc fuel) cursor = Some pages \<and>
      map changeKey (concat pages) = map (\<lambda>j. (jr_node j, jr_rev j)) ?rows"
    using assms(11,12) snap positions d(2) at(1,3) ds(3)
    by (intro deltaSeries_from [where low = "cu_rev cursor"]) (auto simp: snapshotOf_def)
  then obtain pages where pages: "deltaSeries ds u v limit (Suc fuel) cursor = Some pages"
    and keys: "map changeKey (concat pages) = map (\<lambda>j. (jr_node j, jr_rev j)) ?rows" by blast
  from arg_cong [OF keys, of "map snd"] have "map ch_rev (concat pages) = map jr_rev ?rows" by (simp add: comp_def changeKey_def)
  moreover from arg_cong [OF keys, of "map fst"] have "map ch_node_id (concat pages) = map jr_node ?rows" by (simp add: comp_def changeKey_def)
  moreover from arg_cong [OF keys, of set] have set: "changeKey ` set (concat pages) = (\<lambda>j. (jr_node j, jr_rev j)) ` set ?rows" by simp
  moreover have "(nr_id r, nr_rev r) \<in> changeKey ` set (concat pages)" if "r \<in> set (db_nodes d)" "nr_vault r = v" "cu_rev cursor < nr_rev r" for r
  proof -
    have "\<exists>j\<in>set ?rows. jr_node j = nr_id r \<and> jr_rev j = nr_rev r"
      by (rule changeRows_complete [OF d(1) _ at(1,2) d(4) that]) (rule d(3))
    then show ?thesis unfolding set by force
  qed
  ultimately show ?thesis
    using pages changeRows_sorted [OF revs] changeRows_nodes [OF revs] by (intro exI [of _ pages]) simp
qed

text \<open>A cursor is read back as it was issued, for the account and vault it was issued to, when JSON and
  base64url read back what they wrote and write no dot.\<close>

theorem cursor_roundtrip:
  assumes "CHR ''.'' \<notin> set (cc_write cc payload)" "cc_write cc payload \<noteq> []" "cc_read cc (cc_write cc payload) = Some payload"
    "cu_v payload = 1"
  shows "decodeCursor cc secret (encodeCursor cc secret payload) (cu_uid payload) (cu_vid payload) = Inr payload"
proof -
  have dot: "indexOf CHR ''.'' (a @ CHR ''.'' # b) = Some (length a)" if "CHR ''.'' \<notin> set a" for a b
    using that by (induction a) auto
  from assms dot [OF assms(1)] show ?thesis by (simp add: decodeCursor_def encodeCursor_def Let_def)
qed

text \<open>No cursor is accepted that this server did not sign for the caller: an accepted token carries the
  keyed tag of its body, the format version, and the account and vault of the request; any other is a
  fault, never a position.\<close>

theorem cursor_accepted_only_signed:
  assumes "decodeCursor cc secret token userId vaultId = Inr payload"
  shows "\<exists>body. token = body @ ''.'' @ cc_hmac cc secret body \<and> body \<noteq> [] \<and> cc_read cc body = Some payload \<and>
    cu_v payload = 1 \<and> cu_uid payload = userId \<and> cu_vid payload = vaultId"
proof -
  obtain dot where dot: "indexOf CHR ''.'' token = Some dot" "1 \<le> dot" and tag: "drop (dot + 1) token = cc_hmac cc secret (take dot token)"
    and rest: "cc_read cc (take dot token) = Some payload" "cu_v payload = 1" "cu_uid payload = userId" "cu_vid payload = vaultId"
    using assms by (auto simp: decodeCursor_def Let_def not_less split: option.splits if_splits)
  have "token = take k token @ CHR ''.'' # drop (k + 1) token" if "indexOf CHR ''.'' token = Some k" for k token
    using that by (induction token arbitrary: k) (auto split: if_splits)
  from this [OF dot(1)] tag have "token = take dot token @ ''.'' @ cc_hmac cc secret (take dot token)" by simp
  moreover from dot have "take dot token \<noteq> []" by (cases token) auto
  ultimately show ?thesis using rest by blast
qed

subsection \<open>The listing and the client's walk of it\<close>

definition listed :: "db \<Rightarrow> string \<Rightarrow> node_row list" where
  "listed d v = sort_key (\<lambda>r. length (nr_ancestry r)) (sort_key nr_id (filter (\<lambda>r. nr_vault r = v \<and> nr_deleted r = None) (db_nodes d)))"

lemma listSubtree_all: "listSubtree d v None = map (\<lambda>r. toChange r ''put'' (nr_rev r) (newestAuthor d r)) (listed d v)"
  by (simp add: listSubtree_def listed_def)

lemma toChange_fields [simp]: "ch_node_id (toChange r op rv au) = nr_id r" "ch_parent_id (toChange r op rv au) = nr_parent r"
  by (simp_all add: toChange_def)

lemma listed_set: "r \<in> set (listed d v) \<longleftrightarrow> r \<in> set (db_nodes d) \<and> nr_vault r = v \<and> nr_deleted r = None"
  by (auto simp: listed_def)

lemma parentsFirst_sorted:
  assumes "sorted (map len xs)" "\<And>x y. x \<in> set xs \<Longrightarrow> y \<in> set xs \<Longrightarrow> nr_parent x = Some (nr_id y) \<Longrightarrow> (len y :: nat) < len x"
    and f: "\<And>r. ch_node_id (f r) = nr_id r \<and> ch_parent_id (f r) = nr_parent r"
  shows "parentsFirst seen (map f xs)"
  using assms(1,2)
proof (induction xs arbitrary: seen)
  case (Cons x xs)
  have "the (nr_parent x) \<notin> set (map ch_node_id (map f (x # xs)))" if "nr_parent x \<noteq> None"
  proof
    assume "the (nr_parent x) \<in> set (map ch_node_id (map f (x # xs)))"
    with f have "the (nr_parent x) \<in> nr_id ` set (x # xs)" by (simp add: image_image)
    then obtain y where "y \<in> set (x # xs)" "the (nr_parent x) = nr_id y" by blast
    with that have y: "y \<in> set (x # xs)" "nr_parent x = Some (nr_id y)" by auto
    with Cons.prems(2) [of x y] have "len y < len x" by simp
    moreover have "len x \<le> len y" using y(1) Cons.prems(1) by auto
    ultimately show False by simp
  qed
  moreover have "parentsFirst (ch_node_id (f x) # seen) (map f xs)"
    by (rule Cons.IH) (use Cons.prems in auto)
  ultimately show ?case using f by (auto simp: truthy_def)
qed simp

lemma listing_order:
  assumes "wellFormed bottom d"
  shows "parentsFirst [root] (listSubtree d v None) \<and> distinct (map ch_node_id (listSubtree d v None))"
proof -
  have keys: "keysOk (core d)" using assms by (simp add: wellFormed_def)
  have "length (nr_ancestry y) < length (nr_ancestry x)"
    if "x \<in> set (listed d v)" "y \<in> set (listed d v)" "nr_parent x = Some (nr_id y)" for x y
  proof -
    from that have "y \<in> set (st_nodes (core d))" "nr_vault y = nr_vault x" by (auto simp: listed_set)
    with keysOk_find [OF keys, of y] wellFormed_chain [OF assms, of x] that have "nr_ancestry y @ [nr_id y] = nr_ancestry x"
      by (auto simp: parentChain_def listed_set)
    from arg_cong [OF this, of length] show ?thesis by simp
  qed
  moreover have "sorted (map (\<lambda>r. length (nr_ancestry r)) (listed d v))" by (simp add: listed_def)
  ultimately have "parentsFirst [root] (listSubtree d v None)" unfolding listSubtree_all
    by (intro parentsFirst_sorted) auto
  moreover have "distinct (db_nodes d)" using keys by (simp add: keysOk_def distinct_map)
  then have "distinct (listed d v)" by (simp add: listed_def)
  with keys have "distinct (map nr_id (listed d v))" by (auto simp: distinct_map inj_on_def listed_set keysOk_def)
  then have "distinct (map ch_node_id (listSubtree d v None))" unfolding listSubtree_all by (simp add: comp_def)
  ultimately show ?thesis by blast
qed

text \<open>C9. The listing a server gives and the walk a client makes of it fit: from any store the write handlers
  reach, the listing of a vault names every parent before its children and every node once, so the client's
  walk of it, with whatever keys it holds, finds no orphan.\<close>

theorem listing_walks_without_orphans:
  assumes "served pg d0 d" "wellFormed bottom d0" "list_all (liveUnderLive d0) (db_nodes d0)"
    and root: "\<And>r. r \<in> set (db_nodes d) \<Longrightarrow> nr_vault r = v \<Longrightarrow> nr_parent r = None \<Longrightarrow> nr_id r = root"
    and ids: "\<And>r. r \<in> set (db_nodes d) \<Longrightarrow> nr_id r \<noteq> []"
    and walk: "treeFrom decryptName (listSubtree d v None) root sc = Inr t"
  shows "wa_orphans t = []"
proof -
  from served_wellFormed [OF assms(1,2)] have w: "wellFormed bottom d" .
  then have keys: "keysOk (core d)" by (simp add: wellFormed_def)
  from assms(2) have "keysOk (core d0)" by (simp add: wellFormed_def)
  from served_live [OF assms(1) this assms(3)] have live: "list_all (liveUnderLive d) (db_nodes d)" .
  have parent: "\<exists>q. nr_parent r = Some (nr_id q) \<and> q \<in> set (listed d v)" if r: "r \<in> set (listed d v)" "nr_id r \<noteq> root" for r
  proof -
    from r root [of r] obtain p where p: "nr_parent r = Some p" by (cases "nr_parent r") (auto simp: listed_set)
    from wellFormed_chain [OF w, of r] r p obtain q where q: "nodeRow d v p = Some q"
      by (auto simp: parentChain_def listed_set split: option.splits)
    with live r p have "nr_deleted q = None" by (fastforce simp: liveUnderLive_def listed_set list_all_iff)
    with nodeRow_key [OF q] p show ?thesis by (auto simp: listed_set)
  qed
  have none: "\<not> orphan root (listSubtree d v None) i" for i
  proof
    assume "orphan root (listSubtree d v None) i"
    then show False
    proof (induction rule: orphan.induct)
      case (parent_missing n)
      then obtain r where r: "r \<in> set (listed d v)" "n = toChange r ''put'' (nr_rev r) (newestAuthor d r)" by (auto simp: listSubtree_all)
      with parent [OF r(1)] parent_missing(2) obtain q where q: "nr_parent r = Some (nr_id q)" "q \<in> set (listed d v)" by auto
      with ids [of q] have "truthy (nr_parent r)" by (auto simp: truthy_def listed_set)
      moreover have "nr_id q \<in> ch_node_id ` set (listSubtree d v None)"
        unfolding listSubtree_all using imageI [OF q(2), of nr_id] by (simp add: image_image)
      ultimately show ?case using parent_missing(3) r(2) q by simp
    qed
  qed
  from treeFrom_orphans [OF walk] listing_order [OF w] have "set (wa_orphans t) = {i. orphan root (listSubtree d v None) i}" by blast
  with none show ?thesis by auto
qed

subsection \<open>Two gaps of the delta\<close>

text \<open>The collector prunes by age alone. When a vault has been quiet for the journal's whole life nothing of its
  journal is left, \<open>rejectionFor\<close> has no oldest row to compare with, and a cursor from before the last
  changes is answered: an empty page and a position at the head, past changes it never delivered.\<close>

definition quietStore :: db where
  "quietStore = pruneJournal 100 (exStore\<lparr>db_now := 1000 * second\<rparr>)"

lemma quietStore_rest: "db_journal quietStore = [] \<and> db_vaults quietStore = db_vaults exStore \<and> db_restore_epoch quietStore = 1"
  by (simp add: quietStore_def pruneJournal_def exStore_def exLog_def)

lemma quietStore_position: "readPosition quietStore ''A'' =
  Some \<lparr>po_headRev = 4, po_resetEpoch = 1, po_restoreEpoch = 1, po_oldestJournalRev = None\<rparr>"
  by (simp add: readPosition_def vaultRow_def vaultLog_def quietStore_rest) (simp add: exStore_def)

lemma pruned_journal_answers_stale_cursor:
  "readChanges exStore ''A'' 2 4 10 \<noteq> [] \<and>
   map_option (rejectionFor ((startCursor ''ann'' ''A'' \<lparr>po_headRev = 4, po_resetEpoch = 1, po_restoreEpoch = 1, po_oldestJournalRev = None\<rparr>)
     \<lparr>cu_rev := 2\<rparr>)) (readPosition quietStore ''A'') = Some None \<and>
   readChanges quietStore ''A'' 2 4 10 = []"
proof (intro conjI)
  show "readChanges exStore ''A'' 2 4 10 \<noteq> []" by code_simp
  show "readChanges quietStore ''A'' 2 4 10 = []" by (simp add: readChanges_def changeRows_def quietStore_rest)
qed (simp add: quietStore_position rejectionFor_def startCursor_def)

text \<open>A node's row may go for good (the trash is emptied, or thinned away) while the entry of its deletion is
  still in the journal: the join leaves the entry out, and a device that was away is told of no change.\<close>

definition goneStore :: db where
  "goneStore = (snd (deleteNode openPg ''A'' ''p'' 4 exStore))\<lparr>db_nodes := filter (\<lambda>r. nr_id r \<noteq> ''p'') (db_nodes exStore)\<rparr>"

lemma purged_node_leaves_no_change:
  "map jr_node (filter (\<lambda>j. jr_rev j > 4) (vaultLog goneStore ''A'')) = [''p''] \<and> readChanges goneStore ''A'' 4 5 10 = []"
  by code_simp

subsection \<open>Worked reads\<close>

definition exCursor :: cursor_payload where
  "exCursor = \<lparr>cu_v = 1, cu_uid = ''ann'', cu_vid = ''A'', cu_restore = 1, cu_reset = 1, cu_rev = 1, cu_hwm = None\<rparr>"

definition exCodec :: cursor_codec where
  "exCodec = \<lparr>cc_write = (\<lambda>p. ''c''), cc_read = (\<lambda>s. Some exCursor), cc_hmac = (\<lambda>k s. k @ s)\<rparr>"

text \<open>The second page is asked for after the shared folder was moved.\<close>

definition exReads :: "nat \<Rightarrow> db" where
  "exReads k = (if k = 7 then exStore else exMoved)"

lemma exMoved_epoch: "db_restore_epoch exMoved = 1"
  by code_simp

lemma exStore_position:
  "readPosition exStore ''A'' = Some \<lparr>po_headRev = 4, po_resetEpoch = 1, po_restoreEpoch = 1, po_oldestJournalRev = Some 1\<rparr>"
  by code_simp

lemma exStore_rejection:
  "rejectionFor exCursor \<lparr>po_headRev = 4, po_resetEpoch = 1, po_restoreEpoch = 1, po_oldestJournalRev = Some 1\<rparr> = None"
  by code_simp

lemma exStore_unpurged: "unpurged exStore ''A''"
  unfolding unpurged_def by (simp add: exStore_def exLog_def exRow_def nodeRow_def vaultLog_def)

lemma exStore_oldest: "j \<in> set (vaultLog exStore ''A'') \<Longrightarrow> 0 < jr_rev j"
  by (auto simp: vaultLog_def exStore_def exLog_def)

lemma exDecoded: "decodeCursor exCodec ''k'' ''c.kc'' ''ann'' ''A'' = Inr exCursor"
  by code_simp

theorem delta_series_complete_witness:
  "\<exists>pages. deltaSeries exReads ''ann'' ''A'' 1 (Suc 7) exCursor = Some pages \<and> (''n'', 3) \<in> changeKey ` set (concat pages)"
proof -
  have n: "exRow ''A'' ''n'' [''ra'', ''s''] 3 (Some ''h1'') (Some ''j'') \<in> set (db_nodes exStore)" by (simp add: exStore_def)
  have reads: "served openPg exStore (exReads k)" "db_restore_epoch (exReads k) = db_restore_epoch exStore" for k
    using served.start [of openPg exStore] exMoved_served by (simp_all add: exReads_def exMoved_epoch, simp add: exStore_def)
  have "\<exists>pages. deltaSeries exReads ''ann'' ''A'' 1 (Suc 7) exCursor = Some pages \<and>
    sorted_wrt (<) (map ch_rev (concat pages)) \<and> distinct (map ch_node_id (concat pages)) \<and>
    (\<forall>r\<in>set (db_nodes exStore). nr_vault r = ''A'' \<and> cu_rev exCursor < nr_rev r \<longrightarrow> (nr_id r, nr_rev r) \<in> changeKey ` set (concat pages))"
    by (rule delta_series_complete [OF exStore_wellFormed exStore_unpurged exStore_oldest _ exStore_position exStore_rejection _ reads])
      (simp_all add: exReads_def, simp_all add: exCursor_def exStore_def exLog_def vaultLog_def)
  then obtain pages where pages: "deltaSeries exReads ''ann'' ''A'' 1 (Suc 7) exCursor = Some pages"
    and all: "\<forall>r\<in>set (db_nodes exStore). nr_vault r = ''A'' \<and> cu_rev exCursor < nr_rev r \<longrightarrow> (nr_id r, nr_rev r) \<in> changeKey ` set (concat pages)"
    by blast
  from bspec [OF all n] have "(''n'', 3) \<in> changeKey ` set (concat pages)" by (simp add: exRow_def exCursor_def del: set_concat)
  with pages show ?thesis by blast
qed

theorem cursor_roundtrip_witness:
  "decodeCursor exCodec ''secret'' (encodeCursor exCodec ''secret'' exCursor) ''ann'' ''A'' = Inr exCursor"
  using cursor_roundtrip [of exCodec exCursor "''secret''"] by (simp add: exCodec_def exCursor_def)

theorem cursor_accepted_only_signed_witness: "\<exists>body. ''c.kc'' = body @ ''.'' @ cc_hmac exCodec ''k'' body \<and> cc_read exCodec body = Some exCursor"
  using cursor_accepted_only_signed [OF exDecoded] by blast

definition exKeys :: "nat vault_scopes" where
  "exKeys = \<lparr>sc_root_node_id = ''ra'', sc_scopes = [], sc_vaultKey = 0, sc_vaultScopeId = ''k'', sc_shareKeys = [], sc_unopenable = []\<rparr>"

definition exWalk :: walked where
  "exWalk = (case treeFrom (\<lambda>key enc. Some enc) (listSubtree exMoved ''A'' None) ''ra'' exKeys of Inr t \<Rightarrow> t)"

lemma exWalk_runs: "treeFrom (\<lambda>key enc. Some enc) (listSubtree exMoved ''A'' None) ''ra'' exKeys = Inr exWalk"
  by code_simp

lemma exMoved_rows: "list_all (\<lambda>r. nr_id r \<noteq> [] \<and> (nr_vault r = ''A'' \<and> nr_parent r = None \<longrightarrow> nr_id r = ''ra'')) (db_nodes exMoved)"
  by code_simp

lemma exStore_live: "list_all (liveUnderLive exStore) (db_nodes exStore)"
  by code_simp

theorem listing_walks_without_orphans_witness: "wa_orphans exWalk = []"
  by (rule listing_walks_without_orphans [OF exMoved_served exStore_wellFormed exStore_live _ _ exWalk_runs])
    (use exMoved_rows in \<open>auto simp: list_all_iff\<close>)

end
