(* ===== verification/Server_Limits.thy ===== *)
theory Server_Limits
  imports Prelude
begin

text \<open>
  The server's two limiters, both in process and by a clock in milliseconds: bytes per minute and account
  (\<open>blobs/rate.ts\<close>) and attempts per key (\<open>auth/attempts.ts\<close>). A run is a list of requests in the order
  of the clock; the lemmas bound what a run lets through and say that the wait a refusal names is enough.
\<close>

subsection \<open>Bytes per minute\<close>

datatype permission = Granted | WaitFor nat

definition ceilSeconds :: "nat \<Rightarrow> nat" where
  "ceilSeconds ms = (ms + 999) div 1000"

definition UPLOAD_WINDOW_MS :: nat where "UPLOAD_WINDOW_MS = 60000"

definition recentOf :: "nat \<Rightarrow> (nat \<times> nat) list \<Rightarrow> (nat \<times> nat) list" where
  "recentOf t es = filter (\<lambda>(at, _). t - at < UPLOAD_WINDOW_MS) es"

fun rollOff :: "nat \<Rightarrow> nat \<Rightarrow> nat \<Rightarrow> (nat \<times> nat) list \<Rightarrow> nat" where
  "rollOff needed freed waitUntil [] = waitUntil"
| "rollOff needed freed waitUntil ((at, b) # es) =
     (if freed + b \<ge> needed then at + UPLOAD_WINDOW_MS else rollOff needed (freed + b) (at + UPLOAD_WINDOW_MS) es)"

lemma recentOf_append: "recentOf t (xs @ ys) = recentOf t xs @ recentOf t ys"
  by (simp add: recentOf_def)

lemma sorted_recentOf: "sorted (map fst es) \<Longrightarrow> sorted (map fst (recentOf t es))"
  by (simp add: recentOf_def sorted_filter)

definition windowOf :: "(string, (nat \<times> nat) list) jmap \<Rightarrow> string \<Rightarrow> (nat \<times> nat) list" where
  "windowOf windows userId = (case jget windows userId of None \<Rightarrow> [] | Some es \<Rightarrow> es)"

definition reserve ::
  "nat \<Rightarrow> nat \<Rightarrow> (string, (nat \<times> nat) list) jmap \<Rightarrow> string \<Rightarrow> nat \<Rightarrow> permission \<times> (string, (nat \<times> nat) list) jmap"
where
  "reserve bytesPerMinute t windows userId bytes =
     (let recent = recentOf t (windowOf windows userId);
          used = sum_list (map snd recent)
      in if used + bytes > bytesPerMinute
         then (let waitUntil = rollOff (used + bytes - bytesPerMinute) 0 t recent
               in (WaitFor (max 1 (ceilSeconds (waitUntil - t))), jset userId recent windows))
         else (Granted, jset userId (recent @ [(t, bytes)]) windows))"

text \<open>A run, oldest request last, and what it granted.\<close>

fun admitted :: "nat \<Rightarrow> (nat \<times> string \<times> nat) list \<Rightarrow> (string, (nat \<times> nat) list) jmap \<times> (nat \<times> string \<times> nat) list" where
  "admitted limit [] = ([], [])"
| "admitted limit ((t, u, b) # earlier) =
     (let (ws, log) = admitted limit earlier; (p, ws') = reserve limit t ws u b
      in (ws', if p = Granted then (t, u, b) # log else log))"

definition logOf :: "string \<Rightarrow> (nat \<times> string \<times> nat) list \<Rightarrow> (nat \<times> nat) list" where
  "logOf u log = map (\<lambda>(t, _, b). (t, b)) (filter (\<lambda>(_, v, _). v = u) (rev log))"

definition clocked :: "nat \<Rightarrow> (nat \<times> 'a) list \<Rightarrow> bool" where
  "clocked now reqs \<longleftrightarrow> sorted_wrt (\<lambda>a b. fst b \<le> fst a) reqs \<and> (\<forall>r\<in>set reqs. fst r \<le> now)"

lemma logOf_Cons: "logOf u ((t, v, b) # log) = logOf u log @ (if v = u then [(t, b)] else [])"
  by (simp add: logOf_def)

lemma recentOf_later: "now \<le> t \<Longrightarrow> recentOf t (recentOf now es) = recentOf t es"
  unfolding recentOf_def by (simp add: case_prod_unfold) (rule filter_cong, auto)

lemma windowOf_jset [simp]: "windowOf (jset u es ws) v = (if v = u then es else windowOf ws v)"
  by (simp add: windowOf_def)

lemma clocked_Cons: "clocked now (r # reqs) \<longleftrightarrow> fst r \<le> now \<and> clocked (fst r) reqs"
  by (fastforce simp: clocked_def)

lemma clocked_mono: "clocked t reqs \<Longrightarrow> t \<le> now \<Longrightarrow> clocked now reqs"
  by (auto simp: clocked_def)

text \<open>The window an account has is what it was granted, the expired part aside; grants are in order.\<close>

lemma admitted_windows:
  assumes "clocked now reqs"
  shows "recentOf now (windowOf (fst (admitted limit reqs)) u) = recentOf now (logOf u (snd (admitted limit reqs))) \<and>
    sorted (map fst (windowOf (fst (admitted limit reqs)) u)) \<and>
    (\<forall>e\<in>set (windowOf (fst (admitted limit reqs)) u) \<union> set (logOf u (snd (admitted limit reqs))). fst e \<le> now)"
  using assms
proof (induction reqs arbitrary: now)
  case Nil
  then show ?case by (simp add: windowOf_def logOf_def)
next
  case (Cons r reqs)
  obtain t v b where r: "r = (t, v, b)" by (cases r)
  obtain ws log where a: "admitted limit reqs = (ws, log)" by (cases "admitted limit reqs")
  from Cons.prems r have t: "t \<le> now" and c: "clocked t reqs" by (auto simp: clocked_Cons)
  note IH = Cons.IH [OF c, unfolded a fst_conv snd_conv]
  have old: "recentOf now (windowOf ws u) = recentOf now (logOf u log)"
    using arg_cong [OF conjunct1 [OF IH], of "recentOf now"] t by (simp add: recentOf_later)
  from IH t have older: "\<forall>e\<in>set (windowOf ws u) \<union> set (logOf u log). fst e \<le> now" by (meson le_trans)
  show ?case
  proof (cases "v = u")
    case False
    with a r old IH older show ?thesis by (auto simp: reserve_def Let_def logOf_Cons)
  next
    case True
    have "sorted (map fst (recentOf t (windowOf ws u)))" using IH by (blast intro: sorted_recentOf)
    moreover have "recentOf now (recentOf t (windowOf ws u) @ [(t, b)]) = recentOf now (logOf u log @ [(t, b)])"
      unfolding recentOf_append using old t by (simp add: recentOf_later)
    moreover have "set (recentOf t (windowOf ws u)) \<subseteq> set (windowOf ws u)" by (auto simp: recentOf_def)
    moreover have "recentOf now (recentOf t (windowOf ws u)) = recentOf now (logOf u log)" using old t by (simp add: recentOf_later)
    moreover have "\<forall>e\<in>set (recentOf t (windowOf ws u)). fst e \<le> t" using IH by (auto simp: recentOf_def)
    ultimately show ?thesis using a r True IH t older unfolding admitted.simps
      by (auto simp: reserve_def Let_def logOf_Cons sorted_append simp del: set_filter)
  qed
qed

definition bytesIn :: "nat \<Rightarrow> (nat \<times> nat) list \<Rightarrow> nat" where
  "bytesIn t0 log = sum_list (map snd (filter (\<lambda>(t, _). t0 \<le> t \<and> t < t0 + UPLOAD_WINDOW_MS) log))"

lemma length_filter_mono: "(\<And>x. P x \<Longrightarrow> Q x) \<Longrightarrow> length (filter P xs) \<le> length (filter Q xs)"
  by (induction xs) (auto intro: le_SucI)

lemma sum_filter_mono: "(\<And>x. x \<in> set xs \<Longrightarrow> P x \<Longrightarrow> Q x) \<Longrightarrow> sum_list (map (f :: 'a \<Rightarrow> nat) (filter P xs)) \<le> sum_list (map f (filter Q xs))"
  by (induction xs) (auto intro: le_SucI trans_le_add2)

text \<open>C12. The upload limit bounds volume: in a run of reservations in the order of the clock, whatever was asked
  for and refused, what one account was granted within any one minute is at most the limit.\<close>

theorem rate_limit_bound:
  assumes "clocked now reqs"
  shows "bytesIn t0 (logOf u (snd (admitted limit reqs))) \<le> limit"
  using assms
proof (induction reqs arbitrary: now)
  case Nil
  then show ?case by (simp add: bytesIn_def logOf_def)
next
  case (Cons r reqs)
  obtain t v b where r: "r = (t, v, b)" by (cases r)
  obtain ws log where a: "admitted limit reqs = (ws, log)" by (cases "admitted limit reqs")
  from Cons.prems r have c: "clocked t reqs" by (auto simp: clocked_Cons)
  have IH: "bytesIn t0 (logOf u log) \<le> limit" using Cons.IH [OF c] a by simp
  have fresh: "bytesIn t0 (logOf u log) + b \<le> limit"
    if g: "fst (reserve limit t ws u b) = Granted" and in_w: "t0 \<le> t" "t < t0 + UPLOAD_WINDOW_MS"
  proof -
    have "bytesIn t0 (logOf u log) \<le> sum_list (map snd (recentOf t (logOf u log)))"
      unfolding bytesIn_def recentOf_def using in_w
      by (intro sum_filter_mono) (auto split: prod.splits)
    also have "\<dots> = sum_list (map snd (recentOf t (windowOf ws u)))" using admitted_windows [OF c, of limit u] a by simp
    finally show ?thesis using g by (auto simp: reserve_def Let_def split: if_splits)
  qed
  have later: "bytesIn t0 (xs @ [(t, b)]) = bytesIn t0 xs + (if t0 \<le> t \<and> t < t0 + UPLOAD_WINDOW_MS then b else 0)" for xs
    by (simp add: bytesIn_def)
  show ?case using a r IH fresh by (auto simp: logOf_Cons later split: prod.splits)
qed

text \<open>Where the wait ends: with the entry whose expiry frees enough.\<close>

lemma rollOff_frees:
  "freed < needed \<Longrightarrow> needed \<le> freed + sum_list (map snd es) \<Longrightarrow>
   \<exists>pre e post. es = pre @ e # post \<and> rollOff needed freed w es = fst e + UPLOAD_WINDOW_MS \<and>
     needed \<le> freed + sum_list (map snd (pre @ [e]))"
proof (induction es arbitrary: freed w)
  case Nil
  then show ?case by simp
next
  case (Cons x es)
  obtain at b where x: "x = (at, b)" by (cases x)
  show ?case
  proof (cases "needed \<le> freed + b")
    case True
    with x show ?thesis by (intro exI [of _ "[]"] exI [of _ x] exI [of _ es]) simp
  next
    case False
    with Cons.prems x have "freed + b < needed" "needed \<le> (freed + b) + sum_list (map snd es)" by auto
    from Cons.IH [OF this] obtain pre e post where
      "es = pre @ e # post" "rollOff needed (freed + b) (at + UPLOAD_WINDOW_MS) es = fst e + UPLOAD_WINDOW_MS"
      "needed \<le> freed + b + sum_list (map snd (pre @ [e]))" by blast
    with False x show ?thesis by (intro exI [of _ "x # pre"] exI [of _ e] exI [of _ post]) simp
  qed
qed

lemma ceilSeconds_enough: "ms \<le> ceilSeconds ms * 1000"
  unfolding ceilSeconds_def by linarith

text \<open>A refusal of the upload limiter says a wait that is enough: after any run, a reservation that is within
  the limit and refused is granted when it is made again the stated number of seconds later.\<close>

theorem rate_wait_suffices:
  assumes "clocked t reqs" "b \<le> limit"
    and refused: "reserve limit t (fst (admitted limit reqs)) u b = (WaitFor seconds, ws')"
    and "t + seconds * 1000 \<le> t'"
  shows "fst (reserve limit t' ws' u b) = Granted"
proof -
  define recent where "recent = recentOf t (windowOf (fst (admitted limit reqs)) u)"
  define needed where "needed = sum_list (map snd recent) + b - limit"
  define w where "w = rollOff needed 0 t recent"
  from refused have over: "limit < sum_list (map snd recent) + b" and s: "seconds = max 1 (ceilSeconds (w - t))"
    and ws: "ws' = jset u recent (fst (admitted limit reqs))"
    by (auto simp: reserve_def Let_def recent_def w_def needed_def split: if_splits)
  from over \<open>b \<le> limit\<close> have "0 < needed" "needed \<le> 0 + sum_list (map snd recent)" unfolding needed_def by linarith+
  from rollOff_frees [OF this, of t, folded w_def] obtain pre e post where split: "recent = pre @ e # post" "w = fst e + UPLOAD_WINDOW_MS"
    and frees: "needed \<le> 0 + sum_list (map snd (pre @ [e]))" by (elim exE conjE)
  have "w - t \<le> seconds * 1000" using ceilSeconds_enough [of "w - t"] s by (simp add: max_def split: if_splits)
  then have gone: "fst e + UPLOAD_WINDOW_MS \<le> t'" using assms(4) split(2) by linarith
  have "sorted (map fst recent)"
    using admitted_windows [OF assms(1), of limit u] unfolding recent_def by (blast intro: sorted_recentOf)
  then have "x \<in> set pre \<Longrightarrow> fst x \<le> fst e" for x unfolding split(1) by (auto simp: sorted_append)
  with gone have "recentOf t' (pre @ [e]) = []" by (fastforce simp: recentOf_def filter_empty_conv)
  then have "recentOf t' recent = recentOf t' post" unfolding split(1) using recentOf_append [of t' "pre @ [e]" post] by simp
  then have "sum_list (map snd (recentOf t' (windowOf ws' u))) \<le> sum_list (map snd post)"
    using sum_filter_mono [of post _ "\<lambda>_. True" snd] by (simp add: ws recentOf_def)
  moreover have "sum_list (map snd recent) = sum_list (map snd (pre @ [e])) + sum_list (map snd post)" by (simp add: split(1))
  ultimately have "sum_list (map snd (recentOf t' (windowOf ws' u))) + b \<le> limit" using frees over unfolding needed_def by linarith
  then show ?thesis by (simp add: reserve_def Let_def)
qed

subsection \<open>Attempts\<close>

definition THRESHOLD :: nat where "THRESHOLD = 5"
definition ATTEMPT_WINDOW_MS :: nat where "ATTEMPT_WINDOW_MS = 15 * 60000"
definition BASE_LOCKOUT_MS :: nat where "BASE_LOCKOUT_MS = 60000"
definition MAX_LOCKOUT_MS :: nat where "MAX_LOCKOUT_MS = 60 * 60000"

record attempt_entry =
  ae_failures :: "nat list"
  ae_lockedUntil :: nat
  ae_lockouts :: nat

definition attemptEntry :: "(string, attempt_entry) jmap \<Rightarrow> string \<Rightarrow> attempt_entry" where
  "attemptEntry entries key =
     (case jget entries key of None \<Rightarrow> \<lparr>ae_failures = [], ae_lockedUntil = 0, ae_lockouts = 0\<rparr> | Some e \<Rightarrow> e)"

definition checkAttempt :: "nat \<Rightarrow> (string, attempt_entry) jmap \<Rightarrow> string \<Rightarrow> permission" where
  "checkAttempt t entries key =
     (case jget entries key of
        None \<Rightarrow> Granted
      | Some e \<Rightarrow> if ae_lockedUntil e \<le> t then Granted else WaitFor (ceilSeconds (ae_lockedUntil e - t)))"

definition failAttempt :: "nat \<Rightarrow> string \<Rightarrow> (string, attempt_entry) jmap \<Rightarrow> (string, attempt_entry) jmap" where
  "failAttempt t key entries =
     (let e = attemptEntry entries key;
          failures = filter (\<lambda>at. t - at < ATTEMPT_WINDOW_MS) (ae_failures e) @ [t]
      in jset key
        (if length failures < THRESHOLD then e\<lparr>ae_failures := failures\<rparr>
         else \<lparr>ae_failures = [], ae_lockedUntil = t + min (BASE_LOCKOUT_MS * 2 ^ ae_lockouts e) MAX_LOCKOUT_MS,
               ae_lockouts = ae_lockouts e + 1\<rparr>) entries)"

definition succeedAttempt :: "string \<Rightarrow> (string, attempt_entry) jmap \<Rightarrow> (string, attempt_entry) jmap" where
  "succeedAttempt key entries = jdel key entries"

text \<open>A run of attempts that all fail, latest first: an attempt is made when the check lets it through. The log
  holds the moments at which one was.\<close>

fun tried :: "string \<Rightarrow> (nat \<times> string) list \<Rightarrow> (string, attempt_entry) jmap \<times> nat list" where
  "tried key [] = ([], [])"
| "tried key ((t, k) # earlier) =
     (let (es, log) = tried key earlier
      in if checkAttempt t es k = Granted then (failAttempt t k es, if k = key then t # log else log) else (es, log))"

definition countIn :: "nat \<Rightarrow> nat list \<Rightarrow> nat" where
  "countIn t0 log = length (filter (\<lambda>t. t0 \<le> t \<and> t < t0 + BASE_LOCKOUT_MS) log)"

lemmas attempt_limits = THRESHOLD_def ATTEMPT_WINDOW_MS_def BASE_LOCKOUT_MS_def MAX_LOCKOUT_MS_def

lemma attemptEntry_jset [simp]: "attemptEntry (jset k e es) key = (if k = key then e else attemptEntry es key)"
  by (simp add: attemptEntry_def)

lemma checkAttempt_Granted: "checkAttempt t es key = Granted \<longleftrightarrow> ae_lockedUntil (attemptEntry es key) \<le> t"
  by (simp add: checkAttempt_def attemptEntry_def split: option.splits)

text \<open>What the entry remembers: of the last minute, every failure after a lock-out, and a lock-out holds for
  a minute after the failures it forgot.\<close>

definition remembers :: "nat \<Rightarrow> attempt_entry \<Rightarrow> nat list \<Rightarrow> bool" where
  "remembers now e log \<longleftrightarrow> length (ae_failures e) < THRESHOLD \<and> (\<forall>t\<in>set log. t \<le> now) \<and>
     (\<exists>fresh forgotten. log = fresh @ forgotten \<and> (\<forall>t\<in>set forgotten. t + BASE_LOCKOUT_MS \<le> ae_lockedUntil e) \<and>
       filter (\<lambda>t. now - t < BASE_LOCKOUT_MS) fresh = filter (\<lambda>t. now - t < BASE_LOCKOUT_MS) (rev (ae_failures e)))"


lemma remembersI:
  "length (ae_failures e) < THRESHOLD \<Longrightarrow> \<forall>x\<in>set (fresh @ forgotten). x \<le> now \<Longrightarrow>
   \<forall>x\<in>set forgotten. x + BASE_LOCKOUT_MS \<le> ae_lockedUntil e \<Longrightarrow>
   filter (\<lambda>x. now - x < BASE_LOCKOUT_MS) fresh = filter (\<lambda>x. now - x < BASE_LOCKOUT_MS) (rev (ae_failures e)) \<Longrightarrow>
   remembers now e (fresh @ forgotten)"
  unfolding remembers_def by blast

lemma remembersE:
  assumes "remembers now e log"
  obtains fresh forgotten where "log = fresh @ forgotten" "length (ae_failures e) < THRESHOLD" "\<forall>x\<in>set (fresh @ forgotten). x \<le> now"
    "\<forall>x\<in>set forgotten. x + BASE_LOCKOUT_MS \<le> ae_lockedUntil e"
    "filter (\<lambda>x. now - x < BASE_LOCKOUT_MS) fresh = filter (\<lambda>x. now - x < BASE_LOCKOUT_MS) (rev (ae_failures e))"
  using assms unfolding remembers_def by blast

lemma filter_again:
  "(\<And>x. Q x \<Longrightarrow> P x) \<Longrightarrow> filter P xs = filter P ys \<Longrightarrow> filter Q xs = filter Q ys"
  by (metis (mono_tags, lifting) filter_filter filter_cong)

lemma remembers_later:
  assumes "remembers now e log" "now \<le> t"
  shows "remembers t e log"
  using assms(1)
proof (rule remembersE)
  fix fresh forgotten
  assume a: "log = fresh @ forgotten" "length (ae_failures e) < THRESHOLD" "\<forall>x\<in>set (fresh @ forgotten). x \<le> now"
    "\<forall>x\<in>set forgotten. x + BASE_LOCKOUT_MS \<le> ae_lockedUntil e"
    "filter (\<lambda>x. now - x < BASE_LOCKOUT_MS) fresh = filter (\<lambda>x. now - x < BASE_LOCKOUT_MS) (rev (ae_failures e))"
  have "filter (\<lambda>x. t - x < BASE_LOCKOUT_MS) fresh = filter (\<lambda>x. t - x < BASE_LOCKOUT_MS) (rev (ae_failures e))"
    by (rule filter_again [OF _ a(5)]) (use assms(2) in linarith)
  then show ?thesis unfolding a(1) using a assms(2) by (intro remembersI) (auto dest: le_trans)
qed

lemma remembers_fail:
  assumes "remembers t (attemptEntry es key) log" "checkAttempt t es key = Granted"
  shows "remembers t (attemptEntry (failAttempt t key es) key) (t # log)"
  using assms(1)
proof (rule remembersE)
  let ?e = "attemptEntry es key"
  let ?failures = "filter (\<lambda>at. t - at < ATTEMPT_WINDOW_MS) (ae_failures ?e) @ [t]"
  fix fresh forgotten
  assume a: "log = fresh @ forgotten" "length (ae_failures ?e) < THRESHOLD" "\<forall>x\<in>set (fresh @ forgotten). x \<le> t"
    "\<forall>x\<in>set forgotten. x + BASE_LOCKOUT_MS \<le> ae_lockedUntil ?e"
    "filter (\<lambda>x. t - x < BASE_LOCKOUT_MS) fresh = filter (\<lambda>x. t - x < BASE_LOCKOUT_MS) (rev (ae_failures ?e))"
  show ?thesis
  proof (cases "length ?failures < THRESHOLD")
    case True
    have "filter (\<lambda>x. t - x < BASE_LOCKOUT_MS) (rev (filter (\<lambda>at. t - at < ATTEMPT_WINDOW_MS) (ae_failures ?e))) =
      filter (\<lambda>x. t - x < BASE_LOCKOUT_MS) (rev (ae_failures ?e))"
      unfolding rev_filter filter_filter by (rule filter_cong) (auto simp: attempt_limits)
    then have "filter (\<lambda>x. t - x < BASE_LOCKOUT_MS) (t # fresh) = filter (\<lambda>x. t - x < BASE_LOCKOUT_MS) (rev ?failures)"
      using a(5) by simp
    with True a have "remembers t (?e\<lparr>ae_failures := ?failures\<rparr>) ((t # fresh) @ forgotten)"
      by (intro remembersI) auto
    with True a(1) show ?thesis by (simp add: failAttempt_def Let_def)
  next
    case False
    have "BASE_LOCKOUT_MS \<le> min (BASE_LOCKOUT_MS * 2 ^ ae_lockouts ?e) MAX_LOCKOUT_MS" by (simp add: attempt_limits)
    with a(3) have "remembers t \<lparr>ae_failures = [], ae_lockedUntil = t + min (BASE_LOCKOUT_MS * 2 ^ ae_lockouts ?e) MAX_LOCKOUT_MS,
        ae_lockouts = ae_lockouts ?e + 1\<rparr> ([] @ t # fresh @ forgotten)"
      by (intro remembersI) (auto simp: THRESHOLD_def add_mono)
    with False a(1) show ?thesis by (simp add: failAttempt_def Let_def)
  qed
qed

lemma countIn_Cons:
  assumes "remembers t (attemptEntry es key) log" "checkAttempt t es key = Granted" "t0 \<le> t" "t < t0 + BASE_LOCKOUT_MS"
  shows "countIn t0 log < THRESHOLD"
proof -
  obtain fresh forgotten where log: "log = fresh @ forgotten"
    and far: "\<forall>x\<in>set forgotten. x + BASE_LOCKOUT_MS \<le> ae_lockedUntil (attemptEntry es key)"
    and fresh: "filter (\<lambda>x. t - x < BASE_LOCKOUT_MS) fresh = filter (\<lambda>x. t - x < BASE_LOCKOUT_MS) (rev (ae_failures (attemptEntry es key)))"
    and few: "length (ae_failures (attemptEntry es key)) < THRESHOLD" using assms(1) unfolding remembers_def by blast
  have "filter (\<lambda>x. t0 \<le> x \<and> x < t0 + BASE_LOCKOUT_MS) forgotten = []"
    using far assms(2-4) by (fastforce simp: filter_empty_conv checkAttempt_Granted)
  then have "countIn t0 log = length (filter (\<lambda>x. t0 \<le> x \<and> x < t0 + BASE_LOCKOUT_MS) fresh)" by (simp add: countIn_def log)
  also have "\<dots> \<le> length (filter (\<lambda>x. t - x < BASE_LOCKOUT_MS) fresh)"
    by (rule length_filter_mono) (use assms(3,4) in linarith)
  also have "\<dots> \<le> length (ae_failures (attemptEntry es key))" unfolding fresh using length_filter_le [of _ "rev _"] by simp
  finally show ?thesis using few by simp
qed

lemma tried_remembers:
  "clocked now reqs \<Longrightarrow> remembers now (attemptEntry (fst (tried key reqs)) key) (snd (tried key reqs))"
proof (induction reqs arbitrary: now)
  case Nil
  then show ?case by (simp add: remembers_def attemptEntry_def THRESHOLD_def)
next
  case (Cons r reqs)
  obtain t k where r: "r = (t, k)" by (cases r)
  obtain es log where a: "tried key reqs = (es, log)" by (cases "tried key reqs")
  from Cons.prems r have t: "t \<le> now" and c: "clocked t reqs" by (auto simp: clocked_Cons)
  have IH: "remembers t (attemptEntry es key) log" using Cons.IH [OF c] a by simp
  have other: "attemptEntry (failAttempt t k es) key = attemptEntry es key" if "k \<noteq> key"
    using that by (simp add: failAttempt_def Let_def)
  show ?case
    using remembers_later [OF IH t] remembers_later [OF remembers_fail [OF IH] t] other a r by (auto simp: Let_def)
qed

text \<open>Guessing is slow: of attempts that all fail, however many are made and at whatever moments, at most five
  for one key are let through in any minute.\<close>

theorem attempts_per_minute:
  assumes "clocked now reqs"
  shows "countIn t0 (snd (tried key reqs)) \<le> THRESHOLD"
  using assms
proof (induction reqs arbitrary: now)
  case Nil
  then show ?case by (simp add: countIn_def)
next
  case (Cons r reqs)
  obtain t k where r: "r = (t, k)" by (cases r)
  obtain es log where a: "tried key reqs = (es, log)" by (cases "tried key reqs")
  from Cons.prems r have c: "clocked t reqs" by (auto simp: clocked_Cons)
  have IH: "countIn t0 log \<le> THRESHOLD" using Cons.IH [OF c] a by simp
  have m: "remembers t (attemptEntry es key) log" using tried_remembers [OF c, of key] a by simp
  have "countIn t0 (t # log) \<le> THRESHOLD" if "checkAttempt t es key = Granted"
    using IH countIn_Cons [OF m that, of t0] by (auto simp: countIn_def)
  with IH a r show ?case by (auto simp: Let_def)
qed

theorem rate_limit_bound_witness:
  "bytesIn 0 (logOf ''u'' (snd (admitted 10 [(2, ''u'', 6), (1, ''u'', 7), (0, ''u'', 3)]))) \<le> 10"
  by (rule rate_limit_bound [of 2]) (simp add: clocked_def)

lemma exRefused: "reserve 10 2 (fst (admitted 10 [(1, ''u'', 7)])) ''u'' 6 = (WaitFor 60, [(''u'', [(1, 7)])])"
  by (simp add: reserve_def recentOf_def windowOf_def UPLOAD_WINDOW_MS_def ceilSeconds_def Let_def)

theorem rate_wait_suffices_witness: "fst (reserve 10 60002 [(''u'', [(1, 7)])] ''u'' 6) = Granted"
  by (rule rate_wait_suffices [OF _ _ exRefused]) (simp_all add: clocked_def)

theorem attempts_per_minute_witness:
  "countIn 0 (snd (tried ''k'' [(5, ''k''), (4, ''k''), (3, ''k''), (2, ''k''), (1, ''k''), (0, ''k'')])) \<le> THRESHOLD"
  by (rule attempts_per_minute [of 5]) (simp add: clocked_def)

end
