(* ===== verification/Server_Blobs.thy ===== *)
theory Server_Blobs
  imports Server_Ledger Server_Limits Sync_Types Bytes
begin

text \<open>
  The blob store and its intake: files at content addresses and staged parts (\<open>blobs/store.ts\<close>), and what an
  upload must pass and leaves behind (\<open>blobs/service.ts\<close>). The hash is a parameter. A file appears at
  its address in one step (written beside it, verified, renamed); failures of the disk are not modelled.
\<close>

subsection \<open>The store\<close>

definition storageKeyFor :: "string \<Rightarrow> string" where
  "storageKeyFor sha256Hex = take 2 sha256Hex @ ''/'' @ take 2 (drop 2 sha256Hex) @ ''/'' @ sha256Hex"

record blob_store =
  bs_files :: "(string, string) jmap"
  bs_staged :: "(string \<times> string, (nat, string) jmap) jmap"

datatype store_fault = HashMismatch | PartsMissing "nat list"

definition store_put :: "(string \<Rightarrow> string) \<Rightarrow> string \<Rightarrow> string \<Rightarrow> blob_store \<Rightarrow> store_fault + (string \<times> nat) \<times> blob_store" where
  "store_put sha256 sha256Hex body st =
     (if sha256 body \<noteq> sha256Hex then Inl HashMismatch
      else Inr ((storageKeyFor sha256Hex, length body), st\<lparr>bs_files := jset (storageKeyFor sha256Hex) body (bs_files st)\<rparr>))"

definition store_size :: "string \<Rightarrow> blob_store \<Rightarrow> nat option" where
  "store_size storageKey st = map_option length (jget (bs_files st) storageKey)"

definition store_remove :: "string \<Rightarrow> blob_store \<Rightarrow> blob_store" where
  "store_remove storageKey st = st\<lparr>bs_files := jdel storageKey (bs_files st)\<rparr>"

definition stagedFor :: "string \<Rightarrow> string \<Rightarrow> blob_store \<Rightarrow> (nat, string) jmap" where
  "stagedFor userId sha256Hex st = (case jget (bs_staged st) (userId, sha256Hex) of None \<Rightarrow> [] | Some ps \<Rightarrow> ps)"

definition stagePart :: "string \<Rightarrow> string \<Rightarrow> nat \<Rightarrow> string \<Rightarrow> blob_store \<Rightarrow> nat \<times> blob_store" where
  "stagePart userId sha256Hex index body st =
     (length body, st\<lparr>bs_staged := jset (userId, sha256Hex) (jset index body (stagedFor userId sha256Hex st)) (bs_staged st)\<rparr>)"

definition stagedParts :: "string \<Rightarrow> string \<Rightarrow> blob_store \<Rightarrow> nat list \<times> nat" where
  "stagedParts userId sha256Hex st =
     (let ps = stagedFor userId sha256Hex st in (sort (map fst ps), sum_list (map (length \<circ> snd) ps)))"

definition stagedBytes :: "string \<Rightarrow> blob_store \<Rightarrow> nat" where
  "stagedBytes userId st =
     sum_list (map (\<lambda>((u, _), ps). if u = userId then sum_list (map (length \<circ> snd) ps) else 0) (bs_staged st))"

definition contiguous :: "nat list \<Rightarrow> bool" where
  "contiguous parts \<longleftrightarrow> parts \<noteq> [] \<and> parts = [1..<length parts + 1]"

definition assembled :: "string \<Rightarrow> string \<Rightarrow> blob_store \<Rightarrow> string" where
  "assembled userId sha256Hex st = concat (map snd (sort_key fst (stagedFor userId sha256Hex st)))"

definition assemble :: "(string \<Rightarrow> string) \<Rightarrow> string \<Rightarrow> string \<Rightarrow> blob_store \<Rightarrow> store_fault + (string \<times> nat) \<times> blob_store" where
  "assemble sha256 userId sha256Hex st =
     (let parts = fst (stagedParts userId sha256Hex st)
      in if \<not> contiguous parts then Inl (PartsMissing parts)
         else store_put sha256 sha256Hex (assembled userId sha256Hex st) st)"

definition discardPart :: "string \<Rightarrow> string \<Rightarrow> nat \<Rightarrow> blob_store \<Rightarrow> blob_store" where
  "discardPart userId sha256Hex index st =
     st\<lparr>bs_staged := jset (userId, sha256Hex) (jdel index (stagedFor userId sha256Hex st)) (bs_staged st)\<rparr>"

definition discardStaging :: "string \<Rightarrow> string \<Rightarrow> blob_store \<Rightarrow> blob_store" where
  "discardStaging userId sha256Hex st = st\<lparr>bs_staged := jdel (userId, sha256Hex) (bs_staged st)\<rparr>"

subsection \<open>Reads\<close>

definition storageKeyIfHeld :: "db \<Rightarrow> string \<Rightarrow> string \<Rightarrow> string option" where
  "storageKeyIfHeld d userId sha =
     (if list_ex (\<lambda>ub. ub_user ub = userId \<and> ub_sha ub = sha \<and> ub_own ub > 0) (db_user_blobs d)
      then map_option bl_storageKey (blobRow d sha) else None)"

definition envelopesFor :: "db \<Rightarrow> string \<Rightarrow> string \<Rightarrow> string list \<Rightarrow> (string \<times> string \<times> string) list" where
  "envelopesFor d userId vaultId addresses =
     (case find (\<lambda>v. vr_id v = vaultId \<and> vr_user v = userId) (db_vaults d) of
        None \<Rightarrow> []
      | Some v \<Rightarrow>
          (let shared = List.map_filter (\<lambda>m.
             if mb_user m = userId \<and> mb_vault m = Some vaultId \<and> PRESENT m then Option.bind (shareRow d (mb_share m)) sh_key else None) (db_members d)
           in List.map_filter (\<lambda>((sha, scopeId), wrappedKey).
                if list_ex (\<lambda>ub. ub_sha ub = sha \<and> ub_user ub = userId \<and> ub_own ub > 0) (db_user_blobs d) \<and>
                   sha \<in> set addresses \<and> (scopeId = vr_key_id v \<or> scopeId \<in> set shared)
                then Some (sha, scopeId, wrappedKey) else None) (db_blob_keys d)))"

datatype range_answer = NoRange | RangeOf int int | Unsatisfiable

definition decimalDigit :: "char \<Rightarrow> bool" where
  "decimalDigit c \<longleftrightarrow> c \<in> set ''0123456789''"

definition readDecimal :: "string \<Rightarrow> int" where
  "readDecimal s = foldl (\<lambda>n c. 10 * n + int (of_char c - 48)) 0 s"

definition jsTrim :: "string \<Rightarrow> string" where
  "jsTrim s = rev (dropWhile jsSpace (rev (dropWhile jsSpace s)))"

text \<open>The two groups of \<open>/^bytes=(\d*)-(\d*)$/\<close>.\<close>

definition rangeGroups :: "string \<Rightarrow> (string \<times> string) option" where
  "rangeGroups h =
     (let rest = drop 6 h; a = takeWhile decimalDigit rest; r = drop (length a) rest
      in if startsWith h ''bytes='' \<and> r \<noteq> [] \<and> hd r = CHR ''-'' \<and> list_all decimalDigit (tl r) then Some (a, tl r) else None)"

definition parseRange :: "string option \<Rightarrow> int \<Rightarrow> range_answer" where
  "parseRange header len =
     (if \<not> truthy header then NoRange
      else (case rangeGroups (jsTrim (the header)) of
        None \<Rightarrow> Unsatisfiable
      | Some (rawStart, rawEnd) \<Rightarrow>
          (let n = readDecimal rawEnd
           in if rawStart = [] \<and> n \<le> 0 then Unsatisfiable
              else (let start = (if rawStart = [] then max 0 (len - n) else readDecimal rawStart);
                        end = (if rawStart = [] then len - 1 else if rawEnd = [] then len - 1 else n)
                    in if start > end \<or> start \<ge> len then Unsatisfiable
                       else RangeOf start (min end (len - 1))))))"

subsection \<open>The intake\<close>

record upload_limits =
  ul_uploadBytesPerMinute :: nat
  ul_unfinishedUploadBytes :: nat
  ul_uploadPartBytes :: nat

record intake =
  ik_db :: db
  ik_store :: blob_store
  ik_windows :: "(string, (nat \<times> nat) list) jmap"

record complete_input =
  up_userId :: string
  up_deviceId :: string
  up_sha256 :: string
  up_size :: nat
  up_encAlg :: string
  up_keyId :: string

record whole_input = complete_input +
  up_body :: string

record part_input =
  pt_userId :: string
  pt_deviceId :: string
  pt_sha256 :: string
  pt_index :: nat
  pt_total :: nat
  pt_size :: nat
  pt_body :: string

definition mayAccept :: "db \<Rightarrow> string \<Rightarrow> string \<Rightarrow> nat \<Rightarrow> refusal option" where
  "mayAccept d userId sha sz =
     (if isFrozen d userId then Some frozen else if \<not> fits d userId sha sz then Some over_quota else None)"

definition admit :: "upload_limits \<Rightarrow> db \<Rightarrow> string \<Rightarrow> string \<Rightarrow> string \<Rightarrow> nat \<Rightarrow> refusal option" where
  "admit limits d userId deviceId sha totalBytes =
     (if \<not> list_ex (\<lambda>dv. dv_id dv = deviceId \<and> dv_user dv = userId \<and> dv_revoked dv = None) (db_devices d) then Some device_revoked
      else if totalBytes > ul_unfinishedUploadBytes limits then Some too_large
      else mayAccept d userId sha totalBytes)"

definition addBlob :: "string \<Rightarrow> nat \<Rightarrow> string \<Rightarrow> string \<Rightarrow> string \<Rightarrow> db \<Rightarrow> db" where
  "addBlob sha sz storageKey encAlg keyId d =
     (if blobRow d sha = None
      then d\<lparr>db_blobs := db_blobs d @
        [\<lparr>bl_sha = sha, bl_size = sz, bl_storageKey = storageKey, bl_encAlg = encAlg, bl_keyId = keyId, bl_marked = None\<rparr>]\<rparr>
      else d)"

definition claimPending :: "string \<Rightarrow> string \<Rightarrow> string \<Rightarrow> db \<Rightarrow> db" where
  "claimPending userId deviceId sha d =
     d\<lparr>db_user_blobs :=
       (if list_ex (\<lambda>b. ub_user b = userId \<and> ub_sha b = sha) (db_user_blobs d)
        then map (\<lambda>b. if ub_user b = userId \<and> ub_sha b = sha
               then b\<lparr>ub_pending := ub_pending b + 1, ub_device := Some deviceId,
                      ub_since := (case ub_since b of None \<Rightarrow> Some (db_now d) | Some t \<Rightarrow> Some t)\<rparr> else b) (db_user_blobs d)
        else db_user_blobs d @
          [\<lparr>ub_user = userId, ub_sha = sha, ub_own = 0, ub_pending = 1, ub_since = Some (db_now d), ub_device = Some deviceId\<rparr>])\<rparr>"

definition recordUpload :: "pg \<Rightarrow> string \<Rightarrow> string \<Rightarrow> string \<Rightarrow> nat \<Rightarrow> string \<Rightarrow> string \<Rightarrow> string \<Rightarrow> db \<Rightarrow> unit outcome \<times> db" where
  "recordUpload pg userId deviceId sha sz storageKey encAlg keyId =
     txGuarded pg (tx_seq (statement pg (addBlob sha sz storageKey encAlg keyId))
       (tx_seq (statement pg (claimPending userId deviceId sha)) (tx_ret (Inr ()))))"

definition acceptWhole ::
  "pg \<Rightarrow> (string \<Rightarrow> string) \<Rightarrow> upload_limits \<Rightarrow> nat \<Rightarrow> whole_input \<Rightarrow> intake \<Rightarrow> (string \<times> nat) outcome \<times> intake"
where
  "acceptWhole pg sha256 limits now input ik =
     (case admit limits (ik_db ik) (up_userId input) (up_deviceId input) (up_sha256 input) (up_size input) of
        Some r \<Rightarrow> (Refused r, ik)
      | None \<Rightarrow>
          (let (rate, windows) = reserve (ul_uploadBytesPerMinute limits) now (ik_windows ik) (up_userId input) (up_size input);
               ik = ik\<lparr>ik_windows := windows\<rparr>
           in case rate of
             WaitFor seconds \<Rightarrow> (Refused (rate_limited seconds), ik)
           | Granted \<Rightarrow>
               (case store_put sha256 (up_sha256 input) (up_body input) (ik_store ik) of
                  Inl _ \<Rightarrow> (Refused address_mismatch, ik)
                | Inr ((storageKey, sz), st) \<Rightarrow>
                    if sz \<noteq> up_size input then (Refused size_mismatch, ik\<lparr>ik_store := store_remove storageKey st\<rparr>)
                    else (case recordUpload pg (up_userId input) (up_deviceId input) (up_sha256 input) sz storageKey
                             (up_encAlg input) (up_keyId input) (ik_db ik) of
                       (Done _, d) \<Rightarrow> (Done (up_sha256 input, sz), ik\<lparr>ik_store := st, ik_db := d\<rparr>)
                     | (Refused r, d) \<Rightarrow> (Refused r, ik\<lparr>ik_store := st, ik_db := d\<rparr>)
                     | (Crashed e, d) \<Rightarrow> (Crashed e, ik\<lparr>ik_store := st, ik_db := d\<rparr>)))))"

definition acceptPart :: "upload_limits \<Rightarrow> nat \<Rightarrow> part_input \<Rightarrow> intake \<Rightarrow> string outcome \<times> intake" where
  "acceptPart limits now input ik =
     (if pt_size input > ul_uploadPartBytes limits then (Refused part_too_large, ik)
      else (case admit limits (ik_db ik) (pt_userId input) (pt_deviceId input) (pt_sha256 input) (pt_total input) of
        Some r \<Rightarrow> (Refused r, ik)
      | None \<Rightarrow>
          if stagedBytes (pt_userId input) (ik_store ik) + pt_size input > ul_unfinishedUploadBytes limits then (Refused too_many_unfinished, ik)
          else (let (rate, windows) = reserve (ul_uploadBytesPerMinute limits) now (ik_windows ik) (pt_userId input) (pt_size input);
                    ik = ik\<lparr>ik_windows := windows\<rparr>
                in case rate of
                  WaitFor seconds \<Rightarrow> (Refused (rate_limited seconds), ik)
                | Granted \<Rightarrow>
                    (let (sz, st) = stagePart (pt_userId input) (pt_sha256 input) (pt_index input) (pt_body input) (ik_store ik)
                     in if sz \<noteq> pt_size input
                        then (Refused size_mismatch, ik\<lparr>ik_store := discardPart (pt_userId input) (pt_sha256 input) (pt_index input) st\<rparr>)
                        else (Done (pt_sha256 input), ik\<lparr>ik_store := st\<rparr>)))))"

definition complete ::
  "pg \<Rightarrow> (string \<Rightarrow> string) \<Rightarrow> upload_limits \<Rightarrow> 'a complete_input_scheme \<Rightarrow> intake \<Rightarrow> (string \<times> nat) outcome \<times> intake"
where
  "complete pg sha256 limits input ik =
     (case admit limits (ik_db ik) (up_userId input) (up_deviceId input) (up_sha256 input) (up_size input) of
        Some r \<Rightarrow> (Refused r, ik)
      | None \<Rightarrow>
          (let discard = discardStaging (up_userId input) (up_sha256 input)
           in case assemble sha256 (up_userId input) (up_sha256 input) (ik_store ik) of
             Inl (PartsMissing parts) \<Rightarrow> (Refused (parts_missing parts), ik)
           | Inl HashMismatch \<Rightarrow> (Refused address_mismatch, ik\<lparr>ik_store := discard (ik_store ik)\<rparr>)
           | Inr ((storageKey, sz), st) \<Rightarrow>
               if sz \<noteq> up_size input then (Refused size_mismatch, ik\<lparr>ik_store := discard (store_remove storageKey st)\<rparr>)
               else (case recordUpload pg (up_userId input) (up_deviceId input) (up_sha256 input) sz storageKey
                        (up_encAlg input) (up_keyId input) (ik_db ik) of
                  (Done _, d) \<Rightarrow> (Done (up_sha256 input, sz), ik\<lparr>ik_store := discard st, ik_db := d\<rparr>)
                | (Refused r, d) \<Rightarrow> (Refused r, ik\<lparr>ik_store := discard st, ik_db := d\<rparr>)
                | (Crashed e, d) \<Rightarrow> (Crashed e, ik\<lparr>ik_store := st, ik_db := d\<rparr>))))"

subsection \<open>What an upload leaves\<close>

lemma addBlob_row: "blobRow (addBlob sha sz key ea ki d) sha \<noteq> None"
  by (auto simp: addBlob_def blobRow_def find_None_iff)

lemma claimPending_claim: "\<exists>b\<in>set (db_user_blobs (claimPending u dv sha d)). ub_user b = u \<and> ub_sha b = sha \<and> 0 < ub_pending b"
proof (cases "list_ex (\<lambda>b. ub_user b = u \<and> ub_sha b = sha) (db_user_blobs d)")
  case True
  then obtain b where "b \<in> set (db_user_blobs d)" "ub_user b = u" "ub_sha b = sha" by (auto simp: list_ex_iff)
  with True have "b\<lparr>ub_pending := ub_pending b + 1, ub_device := Some dv,
      ub_since := (case ub_since b of None \<Rightarrow> Some (db_now d) | Some t \<Rightarrow> Some t)\<rparr> \<in> set (db_user_blobs (claimPending u dv sha d))"
    by (simp add: claimPending_def image_iff) (rule bexI [of _ b], simp_all)
  then show ?thesis by (rule bexI [rotated]) (simp add: \<open>ub_user b = u\<close> \<open>ub_sha b = sha\<close>)
next
  case False
  then show ?thesis by (simp add: claimPending_def)
qed

lemma claimPending_row [simp]: "blobRow (claimPending u dv sha d) h = blobRow d h"
  by (simp add: claimPending_def blobRow_def)

lemma recordUpload_done:
  assumes "recordUpload pg u dv sha sz key ea ki d = (Done x, d')"
  shows "d' = claimPending u dv sha (addBlob sha sz key ea ki d)"
  using txGuarded_done [OF assms [unfolded recordUpload_def]]
  by (auto simp: tx_seq_def tx_bind_def statement_def tx_ret_def split: option.splits)

text \<open>C10. What an accepted upload means: the bytes hash to the address and have the declared size, they are the
  file at that address, the blob has its row and the account a claim on it, and beforehand the device
  was a live one of an account that is not frozen and has the room.\<close>

theorem acceptWhole_done:
  assumes "acceptWhole pg sha256 limits now input ik = (Done answer, ik')"
  shows "answer = (up_sha256 input, up_size input) \<and> sha256 (up_body input) = up_sha256 input \<and> length (up_body input) = up_size input \<and>
    jget (bs_files (ik_store ik')) (storageKeyFor (up_sha256 input)) = Some (up_body input) \<and>
    blobRow (ik_db ik') (up_sha256 input) \<noteq> None \<and>
    (\<exists>b\<in>set (db_user_blobs (ik_db ik')). ub_user b = up_userId input \<and> ub_sha b = up_sha256 input \<and> 0 < ub_pending b) \<and>
    (\<exists>dv\<in>set (db_devices (ik_db ik)). dv_id dv = up_deviceId input \<and> dv_user dv = up_userId input \<and> dv_revoked dv = None) \<and>
    \<not> isFrozen (ik_db ik) (up_userId input) \<and> fits (ik_db ik) (up_userId input) (up_sha256 input) (up_size input)"
proof -
  from assms obtain x d' where rec: "recordUpload pg (up_userId input) (up_deviceId input) (up_sha256 input) (up_size input)
      (storageKeyFor (up_sha256 input)) (up_encAlg input) (up_keyId input) (ik_db ik) = (Done x, d')"
    and rest: "sha256 (up_body input) = up_sha256 input" "length (up_body input) = up_size input"
      "answer = (up_sha256 input, up_size input)" "ik_db ik' = d'"
      "bs_files (ik_store ik') = jset (storageKeyFor (up_sha256 input)) (up_body input) (bs_files (ik_store ik))"
    and admitted: "admit limits (ik_db ik) (up_userId input) (up_deviceId input) (up_sha256 input) (up_size input) = None"
    by (auto simp: acceptWhole_def store_put_def Let_def split: option.splits prod.splits permission.splits sum.splits if_splits outcome.splits)
  from admitted have "\<exists>dv\<in>set (db_devices (ik_db ik)). dv_id dv = up_deviceId input \<and> dv_user dv = up_userId input \<and> dv_revoked dv = None"
    "\<not> isFrozen (ik_db ik) (up_userId input)" "fits (ik_db ik) (up_userId input) (up_sha256 input) (up_size input)"
    by (auto simp: admit_def mayAccept_def list_ex_iff split: if_splits)
  with recordUpload_done [OF rec] rest addBlob_row claimPending_claim show ?thesis by simp
qed

definition asWhole :: "complete_input \<Rightarrow> string \<Rightarrow> whole_input" where
  "asWhole input body = complete_input.extend input \<lparr>up_body = body\<rparr>"

text \<open>C14. The two ways to upload are one: once the parts of an address are a run from 1, completing it answers,
  records and stores exactly as sending the assembled bytes in one request would, when the limiter
  lets that request through.\<close>

theorem complete_as_whole:
  assumes "contiguous (fst (stagedParts (up_userId input) (up_sha256 input) (ik_store ik)))"
    and "fst (reserve (ul_uploadBytesPerMinute limits) now (ik_windows ik) (up_userId input) (up_size input)) = Granted"
  shows "let (a, resumed) = complete pg sha256 limits input ik;
      (b, whole) = acceptWhole pg sha256 limits now (asWhole input (assembled (up_userId input) (up_sha256 input) (ik_store ik))) ik
    in a = b \<and> ik_db resumed = ik_db whole \<and> bs_files (ik_store resumed) = bs_files (ik_store whole)"
proof -
  have same: "up_userId (asWhole input b) = up_userId input" "up_deviceId (asWhole input b) = up_deviceId input"
    "up_sha256 (asWhole input b) = up_sha256 input" "up_size (asWhole input b) = up_size input" "up_encAlg (asWhole input b) = up_encAlg input"
    "up_keyId (asWhole input b) = up_keyId input" "up_body (asWhole input b) = b" for b
    by (simp_all add: asWhole_def complete_input.defs)
  obtain ws where r: "reserve (ul_uploadBytesPerMinute limits) now (ik_windows ik) (up_userId input) (up_size input) = (Granted, ws)"
    using assms(2) by (cases "reserve (ul_uploadBytesPerMinute limits) now (ik_windows ik) (up_userId input) (up_size input)") auto
  show ?thesis
    using assms(1)
    by (simp add: complete_def acceptWhole_def same r assemble_def store_put_def Let_def discardStaging_def store_remove_def
        split: option.splits prod.splits outcome.splits)
qed

subsection \<open>Bytes and addresses\<close>

datatype upload_request = UploadWhole nat whole_input | UploadPart nat part_input | UploadComplete complete_input

fun upload :: "pg \<Rightarrow> (string \<Rightarrow> string) \<Rightarrow> upload_limits \<Rightarrow> upload_request \<Rightarrow> intake \<Rightarrow> intake" where
  "upload pg sha256 limits (UploadWhole now i) ik = snd (acceptWhole pg sha256 limits now i ik)"
| "upload pg sha256 limits (UploadPart now i) ik = snd (acceptPart limits now i ik)"
| "upload pg sha256 limits (UploadComplete i) ik = snd (complete pg sha256 limits i ik)"

inductive uploaded :: "pg \<Rightarrow> (string \<Rightarrow> string) \<Rightarrow> upload_limits \<Rightarrow> intake \<Rightarrow> intake \<Rightarrow> bool"
  for pg sha256 limits ik0 where
  start: "uploaded pg sha256 limits ik0 ik0"
| request: "uploaded pg sha256 limits ik0 ik \<Longrightarrow> uploaded pg sha256 limits ik0 (upload pg sha256 limits req ik)"
| removal: "uploaded pg sha256 limits ik0 ik \<Longrightarrow> uploaded pg sha256 limits ik0 (ik\<lparr>ik_store := store_remove key (ik_store ik)\<rparr>)"
| elsewhere: "uploaded pg sha256 limits ik0 ik \<Longrightarrow> uploaded pg sha256 limits ik0 (ik\<lparr>ik_db := d\<rparr>)"

definition storeSound :: "(string \<Rightarrow> string) \<Rightarrow> blob_store \<Rightarrow> bool" where
  "storeSound sha256 st \<longleftrightarrow> (\<forall>k body. jget (bs_files st) k = Some body \<longrightarrow> k = storageKeyFor (sha256 body))"

lemma storeSound_put: "storeSound sha256 st \<Longrightarrow> store_put sha256 h body st = Inr (x, st') \<Longrightarrow> storeSound sha256 st'"
  by (auto simp: storeSound_def store_put_def split: if_splits)

lemma storeSound_steps [simp]:
  "storeSound sha256 st \<Longrightarrow> storeSound sha256 (store_remove k st)"
  "storeSound sha256 (discardStaging u h st) = storeSound sha256 st"
  "storeSound sha256 (discardPart u h i st) = storeSound sha256 st"
  by (simp_all add: storeSound_def store_remove_def discardStaging_def discardPart_def)

lemma storeSound_stage: "stagePart u h i body st = (n, st') \<Longrightarrow> storeSound sha256 st' = storeSound sha256 st"
  by (auto simp: stagePart_def storeSound_def)

lemma storeSound_upload:
  assumes "storeSound sha256 (ik_store ik)"
  shows "storeSound sha256 (ik_store (upload pg sha256 limits req ik))"
proof (cases req)
  case (UploadWhole now i)
  then show ?thesis using assms storeSound_put [OF assms]
    by (auto simp: acceptWhole_def Let_def split: option.splits prod.splits permission.splits sum.splits if_splits outcome.splits)
next
  case (UploadPart now i)
  then show ?thesis using assms
    by (auto simp: acceptPart_def Let_def storeSound_stage split: option.splits prod.splits permission.splits)
next
  case (UploadComplete i)
  then show ?thesis using assms storeSound_put [OF assms]
    by (auto simp: complete_def assemble_def Let_def split: option.splits prod.splits sum.splits store_fault.splits if_splits outcome.splits)
qed

text \<open>C13. No address holds other bytes than its own: in every state the intake reaches from a sound store, by
  uploads whole or in parts, completed or refused, and whatever removes files in between, each stored
  file is at the address its bytes hash to.\<close>

theorem stored_at_its_address:
  assumes "uploaded pg sha256 limits ik0 ik" "storeSound sha256 (ik_store ik0)" "jget (bs_files (ik_store ik)) k = Some body"
  shows "k = storageKeyFor (sha256 body)"
proof -
  from assms(1,2) have "storeSound sha256 (ik_store ik)"
    by (induction rule: uploaded.induct) (simp_all add: storeSound_upload)
  with assms(3) show ?thesis by (simp add: storeSound_def)
qed

text \<open>C11. What a declared size that is wrong costs: bytes the account may send, that hash to the address they are
  sent under, but with another size declared, are refused as \<open>size_mismatch\<close> only after they were
  written there, and the refusal removes the file at the address: whoever already held the blob has its
  row and its claims left, and no file.\<close>

theorem size_mismatch_removes:
  assumes "admit limits (ik_db ik) (up_userId input) (up_deviceId input) (up_sha256 input) (up_size input) = None"
    and "fst (reserve (ul_uploadBytesPerMinute limits) now (ik_windows ik) (up_userId input) (up_size input)) = Granted"
    and "sha256 (up_body input) = up_sha256 input" and "length (up_body input) \<noteq> up_size input"
  shows "let (answer, ik') = acceptWhole pg sha256 limits now input ik
    in answer = Refused size_mismatch \<and> ik_db ik' = ik_db ik \<and> store_size (storageKeyFor (up_sha256 input)) (ik_store ik') = None"
proof -
  obtain ws where "reserve (ul_uploadBytesPerMinute limits) now (ik_windows ik) (up_userId input) (up_size input) = (Granted, ws)"
    using assms(2) by (cases "reserve (ul_uploadBytesPerMinute limits) now (ik_windows ik) (up_userId input) (up_size input)") auto
  with assms(1,3,4) show ?thesis by (simp add: acceptWhole_def store_put_def store_remove_def store_size_def Let_def)
qed

text \<open>Every byte range that is served lies in the blob: a \<open>Range\<close> header is answered with a range only when it
  starts at or after 0, is not empty, and ends before the blob does.\<close>

theorem parseRange_bounds:
  assumes "parseRange header len = RangeOf a b" "0 \<le> len"
  shows "0 \<le> a \<and> a \<le> b \<and> b < len"
proof -
  have "0 \<le> readDecimal s" if "list_all decimalDigit s" for s
  proof -
    have "0 \<le> n \<Longrightarrow> list_all decimalDigit s \<Longrightarrow> 0 \<le> foldl (\<lambda>n c. 10 * n + int (of_char c - 48)) n s" for n
      by (induction s arbitrary: n) auto
    from this [of 0] that show ?thesis by (simp add: readDecimal_def)
  qed
  moreover have "list_all decimalDigit (takeWhile decimalDigit s)" for s
    by (auto simp: list_all_iff dest: set_takeWhileD)
  ultimately show ?thesis using assms
    by (auto simp: parseRange_def rangeGroups_def Let_def max_def min_def split: if_splits option.splits)
qed

subsection \<open>Examples\<close>

definition exUser :: user_row where
  "exUser = \<lparr>us_id = ''ann'', us_login = ''ann'', us_active = True, us_pubkey = None, us_quota = 100, us_history_days = 30, us_frozen_at = None\<rparr>"

definition exIntake :: "blob_row list \<Rightarrow> (string, string) jmap \<Rightarrow> intake" where
  "exIntake blobs files =
     \<lparr>ik_db = \<lparr>db_now = 7, db_drawn = 0, db_restore_epoch = 1, db_users = [exUser], db_vaults = [], db_nodes = [], db_journal = [],
        db_versions = [], db_blobs = blobs, db_user_blobs = [], db_blob_keys = [], db_dedup = [], db_shares = [], db_members = [],
        db_devices = [\<lparr>dv_id = ''d'', dv_user = ''ann'', dv_revoked = None\<rparr>], db_scopes = []\<rparr>,
      ik_store = \<lparr>bs_files = files, bs_staged = [((''ann'', ''hxy''), [(2, ''y''), (1, ''x'')])]\<rparr>, ik_windows = []\<rparr>"

definition exLimits :: upload_limits where
  "exLimits = \<lparr>ul_uploadBytesPerMinute = 20, ul_unfinishedUploadBytes = 20, ul_uploadPartBytes = 10\<rparr>"

definition exUpload :: "nat \<Rightarrow> complete_input" where
  "exUpload n = \<lparr>up_userId = ''ann'', up_deviceId = ''d'', up_sha256 = ''hxy'', up_size = n, up_encAlg = ''a'', up_keyId = ''k''\<rparr>"

text \<open>A hash of its own: one letter before the bytes.\<close>

definition exHash :: "string \<Rightarrow> string" where "exHash body = CHR ''h'' # body"

lemma exWhole: "asWhole (exUpload n) b =
    \<lparr>up_userId = ''ann'', up_deviceId = ''d'', up_sha256 = ''hxy'', up_size = n, up_encAlg = ''a'', up_keyId = ''k'', up_body = b\<rparr>"
  by (simp add: asWhole_def exUpload_def complete_input.defs)

lemma exReserve: "n \<le> 20 \<Longrightarrow> reserve (ul_uploadBytesPerMinute exLimits) now (ik_windows (exIntake bs fs)) u n = (Granted, [(u, [(now, n)])])"
  by (simp add: reserve_def exLimits_def exIntake_def recentOf_def windowOf_def Let_def)

lemma exAdmit: "n \<le> 20 \<Longrightarrow> admit exLimits (ik_db (exIntake bs fs)) ''ann'' ''d'' sha n = None"
  by (simp add: admit_def exLimits_def exIntake_def exUser_def mayAccept_def isFrozen_def userRow_def fits_def quotaRead_def usedBytes_def alreadyHeld_def)

definition exKept :: intake where
  "exKept = snd (acceptWhole openPg exHash exLimits 5 (asWhole (exUpload 2) ''xy'') (exIntake [] []))"

lemma exAccept: "acceptWhole openPg exHash exLimits 5 (asWhole (exUpload 2) ''xy'') (exIntake [] []) = (Done (''hxy'', 2), exKept)"
  by (simp add: exKept_def acceptWhole_def exWhole exAdmit exReserve store_put_def exHash_def Let_def recordUpload_def txGuarded_def tx_seq_def
    tx_bind_def statement_def tx_ret_def openPg_def)
   (simp add: exIntake_def exUser_def addBlob_def claimPending_def blobRow_def commitChecks_def touched_def)

theorem acceptWhole_done_witness:
  "jget (bs_files (ik_store exKept)) (storageKeyFor ''hxy'') = Some ''xy'' \<and> blobRow (ik_db exKept) ''hxy'' \<noteq> None"
  using acceptWhole_done [OF exAccept] by (simp add: exWhole)

theorem complete_as_whole_witness:
  "fst (complete openPg exHash exLimits (exUpload 2) (exIntake [] [])) =
   fst (acceptWhole openPg exHash exLimits 5 (asWhole (exUpload 2) (assembled ''ann'' ''hxy'' (ik_store (exIntake [] [])))) (exIntake [] []))"
proof -
  have "contiguous (fst (stagedParts ''ann'' ''hxy'' (ik_store (exIntake [] []))))"
    by (simp add: contiguous_def stagedParts_def stagedFor_def exIntake_def Let_def numeral_2_eq_2)
  with complete_as_whole [of "exUpload 2" "exIntake [] []" exLimits 5 openPg exHash] show ?thesis
    by (simp add: exUpload_def exReserve Let_def case_prod_unfold)
qed

theorem stored_at_its_address_witness: "storageKeyFor ''hxy'' = storageKeyFor (exHash ''xy'')"
proof (rule stored_at_its_address [of openPg exHash exLimits _ _ _ "''xy''"])
  show "uploaded openPg exHash exLimits (exIntake [] []) (upload openPg exHash exLimits (UploadWhole 5 (asWhole (exUpload 2) ''xy'')) (exIntake [] []))"
    by (intro uploaded.intros)
  show "storeSound exHash (ik_store (exIntake [] []))" by (simp add: storeSound_def exIntake_def)
  show "jget (bs_files (ik_store (upload openPg exHash exLimits (UploadWhole 5 (asWhole (exUpload 2) ''xy'')) (exIntake [] [])))) (storageKeyFor ''hxy'') = Some ''xy''"
    using acceptWhole_done_witness by (simp add: exAccept)
qed

text \<open>The blob is held, with its file, when the same bytes are sent as three.\<close>

theorem size_mismatch_removes_witness:
  "(let held = exIntake [\<lparr>bl_sha = ''hxy'', bl_size = 2, bl_storageKey = storageKeyFor ''hxy'', bl_encAlg = ''a'', bl_keyId = ''k'', bl_marked = None\<rparr>]
              [(storageKeyFor ''hxy'', ''xy'')];
        (answer, left) = acceptWhole openPg exHash exLimits 5 (asWhole (exUpload 3) ''xy'') held
    in answer = Refused size_mismatch \<and> store_size (storageKeyFor ''hxy'') (ik_store held) = Some 2 \<and>
       store_size (storageKeyFor ''hxy'') (ik_store left) = None)"
proof -
  have held: "store_size k (ik_store (exIntake bs [(k, ''xy'')])) = Some 2" for k bs
    by (simp add: store_size_def exIntake_def)
  show ?thesis
    using size_mismatch_removes [of exLimits "exIntake [\<lparr>bl_sha = ''hxy'', bl_size = 2, bl_storageKey = storageKeyFor ''hxy'', bl_encAlg = ''a'', bl_keyId = ''k'', bl_marked = None\<rparr>]
        [(storageKeyFor ''hxy'', ''xy'')]" "asWhole (exUpload 3) ''xy''" 5 exHash openPg]
    by (simp add: exWhole exAdmit exReserve exHash_def held Let_def case_prod_unfold)
qed

theorem parseRange_bounds_witness: "parseRange (Some ''bytes=-4'') 10 = RangeOf 6 9 \<and> (0::int) \<le> 6 \<and> (6::int) \<le> 9 \<and> (9::int) < 10"
proof -
  have "parseRange (Some ''bytes=-4'') 10 = RangeOf 6 9" by code_simp
  with parseRange_bounds [OF this] show ?thesis by simp
qed

end
