(* ===== verification/Server_Shares.thy ===== *)
theory Server_Shares
  imports Server_Nodes
begin

text \<open>
  A share's life (\<open>shares/service.ts\<close>): opened over a folder, prepared, activated, joined, left and finished
  with, and what a vault still owes under a key scope (\<open>shares/owed.ts\<close>). The rules of the schema that
  these operations lean on are written out first: the root, the transitions of the state, the material
  activation demands, the membership rows and the unmarking of a node; the rest is \<open>pg\<close>'s to refuse.
\<close>

subsection \<open>The schema's rules on shares and members\<close>

definition ended :: "share_state \<Rightarrow> bool" where
  "ended s \<longleftrightarrow> s = ShareCancelled \<or> s = ShareEnded"

definition hasEnvelope :: "db \<Rightarrow> string \<Rightarrow> string option \<Rightarrow> bool" where
  "hasEnvelope d sha scope \<longleftrightarrow> (case scope of None \<Rightarrow> False | Some k \<Rightarrow> jget (db_blob_keys d) (sha, k) \<noteq> None)"

definition hasTag :: "db \<Rightarrow> string \<Rightarrow> string option \<Rightarrow> bool" where
  "hasTag d sha scope \<longleftrightarrow> list_ex (\<lambda>((k, _), h). Some k = scope \<and> h = sha) (db_dedup d)"

text \<open>\<open>shares_check_root\<close> and the references of a share's row.\<close>

definition shareRefused :: "db \<Rightarrow> share_row \<Rightarrow> db_error option" where
  "shareRefused d s =
     (let root = nodeRow d (sh_vault s) (sh_node s);
          inside = (case root of None \<Rightarrow> False | Some r \<Rightarrow>
            list_ex (\<lambda>a. nr_vault a = sh_vault s \<and> nr_id a \<in> set (nr_ancestry r) \<and> nr_share a \<noteq> None) (db_nodes d))
      in if (case root of None \<Rightarrow> False | Some r \<Rightarrow> nr_type r \<noteq> NodeFolder) then Some (CheckViolation ''a share must be rooted at a folder'')
         else if (case root of None \<Rightarrow> False | Some r \<Rightarrow> nr_deleted r \<noteq> None) then Some (CheckViolation ''node is deleted and cannot be shared'')
         else if (case root of None \<Rightarrow> False | Some r \<Rightarrow> nr_share r \<noteq> None) then Some (CheckViolation ''a replica cannot be re-shared'')
         else if inside then Some (CheckViolation ''node sits inside a shared folder and cannot be shared separately'')
         else if shareRow d (sh_id s) \<noteq> None then Some (UniqueViolation ''shares_pkey'')
         else if list_ex (\<lambda>q. sh_vault q = sh_vault s \<and> sh_node q = sh_node s \<and> \<not> ended (sh_state q)) (db_shares d)
           then Some (UniqueViolation ''shares_one_live_per_folder'')
         else if \<not> ownsVault d (sh_initiator s) (sh_vault s) then Some (ForeignKeyViolation ''shares_initiator_id_initiator_vault_id_fkey'')
         else if root = None then Some (ForeignKeyViolation ''shares_initiator_vault_id_subtree_node_id_fkey'')
         else None)"

text \<open>\<open>shares_check_state_transition\<close> and \<open>shares_check_activation_material\<close>: every marked node but the root must
  be named under the share's key, the deleted ones too, and every blob it or its history names needs an
  envelope, a live head a tag as well.\<close>

definition transitionRefused :: "share_state \<Rightarrow> share_state \<Rightarrow> db_error option" where
  "transitionRefused old new =
     (if old = new then None
      else if ended old then Some (RestrictViolation ''share is terminal'' False)
      else if old = SharePreparing \<and> new \<notin> {ShareActive, ShareCancelled} \<or> old = ShareActive \<and> new \<noteq> ShareEnded
        then Some (RestrictViolation ''invalid share lifecycle transition'' False)
      else None)"

definition interiorNodes :: "db \<Rightarrow> share_row \<Rightarrow> node_row list" where
  "interiorNodes d s = filter (\<lambda>n. nr_share n = Some (sh_id s) \<and> nr_item n \<noteq> Some (sh_root_item s)) (db_nodes d)"

definition blobsOf :: "db \<Rightarrow> node_row \<Rightarrow> string list" where
  "blobsOf d n = (case nr_sha n of None \<Rightarrow> [] | Some sha \<Rightarrow> [sha]) @
     map vn_sha (filter (\<lambda>v. vn_vault v = nr_vault n \<and> vn_node v = nr_id n) (db_versions d))"

definition activationRefused :: "db \<Rightarrow> share_row \<Rightarrow> db_error option" where
  "activationRefused d s =
     (if list_ex (\<lambda>n. nr_name_key n \<noteq> sh_key s) (interiorNodes d s) then Some (CheckViolation ''interior node name is not under its share key'')
      else if list_ex (\<lambda>n. list_ex (\<lambda>sha. \<not> hasEnvelope d sha (sh_key s)) (blobsOf d n)) (interiorNodes d s)
        then Some (CheckViolation ''blob lacks its share envelope'')
      else if list_ex (\<lambda>n. nr_deleted n = None \<and> (case nr_sha n of None \<Rightarrow> False | Some sha \<Rightarrow> \<not> hasTag d sha (sh_key s))) (interiorNodes d s)
        then Some (CheckViolation ''blob lacks its share dedup tag'')
      else None)"

definition setShareState :: "pg \<Rightarrow> string \<Rightarrow> share_state \<Rightarrow> (db \<Rightarrow> nat option \<Rightarrow> nat option) \<Rightarrow> unit tx" where
  "setShareState pg shareId new terminal =
     (\<lambda>d. case shareRow d shareId of
        None \<Rightarrow> Inr ((), d)
      | Some s \<Rightarrow> (case transitionRefused (sh_state s) new of
          Some e \<Rightarrow> Inl (Database e)
        | None \<Rightarrow> (case (if new = ShareActive \<and> sh_state s \<noteq> ShareActive then activationRefused d s else None) of
            Some e \<Rightarrow> Inl (Database e)
          | None \<Rightarrow> statement pg (\<lambda>d. d\<lparr>db_shares := map (\<lambda>r. if sh_id r = shareId
              then r\<lparr>sh_state := new, sh_terminal := terminal d (sh_terminal r)\<rparr> else r) (db_shares d)\<rparr>) d)))"

text \<open>The triggers on \<open>share_members\<close>, for an insert (\<open>old\<close> absent) and an update.\<close>

definition joinRefused :: "db \<Rightarrow> member_row option \<Rightarrow> member_row \<Rightarrow> db_error option" where
  "joinRefused d old m =
     (case shareRow d (mb_share m) of
        None \<Rightarrow> None
      | Some s \<Rightarrow>
          (let live = (mb_joined m \<noteq> None \<and> mb_finalizing m = None); initiator = (mb_user m = sh_initiator s);
               freshJoin = (case old of None \<Rightarrow> True | Some q \<Rightarrow> mb_joined q = None)
           in if live \<and> mb_left m = None \<and> ended (sh_state s) then Some (RestrictViolation ''terminal share cannot regain a live member'' False)
              else if live \<and> \<not> initiator \<and> freshJoin \<and> sh_state s \<noteq> ShareActive
                then Some (CheckViolation ''a share may only be joined while it is active'')
              else if old = None \<and> mb_joined m = None \<and> \<not> initiator \<and> sh_state s \<noteq> ShareActive
                then Some (CheckViolation ''a share may only be invited to while it is active'')
              else if live \<and> mb_left m = None \<and> mb_wrapped m = None \<and> \<not> initiator \<and> sh_key s \<noteq> None
                then Some (CheckViolation ''a participant cannot join without a key envelope'')
              else None))"

definition insertMember :: "pg \<Rightarrow> member_row \<Rightarrow> unit tx" where
  "insertMember pg m =
     (\<lambda>d. if (case userRow d (mb_user m) of None \<Rightarrow> False | Some u \<Rightarrow> us_pubkey u = None)
          then Inl (Database (CheckViolation ''a share participant must hold key material''))
          else (case joinRefused d None m of
            Some e \<Rightarrow> Inl (Database e)
          | None \<Rightarrow>
              if memberRow d (mb_share m) (mb_user m) \<noteq> None then Inl (Database (UniqueViolation ''share_members_pkey''))
              else if userRow d (mb_user m) = None then Inl (Database (ForeignKeyViolation ''share_members_user_id_fkey''))
              else if shareRow d (mb_share m) = None then Inl (Database (ForeignKeyViolation ''share_members_share_id_fkey''))
              else if length (filter (\<lambda>q. mb_share q = mb_share m \<and> NOT_FINALIZING q) (db_members d @ [m])) > 8
                then Inl (Database (CheckViolation ''a share holds at most 8 participants''))
              else statement pg (\<lambda>d. d\<lparr>db_members := db_members d @ [m]\<rparr>) d))"

definition memberRefused :: "db \<Rightarrow> member_row \<Rightarrow> member_row \<Rightarrow> db_error option" where
  "memberRefused d old new =
     (case shareRow d (mb_share new) of
        None \<Rightarrow> None
      | Some s \<Rightarrow>
          if \<not> ended (sh_state s) \<and> mb_finalizing new \<noteq> None \<and> mb_finalizing old = None \<and> mb_user old = sh_initiator s
            then Some (RestrictViolation ''the initiator cannot leave a share while it lives; end the share instead'' False)
          else if mb_left new \<noteq> None \<and> mb_left old = None \<and> mb_finalizing new = None
            then Some (RestrictViolation ''member cannot leave before finalization starts'' False)
          else if mb_left new \<noteq> None \<and> mb_left old = None \<and>
              list_ex (\<lambda>n. nr_share n = Some (mb_share new) \<and> Some (nr_vault n) = mb_vault new) (db_nodes d)
            then Some (RestrictViolation ''user still holds nodes marked with the share'' False)
          else joinRefused d (Some old) new)"

fun updateMembersOf :: "pg \<Rightarrow> (member_row \<Rightarrow> member_row) \<Rightarrow> (string \<times> string) list \<Rightarrow> unit tx" where
  "updateMembersOf pg f [] = tx_ret ()"
| "updateMembersOf pg f ((shareId, userId) # ks) =
     tx_seq (\<lambda>d. case memberRow d shareId userId of
          None \<Rightarrow> Inr ((), d)
        | Some old \<Rightarrow> (case memberRefused d old (f old) of
            Some e \<Rightarrow> Inl (Database e)
          | None \<Rightarrow> statement pg (\<lambda>d. d\<lparr>db_members :=
              map (\<lambda>m. if mb_share m = shareId \<and> mb_user m = userId then f m else m) (db_members d)\<rparr>) d))
       (updateMembersOf pg f ks)"

definition updateMembers :: "pg \<Rightarrow> (member_row \<Rightarrow> bool) \<Rightarrow> (db \<Rightarrow> member_row \<Rightarrow> member_row) \<Rightarrow> unit tx" where
  "updateMembers pg which f =
     (\<lambda>d. updateMembersOf pg (f d) (map (\<lambda>m. (mb_share m, mb_user m)) (filter which (db_members d))) d)"

text \<open>\<open>nodes_check_finalization_material\<close>: what must hold before a mark goes.\<close>

definition unmarkRefused :: "db \<Rightarrow> node_row \<Rightarrow> node_row \<Rightarrow> db_error option" where
  "unmarkRefused d old new =
     (if nr_share old = None \<or> nr_share new \<noteq> None then None
      else (case vaultRow d (nr_vault old) of
        None \<Rightarrow> Some (RestrictViolation ''node cannot be unmarked outside its member finalization'' False)
      | Some va \<Rightarrow>
          (let key = Some (vr_key_id va); finalizing = (case memberRow d (the (nr_share old)) (vr_user va) of None \<Rightarrow> False
                 | Some m \<Rightarrow> mb_vault m = Some (nr_vault old) \<and> mb_finalizing m \<noteq> None \<and> mb_left m = None)
           in if \<not> finalizing then Some (RestrictViolation ''node cannot be unmarked outside its member finalization'' False)
              else if nr_name_key new \<noteq> key then Some (CheckViolation ''node cannot be unmarked before its name is under the vault key'')
              else if list_ex (\<lambda>sha. \<not> hasEnvelope d sha key) (blobsOf d new)
                then Some (CheckViolation ''node cannot be unmarked before the blob has its vault envelope'')
              else if nr_deleted new = None \<and> (case nr_sha new of None \<Rightarrow> False | Some sha \<Rightarrow> \<not> hasTag d sha key)
                then Some (CheckViolation ''node cannot be unmarked before the blob has its vault dedup tag'')
              else None)))"

definition remarkNode :: "pg \<Rightarrow> (node_row \<Rightarrow> node_row) \<Rightarrow> string \<times> string \<Rightarrow> unit tx" where
  "remarkNode pg f = (\<lambda>(v, n).
     (\<lambda>d. case nodeRow d v n of
        None \<Rightarrow> Inr ((), d)
      | Some old \<Rightarrow> (case unmarkRefused d old (f old) of
          Some e \<Rightarrow> Inl (Database e)
        | None \<Rightarrow> updateNode pg v n f d)))"

definition nodeKey :: "node_row \<Rightarrow> string \<times> string" where "nodeKey r = (nr_vault r, nr_id r)"

subsection \<open>Opening and cancelling\<close>

record create_share_input =
  cs_vaultId :: string
  cs_nodeId :: string
  cs_subtreeKeyId :: string
  cs_wrappedKeyInitiator :: string

definition isUnder :: "string \<Rightarrow> string \<Rightarrow> node_row \<Rightarrow> bool" where
  "isUnder v n r \<longleftrightarrow> nr_vault r = v \<and> n \<in> set (nr_ancestry r)"

definition markInterior :: "pg \<Rightarrow> string \<Rightarrow> string \<Rightarrow> string \<Rightarrow> unit tx" where
  "markInterior pg shareId v n =
     reading (\<lambda>d. tx_each (\<lambda>k. tx_bind (randomUUID pg) (\<lambda>item.
        remarkNode pg (\<lambda>r. r\<lparr>nr_share := Some shareId, nr_item := Some item\<rparr>) k))
      (map nodeKey (filter (isUnder v n) (db_nodes d))))"

definition insertScope :: "pg \<Rightarrow> string \<Rightarrow> unit tx" where
  "insertScope pg scope =
     (\<lambda>d. if scope \<in> set (db_scopes d) then Inl (Database (UniqueViolation ''key_scopes_pkey''))
          else statement pg (\<lambda>d. d\<lparr>db_scopes := db_scopes d @ [scope]\<rparr>) d)"

definition insertShare :: "pg \<Rightarrow> share_row \<Rightarrow> unit tx" where
  "insertShare pg s =
     (\<lambda>d. case shareRefused d s of
        Some e \<Rightarrow> Inl (Database e)
      | None \<Rightarrow> statement pg (\<lambda>d. d\<lparr>db_shares := db_shares d @ [s]\<rparr>) d)"

definition createShareBody :: "pg \<Rightarrow> string \<Rightarrow> create_share_input \<Rightarrow> (refusal + (string \<times> share_state)) tx" where
  "createShareBody pg userId input =
     reading (\<lambda>d. tx_seq (insertScope pg (cs_subtreeKeyId input))
       (tx_bind (randomUUID pg) (\<lambda>shareId. tx_bind (randomUUID pg) (\<lambda>rootItem.
        tx_seq (insertShare pg \<lparr>sh_id = shareId, sh_initiator = userId, sh_vault = cs_vaultId input, sh_node = cs_nodeId input,
            sh_state = SharePreparing, sh_root_item = rootItem, sh_key = Some (cs_subtreeKeyId input),
            sh_wrapped = Some (cs_wrappedKeyInitiator input), sh_created = db_now d, sh_terminal = None\<rparr>)
        (tx_seq (insertMember pg \<lparr>mb_share = shareId, mb_user = userId, mb_vault = Some (cs_vaultId input), mb_joined = Some (db_now d),
            mb_finalizing = None, mb_left = None, mb_invited = db_now d, mb_wrapped = None\<rparr>)
        (tx_seq (remarkNode pg (\<lambda>r. r\<lparr>nr_share := Some shareId, nr_item := Some rootItem\<rparr>) (cs_vaultId input, cs_nodeId input))
        (tx_seq (markInterior pg shareId (cs_vaultId input) (cs_nodeId input))
        (tx_ret (Inr (shareId, SharePreparing))))))))))"

definition createShare :: "pg \<Rightarrow> string \<Rightarrow> create_share_input \<Rightarrow> db \<Rightarrow> (string \<times> share_state) outcome \<times> db" where
  "createShare pg userId input d =
     (case txGuarded pg (createShareBody pg userId input) d of
        (Crashed (Database (ForeignKeyViolation c)), d') \<Rightarrow> (Refused not_found, d')
      | r \<Rightarrow> r)"

definition stateName :: "share_state \<Rightarrow> string" where
  "stateName s = (case s of SharePreparing \<Rightarrow> ''preparing'' | ShareActive \<Rightarrow> ''active'' | ShareCancelled \<Rightarrow> ''cancelled'' | ShareEnded \<Rightarrow> ''ended'')"

definition explainCancelRefusal :: "db \<Rightarrow> string \<Rightarrow> string \<Rightarrow> refusal" where
  "explainCancelRefusal d userId shareId =
     (case shareRow d shareId of
        None \<Rightarrow> not_found
      | Some s \<Rightarrow> if sh_initiator s = userId then share_not_preparing (stateName (sh_state s)) else not_found)"

definition cancelBody :: "pg \<Rightarrow> string \<Rightarrow> string \<Rightarrow> (refusal + unit) tx" where
  "cancelBody pg userId shareId =
     reading (\<lambda>d. if (case shareRow d shareId of None \<Rightarrow> True | Some s \<Rightarrow> sh_initiator s \<noteq> userId \<or> sh_state s \<noteq> SharePreparing)
      then tx_refuse (explainCancelRefusal d userId shareId)
      else tx_seq (setShareState pg shareId ShareCancelled (\<lambda>d _. Some (db_now d)))
        (tx_seq (updateMembers pg (\<lambda>m. mb_share m = shareId) (\<lambda>d m. m\<lparr>mb_finalizing := Some (db_now d)\<rparr>))
        (tx_seq (tx_each (remarkNode pg (\<lambda>r. r\<lparr>nr_share := None, nr_item := None\<rparr>))
            (map nodeKey (filter (\<lambda>r. nr_share r = Some shareId) (db_nodes d))))
        (tx_seq (updateMembers pg (\<lambda>m. mb_share m = shareId) (\<lambda>d m. m\<lparr>mb_left := Some (db_now d)\<rparr>))
        (tx_ret (Inr ()))))))"

definition cancelShare :: "pg \<Rightarrow> string \<Rightarrow> string \<Rightarrow> db \<Rightarrow> unit outcome \<times> db" where
  "cancelShare pg userId shareId = txGuarded pg (cancelBody pg userId shareId)"

subsection \<open>What a vault owes under a scope\<close>

record owed_node =
  ow_nodeId :: string
  ow_nameEnc :: "string option"
  ow_nameKeyId :: "string option"
  ow_type :: node_type
  ow_deleted :: bool
  ow_sha256 :: "string option"
  ow_shareItemId :: string
  ow_needsMaterial :: bool
  ow_history :: "string list"

definition owedFor :: "db \<Rightarrow> string option \<Rightarrow> node_row \<Rightarrow> owed_node" where
  "owedFor d scopeId n =
     \<lparr>ow_nodeId = nr_id n, ow_nameEnc = nr_name_enc n, ow_nameKeyId = nr_name_key n, ow_type = nr_type n,
      ow_deleted = (nr_deleted n \<noteq> None), ow_sha256 = nr_sha n, ow_shareItemId = the (nr_item n),
      ow_needsMaterial = (case nr_sha n of None \<Rightarrow> False
        | Some sha \<Rightarrow> \<not> (hasEnvelope d sha scopeId \<and> (nr_deleted n \<noteq> None \<or> hasTag d sha scopeId))),
      ow_history = sort (remdups (map vn_sha (filter (\<lambda>v. vn_vault v = nr_vault n \<and> vn_node v = nr_id n \<and>
        Some (vn_sha v) \<noteq> nr_sha n \<and> \<not> hasEnvelope d (vn_sha v) scopeId) (db_versions d))))\<rparr>"

definition owedUnder :: "db \<Rightarrow> string \<Rightarrow> string \<Rightarrow> string option \<Rightarrow> owed_node list" where
  "owedUnder d vaultId shareId scopeId =
     sort_key ow_deleted (sort_key ow_nodeId
       (map (owedFor d scopeId) (filter (\<lambda>n. nr_vault n = vaultId \<and> nr_share n = Some shareId) (db_nodes d))))"

definition interiorOwed :: "db \<Rightarrow> string \<Rightarrow> string \<Rightarrow> string option \<Rightarrow> string \<Rightarrow> owed_node list" where
  "interiorOwed d vaultId shareId scopeId rootItemId = filter (\<lambda>n. ow_shareItemId n \<noteq> rootItemId) (owedUnder d vaultId shareId scopeId)"

definition GAPS_NAMED :: nat where "GAPS_NAMED = 20"

definition gapsOf :: "string option \<Rightarrow> owed_node \<Rightarrow> preparation_gap list" where
  "gapsOf keyId n =
     (if \<not> ow_deleted n \<and> ow_nameKeyId n \<noteq> keyId then [\<lparr>pg_nodeId = ow_nodeId n, pg_missing = ''name''\<rparr>] else []) @
     (if ow_needsMaterial n \<or> ow_history n \<noteq> [] then [\<lparr>pg_nodeId = ow_nodeId n, pg_missing = ''content''\<rparr>] else [])"

fun collectGaps :: "string option \<Rightarrow> preparation_gap list \<Rightarrow> owed_node list \<Rightarrow> preparation_gap list" where
  "collectGaps keyId gaps [] = gaps"
| "collectGaps keyId gaps (n # ns) =
     (let gaps = gaps @ gapsOf keyId n in if length gaps \<ge> GAPS_NAMED then gaps else collectGaps keyId gaps ns)"

definition preparationGaps :: "db \<Rightarrow> string \<Rightarrow> string \<Rightarrow> string option \<Rightarrow> string \<Rightarrow> preparation_gap list" where
  "preparationGaps d vaultId shareId keyId rootItemId =
     take GAPS_NAMED (collectGaps keyId [] (interiorOwed d vaultId shareId keyId rootItemId))"

definition preparationOwed :: "db \<Rightarrow> string \<Rightarrow> string \<Rightarrow> owed_node list option" where
  "preparationOwed d userId shareId =
     (case shareRow d shareId of
        None \<Rightarrow> None
      | Some s \<Rightarrow> if sh_initiator s \<noteq> userId \<or> sh_state s \<noteq> SharePreparing then None
          else Some (interiorOwed d (sh_vault s) shareId (sh_key s) (sh_root_item s)))"

definition replicaOf :: "db \<Rightarrow> string \<Rightarrow> string \<Rightarrow> owed_node list option" where
  "replicaOf d userId shareId =
     (case memberRow d shareId userId of
        None \<Rightarrow> None
      | Some m \<Rightarrow> (if \<not> PRESENT m then None else
          (case Option.bind (mb_vault m) (vaultRow d) of
             None \<Rightarrow> None
           | Some v \<Rightarrow> Some (owedUnder d (vr_id v) shareId (Some (vr_key_id v))))))"

subsection \<open>Preparing and activating\<close>

record prepare_item = item_name +
  pr_nodeId :: string
  pr_material :: wire_material

definition rename :: "'a item_name_scheme \<Rightarrow> node_row \<Rightarrow> node_row" where
  "rename name r = r\<lparr>nr_name_enc := Some (in_nameEnc name), nr_name_hmac := Some (in_nameHmac name), nr_name_key := Some (in_nameKeyId name)\<rparr>"

fun prepareEach :: "pg \<Rightarrow> share_row \<Rightarrow> prepare_item list \<Rightarrow> (refusal + unit) tx" where
  "prepareEach pg s [] = tx_ret (Inr ())"
| "prepareEach pg s (item # items) =
     reading (\<lambda>d.
       if \<not> (case liveNode d (sh_vault s) (pr_nodeId item) of None \<Rightarrow> False | Some r \<Rightarrow> sh_node s \<in> set (nr_ancestry r))
       then tx_refuse (invalid_write (''node '' @ pr_nodeId item @ '' is not a live interior node of this share''))
       else tx_seq (updateNode pg (sh_vault s) (pr_nodeId item) (rename item))
         (tx_seq (writeMaterial pg (pr_material item)) (prepareEach pg s items)))"

definition prepareShare :: "pg \<Rightarrow> string \<Rightarrow> string \<Rightarrow> prepare_item list \<Rightarrow> db \<Rightarrow> unit outcome \<times> db" where
  "prepareShare pg userId shareId items d =
     (case shareRow d shareId of
        None \<Rightarrow> (Refused not_found, d)
      | Some s \<Rightarrow>
          if sh_initiator s \<noteq> userId then (Refused not_found, d)
          else if sh_state s \<noteq> SharePreparing then (Refused (share_not_preparing (stateName (sh_state s))), d)
          else (case find (\<lambda>i. Some (in_nameKeyId i) \<noteq> sh_key s) items of
            Some wrong \<Rightarrow> (Refused (invalid_write (''item '' @ pr_nodeId wrong @ '' names a key scope that is not this share's'')), d)
          | None \<Rightarrow> txGuarded pg (prepareEach pg s items) d))"

definition activateShare :: "pg \<Rightarrow> string \<Rightarrow> string \<Rightarrow> db \<Rightarrow> share_state outcome \<times> db" where
  "activateShare pg userId shareId d =
     (case shareRow d shareId of
        None \<Rightarrow> (Refused not_found, d)
      | Some s \<Rightarrow>
          if sh_initiator s \<noteq> userId then (Refused not_found, d)
          else if sh_state s \<noteq> SharePreparing then (Refused (share_not_preparing (stateName (sh_state s))), d)
          else (let gaps = preparationGaps d (sh_vault s) shareId (sh_key s) (sh_root_item s)
                in if gaps \<noteq> [] then (Refused (share_not_prepared gaps), d)
                   else (case plainTx pg (setShareState pg shareId ShareActive (\<lambda>_ t. t)) d of
                     (Inl e, d') \<Rightarrow> (Crashed e, d')
                   | (Inr _, d') \<Rightarrow> (Done ShareActive, d'))))"

subsection \<open>Inviting\<close>

definition invite :: "pg \<Rightarrow> string \<Rightarrow> string \<Rightarrow> string \<Rightarrow> string \<Rightarrow> db \<Rightarrow> unit outcome \<times> db" where
  "invite pg userId shareId targetUserId wrappedKey d =
     (case shareRow d shareId of
        None \<Rightarrow> (Refused not_found, d)
      | Some s \<Rightarrow>
          if sh_initiator s \<noteq> userId then (Refused not_found, d)
          else if sh_state s \<noteq> ShareActive then (Refused (share_not_active (stateName (sh_state s))), d)
          else (case plainTx pg (insertMember pg \<lparr>mb_share = shareId, mb_user = targetUserId, mb_vault = None, mb_joined = None,
                   mb_finalizing = None, mb_left = None, mb_invited = db_now d, mb_wrapped = Some wrappedKey\<rparr>) d of
              (Inr _, d') \<Rightarrow> (Done (), d')
            | (Inl (Database (ForeignKeyViolation _)), d') \<Rightarrow> (Refused invite_failed, d')
            | (Inl (Database (UniqueViolation _)), d') \<Rightarrow> (Refused invite_failed, d')
            | (Inl e, d') \<Rightarrow> (case refusalFromDatabase e of Some r \<Rightarrow> (Refused r, d') | None \<Rightarrow> (Crashed e, d'))))"

definition deleteMember :: "pg \<Rightarrow> string \<Rightarrow> string \<Rightarrow> unit tx" where
  "deleteMember pg shareId userId =
     statement pg (\<lambda>d. d\<lparr>db_members := filter (\<lambda>m. \<not> (mb_share m = shareId \<and> mb_user m = userId)) (db_members d)\<rparr>)"

definition declineInvitation :: "pg \<Rightarrow> string \<Rightarrow> string \<Rightarrow> db \<Rightarrow> unit outcome \<times> db" where
  "declineInvitation pg userId shareId d =
     (case memberRow d shareId userId of
        None \<Rightarrow> (Refused not_found, d)
      | Some m \<Rightarrow> if \<not> INVITED m then (Refused not_found, d)
          else (case plainTx pg (deleteMember pg shareId userId) d of
              (Inl e, d') \<Rightarrow> (Crashed e, d')
            | (Inr _, d') \<Rightarrow> (Done (), d')))"

subsection \<open>Departing\<close>

definition departMember :: "pg \<Rightarrow> string \<Rightarrow> string \<Rightarrow> string \<Rightarrow> bool tx" where
  "departMember pg shareId leaving initiator =
     reading (\<lambda>d.
       let remaining = length (filter (\<lambda>m. mb_share m = shareId \<and> mb_user m \<noteq> leaving \<and> mb_user m \<noteq> initiator \<and> LIVE m) (db_members d));
           ends = (leaving = initiator \<or> remaining = 0);
           final = (case shareRow d shareId of None \<Rightarrow> ShareEnded | Some s \<Rightarrow> if sh_state s = SharePreparing then ShareCancelled else ShareEnded)
       in if ends
          then tx_seq (setShareState pg shareId final (\<lambda>d _. Some (db_now d)))
            (tx_seq (updateMembers pg (\<lambda>m. mb_share m = shareId \<and> NOT_FINALIZING m) (\<lambda>d m. m\<lparr>mb_finalizing := Some (db_now d)\<rparr>))
            (tx_ret True))
          else tx_seq (updateMembers pg (\<lambda>m. mb_share m = shareId \<and> mb_user m = leaving \<and> NOT_STARTED m) (\<lambda>d m. m\<lparr>mb_finalizing := Some (db_now d)\<rparr>))
            (tx_ret False))"

datatype removal = Withdrawn | Revoked bool

definition removeMember :: "pg \<Rightarrow> string \<Rightarrow> string \<Rightarrow> string \<Rightarrow> db \<Rightarrow> removal outcome \<times> db" where
  "removeMember pg userId shareId targetUserId d =
     (if (case shareRow d shareId of None \<Rightarrow> True | Some s \<Rightarrow> sh_initiator s \<noteq> userId) then (Refused not_found, d)
      else if targetUserId = userId then (Refused initiator_cannot_be_removed, d)
      else (case memberRow d shareId targetUserId of
          None \<Rightarrow> (Refused not_found, d)
        | Some m \<Rightarrow>
            if \<not> PRESENT m then (Refused not_found, d)
            else if mb_joined m = None then
              (case plainTx pg (deleteMember pg shareId targetUserId) d of (Inl e, d') \<Rightarrow> (Crashed e, d') | (Inr _, d') \<Rightarrow> (Done Withdrawn, d'))
            else
              (case plainTx pg (departMember pg shareId targetUserId userId) d of
                 (Inl e, d') \<Rightarrow> (Crashed e, d') | (Inr closed, d') \<Rightarrow> (Done (Revoked closed), d'))))"

definition leaveBody :: "pg \<Rightarrow> string \<Rightarrow> string \<Rightarrow> (refusal + bool) tx" where
  "leaveBody pg userId shareId =
     reading (\<lambda>d. case shareRow d shareId of
        None \<Rightarrow> tx_refuse not_found
      | Some s \<Rightarrow> (case memberRow d shareId userId of
          None \<Rightarrow> tx_refuse not_found
        | Some m \<Rightarrow>
            if \<not> JOINED m then tx_refuse not_found
            else if mb_finalizing m \<noteq> None then tx_ret (Inr (sh_state s = ShareEnded))
            else tx_bind (departMember pg shareId userId (sh_initiator s)) (\<lambda>ends. tx_ret (Inr ends))))"

definition leaveShare :: "pg \<Rightarrow> string \<Rightarrow> string \<Rightarrow> db \<Rightarrow> bool outcome \<times> db" where
  "leaveShare pg userId shareId = txGuarded pg (leaveBody pg userId shareId)"

subsection \<open>Finishing\<close>

fun finalizeEach :: "pg \<Rightarrow> string \<Rightarrow> string \<Rightarrow> prepare_item list \<Rightarrow> (refusal + unit) tx" where
  "finalizeEach pg vaultId shareId [] = tx_ret (Inr ())"
| "finalizeEach pg vaultId shareId (n # ns) =
     tx_seq (writeMaterial pg (pr_material n))
       (reading (\<lambda>d.
         if \<not> (case nodeRow d vaultId (pr_nodeId n) of None \<Rightarrow> False | Some r \<Rightarrow> nr_share r = Some shareId)
         then tx_refuse (invalid_write (''node '' @ pr_nodeId n @ '' is not part of this share''))
         else tx_seq (remarkNode pg (\<lambda>r. (rename n r)\<lparr>nr_share := None, nr_item := None\<rparr>) (vaultId, pr_nodeId n))
           (finalizeEach pg vaultId shareId ns)))"

definition finalizeBody :: "pg \<Rightarrow> string \<Rightarrow> string \<Rightarrow> prepare_item list \<Rightarrow> (refusal + unit) tx" where
  "finalizeBody pg userId shareId nodes =
     reading (\<lambda>d. case (memberRow d shareId userId, shareRow d shareId) of
        (Some m, Some s) \<Rightarrow>
          if \<not> FINALIZING m then tx_refuse not_found
          else (let vaultId = the (mb_vault m); supplied = map pr_nodeId nodes;
                    missing = map nr_id (filter (\<lambda>r. nr_vault r = vaultId \<and> nr_share r = Some shareId \<and> nr_id r \<notin> set supplied) (db_nodes d));
                    participant = (userId \<noteq> sh_initiator s)
            in if missing \<noteq> [] then tx_refuse (finalization_incomplete (take 20 missing))
               else tx_seq (tx_when participant (statement pg (\<lambda>d. d\<lparr>db_versions :=
                     filter (\<lambda>v. \<not> (vn_vault v = vaultId \<and> vn_node v \<in> set supplied)) (db_versions d)\<rparr>)))
                 (tx_bind (finalizeEach pg vaultId shareId nodes) (\<lambda>r. case r of
                    Inl refused \<Rightarrow> tx_refuse refused
                  | Inr _ \<Rightarrow>
                     tx_seq (tx_when participant (dropUnreferenced pg userId))
                     (tx_seq (updateMembers pg (\<lambda>m. mb_share m = shareId \<and> mb_user m = userId) (\<lambda>d m. m\<lparr>mb_left := Some (db_now d)\<rparr>))
                     (tx_ret (Inr ()))))))
      | _ \<Rightarrow> tx_refuse not_found)"

definition finalizeLeave :: "pg \<Rightarrow> string \<Rightarrow> string \<Rightarrow> prepare_item list \<Rightarrow> db \<Rightarrow> unit outcome \<times> db" where
  "finalizeLeave pg userId shareId nodes = txGuarded pg (finalizeBody pg userId shareId nodes)"

subsection \<open>Joining\<close>

record join_input = item_name +
  ji_vaultId :: string
  ji_parentId :: string

definition subtreeRows :: "db \<Rightarrow> string \<Rightarrow> string \<Rightarrow> node_row list" where
  "subtreeRows d v n =
     sort_key (length \<circ> nr_ancestry) (sort_key nr_id
       (filter (\<lambda>r. nr_vault r = v \<and> nr_deleted r = None \<and> (nr_id r = n \<or> n \<in> set (nr_ancestry r))) (db_nodes d)))"

definition joinSizes :: "node_row list \<Rightarrow> (string, nat) jmap" where
  "joinSizes rows = fold (\<lambda>r m. case (nr_sha r, nr_size r) of (Some sha, Some sz) \<Rightarrow> if sha = [] then m else jset sha sz m | _ \<Rightarrow> m) rows []"

definition joinGrowth :: "db \<Rightarrow> string \<Rightarrow> node_row list \<Rightarrow> nat" where
  "joinGrowth d userId rows = sum_list (map snd (filter (\<lambda>(sha, _). \<not> alreadyHeld d userId sha) (joinSizes rows)))"

fun reserveRevs :: "pg \<Rightarrow> string \<Rightarrow> nat \<Rightarrow> nat list tx" where
  "reserveRevs pg vaultId 0 = tx_ret []"
| "reserveRevs pg vaultId (Suc n) = tx_bind (nextRev pg vaultId) (\<lambda>rv. tx_bind (reserveRevs pg vaultId n) (\<lambda>rvs. tx_ret (rv # rvs)))"

definition historyOf :: "db \<Rightarrow> string \<Rightarrow> string \<Rightarrow> version_row list" where
  "historyOf d v n = sort_key vn_rev (filter (\<lambda>x. vn_vault x = v \<and> vn_node x = n) (db_versions d))"

text \<open>The moment of a copied version crosses a JavaScript date, which counts milliseconds.\<close>

definition throughDate :: "nat \<Rightarrow> nat" where
  "throughDate at = at div 1000 * 1000"

definition versionsFor :: "string \<Rightarrow> version_row list \<Rightarrow> nat list \<Rightarrow> version_to_copy list" where
  "versionsFor nodeId vs rvs = map (\<lambda>(v, rv). \<lparr>vc_targetNodeId = nodeId, vc_rev = rv, vc_sha256 = vn_sha v, vc_size = vn_size v,
     vc_authorId = vn_author v, vc_at = throughDate (vn_at v)\<rparr>) (zip vs rvs)"

definition deliverContent :: "pg \<Rightarrow> string \<Rightarrow> string \<Rightarrow> node_row \<Rightarrow> string \<Rightarrow> nat \<Rightarrow> version_row list \<Rightarrow> nat list \<Rightarrow> unit tx" where
  "deliverContent pg userId vaultId n newId rv past pastRevs =
     (if \<not> truthy (nr_sha n) then tx_ret ()
      else tx_bind (copyVersions pg vaultId userId (versionsFor newId (butlast past) pastRevs)) (\<lambda>_.
        tx_seq (recordVersion pg vaultId newId rv (the (nr_sha n)) (case nr_size n of None \<Rightarrow> 0 | Some sz \<Rightarrow> sz)
           (if past = [] then userId else vn_author (last past)) None)
        (claimBlob pg userId (the (nr_sha n)))))"

fun joinEach ::
  "pg \<Rightarrow> string \<Rightarrow> share_row \<Rightarrow> join_input \<Rightarrow> string list \<Rightarrow> node_row list \<Rightarrow> (string, string) jmap \<Rightarrow> (string, string list) jmap \<Rightarrow>
   string \<Rightarrow> (refusal + string) tx"
where
  "joinEach pg userId s input baseAncestry [] mapped ancestryOf rootNodeId = tx_ret (Inr rootNodeId)"
| "joinEach pg userId s input baseAncestry (n # ns) mapped ancestryOf rootNodeId =
     (let isRoot = (nr_id n = sh_node s);
          newParent = (if isRoot then Some (ji_parentId input) else Option.bind (nr_parent n) (jget mapped));
          names = (if isRoot then Some (item_name.truncate input)
                   else (case (nr_name_enc n, nr_name_hmac n, nr_name_key n) of
                     (Some e, Some h, Some k) \<Rightarrow> Some \<lparr>in_nameEnc = e, in_nameHmac = h, in_nameKeyId = k\<rparr> | _ \<Rightarrow> None))
      in if \<not> truthy newParent then tx_refuse (invalid_write (''node '' @ nr_id n @ '' has no copied parent''))
         else (let ancestry = (if isRoot then baseAncestry @ [ji_parentId input]
                 else the (jget ancestryOf (the (nr_parent n))) @ [the newParent])
           in reading (\<lambda>d. let past = historyOf d (sh_vault s) (nr_id n)
              in tx_bind (reserveRevs pg (ji_vaultId input) (length past - 1)) (\<lambda>pastRevs.
                 case names of
                   None \<Rightarrow> tx_refuse (invalid_write (''node '' @ nr_id n @ '' inside a share has no name''))
                 | Some name \<Rightarrow>
                   tx_bind (case nr_item n of
                       None \<Rightarrow> tx_throw (Database (CheckViolation ''nodes row check''))
                     | Some item \<Rightarrow> createCounterpart pg (ji_vaultId input) (sh_id s) \<lparr>cp_id = the newParent, cp_ancestry = butlast ancestry\<rparr>
                         \<lparr>in_nameEnc = in_nameEnc name, in_nameHmac = in_nameHmac name, in_nameKeyId = in_nameKeyId name,
                          ri_shareItemId = item, ri_type = nr_type n, ri_sha256 = nr_sha n, ri_size = nr_size n, ri_mtime = nr_mtime n\<rparr>)
                   (\<lambda>(created, rv).
                   tx_seq (deliverContent pg userId (ji_vaultId input) n (cp_id created) rv past pastRevs)
                     (joinEach pg userId s input baseAncestry ns (jset (nr_id n) (cp_id created) mapped) (jset (nr_id n) ancestry ancestryOf)
                        (if isRoot then cp_id created else rootNodeId)))))))"

definition joinBody :: "pg \<Rightarrow> string \<Rightarrow> string \<Rightarrow> join_input \<Rightarrow> (refusal + string) tx" where
  "joinBody pg userId shareId input =
     reading (\<lambda>d. case shareRow d shareId of
        None \<Rightarrow> tx_refuse not_found
      | Some s \<Rightarrow>
          if sh_state s \<noteq> ShareActive then tx_refuse (share_not_active (stateName (sh_state s)))
          else if (case memberRow d shareId userId of None \<Rightarrow> True | Some m \<Rightarrow> \<not> INVITATION m) then tx_refuse not_found
          else (case (if ownsVault d userId (ji_vaultId input) then liveNode d (ji_vaultId input) (ji_parentId input) else None) of
              None \<Rightarrow> tx_refuse not_found
            | Some into \<Rightarrow>
                if nr_type into \<noteq> NodeFolder then tx_refuse not_found
                else (let source = subtreeRows d (sh_vault s) (sh_node s)
                  in case headroom d userId of
                    None \<Rightarrow> tx_refuse not_found
                  | Some room \<Rightarrow>
                      if int (joinGrowth d userId source) > room then tx_refuse over_quota
                      else tx_seq (updateMembers pg (\<lambda>m. mb_share m = shareId \<and> mb_user m = userId)
                             (\<lambda>d m. m\<lparr>mb_joined := Some (db_now d), mb_vault := Some (ji_vaultId input)\<rparr>))
                           (joinEach pg userId s input (nr_ancestry into) source [] [] []))))"

definition joinShare :: "pg \<Rightarrow> string \<Rightarrow> string \<Rightarrow> join_input \<Rightarrow> db \<Rightarrow> string outcome \<times> db" where
  "joinShare pg userId shareId input = txGuarded pg (joinBody pg userId shareId input)"

subsection \<open>What is shown\<close>

record joined_share =
  js_shareId :: string
  js_vaultId :: "string option"
  js_isInitiator :: bool
  js_state :: share_state
  js_rootNodeId :: "string option"

record pending_invitation =
  pv_shareId :: string
  pv_initiatorLogin :: string
  pv_invitedAt :: nat

definition listShares :: "db \<Rightarrow> string \<Rightarrow> joined_share list \<times> pending_invitation list" where
  "listShares d userId =
     (map (\<lambda>(m, s). \<lparr>js_shareId = sh_id s, js_vaultId = mb_vault m, js_isInitiator = (sh_initiator s = mb_user m), js_state = sh_state s,
           js_rootNodeId = map_option nr_id (find (\<lambda>n. Some (nr_vault n) = mb_vault m \<and> nr_item n = Some (sh_root_item s)) (db_nodes d))\<rparr>)
        (sort_key (sh_created \<circ> snd) (List.map_filter (\<lambda>m. if mb_user m = userId \<and> JOINED m
           then map_option (Pair m) (shareRow d (mb_share m)) else None) (db_members d))),
      map (\<lambda>(m, u). \<lparr>pv_shareId = mb_share m, pv_initiatorLogin = us_login u, pv_invitedAt = mb_invited m\<rparr>)
        (sort_key (mb_invited \<circ> fst) (List.map_filter (\<lambda>m. if mb_user m = userId \<and> INVITED m
           then (case shareRow d (mb_share m) of None \<Rightarrow> None
             | Some s \<Rightarrow> if sh_state s = ShareActive then map_option (Pair m) (userRow d (sh_initiator s)) else None) else None) (db_members d))))"

record listed_member =
  lm_userId :: string
  lm_login :: string
  lm_isInitiator :: bool
  lm_invitedAt :: nat
  lm_joinedAt :: "nat option"
  lm_finalizing :: bool

definition listMembers :: "db \<Rightarrow> string \<Rightarrow> string \<Rightarrow> listed_member list option" where
  "listMembers d userId shareId =
     (case shareRow d shareId of
        None \<Rightarrow> None
      | Some s \<Rightarrow>
          if sh_initiator s = userId \<or> list_ex (\<lambda>m. mb_share m = shareId \<and> mb_user m = userId \<and> PRESENT m) (db_members d)
          then Some (map (\<lambda>(m, u). \<lparr>lm_userId = mb_user m, lm_login = us_login u, lm_isInitiator = (sh_initiator s = mb_user m),
                 lm_invitedAt = mb_invited m, lm_joinedAt = mb_joined m, lm_finalizing = (mb_finalizing m \<noteq> None)\<rparr>)
               (sort_key (\<lambda>(m, u). sh_initiator s \<noteq> mb_user m) (sort_key (mb_invited \<circ> fst)
                 (List.map_filter (\<lambda>m. if mb_share m = shareId \<and> PRESENT m then map_option (Pair m) (userRow d (mb_user m)) else None) (db_members d)))))
          else None)"

text \<open>What an unknown login is answered with is a stable fake; \<open>lower\<close> is PostgreSQL's.\<close>

definition recipientPubkey :: "(string \<Rightarrow> string) \<Rightarrow> (string \<Rightarrow> string \<times> string) \<Rightarrow> db \<Rightarrow> string \<Rightarrow> string \<Rightarrow> string \<Rightarrow> refusal + (string \<times> string)" where
  "recipientPubkey lower fakeRecipient d userId shareId login =
     (if (case shareRow d shareId of None \<Rightarrow> True | Some s \<Rightarrow> sh_initiator s \<noteq> userId) then Inl not_found
      else (case find (\<lambda>u. lower (us_login u) = lower login \<and> us_active u) (db_users d) of
          Some u \<Rightarrow> (case us_pubkey u of None \<Rightarrow> Inl console_account | Some k \<Rightarrow> Inr (us_id u, k))
        | None \<Rightarrow> Inr (fakeRecipient login)))"

datatype wrapping = UnderVault | UnderAccount

record share_scope =
  ss_shareId :: string
  ss_keyId :: string
  ss_wrappedKey :: "string option"
  ss_wrapping :: wrapping

definition shareScopesFor :: "db \<Rightarrow> string \<Rightarrow> string \<Rightarrow> share_scope list" where
  "shareScopesFor d userId vaultId =
     List.map_filter (\<lambda>s. case sh_key s of None \<Rightarrow> None
       | Some k \<Rightarrow> if sh_initiator s = userId \<and> sh_vault s = vaultId \<and>
             list_ex (\<lambda>m. mb_share m = sh_id s \<and> mb_user m = sh_initiator s \<and> PRESENT m) (db_members d)
           then Some \<lparr>ss_shareId = sh_id s, ss_keyId = k, ss_wrappedKey = sh_wrapped s, ss_wrapping = UnderVault\<rparr> else None) (db_shares d) @
     List.map_filter (\<lambda>m. if mb_user m = userId \<and> mb_vault m = Some vaultId \<and> JOINED m then
         (case (shareRow d (mb_share m), mb_wrapped m) of
            (Some s, Some w) \<Rightarrow> (case sh_key s of None \<Rightarrow> None
              | Some k \<Rightarrow> if mb_user m \<noteq> sh_initiator s
                  then Some \<lparr>ss_shareId = sh_id s, ss_keyId = k, ss_wrappedKey = Some w, ss_wrapping = UnderAccount\<rparr> else None)
          | _ \<Rightarrow> None) else None) (db_members d)"

datatype account_event = ShareEndedEvent string nat | AccountFrozenEvent nat

definition deltaEventsFor :: "db \<Rightarrow> string \<Rightarrow> string \<Rightarrow> account_event list" where
  "deltaEventsFor d userId vaultId =
     List.map_filter (\<lambda>m. if mb_user m = userId \<and> mb_vault m = Some vaultId \<and> PRESENT m then
         (case shareRow d (mb_share m) of None \<Rightarrow> None
          | Some s \<Rightarrow> if sh_state s = ShareEnded then map_option (ShareEndedEvent (sh_id s)) (sh_terminal s) else None) else None) (db_members d) @
     (case userRow d userId of None \<Rightarrow> [] | Some u \<Rightarrow> (case us_frozen_at u of None \<Rightarrow> [] | Some t \<Rightarrow> [AccountFrozenEvent t]))"

end
