(* ===== verification/Share_Life.thy ===== *)
theory Share_Life
  imports Server_Shares Server_Invariants
begin

text \<open>
  What holds of shares and their members whatever requests are made: nobody is a participant of a share
  that is over, nobody but its initiator of one that is being prepared, and a share's state only moves
  forward. Proved from what the operations of \<open>Server_Shares\<close> do, by rule induction over the requests,
  without the triggers that guard the same facts in the database.
\<close>

subsection \<open>What a transaction leaves alone\<close>

definition keeps :: "(db \<Rightarrow> 'b) \<Rightarrow> 'a tx \<Rightarrow> bool" where
  "keeps p m \<longleftrightarrow> (\<forall>d a d'. m d = Inr (a, d') \<longrightarrow> p d' = p d)"

named_theorems keeps_intro

lemma keepsD: "keeps p m \<Longrightarrow> m d = Inr (a, d') \<Longrightarrow> p d' = p d"
  by (simp add: keeps_def)

lemma keeps_basic [keeps_intro]:
  "keeps p (tx_ret a)" "keeps p (tx_throw e)" "keeps p (tx_get f)" "keeps p (tx_refuse r)"
  by (auto simp: keeps_def tx_ret_def tx_throw_def tx_get_def tx_refuse_def)

lemma keeps_bind [keeps_intro]: "keeps p m \<Longrightarrow> (\<And>a. keeps p (f a)) \<Longrightarrow> keeps p (tx_bind m f)"
  by (fastforce simp: keeps_def tx_bind_def split: sum.splits prod.splits)

lemma keeps_seq [keeps_intro]: "keeps p m \<Longrightarrow> keeps p n \<Longrightarrow> keeps p (tx_seq m n)"
  by (simp add: tx_seq_def keeps_bind)

lemma keeps_reading [keeps_intro]: "(\<And>d. keeps p (f d)) \<Longrightarrow> keeps p (reading f)"
  by (fastforce simp: keeps_def reading_def)

lemma keeps_when [keeps_intro]: "keeps p m \<Longrightarrow> keeps p (tx_when b m)"
  by (simp add: tx_when_def keeps_basic)

lemma keeps_each [keeps_intro]: "(\<And>x. keeps p (f x)) \<Longrightarrow> keeps p (tx_each f xs)"
  by (induction xs) (auto intro: keeps_intro)

lemma keeps_statement: "(\<And>d. p (f d) = p d) \<Longrightarrow> keeps p (statement pg f)"
  by (auto simp: keeps_def statement_def split: option.splits)

text \<open>Shares and members.\<close>

definition crew :: "db \<Rightarrow> share_row list \<times> member_row list" where
  "crew d = (db_shares d, db_members d)"

lemma crew_updates [simp]:
  "crew (d\<lparr>db_drawn := a\<rparr>) = crew d" "crew (d\<lparr>db_vaults := b\<rparr>) = crew d" "crew (d\<lparr>db_nodes := c\<rparr>) = crew d"
  "crew (d\<lparr>db_journal := j\<rparr>) = crew d" "crew (d\<lparr>db_versions := v\<rparr>) = crew d" "crew (d\<lparr>db_user_blobs := u\<rparr>) = crew d"
  "crew (d\<lparr>db_blob_keys := k\<rparr>) = crew d" "crew (d\<lparr>db_dedup := t\<rparr>) = crew d" "crew (d\<lparr>db_scopes := s\<rparr>) = crew d"
  "crew (d\<lparr>db_users := w\<rparr>) = crew d"
  by (simp_all add: crew_def)

lemma keeps_guarded:
  "keeps p (\<lambda>d. case x d of None \<Rightarrow> m d | Some e \<Rightarrow> Inl e)" if "keeps p m"
  using that by (auto simp: keeps_def split: option.splits)

lemma crew_writes [keeps_intro]:
  "keeps crew (randomUUID pg)" "keeps crew (nextRev pg v)" "keeps crew (journalEntry pg v rv n op prev)"
  "keeps crew (updateNode pg v n f)" "keeps crew (insertNode pg r)" "keeps crew (recordVersion pg v n rv sha sz u at)"
  "keeps crew (claimBlob pg u sha)" "keeps crew (writeEnvelope pg e)" "keeps crew (writeTag pg t)" "keeps crew (dropUnreferenced pg u)"
  "keeps crew (insertScope pg scope)"
  by (auto simp: keeps_def randomUUID_def nextRev_def journalEntry_def updateNode_def insertNode_def recordVersion_def claimBlob_def
      upsertBlob_def writeEnvelope_def writeTag_def dropUnreferenced_def insertScope_def statement_def setNode_def tx_bind_def tx_ret_def
      Let_def split: option.splits prod.splits if_splits)

lemma crew_material [keeps_intro]: "keeps crew (writeMaterial pg m)"
  by (auto simp: writeMaterial_def intro!: keeps_intro)

lemma crew_remark [keeps_intro]: "keeps crew (remarkNode pg f k)"
proof -
  obtain v n where k: "k = (v, n)" by (cases k)
  have "keeps crew (updateNode pg v n f)" by (rule keeps_intro)
  then show ?thesis unfolding k remarkNode_def keeps_def by (auto split: option.splits)
qed

lemma crew_mark [keeps_intro]: "keeps crew (markInterior pg s v n)"
  unfolding markInterior_def by (intro keeps_intro)

lemma crew_copy [keeps_intro]: "keeps crew (copyVersions pg v u vs)"
  unfolding copyVersions_def by (intro keeps_intro)

lemma crew_create [keeps_intro]: "keeps crew (createCounterpart pg v s p i)"
  unfolding createCounterpart_def Let_def by (intro keeps_intro)

lemma crew_reserve [keeps_intro]: "keeps crew (reserveRevs pg v n)"
  by (induction n) (auto intro!: keeps_intro)

lemma crew_deliver [keeps_intro]: "keeps crew (deliverContent pg u v n i rv past revs)"
  unfolding deliverContent_def by (auto intro!: keeps_intro)

lemma crew_joinEach [keeps_intro]: "keeps crew (joinEach pg u s i base ns mapped anc root)"
proof (induction ns arbitrary: mapped anc root)
  case Nil
  then show ?case by (auto intro: keeps_intro)
next
  case (Cons n ns)
  then show ?case by (auto simp: Let_def intro!: keeps_intro split: option.splits prod.splits)
qed

lemma crew_prepareEach [keeps_intro]: "keeps crew (prepareEach pg s items)"
  by (induction items) (auto intro!: keeps_intro)

lemma crew_finalizeEach [keeps_intro]: "keeps crew (finalizeEach pg v s items)"
  by (induction items) (auto intro!: keeps_intro)

subsection \<open>What the elementary writes do\<close>

definition mkey :: "member_row \<Rightarrow> string \<times> string" where "mkey m = (mb_share m, mb_user m)"

lemma setShareState_run:
  assumes "setShareState pg i new t d = Inr (u, d')"
  shows "db_shares d' = map (\<lambda>r. if sh_id r = i then r\<lparr>sh_state := new, sh_terminal := t d (sh_terminal r)\<rparr> else r) (db_shares d) \<and>
    db_members d' = db_members d \<and> db_now d' = db_now d \<and> (\<forall>s. shareRow d i = Some s \<longrightarrow> transitionRefused (sh_state s) new = None)"
proof (cases "shareRow d i")
  case None
  then have "\<forall>r\<in>set (db_shares d). sh_id r \<noteq> i" by (auto simp: shareRow_def find_None_iff)
  then have "map (\<lambda>r. if sh_id r = i then r\<lparr>sh_state := new, sh_terminal := t d (sh_terminal r)\<rparr> else r) (db_shares d) = db_shares d"
    by (intro map_idI) auto
  with None assms show ?thesis by (simp add: setShareState_def)
next
  case (Some s)
  with assms show ?thesis by (auto simp: setShareState_def statement_def split: option.splits if_splits)
qed

lemma insertShare_run:
  assumes "insertShare pg s d = Inr (u, d')"
  shows "d' = d\<lparr>db_shares := db_shares d @ [s]\<rparr> \<and> shareRow d (sh_id s) = None"
  using assms by (auto simp: insertShare_def shareRefused_def statement_def Let_def split: option.splits if_splits)

lemma insertMember_run:
  assumes "insertMember pg m d = Inr (u, d')"
  shows "d' = d\<lparr>db_members := db_members d @ [m]\<rparr> \<and> shareRow d (mb_share m) \<noteq> None \<and> memberRow d (mb_share m) (mb_user m) = None"
  using assms unfolding insertMember_def by (auto simp: statement_def split: option.splits if_splits)

lemma updateMembersOf_run:
  assumes "updateMembersOf pg f ks d = Inr (u, d')" "distinct ks" "\<And>m. mkey (f m) = mkey m"
  shows "d' = d\<lparr>db_members := map (\<lambda>m. if mkey m \<in> set ks then f m else m) (db_members d)\<rparr>"
  using assms(1,2)
proof (induction ks arbitrary: d)
  case Nil
  then show ?case by (simp add: tx_ret_def)
next
  case (Cons k ks)
  obtain i w where k: "k = (i, w)" by (cases k)
  from Cons.prems(1) obtain d1 where one: "(case memberRow d i w of None \<Rightarrow> Inr ((), d)
      | Some old \<Rightarrow> (case memberRefused d old (f old) of Some e \<Rightarrow> Inl (Database e)
        | None \<Rightarrow> statement pg (\<lambda>d. d\<lparr>db_members := map (\<lambda>m. if mb_share m = i \<and> mb_user m = w then f m else m) (db_members d)\<rparr>) d)) = Inr ((), d1)"
    and rest: "updateMembersOf pg f ks d1 = Inr (u, d')"
    by (auto simp: k tx_seq_def tx_bind_def split: sum.splits prod.splits)
  have d1: "d1 = d\<lparr>db_members := map (\<lambda>m. if mkey m = k then f m else m) (db_members d)\<rparr>"
  proof (cases "memberRow d i w")
    case None
    then have "\<forall>m\<in>set (db_members d). mkey m \<noteq> k" by (auto simp: memberRow_def find_None_iff mkey_def k)
    then have "map (\<lambda>m. if mkey m = k then f m else m) (db_members d) = db_members d" by (intro map_idI) auto
    with None one show ?thesis by simp
  next
    case (Some old)
    with one show ?thesis by (auto simp: statement_def mkey_def k split: option.splits)
  qed
  have "d' = d1\<lparr>db_members := map (\<lambda>m. if mkey m \<in> set ks then f m else m) (db_members d1)\<rparr>"
    using Cons.IH [OF rest] Cons.prems(2) by simp
  moreover have "(if mkey (if mkey m = k then f m else m) \<in> set ks then f (if mkey m = k then f m else m) else (if mkey m = k then f m else m)) =
      (if mkey m \<in> set (k # ks) then f m else m)" for m
    using Cons.prems(2) assms(3) [of m] by auto
  ultimately show ?case by (simp add: d1 comp_def)
qed

lemma updateMembers_run:
  assumes "updateMembers pg which f d = Inr (u, d')" "distinct (map mkey (db_members d))" "\<And>m. mkey (f d m) = mkey m"
  shows "d' = d\<lparr>db_members := map (\<lambda>m. if which m then f d m else m) (db_members d)\<rparr>"
proof -
  let ?ks = "map (\<lambda>m. (mb_share m, mb_user m)) (filter which (db_members d))"
  have "distinct ?ks"
    using assms(2) unfolding mkey_def [abs_def] by (simp add: distinct_map inj_on_def)
  with assms(1,3) have "d' = d\<lparr>db_members := map (\<lambda>m. if mkey m \<in> set ?ks then f d m else m) (db_members d)\<rparr>"
    by (intro updateMembersOf_run) (simp_all add: updateMembers_def)
  moreover have "mkey m \<in> set ?ks \<longleftrightarrow> which m" if "m \<in> set (db_members d)" for m
    using that assms(2) unfolding distinct_map inj_on_def mkey_def by auto
  ultimately show ?thesis by (simp cong: map_cong)
qed

subsection \<open>The invariant\<close>

definition shareOk :: "member_row list \<Rightarrow> share_row \<Rightarrow> bool" where
  "shareOk ms s \<longleftrightarrow> (ended (sh_state s) \<longleftrightarrow> sh_terminal s \<noteq> None) \<and>
     (\<forall>m\<in>set ms. mb_share m = sh_id s \<longrightarrow>
        (ended (sh_state s) \<longrightarrow> \<not> LIVE m) \<and> (sh_state s = SharePreparing \<and> mb_joined m \<noteq> None \<longrightarrow> mb_user m = sh_initiator s))"

definition lifecycle :: "db \<Rightarrow> bool" where
  "lifecycle d \<longleftrightarrow> distinct (map sh_id (db_shares d)) \<and> distinct (map mkey (db_members d)) \<and>
     (\<forall>m\<in>set (db_members d). shareRow d (mb_share m) \<noteq> None) \<and> (\<forall>s\<in>set (db_shares d). shareOk (db_members d) s)"

definition onward :: "share_state \<Rightarrow> share_state \<Rightarrow> bool" where
  "onward a b \<longleftrightarrow> a = b \<or> (a = SharePreparing \<and> b = ShareActive) \<or> (\<not> ended a \<and> ended b)"

definition forward :: "db \<Rightarrow> db \<Rightarrow> bool" where
  "forward d d' \<longleftrightarrow> (\<forall>s\<in>set (db_shares d). \<exists>s'\<in>set (db_shares d'). sh_id s' = sh_id s \<and> sh_initiator s' = sh_initiator s \<and>
     onward (sh_state s) (sh_state s'))"

definition goesOn :: "db \<Rightarrow> db \<Rightarrow> bool" where
  "goesOn d d' \<longleftrightarrow> (lifecycle d \<longrightarrow> lifecycle d' \<and> forward d d')"

lemma forward_more: "set (db_shares d) \<subseteq> set (db_shares d') \<Longrightarrow> forward d d'"
  unfolding forward_def onward_def by blast

lemma forward_refl [simp]: "forward d d" by (simp add: forward_more)

lemma goesOn_refl [simp]: "goesOn d d" by (simp add: goesOn_def)

lemma onward_trans: "onward a b \<Longrightarrow> onward b c \<Longrightarrow> onward a c"
  by (cases a; cases b; cases c) (auto simp: onward_def ended_def)

lemma forward_trans: "forward a b \<Longrightarrow> forward b c \<Longrightarrow> forward a c"
  unfolding forward_def by (metis onward_trans)

lemma lifecycle_crew: "crew d' = crew d \<Longrightarrow> lifecycle d' = lifecycle d"
  by (simp add: crew_def lifecycle_def shareRow_def)

lemma forward_crew: "crew a' = crew a \<Longrightarrow> crew b' = crew b \<Longrightarrow> forward a' b' = forward a b"
  by (simp add: crew_def forward_def)

lemma goesOn_crew: "crew d' = crew d \<Longrightarrow> goesOn d d'"
  using lifecycle_crew [of d' d] forward_crew [of d d d' d] by (simp add: goesOn_def)

lemma shareRow_mem: "shareRow d i = Some s \<Longrightarrow> s \<in> set (db_shares d) \<and> sh_id s = i"
  by (auto simp: shareRow_def find_Some_iff)

lemma shareRow_unique: "lifecycle d \<Longrightarrow> s \<in> set (db_shares d) \<Longrightarrow> shareRow d (sh_id s) = Some s"
proof -
  assume l: "lifecycle d" and s: "s \<in> set (db_shares d)"
  then obtain t where t: "shareRow d (sh_id s) = Some t"
    by (cases "shareRow d (sh_id s)") (auto simp: shareRow_def find_None_iff)
  then have "t \<in> set (db_shares d)" "sh_id t = sh_id s" using shareRow_mem by blast+
  with l s have "t = s" by (auto simp: lifecycle_def distinct_map inj_on_def)
  with t show ?thesis by simp
qed

lemma shareRow_iff: "shareRow d i \<noteq> None \<longleftrightarrow> i \<in> set (map sh_id (db_shares d))"
  by (auto simp: shareRow_def find_None_iff)

text \<open>The two ways a share's rows change: a new state with everybody's row rewritten, and one new row.\<close>

lemma goesOn_rewrite:
  assumes shares: "db_shares d' = map g (db_shares d)" and members: "db_members d' = map f (db_members d)"
    and g: "\<And>s. s \<in> set (db_shares d) \<Longrightarrow> sh_id (g s) = sh_id s \<and> sh_initiator (g s) = sh_initiator s \<and> onward (sh_state s) (sh_state (g s)) \<and>
      (ended (sh_state (g s)) \<longleftrightarrow> sh_terminal (g s) \<noteq> None)"
    and f: "\<And>m. m \<in> set (db_members d) \<Longrightarrow> mkey (f m) = mkey m"
    and live: "\<And>m s. m \<in> set (db_members d) \<Longrightarrow> s \<in> set (db_shares d) \<Longrightarrow> mb_share m = sh_id s \<Longrightarrow> shareOk (db_members d) s \<Longrightarrow>
      ended (sh_state (g s)) \<Longrightarrow> \<not> LIVE (f m)"
    and joined: "\<And>m s. m \<in> set (db_members d) \<Longrightarrow> s \<in> set (db_shares d) \<Longrightarrow> mb_share m = sh_id s \<Longrightarrow>
      sh_state (g s) = SharePreparing \<Longrightarrow> mb_joined (f m) \<noteq> None \<Longrightarrow> mb_joined m \<noteq> None"
  shows "goesOn d d'"
  unfolding goesOn_def
proof (intro impI conjI)
  assume l: "lifecycle d"
  show "forward d d'" using g by (auto simp: forward_def shares)
  have ids: "map sh_id (db_shares d') = map sh_id (db_shares d)" using g by (simp add: shares comp_def)
  have keys: "map mkey (db_members d') = map mkey (db_members d)" using f by (simp add: members comp_def)
  show "lifecycle d'" unfolding lifecycle_def
  proof (intro conjI ballI)
    show "distinct (map sh_id (db_shares d'))" "distinct (map mkey (db_members d'))" using l unfolding ids keys lifecycle_def by auto
  next
    fix m assume "m \<in> set (db_members d')"
    then obtain n where n: "n \<in> set (db_members d)" "m = f n" by (auto simp: members)
    with l f [OF n(1)] have "shareRow d (mb_share m) \<noteq> None" by (auto simp: lifecycle_def mkey_def)
    then show "shareRow d' (mb_share m) \<noteq> None" unfolding shareRow_iff ids .
  next
    fix t assume "t \<in> set (db_shares d')"
    then obtain s where s: "s \<in> set (db_shares d)" "t = g s" by (auto simp: shares)
    have ok: "shareOk (db_members d) s" using l s(1) by (simp add: lifecycle_def)
    show "shareOk (db_members d') t" unfolding shareOk_def
    proof (intro conjI ballI impI)
      show "ended (sh_state t) = (sh_terminal t \<noteq> None)" using g [OF s(1)] s(2) by simp
    next
      fix m assume m: "m \<in> set (db_members d')" "mb_share m = sh_id t" and e: "ended (sh_state t)"
      from m obtain n where n: "n \<in> set (db_members d)" "m = f n" by (auto simp: members)
      with m s g [OF s(1)] f [OF n(1)] have "mb_share n = sh_id s" by (simp add: mkey_def)
      with live [OF n(1) s(1) _ ok] e s n show "\<not> LIVE m" by simp
    next
      fix m assume m: "m \<in> set (db_members d')" "mb_share m = sh_id t" and p: "sh_state t = SharePreparing \<and> mb_joined m \<noteq> None"
      from m obtain n where n: "n \<in> set (db_members d)" "m = f n" by (auto simp: members)
      with m s g [OF s(1)] f [OF n(1)] have share: "mb_share n = sh_id s" and user: "mb_user m = mb_user n" by (simp_all add: mkey_def)
      have "sh_state s = SharePreparing" using g [OF s(1)] p s(2) by (auto simp: onward_def ended_def)
      moreover have "mb_joined n \<noteq> None" using joined [OF n(1) s(1) share] p s n by simp
      ultimately show "mb_user m = sh_initiator t" using ok n(1) share user g [OF s(1)] s(2) by (auto simp: shareOk_def)
    qed
  qed
qed

lemma goesOn_member:
  assumes "d' = d\<lparr>db_members := db_members d @ [m]\<rparr>" "shareRow d (mb_share m) \<noteq> None" "memberRow d (mb_share m) (mb_user m) = None"
    and "mb_joined m = None"
  shows "goesOn d d'"
  unfolding goesOn_def
proof (intro impI conjI)
  assume l: "lifecycle d"
  show "forward d d'" by (rule forward_more) (simp add: assms(1))
  have "mkey m \<notin> mkey ` set (db_members d)" using assms(3) by (auto simp: memberRow_def find_None_iff mkey_def)
  with l assms show "lifecycle d'"
    by (auto simp: lifecycle_def shareRow_def shareOk_def LIVE_def)
qed

lemma goesOn_delete:
  assumes "d' = d\<lparr>db_members := filter P (db_members d)\<rparr>"
  shows "goesOn d d'"
  unfolding goesOn_def
proof (intro impI conjI)
  assume l: "lifecycle d"
  show "forward d d'" by (rule forward_more) (simp add: assms(1))
  from l show "lifecycle d'" by (auto simp: assms lifecycle_def shareRow_def shareOk_def distinct_map_filter)
qed

lemma find_snoc: "find P (xs @ [x]) = (case find P xs of None \<Rightarrow> if P x then Some x else None | Some y \<Rightarrow> Some y)"
  by (induction xs) auto

lemma goesOn_open:
  assumes "crew d' = (db_shares d @ [s], db_members d @ [m])" "shareRow d (sh_id s) = None" "sh_state s = SharePreparing" "sh_terminal s = None"
    and "mb_share m = sh_id s" "mb_user m = sh_initiator s"
  shows "goesOn d d'"
  unfolding goesOn_def
proof (intro impI conjI)
  assume l: "lifecycle d"
  have d': "db_shares d' = db_shares d @ [s]" "db_members d' = db_members d @ [m]" using assms(1) by (simp_all add: crew_def)
  show "forward d d'" by (rule forward_more) (auto simp: d')
  have fresh: "sh_id s \<notin> sh_id ` set (db_shares d)" using assms(2) by (auto simp: shareRow_def find_None_iff)
  have none: "mb_share n \<noteq> sh_id s" if "n \<in> set (db_members d)" for n
    using that l assms(2) by (auto simp: lifecycle_def)
  have key: "mkey m \<notin> mkey ` set (db_members d)" using assms(5) by (auto simp: mkey_def dest!: none)
  have rows: "shareRow d' i = (case shareRow d i of None \<Rightarrow> if i = sh_id s then Some s else None | Some r \<Rightarrow> Some r)" for i
    by (auto simp: shareRow_def d' find_snoc split: option.splits)
  show "lifecycle d'" unfolding lifecycle_def
  proof (intro conjI ballI)
    show "distinct (map sh_id (db_shares d'))" "distinct (map mkey (db_members d'))" using l fresh key by (auto simp: d' lifecycle_def)
  next
    fix n assume "n \<in> set (db_members d')"
    then show "shareRow d' (mb_share n) \<noteq> None" using l assms(5) by (auto simp: d' rows lifecycle_def split: option.splits)
  next
    fix t assume "t \<in> set (db_shares d')"
    then consider "t \<in> set (db_shares d)" | "t = s" by (auto simp: d')
    then show "shareOk (db_members d') t"
    proof cases
      case 1
      with l fresh assms(5) show ?thesis by (auto simp: shareOk_def d' lifecycle_def)
    next
      case 2
      with none assms show ?thesis by (auto simp: shareOk_def d' ended_def)
    qed
  qed
qed

lemma goesOn_trans: "goesOn a b \<Longrightarrow> goesOn b c \<Longrightarrow> goesOn a c"
  unfolding goesOn_def using forward_trans by blast

subsection \<open>The requests\<close>

lemma tx_bindD: "tx_bind m f d = Inr (b, d') \<Longrightarrow> \<exists>a d1. m d = Inr (a, d1) \<and> f a d1 = Inr (b, d')"
  by (auto simp: tx_bind_def split: sum.splits prod.splits)

lemma tx_seqD: "tx_seq m n d = Inr (b, d') \<Longrightarrow> \<exists>d1. m d = Inr ((), d1) \<and> n d1 = Inr (b, d')"
  by (auto simp: tx_seq_def dest: tx_bindD)

lemma guarded_goesOn:
  assumes "\<And>a d'. m d = Inr (Inr a, d') \<Longrightarrow> goesOn d d'"
  shows "goesOn d (snd (txGuarded pg m d))"
  by (cases rule: txGuarded_cases [of m d pg]) (simp_all add: assms)

lemma plain_goesOn:
  assumes "\<And>a d'. m d = Inr (a, d') \<Longrightarrow> goesOn d d'"
  shows "goesOn d (snd (plainTx pg m d))"
  by (cases rule: plainTx_cases [of m d pg]) (simp_all add: assms)

lemma create_goesOn: "goesOn d (snd (createShare pg u input d))"
proof -
  have "goesOn d (snd (txGuarded pg (createShareBody pg u input) d))"
  proof (rule guarded_goesOn)
    fix a d' assume "createShareBody pg u input d = Inr (Inr a, d')"
    then obtain d1 i d2 root d3 d4 d5 d6 d7 where run: "insertScope pg (cs_subtreeKeyId input) d = Inr ((), d1)"
      "randomUUID pg d1 = Inr (i, d2)" "randomUUID pg d2 = Inr (root, d3)"
      and share: "insertShare pg \<lparr>sh_id = i, sh_initiator = u, sh_vault = cs_vaultId input, sh_node = cs_nodeId input,
            sh_state = SharePreparing, sh_root_item = root, sh_key = Some (cs_subtreeKeyId input),
            sh_wrapped = Some (cs_wrappedKeyInitiator input), sh_created = db_now d, sh_terminal = None\<rparr> d3 = Inr ((), d4)"
      and member: "insertMember pg \<lparr>mb_share = i, mb_user = u, mb_vault = Some (cs_vaultId input), mb_joined = Some (db_now d),
            mb_finalizing = None, mb_left = None, mb_invited = db_now d, mb_wrapped = None\<rparr> d4 = Inr ((), d5)"
      and marks: "remarkNode pg (\<lambda>r. r\<lparr>nr_share := Some i, nr_item := Some root\<rparr>) (cs_vaultId input, cs_nodeId input) d5 = Inr ((), d6)"
        "markInterior pg i (cs_vaultId input) (cs_nodeId input) d6 = Inr ((), d7)" and d': "d' = d7"
      unfolding createShareBody_def reading_def by (auto simp: tx_ret_def dest!: tx_seqD tx_bindD)
    have c3: "crew d3 = crew d"
      using run keepsD [OF crew_writes(11)] keepsD [OF crew_writes(1)] by metis
    have c7: "crew d7 = crew d5"
      using keepsD [OF crew_remark marks(1)] keepsD [OF crew_mark marks(2)] by simp
    show "goesOn d d'"
      by (rule goesOn_open) (use insertShare_run [OF share] insertMember_run [OF member] c3 c7 d' in \<open>auto simp: crew_def shareRow_def\<close>)
  qed
  then show ?thesis by (auto simp: createShare_def split: prod.splits outcome.splits tx_error.splits db_error.splits)
qed

text \<open>Everybody of a share begins to finalize as its state becomes final.\<close>

lemma close_goesOn:
  assumes "setShareState pg i new (\<lambda>d _. Some (db_now d)) d = Inr ((), d1)" "ended new"
    and "updateMembers pg which f d1 = Inr ((), d2)"
    and f: "\<And>m. mkey (f d1 m) = mkey m \<and> mb_joined (f d1 m) = mb_joined m \<and> mb_finalizing (f d1 m) \<noteq> None"
    and w: "\<And>m. mb_share m = i \<Longrightarrow> LIVE m \<Longrightarrow> which m"
  shows "goesOn d d2"
proof (cases "lifecycle d")
  case False
  then show ?thesis by (simp add: goesOn_def)
next
  case True
  note state = setShareState_run [OF assms(1)]
  have "distinct (map mkey (db_members d1))" using True state by (simp add: lifecycle_def)
  then have d2: "d2 = d1\<lparr>db_members := map (\<lambda>m. if which m then f d1 m else m) (db_members d1)\<rparr>"
    using updateMembers_run [OF assms(3)] f by blast
  show ?thesis
  proof (rule goesOn_rewrite [where g = "\<lambda>r. if sh_id r = i then r\<lparr>sh_state := new, sh_terminal := Some (db_now d)\<rparr> else r" and
        f = "\<lambda>m. if which m then f d1 m else m"])
    show "db_shares d2 = map (\<lambda>r. if sh_id r = i then r\<lparr>sh_state := new, sh_terminal := Some (db_now d)\<rparr> else r) (db_shares d)"
      using d2 state by simp
    show "db_members d2 = map (\<lambda>m. if which m then f d1 m else m) (db_members d)" using d2 state by simp
  next
    fix s assume s: "s \<in> set (db_shares d)"
    from True s have "ended (sh_state s) = (sh_terminal s \<noteq> None)" by (simp add: lifecycle_def shareOk_def)
    moreover have "onward (sh_state s) new" if "sh_id s = i"
    proof -
      have "transitionRefused (sh_state s) new = None" using shareRow_unique [OF True s] that state by simp
      then show ?thesis using assms(2) by (auto simp: transitionRefused_def onward_def split: if_splits)
    qed
    ultimately show "sh_id (if sh_id s = i then s\<lparr>sh_state := new, sh_terminal := Some (db_now d)\<rparr> else s) = sh_id s \<and>
        sh_initiator (if sh_id s = i then s\<lparr>sh_state := new, sh_terminal := Some (db_now d)\<rparr> else s) = sh_initiator s \<and>
        onward (sh_state s) (sh_state (if sh_id s = i then s\<lparr>sh_state := new, sh_terminal := Some (db_now d)\<rparr> else s)) \<and>
        (ended (sh_state (if sh_id s = i then s\<lparr>sh_state := new, sh_terminal := Some (db_now d)\<rparr> else s)) \<longleftrightarrow>
         sh_terminal (if sh_id s = i then s\<lparr>sh_state := new, sh_terminal := Some (db_now d)\<rparr> else s) \<noteq> None)"
      using assms(2) by (simp add: onward_def)
  next
    fix m assume "m \<in> set (db_members d)"
    then show "mkey (if which m then f d1 m else m) = mkey m" using f by simp
  next
    fix m s assume "m \<in> set (db_members d)" "s \<in> set (db_shares d)" "mb_share m = sh_id s" "shareOk (db_members d) s"
      "ended (sh_state (if sh_id s = i then s\<lparr>sh_state := new, sh_terminal := Some (db_now d)\<rparr> else s))"
    then show "\<not> LIVE (if which m then f d1 m else m)" using f [of m] w [of m] by (auto simp: shareOk_def LIVE_def split: if_splits)
  next
    fix m assume "mb_joined (if which m then f d1 m else m) \<noteq> None"
    then show "mb_joined m \<noteq> None" using f [of m] by (simp split: if_splits)
  qed
qed

text \<open>A member's row is rewritten in a way that makes nobody live, or while the share is active.\<close>

lemma update_goesOn:
  assumes "updateMembers pg which f d = Inr ((), d')"
    and f: "\<And>m. mkey (f d m) = mkey m"
    and live: "\<And>m. which m \<Longrightarrow> (LIVE (f d m) \<longrightarrow> LIVE m) \<and> mb_joined (f d m) = mb_joined m \<or>
      (\<exists>s. shareRow d (mb_share m) = Some s \<and> sh_state s = ShareActive)"
  shows "goesOn d d'"
proof (cases "lifecycle d")
  case False
  then show ?thesis by (simp add: goesOn_def)
next
  case True
  then have d': "d' = d\<lparr>db_members := map (\<lambda>m. if which m then f d m else m) (db_members d)\<rparr>"
    using updateMembers_run [OF assms(1)] f by (simp add: lifecycle_def)
  have active: "(LIVE (f d m) \<longrightarrow> LIVE m) \<and> mb_joined (f d m) = mb_joined m \<or> sh_state s = ShareActive"
    if "which m" "s \<in> set (db_shares d)" "mb_share m = sh_id s" for m s
    using live [OF that(1)] shareRow_unique [OF True that(2)] that(3) by auto
  show ?thesis
  proof (rule goesOn_rewrite [where g = "\<lambda>s. s" and f = "\<lambda>m. if which m then f d m else m"])
    show "db_shares d' = map (\<lambda>s. s) (db_shares d)" "db_members d' = map (\<lambda>m. if which m then f d m else m) (db_members d)"
      using d' by simp_all
  next
    fix s assume "s \<in> set (db_shares d)"
    with True show "sh_id s = sh_id s \<and> sh_initiator s = sh_initiator s \<and> onward (sh_state s) (sh_state s) \<and> (ended (sh_state s) \<longleftrightarrow> sh_terminal s \<noteq> None)"
      by (simp add: lifecycle_def shareOk_def onward_def)
  next
    fix m assume "m \<in> set (db_members d)"
    then show "mkey (if which m then f d m else m) = mkey m" using f by simp
  next
    fix m s assume "m \<in> set (db_members d)" "s \<in> set (db_shares d)" "mb_share m = sh_id s" "shareOk (db_members d) s" "ended (sh_state s)"
    then show "\<not> LIVE (if which m then f d m else m)" using active [of m s] by (auto simp: shareOk_def ended_def)
  next
    fix m s assume "m \<in> set (db_members d)" "s \<in> set (db_shares d)" "mb_share m = sh_id s" "sh_state s = SharePreparing"
      "mb_joined (if which m then f d m else m) \<noteq> None"
    then show "mb_joined m \<noteq> None" using active [of m s] by (auto split: if_splits)
  qed
qed

lemma cancel_goesOn: "goesOn d (snd (cancelShare pg u i d))"
  unfolding cancelShare_def
proof (rule guarded_goesOn)
  fix a d' assume "cancelBody pg u i d = Inr (Inr a, d')"
  then obtain d1 d2 d3 where close: "setShareState pg i ShareCancelled (\<lambda>d _. Some (db_now d)) d = Inr ((), d1)"
      "updateMembers pg (\<lambda>m. mb_share m = i) (\<lambda>d m. m\<lparr>mb_finalizing := Some (db_now d)\<rparr>) d1 = Inr ((), d2)"
    and marks: "tx_each (remarkNode pg (\<lambda>r. r\<lparr>nr_share := None, nr_item := None\<rparr>))
        (map nodeKey (filter (\<lambda>r. nr_share r = Some i) (db_nodes d))) d2 = Inr ((), d3)"
    and left: "updateMembers pg (\<lambda>m. mb_share m = i) (\<lambda>d m. m\<lparr>mb_left := Some (db_now d)\<rparr>) d3 = Inr ((), d')"
    unfolding cancelBody_def reading_def by (auto simp: tx_ret_def tx_refuse_def split: if_splits dest!: tx_seqD)
  have "goesOn d d2" by (rule close_goesOn [OF close(1) _ close(2)]) (auto simp: ended_def mkey_def)
  moreover have "goesOn d2 d3"
    using keepsD [OF keeps_each [of crew "remarkNode pg (\<lambda>r. r\<lparr>nr_share := None, nr_item := None\<rparr>)"] marks] crew_remark by (intro goesOn_crew) auto
  moreover have "goesOn d3 d'" by (rule update_goesOn [OF left]) (auto simp: mkey_def LIVE_def)
  ultimately show "goesOn d d'" using goesOn_trans by blast
qed

lemma depart_goesOn:
  assumes "departMember pg i leaving initiator d = Inr (b, d')"
  shows "goesOn d d'"
proof -
  define final where "final = (case shareRow d i of None \<Rightarrow> ShareEnded | Some s \<Rightarrow> if sh_state s = SharePreparing then ShareCancelled else ShareEnded)"
  have final: "ended final" by (auto simp: final_def ended_def split: option.splits)
  from assms consider (close) d1 where "setShareState pg i final (\<lambda>d _. Some (db_now d)) d = Inr ((), d1)"
      "updateMembers pg (\<lambda>m. mb_share m = i \<and> NOT_FINALIZING m) (\<lambda>d m. m\<lparr>mb_finalizing := Some (db_now d)\<rparr>) d1 = Inr ((), d')"
    | (go) "updateMembers pg (\<lambda>m. mb_share m = i \<and> mb_user m = leaving \<and> NOT_STARTED m) (\<lambda>d m. m\<lparr>mb_finalizing := Some (db_now d)\<rparr>) d = Inr ((), d')"
    unfolding departMember_def reading_def Let_def final_def by (auto simp: tx_ret_def split: if_splits dest!: tx_seqD)
  then show ?thesis
  proof cases
    case close
    show ?thesis by (rule close_goesOn [OF close(1) final close(2)]) (auto simp: mkey_def LIVE_def NOT_FINALIZING_def)
  next
    case go
    show ?thesis by (rule update_goesOn [OF go]) (auto simp: mkey_def LIVE_def)
  qed
qed

lemma activate_goesOn: "goesOn d (snd (activateShare pg u i d))"
proof (cases "shareRow d i")
  case None
  then show ?thesis by (simp add: activateShare_def)
next
  case (Some s)
  have "goesOn d (snd (plainTx pg (setShareState pg i ShareActive (\<lambda>_ t. t)) d))" if preparing: "sh_state s = SharePreparing"
  proof (rule plain_goesOn)
    fix a d' assume "setShareState pg i ShareActive (\<lambda>_ t. t) d = Inr (a, d')"
    from setShareState_run [OF this]
    have d': "db_shares d' = map (\<lambda>r. if sh_id r = i then r\<lparr>sh_state := ShareActive, sh_terminal := sh_terminal r\<rparr> else r) (db_shares d)"
      "db_members d' = map (\<lambda>m. m) (db_members d)" by simp_all
    show "goesOn d d'"
    proof (cases "lifecycle d")
      case False
      then show ?thesis by (simp add: goesOn_def)
    next
      case True
      have mine: "sh_state r = SharePreparing" if "r \<in> set (db_shares d)" "sh_id r = i" for r
        using shareRow_unique [OF True that(1)] that(2) Some preparing by simp
      show ?thesis
        by (rule goesOn_rewrite [OF d']) (use True mine in \<open>auto simp: lifecycle_def shareOk_def onward_def ended_def split: if_splits\<close>)
    qed
  qed
  with Some show ?thesis by (auto simp: activateShare_def Let_def split: prod.splits sum.splits)
qed

lemma prepare_goesOn: "goesOn d (snd (prepareShare pg u i items d))"
proof -
  have "goesOn d (snd (txGuarded pg (prepareEach pg s items) d))" for s
    by (rule guarded_goesOn) (auto intro!: goesOn_crew dest: keepsD [OF crew_prepareEach])
  then show ?thesis by (auto simp: prepareShare_def split: option.splits)
qed

lemma invite_goesOn: "goesOn d (snd (invite pg u i target w d))"
proof -
  have "goesOn d (snd (plainTx pg (insertMember pg \<lparr>mb_share = i, mb_user = target, mb_vault = None, mb_joined = None,
      mb_finalizing = None, mb_left = None, mb_invited = db_now d, mb_wrapped = Some w\<rparr>) d))"
    by (rule plain_goesOn, drule insertMember_run) (auto intro!: goesOn_member)
  then show ?thesis by (auto simp: invite_def split: option.splits prod.splits sum.splits tx_error.splits db_error.splits)
qed

lemma deleteMember_goesOn: "goesOn d (snd (plainTx pg (deleteMember pg i u) d))"
  by (rule plain_goesOn) (auto simp: deleteMember_def statement_def intro!: goesOn_delete split: option.splits)

lemma decline_goesOn: "goesOn d (snd (declineInvitation pg u i d))"
  using deleteMember_goesOn [of d pg i u] by (auto simp: declineInvitation_def split: option.splits prod.splits sum.splits)

lemma remove_goesOn: "goesOn d (snd (removeMember pg u i target d))"
proof -
  have "goesOn d (snd (plainTx pg (departMember pg i target u) d))" by (rule plain_goesOn) (rule depart_goesOn)
  with deleteMember_goesOn [of d pg i target] show ?thesis
    by (auto simp: removeMember_def split: option.splits prod.splits sum.splits)
qed

lemma leave_goesOn: "goesOn d (snd (leaveShare pg u i d))"
  unfolding leaveShare_def
proof (rule guarded_goesOn)
  fix a d' assume "leaveBody pg u i d = Inr (Inr a, d')"
  then show "goesOn d d'"
    by (auto simp: leaveBody_def reading_def tx_ret_def tx_refuse_def dest!: tx_bindD intro: depart_goesOn split: option.splits if_splits)
qed

lemma finalize_goesOn: "goesOn d (snd (finalizeLeave pg u i nodes d))"
  unfolding finalizeLeave_def
proof (rule guarded_goesOn)
  fix a d' assume run: "finalizeBody pg u i nodes d = Inr (Inr a, d')"
  then obtain m s where ms: "memberRow d i u = Some m" "shareRow d i = Some s"
    by (auto simp: finalizeBody_def reading_def tx_refuse_def tx_ret_def split: option.splits)
  define v where "v = the (mb_vault m)"
  from run ms obtain d1 d2 d3 where thin: "tx_when (u \<noteq> sh_initiator s) (statement pg (\<lambda>d. d\<lparr>db_versions :=
        filter (\<lambda>x. \<not> (vn_vault x = v \<and> vn_node x \<in> set (map pr_nodeId nodes))) (db_versions d)\<rparr>)) d = Inr ((), d1)"
    and each: "finalizeEach pg v i nodes d1 = Inr (Inr (), d2)"
    and drop: "tx_when (u \<noteq> sh_initiator s) (dropUnreferenced pg u) d2 = Inr ((), d3)"
    and left: "updateMembers pg (\<lambda>m. mb_share m = i \<and> mb_user m = u) (\<lambda>d m. m\<lparr>mb_left := Some (db_now d)\<rparr>) d3 = Inr ((), d')"
    unfolding finalizeBody_def reading_def Let_def
    by (auto simp: tx_ret_def tx_refuse_def v_def split: if_splits sum.splits dest!: tx_seqD tx_bindD)
  have thinning: "keeps crew (tx_when (u \<noteq> sh_initiator s) (statement pg (\<lambda>d. d\<lparr>db_versions :=
        filter (\<lambda>x. \<not> (vn_vault x = v \<and> vn_node x \<in> set (map pr_nodeId nodes))) (db_versions d)\<rparr>)))"
    by (intro keeps_when keeps_statement) simp
  have dropped: "keeps crew (tx_when (u \<noteq> sh_initiator s) (dropUnreferenced pg u))" by (intro keeps_intro)
  from keepsD [OF thinning thin] have "crew d1 = crew d" .
  moreover have "crew d2 = crew d1" by (rule keepsD [OF crew_finalizeEach each])
  moreover have "crew d3 = crew d2" using keepsD [OF dropped drop] .
  ultimately have "goesOn d d3" by (intro goesOn_crew) simp
  moreover have "goesOn d3 d'" by (rule update_goesOn [OF left]) (auto simp: mkey_def LIVE_def)
  ultimately show "goesOn d d'" by (rule goesOn_trans)
qed

lemma join_goesOn: "goesOn d (snd (joinShare pg u i input d))"
  unfolding joinShare_def
proof (rule guarded_goesOn)
  fix a d' assume "joinBody pg u i input d = Inr (Inr a, d')"
  then obtain s base d1 where s: "shareRow d i = Some s" "sh_state s = ShareActive"
    and member: "updateMembers pg (\<lambda>m. mb_share m = i \<and> mb_user m = u) (\<lambda>d m. m\<lparr>mb_joined := Some (db_now d), mb_vault := Some (ji_vaultId input)\<rparr>) d = Inr ((), d1)"
    and each: "joinEach pg u s input base (subtreeRows d (sh_vault s) (sh_node s)) [] [] [] d1 = Inr (Inr a, d')"
    unfolding joinBody_def reading_def Let_def by (auto simp: tx_refuse_def tx_ret_def split: option.splits if_splits dest!: tx_seqD)
  have "goesOn d d1" by (rule update_goesOn [OF member]) (auto simp: mkey_def s)
  moreover have "goesOn d1 d'" using keepsD [OF crew_joinEach each] by (rule goesOn_crew)
  ultimately show "goesOn d d'" by (rule goesOn_trans)
qed

datatype share_request =
    CreateShare string create_share_input
  | CancelShare string string
  | PrepareShare string string "prepare_item list"
  | ActivateShare string string
  | InviteTo string string string string
  | Decline string string
  | RemoveMember string string string
  | JoinShare string string join_input
  | LeaveShare string string
  | FinalizeLeave string string "prepare_item list"

fun answerShare :: "pg \<Rightarrow> share_request \<Rightarrow> db \<Rightarrow> db" where
  "answerShare pg (CreateShare u input) d = snd (createShare pg u input d)"
| "answerShare pg (CancelShare u i) d = snd (cancelShare pg u i d)"
| "answerShare pg (PrepareShare u i items) d = snd (prepareShare pg u i items d)"
| "answerShare pg (ActivateShare u i) d = snd (activateShare pg u i d)"
| "answerShare pg (InviteTo u i target w) d = snd (invite pg u i target w d)"
| "answerShare pg (Decline u i) d = snd (declineInvitation pg u i d)"
| "answerShare pg (RemoveMember u i target) d = snd (removeMember pg u i target d)"
| "answerShare pg (JoinShare u i input) d = snd (joinShare pg u i input d)"
| "answerShare pg (LeaveShare u i) d = snd (leaveShare pg u i d)"
| "answerShare pg (FinalizeLeave u i nodes) d = snd (finalizeLeave pg u i nodes d)"

text \<open>A run of requests about shares, among whatever else that leaves the rows of shares and members alone.\<close>

inductive lived :: "pg \<Rightarrow> db \<Rightarrow> db \<Rightarrow> bool" for pg d0 where
  start: "lived pg d0 d0"
| request: "lived pg d0 d \<Longrightarrow> lived pg d0 (answerShare pg req d)"
| elsewhere: "lived pg d0 d \<Longrightarrow> crew d' = crew d \<Longrightarrow> lived pg d0 d'"

lemma answer_goesOn: "goesOn d (answerShare pg req d)"
  by (cases req) (simp_all add: create_goesOn cancel_goesOn prepare_goesOn activate_goesOn invite_goesOn decline_goesOn
      remove_goesOn join_goesOn leave_goesOn finalize_goesOn)

lemma lived_goesOn: "lived pg d0 d \<Longrightarrow> goesOn d0 d"
proof (induction rule: lived.induct)
  case start
  then show ?case by simp
next
  case (request d req)
  then show ?case using answer_goesOn goesOn_trans by blast
next
  case (elsewhere d d')
  then show ?case using goesOn_crew goesOn_trans by blast
qed

text \<open>C19. The life of a share, whatever the requests of its members: at every moment nobody is a live participant of a share that
  is over, nobody but its initiator has joined one that is being prepared, a share is over exactly when the
  moment is recorded, and its state only ever moves from preparing to active and from either to its end.\<close>

theorem share_lifecycle:
  assumes "lived pg d0 d" "lifecycle d0"
  shows "(\<forall>s\<in>set (db_shares d). (ended (sh_state s) \<longleftrightarrow> sh_terminal s \<noteq> None) \<and>
      (\<forall>m\<in>set (db_members d). mb_share m = sh_id s \<longrightarrow>
        (ended (sh_state s) \<longrightarrow> \<not> LIVE m) \<and> (sh_state s = SharePreparing \<and> mb_joined m \<noteq> None \<longrightarrow> mb_user m = sh_initiator s))) \<and>
    (\<forall>s\<in>set (db_shares d0). \<exists>s'\<in>set (db_shares d). sh_id s' = sh_id s \<and> sh_initiator s' = sh_initiator s \<and> onward (sh_state s) (sh_state s'))"
proof -
  from lived_goesOn [OF assms(1)] assms(2) have "lifecycle d" "forward d0 d" unfolding goesOn_def by blast+
  then have ok: "shareOk (db_members d) s" if "s \<in> set (db_shares d)" for s using that unfolding lifecycle_def by blast
  show ?thesis
  proof (intro conjI)
    show "\<forall>s\<in>set (db_shares d). (ended (sh_state s) \<longleftrightarrow> sh_terminal s \<noteq> None) \<and>
      (\<forall>m\<in>set (db_members d). mb_share m = sh_id s \<longrightarrow>
        (ended (sh_state s) \<longrightarrow> \<not> LIVE m) \<and> (sh_state s = SharePreparing \<and> mb_joined m \<noteq> None \<longrightarrow> mb_user m = sh_initiator s))"
      using ok unfolding shareOk_def by (intro ballI) assumption
  next
    show "\<forall>s\<in>set (db_shares d0). \<exists>s'\<in>set (db_shares d). sh_id s' = sh_id s \<and> sh_initiator s' = sh_initiator s \<and> onward (sh_state s) (sh_state s')"
      using \<open>forward d0 d\<close> unfolding forward_def .
  qed
qed

text \<open>Of two participants the one that joined leaves: the share ends, and both have their copies to finish with.\<close>

definition leftStore :: db where
  "leftStore = answerShare openPg (LeaveShare ''bob'' ''share'') exStore"

lemma leftStore_lived: "lived openPg exStore leftStore"
  unfolding leftStore_def by (intro lived.intros)

lemma exStore_lifecycle: "lifecycle exStore"
  by (simp add: lifecycle_def shareOk_def exStore_def exShare_def exMember_def mkey_def shareRow_def ended_def LIVE_def)

lemma leftStore_rows:
  "db_shares leftStore = [exShare\<lparr>sh_state := ShareEnded, sh_terminal := Some 9\<rparr>]"
  "db_members leftStore = [(exMember ''ann'' ''A'')\<lparr>mb_finalizing := Some 9\<rparr>, (exMember ''bob'' ''B'')\<lparr>mb_finalizing := Some 9\<rparr>]"
  by code_simp+

theorem share_lifecycle_witness:
  "\<not> LIVE ((exMember ''bob'' ''B'')\<lparr>mb_finalizing := Some 9\<rparr>) \<and> onward ShareActive ShareEnded"
proof -
  note life = share_lifecycle [OF leftStore_lived exStore_lifecycle]
  have "exShare\<lparr>sh_state := ShareEnded, sh_terminal := Some 9\<rparr> \<in> set (db_shares leftStore)"
    "(exMember ''bob'' ''B'')\<lparr>mb_finalizing := Some 9\<rparr> \<in> set (db_members leftStore)" by (simp_all add: leftStore_rows)
  moreover have "mb_share ((exMember ''bob'' ''B'')\<lparr>mb_finalizing := Some 9\<rparr>) = sh_id (exShare\<lparr>sh_state := ShareEnded, sh_terminal := Some 9\<rparr>)"
    "ended (sh_state (exShare\<lparr>sh_state := ShareEnded, sh_terminal := Some 9\<rparr>))" by (simp_all add: exMember_def exShare_def ended_def)
  ultimately have "\<not> LIVE ((exMember ''bob'' ''B'')\<lparr>mb_finalizing := Some 9\<rparr>)" using life by blast
  moreover have "exShare \<in> set (db_shares exStore)" by (simp add: exStore_def)
  with life obtain s' where "s' \<in> set (db_shares leftStore)" "onward (sh_state exShare) (sh_state s')" by blast
  then have "onward ShareActive ShareEnded" by (simp add: leftStore_rows exShare_def)
  ultimately show ?thesis ..
qed

end
