(* ===== verification/Share_Rules.thy ===== *)
theory Share_Rules
  imports Share_Life
begin

text \<open>
  What the operations on a share promise: preparation names exactly the nodes that activation is going to
  refuse, but for the trash; joining plants one copy of every live node below the participant's own folder;
  finishing with a share takes its mark and key off a participant's copy and touches nothing else.
\<close>

subsection \<open>The gaps of a preparation\<close>

text \<open>What activation demands of a marked node other than the root, the trash being excused its names.\<close>

definition nodeReady :: "db \<Rightarrow> string option \<Rightarrow> node_row \<Rightarrow> bool" where
  "nodeReady d key n \<longleftrightarrow> (nr_deleted n = None \<longrightarrow> nr_name_key n = key) \<and> (\<forall>sha\<in>set (blobsOf d n). hasEnvelope d sha key) \<and>
     (nr_deleted n = None \<longrightarrow> (\<forall>sha. nr_sha n = Some sha \<longrightarrow> hasTag d sha key))"

lemma set_blobsOf:
  "sha \<in> set (blobsOf d n) \<longleftrightarrow> nr_sha n = Some sha \<or> (\<exists>v\<in>set (db_versions d). vn_vault v = nr_vault n \<and> vn_node v = nr_id n \<and> vn_sha v = sha)"
  by (auto simp: blobsOf_def split: option.splits)

lemma history_ready:
  "ow_history (owedFor d key n) = [] \<longleftrightarrow>
     (\<forall>v\<in>set (db_versions d). vn_vault v = nr_vault n \<and> vn_node v = nr_id n \<and> Some (vn_sha v) \<noteq> nr_sha n \<longrightarrow> hasEnvelope d (vn_sha v) key)"
proof -
  have "ow_history (owedFor d key n) = [] \<longleftrightarrow>
      filter (\<lambda>v. vn_vault v = nr_vault n \<and> vn_node v = nr_id n \<and> Some (vn_sha v) \<noteq> nr_sha n \<and> \<not> hasEnvelope d (vn_sha v) key) (db_versions d) = []"
    unfolding owedFor_def by (simp only: owed_node.simps sort_key_simps sort_key_const set_empty [symmetric] set_sort set_remdups set_map image_is_empty)
  then show ?thesis unfolding filter_empty_conv by blast
qed

lemma material_ready:
  "ow_needsMaterial (owedFor d key n) \<longleftrightarrow>
     \<not> (\<forall>sha. nr_sha n = Some sha \<longrightarrow> hasEnvelope d sha key \<and> (nr_deleted n = None \<longrightarrow> hasTag d sha key))"
  by (cases "nr_sha n") (simp_all add: owedFor_def)

lemma blobs_ready:
  "(\<forall>sha\<in>set (blobsOf d n). hasEnvelope d sha key) \<longleftrightarrow> (\<forall>sha. nr_sha n = Some sha \<longrightarrow> hasEnvelope d sha key) \<and>
     (\<forall>v\<in>set (db_versions d). vn_vault v = nr_vault n \<and> vn_node v = nr_id n \<longrightarrow> hasEnvelope d (vn_sha v) key)"
  unfolding Ball_def set_blobsOf by blast

lemma gapsOf_ready: "gapsOf key (owedFor d key n) = [] \<longleftrightarrow> nodeReady d key n"
proof -
  have live: "ow_deleted (owedFor d key n) = (nr_deleted n \<noteq> None)" "ow_nameKeyId (owedFor d key n) = nr_name_key n"
    by (simp_all add: owedFor_def)
  have "gapsOf key w = [] \<longleftrightarrow> (\<not> ow_deleted w \<longrightarrow> ow_nameKeyId w = key) \<and> \<not> ow_needsMaterial w \<and> ow_history w = []" for w
    by (auto simp: gapsOf_def)
  then have gaps: "gapsOf key (owedFor d key n) = [] \<longleftrightarrow> (nr_deleted n = None \<longrightarrow> nr_name_key n = key) \<and>
      \<not> ow_needsMaterial (owedFor d key n) \<and> ow_history (owedFor d key n) = []" by (simp add: live)
  show ?thesis unfolding gaps nodeReady_def history_ready material_ready blobs_ready by (cases "nr_sha n") auto
qed

lemma collectGaps_empty: "collectGaps key gaps ns = [] \<longleftrightarrow> gaps = [] \<and> (\<forall>n\<in>set ns. gapsOf key n = [])"
proof (induction ns arbitrary: gaps)
  case Nil
  then show ?case by simp
next
  case (Cons n ns)
  have "GAPS_NAMED \<le> length (gaps @ gapsOf key n) \<Longrightarrow> gaps @ gapsOf key n \<noteq> []" by (auto simp: GAPS_NAMED_def)
  with Cons.IH [of "gaps @ gapsOf key n"] show ?case by (simp add: Let_def) blast
qed

lemma gapless:
  "preparationGaps d v shareId key rootItem = [] \<longleftrightarrow>
     (\<forall>n\<in>{n \<in> set (db_nodes d). nr_vault n = v \<and> nr_share n = Some shareId \<and> the (nr_item n) \<noteq> rootItem}. gapsOf key (owedFor d key n) = [])"
proof -
  have item: "ow_shareItemId (owedFor d key n) = the (nr_item n)" for n by (simp add: owedFor_def)
  have "preparationGaps d v shareId key rootItem = [] \<longleftrightarrow> (\<forall>w\<in>set (interiorOwed d v shareId key rootItem). gapsOf key w = [])"
    by (simp add: preparationGaps_def GAPS_NAMED_def collectGaps_empty)
  then show ?thesis unfolding interiorOwed_def owedUnder_def by (auto simp: item)
qed

text \<open>C22. A preparation has no gap exactly when every marked node but the root, live or not, has its envelopes
  and tags and, if live, its name under the share's key.\<close>

theorem preparationGaps_exact:
  "preparationGaps d v shareId key rootItem = [] \<longleftrightarrow>
     (\<forall>n\<in>set (db_nodes d). nr_vault n = v \<and> nr_share n = Some shareId \<and> the (nr_item n) \<noteq> rootItem \<longrightarrow> nodeReady d key n)"
  unfolding gapless gapsOf_ready by blast

subsection \<open>What preparation leaves alone\<close>

lemma core_nodes: "aside m \<Longrightarrow> keeps db_nodes m"
  unfolding aside_def keeps_def using core_nodes_eq by blast

lemma updateNode_nodes:
  assumes "updateNode pg v n f d = Inr (u, d')"
  shows "db_nodes d' = map (\<lambda>r. if nr_vault r = v \<and> nr_id r = n then f r else r) (db_nodes d)"
proof -
  have "st_nodes (core d') = st_nodes (rewriteNode v n f (core d))" using updateNode_Inr [OF assms] by simp
  then show ?thesis by simp
qed

lemma remarkNode_nodes:
  assumes "remarkNode pg f (v, n) d = Inr (u, d')"
  shows "db_nodes d' = map (\<lambda>r. if nr_vault r = v \<and> nr_id r = n then f r else r) (db_nodes d)"
proof (cases "nodeRow d v n")
  case None
  then have "\<forall>r\<in>set (db_nodes d). \<not> (nr_vault r = v \<and> nr_id r = n)" by (auto simp: nodeRow_def find_None_iff)
  then have "map (\<lambda>r. if nr_vault r = v \<and> nr_id r = n then f r else r) (db_nodes d) = db_nodes d" by (intro map_idI) auto
  with None assms show ?thesis by (simp add: remarkNode_def)
next
  case (Some old)
  with assms show ?thesis by (auto simp: remarkNode_def dest: updateNode_nodes split: option.splits)
qed

lemma prepareEach_deleted:
  assumes "prepareEach pg s items d = Inr (Inr u, d')" "distinct (map nodeKey (db_nodes d))" "n \<in> set (db_nodes d)" "nr_deleted n \<noteq> None"
  shows "n \<in> set (db_nodes d') \<and> distinct (map nodeKey (db_nodes d'))"
  using assms
proof (induction items arbitrary: d)
  case Nil
  then show ?case by (simp add: tx_ret_def)
next
  case (Cons i items)
  from Cons.prems(1) obtain r d1 d2 where live: "liveNode d (sh_vault s) (pr_nodeId i) = Some r"
    and up: "updateNode pg (sh_vault s) (pr_nodeId i) (rename i) d = Inr ((), d1)"
    and mat: "writeMaterial pg (pr_material i) d1 = Inr ((), d2)" and rest: "prepareEach pg s items d2 = Inr (Inr u, d')"
    by (auto simp: reading_def tx_refuse_def tx_ret_def split: if_splits option.splits dest!: tx_seqD)
  have nodes: "db_nodes d2 = map (\<lambda>r. if nr_vault r = sh_vault s \<and> nr_id r = pr_nodeId i then rename i r else r) (db_nodes d)"
    using updateNode_nodes [OF up] keepsD [OF core_nodes [OF aside_material] mat] by simp
  have "r \<in> set (db_nodes d)" "nodeKey r = (sh_vault s, pr_nodeId i)" "nr_deleted r = None"
    using live by (auto simp: liveNode_def find_Some_iff nodeKey_def)
  with Cons.prems(2,3,4) have "nodeKey n \<noteq> (sh_vault s, pr_nodeId i)" by (auto simp: distinct_map inj_on_def)
  then have "n \<in> set (db_nodes d2)" using Cons.prems(3) by (auto simp: nodes nodeKey_def image_iff intro!: bexI [of _ n])
  moreover have "map nodeKey (db_nodes d2) = map nodeKey (db_nodes d)" by (simp add: nodes nodeKey_def rename_def)
  ultimately show ?case using Cons.IH [OF rest _ _ Cons.prems(4)] Cons.prems(2) by simp
qed

text \<open>Requests to prepare, in a row.\<close>

definition prepareAll :: "pg \<Rightarrow> string \<Rightarrow> string \<Rightarrow> prepare_item list list \<Rightarrow> db \<Rightarrow> db" where
  "prepareAll pg u i batches d = fold (\<lambda>items d. snd (prepareShare pg u i items d)) batches d"

lemma prepareShare_trash:
  assumes "distinct (map nodeKey (db_nodes d))" "n \<in> set (db_nodes d)" "nr_deleted n \<noteq> None"
  shows "crew (snd (prepareShare pg u i items d)) = crew d \<and> n \<in> set (db_nodes (snd (prepareShare pg u i items d))) \<and>
    distinct (map nodeKey (db_nodes (snd (prepareShare pg u i items d))))"
proof -
  have "crew (snd (txGuarded pg (prepareEach pg s items) d)) = crew d \<and> n \<in> set (db_nodes (snd (txGuarded pg (prepareEach pg s items) d))) \<and>
    distinct (map nodeKey (db_nodes (snd (txGuarded pg (prepareEach pg s items) d))))" for s
  proof (cases rule: txGuarded_cases [of "prepareEach pg s items" d pg])
    case (committed a d')
    then have run: "prepareEach pg s items d = Inr (Inr (), d')" by simp
    from committed prepareEach_deleted [OF run assms] keepsD [OF crew_prepareEach run] show ?thesis by simp
  qed (use assms in simp_all)
  with assms show ?thesis by (auto simp: prepareShare_def split: option.splits)
qed

lemma prepareAll_trash:
  assumes "distinct (map nodeKey (db_nodes d))" "n \<in> set (db_nodes d)" "nr_deleted n \<noteq> None"
  shows "crew (prepareAll pg u i batches d) = crew d \<and> n \<in> set (db_nodes (prepareAll pg u i batches d))"
  using assms
proof (induction batches arbitrary: d)
  case Nil
  then show ?case by (simp add: prepareAll_def)
next
  case (Cons b bs)
  note one = prepareShare_trash [OF Cons.prems, of pg u i b]
  from Cons.IH [of "snd (prepareShare pg u i b d)"] one Cons.prems(3) show ?case by (simp add: prepareAll_def)
qed

lemma trash_stays_refused:
  assumes "distinct (map nodeKey (db_nodes d))" "shareRow d i = Some s" "sh_state s = SharePreparing"
    and "n \<in> set (interiorNodes d s)" "nr_deleted n \<noteq> None" "nr_name_key n \<noteq> sh_key s"
  shows "fst (activateShare pg u i (prepareAll pg u i batches d)) \<noteq> Done state"
proof -
  let ?d = "prepareAll pg u i batches d"
  have n: "n \<in> set (db_nodes d)" using assms(4) by (simp add: interiorNodes_def)
  have "crew ?d = crew d" "n \<in> set (db_nodes ?d)" using prepareAll_trash [OF assms(1) n assms(5)] by blast+
  then have row: "shareRow ?d i = Some s" and inside: "n \<in> set (interiorNodes ?d s)"
    using assms(2,4) by (simp_all add: crew_def shareRow_def interiorNodes_def)
  have "activationRefused ?d s \<noteq> None" using inside assms(6) by (auto simp: activationRefused_def list_ex_iff)
  then obtain e where "setShareState pg i ShareActive (\<lambda>_ t. t) ?d = Inl e"
    using row assms(3) by (auto simp: setShareState_def transitionRefused_def ended_def)
  then have "plainTx pg (setShareState pg i ShareActive (\<lambda>_ t. t)) ?d = (Inl e, ?d)" by (simp add: plainTx_def)
  with row show ?thesis by (auto simp: activateShare_def Let_def)
qed

lemma shares_commit:
  assumes "\<forall>va\<in>set (db_vaults d). revisionsWithin d va"
  shows "commitChecks d (d\<lparr>db_shares := x\<rparr>) = None"
proof -
  have "touched d (d\<lparr>db_shares := x\<rparr>) = []" by (auto simp: touched_def filter_empty_conv)
  moreover have "revisionsWithin (d\<lparr>db_shares := x\<rparr>) = revisionsWithin d" by (simp add: revisionsWithin_def nodeRow_def fun_eq_iff)
  ultimately show ?thesis using assms by (simp add: commitChecks_def list_all_iff)
qed

lemma activationRefused_exact:
  "activationRefused d s = None \<longleftrightarrow> (\<forall>n\<in>set (interiorNodes d s). nr_name_key n = sh_key s \<and> nodeReady d (sh_key s) n)"
proof -
  have "nodeReady d (sh_key s) n \<longleftrightarrow> \<not> list_ex (\<lambda>sha. \<not> hasEnvelope d sha (sh_key s)) (blobsOf d n) \<and>
      \<not> (nr_deleted n = None \<and> (case nr_sha n of None \<Rightarrow> False | Some sha \<Rightarrow> \<not> hasTag d sha (sh_key s)))"
    if "nr_name_key n = sh_key s" for n
    using that by (auto simp: nodeReady_def list_ex_iff split: option.splits)
  then show ?thesis by (auto simp: activationRefused_def list_ex_iff)
qed

lemma ready_no_gaps:
  assumes "\<forall>n\<in>set (interiorNodes d s). nr_name_key n = sh_key s \<and> nodeReady d (sh_key s) n"
  shows "preparationGaps d v (sh_id s) (sh_key s) (sh_root_item s) = []"
proof -
  have "n \<in> set (interiorNodes d s)"
    if "n \<in> set (db_nodes d)" "nr_share n = Some (sh_id s)" "the (nr_item n) \<noteq> sh_root_item s" for n
    using that by (cases "nr_item n = Some (sh_root_item s)") (auto simp: interiorNodes_def)
  with assms show ?thesis unfolding gapless gapsOf_ready by blast
qed

text \<open>C23. Activation by the initiator of a share in preparation, with nothing else in the schema in its way, is done
  exactly when every marked node inside the folder, in the trash or not, is named under the share's key and
  has its envelopes, and if live its tag. The gaps that are named to the client excuse the trash its name, so
  when none is left and a node in the trash is still named under another key, the request is not refused
  but fails on the trigger, and stays so however often the live nodes are prepared again.\<close>

theorem activation_exact:
  assumes "\<forall>a b. pg_statement pg a b = None" "\<forall>a b. pg_commit pg a b = None" "shareRow d i = Some s" "sh_initiator s = u" "sh_state s = SharePreparing"
    and "\<forall>va\<in>set (db_vaults d). revisionsWithin d va"
  shows "(fst (activateShare pg u i d) = Done ShareActive \<longleftrightarrow>
      (\<forall>n\<in>set (interiorNodes d s). nr_name_key n = sh_key s \<and> nodeReady d (sh_key s) n)) \<and>
    (\<forall>n. n \<in> set (interiorNodes d s) \<and> nr_deleted n \<noteq> None \<and> nr_name_key n \<noteq> sh_key s \<and>
      preparationGaps d (sh_vault s) i (sh_key s) (sh_root_item s) = [] \<longrightarrow>
        (\<exists>why. activateShare pg u i d = (Crashed (Database (CheckViolation why)), d))) \<and>
    (\<forall>n. n \<in> set (interiorNodes d s) \<and> nr_deleted n \<noteq> None \<and> nr_name_key n \<noteq> sh_key s \<and> distinct (map nodeKey (db_nodes d)) \<longrightarrow>
      (\<forall>batches. fst (activateShare pg u i (prepareAll pg u i batches d)) \<noteq> Done ShareActive))"
proof (intro conjI allI impI)
  have id: "sh_id s = i" using assms(3) by (auto simp: shareRow_def find_Some_iff)
  let ?ok = "\<forall>n\<in>set (interiorNodes d s). nr_name_key n = sh_key s \<and> nodeReady d (sh_key s) n"
  have trans: "transitionRefused SharePreparing ShareActive = None" by (simp add: transitionRefused_def ended_def)
  show "fst (activateShare pg u i d) = Done ShareActive \<longleftrightarrow> ?ok"
  proof
    assume ?ok
    then have gaps: "preparationGaps d (sh_vault s) i (sh_key s) (sh_root_item s) = []" using ready_no_gaps [of d s] by (simp add: id)
    from \<open>?ok\<close> have "activationRefused d s = None" by (simp add: activationRefused_exact)
    then have run: "setShareState pg i ShareActive (\<lambda>_ t. t) d =
        Inr ((), d\<lparr>db_shares := map (\<lambda>r. if sh_id r = i then r\<lparr>sh_state := ShareActive, sh_terminal := sh_terminal r\<rparr> else r) (db_shares d)\<rparr>)"
      by (simp add: setShareState_def assms(1,3,5) trans statement_def)
    have "commitChecks d (d\<lparr>db_shares := x\<rparr>) = None" for x
      using assms(6) by (rule shares_commit)
    then show "fst (activateShare pg u i d) = Done ShareActive"
      by (simp add: activateShare_def assms(2-5) gaps plainTx_def run)
  next
    assume answered: "fst (activateShare pg u i d) = Done ShareActive"
    show ?ok
    proof (rule ccontr)
      assume "\<not> ?ok"
      then obtain e where "activationRefused d s = Some e" by (auto simp flip: activationRefused_exact)
      then have "plainTx pg (setShareState pg i ShareActive (\<lambda>_ t. t)) d = (Inl (Database e), d)"
        by (simp add: plainTx_def setShareState_def assms(3,5) trans)
      with answered show False by (simp add: activateShare_def assms(3-5) Let_def split: if_splits)
    qed
  qed
next
  fix n assume n: "n \<in> set (interiorNodes d s) \<and> nr_deleted n \<noteq> None \<and> nr_name_key n \<noteq> sh_key s \<and>
      preparationGaps d (sh_vault s) i (sh_key s) (sh_root_item s) = []"
  then have "list_ex (\<lambda>n. nr_name_key n \<noteq> sh_key s) (interiorNodes d s)" by (auto simp: list_ex_iff)
  then obtain why where "activationRefused d s = Some (CheckViolation why)" by (simp add: activationRefused_def)
  then have "plainTx pg (setShareState pg i ShareActive (\<lambda>_ t. t)) d = (Inl (Database (CheckViolation why)), d)"
    by (simp add: plainTx_def setShareState_def assms(3,5) transitionRefused_def ended_def)
  with n show "\<exists>why. activateShare pg u i d = (Crashed (Database (CheckViolation why)), d)"
    by (simp add: activateShare_def assms(3-5))
next
  fix n batches
  assume n: "n \<in> set (interiorNodes d s) \<and> nr_deleted n \<noteq> None \<and> nr_name_key n \<noteq> sh_key s \<and> distinct (map nodeKey (db_nodes d))"
  then show "fst (activateShare pg u i (prepareAll pg u i batches d)) \<noteq> Done ShareActive"
    by (intro trash_stays_refused [OF _ assms(3,5)]) blast+
qed

subsection \<open>Taking a mark off\<close>

definition land :: "db \<Rightarrow> node_row list \<times> vault_row list" where
  "land d = (db_nodes d, db_vaults d)"

lemma land_updates [simp]:
  "land (d\<lparr>db_shares := a\<rparr>) = land d" "land (d\<lparr>db_members := b\<rparr>) = land d" "land (d\<lparr>db_versions := v\<rparr>) = land d"
  "land (d\<lparr>db_user_blobs := w\<rparr>) = land d" "land (d\<lparr>db_blob_keys := k\<rparr>) = land d" "land (d\<lparr>db_dedup := t\<rparr>) = land d"
  by (simp_all add: land_def)

lemma land_material: "keeps land (writeMaterial pg m)"
  unfolding writeMaterial_def writeEnvelope_def writeTag_def by (auto intro!: keeps_intro keeps_statement split: prod.splits)

lemma land_drop: "keeps land (dropUnreferenced pg u)"
  unfolding dropUnreferenced_def by (rule keeps_statement) simp

lemma land_state: "keeps land (setShareState pg i st f)"
  by (auto simp: keeps_def setShareState_def statement_def split: option.splits)

lemma land_membersOf: "keeps land (updateMembersOf pg f ks)"
proof (induction ks)
  case Nil
  then show ?case by (auto intro: keeps_intro)
next
  case (Cons k ks)
  obtain a b where k: "k = (a, b)" by (cases k)
  have "keeps land (\<lambda>d. case memberRow d a b of None \<Rightarrow> Inr ((), d)
      | Some old \<Rightarrow> (case memberRefused d old (f old) of Some e \<Rightarrow> Inl (Database e)
        | None \<Rightarrow> statement pg (\<lambda>d. d\<lparr>db_members := map (\<lambda>m. if mb_share m = a \<and> mb_user m = b then f m else m) (db_members d)\<rparr>) d))"
    by (auto simp: keeps_def statement_def split: option.splits)
  with Cons show ?case by (simp add: k keeps_seq)
qed

lemma land_members: "keeps land (updateMembers pg which f)"
  using land_membersOf by (simp add: keeps_def updateMembers_def)

lemma remarkNode_vaults:
  assumes "remarkNode pg f k d = Inr (u, d')"
  shows "db_vaults d' = db_vaults d"
proof -
  obtain v n where "k = (v, n)" by (cases k)
  with assms show ?thesis
    by (auto simp: remarkNode_def updateNode_def statement_def setNode_def split: option.splits)
qed

lemma remarkNode_allowed:
  assumes "remarkNode pg f (nodeKey r) d = Inr (u, d')" "r \<in> set (db_nodes d)" "distinct (map nodeKey (db_nodes d))"
  shows "unmarkRefused d r (f r) = None"
proof -
  have "nodeRow d (nr_vault r) (nr_id r) = Some r"
  proof (cases "nodeRow d (nr_vault r) (nr_id r)")
    case None
    with assms(2) show ?thesis by (auto simp: nodeRow_def find_None_iff)
  next
    case (Some q)
    then have "q \<in> set (db_nodes d)" "nodeKey q = nodeKey r" by (auto simp: nodeRow_def find_Some_iff nodeKey_def)
    with assms(2,3) Some show ?thesis by (auto simp: distinct_map inj_on_def)
  qed
  with assms(1) show ?thesis by (auto simp: remarkNode_def nodeKey_def split: option.splits)
qed

definition unmark :: "node_row \<Rightarrow> node_row" where "unmark r = r\<lparr>nr_share := None, nr_item := None\<rparr>"

lemma unmarkEach_names:
  assumes "tx_each (remarkNode pg unmark) ks d = Inr (u, d')" "distinct (map nodeKey (db_nodes d))" "r \<in> set (db_nodes d)"
    "nodeKey r \<in> set ks" "nr_share r \<noteq> None" "vaultRow d (nr_vault r) = Some va"
  shows "nr_name_key r = Some (vr_key_id va)"
  using assms
proof (induction ks arbitrary: d)
  case Nil
  then show ?case by simp
next
  case (Cons k ks)
  from Cons.prems(1) obtain d1 where one: "remarkNode pg unmark k d = Inr ((), d1)" and rest: "tx_each (remarkNode pg unmark) ks d1 = Inr (u, d')"
    by (auto dest!: tx_seqD)
  show ?case
  proof (cases "k = nodeKey r")
    case True
    with remarkNode_allowed [of pg unmark r d] one Cons.prems(2,3) have "unmarkRefused d r (unmark r) = None" by blast
    with Cons.prems(5,6) show ?thesis by (auto simp: unmarkRefused_def unmark_def Let_def split: if_splits)
  next
    case False
    obtain v n where k: "k = (v, n)" by (cases k)
    have nodes: "db_nodes d1 = map (\<lambda>q. if nr_vault q = v \<and> nr_id q = n then unmark q else q) (db_nodes d)"
      using remarkNode_nodes one k by blast
    have "map nodeKey (db_nodes d1) = map nodeKey (db_nodes d)" by (simp add: nodes nodeKey_def unmark_def)
    moreover have "r \<in> set (db_nodes d1)" using Cons.prems(3) False by (auto simp: nodes k nodeKey_def image_iff intro!: bexI [of _ r])
    moreover have "vaultRow d1 (nr_vault r) = Some va" using Cons.prems(6) remarkNode_vaults [OF one] by (simp add: vaultRow_def)
    ultimately show ?thesis using Cons.IH [OF rest] Cons.prems(2,4,5) False by auto
  qed
qed

text \<open>C24. Cancelling is refused once a name has been prepared: a share that is being prepared and has one marked
  node whose name is not under its vault's key, which is what a preparation makes of it, cannot be
  cancelled, and nothing is changed.\<close>

theorem cancel_refused_when_prepared:
  assumes "distinct (map nodeKey (db_nodes d))" "r \<in> set (db_nodes d)" "nr_share r = Some i"
    "vaultRow d (nr_vault r) = Some va" "nr_name_key r \<noteq> Some (vr_key_id va)"
  shows "fst (cancelShare pg u i d) \<noteq> Done () \<and> snd (cancelShare pg u i d) = d"
proof (cases rule: txGuarded_cases [of "cancelBody pg u i" d pg])
  case kept
  then show ?thesis by (simp add: cancelShare_def)
next
  case (committed a d')
  then obtain d1 d2 d3 where close: "setShareState pg i ShareCancelled (\<lambda>d _. Some (db_now d)) d = Inr ((), d1)"
      "updateMembers pg (\<lambda>m. mb_share m = i) (\<lambda>d m. m\<lparr>mb_finalizing := Some (db_now d)\<rparr>) d1 = Inr ((), d2)"
    and marks: "tx_each (remarkNode pg unmark) (map nodeKey (filter (\<lambda>r. nr_share r = Some i) (db_nodes d))) d2 = Inr ((), d3)"
    unfolding cancelBody_def reading_def unmark_def [abs_def] by (auto simp: tx_ret_def tx_refuse_def split: if_splits dest!: tx_seqD)
  have "land d2 = land d" using keepsD [OF land_state close(1)] keepsD [OF land_members close(2)] by simp
  then have same: "db_nodes d2 = db_nodes d" "vaultRow d2 = vaultRow d" by (simp_all add: land_def vaultRow_def fun_eq_iff)
  have "nr_name_key r = Some (vr_key_id va)"
    by (rule unmarkEach_names [OF marks]) (use assms same in auto)
  with assms(5) show ?thesis by simp
qed

subsection \<open>Finishing\<close>

definition marksOnly :: "node_row \<Rightarrow> node_row \<Rightarrow> bool" where
  "marksOnly r q \<longleftrightarrow> q = r\<lparr>nr_name_enc := nr_name_enc q, nr_name_hmac := nr_name_hmac q, nr_name_key := nr_name_key q,
     nr_share := nr_share q, nr_item := nr_item q\<rparr>"

lemma marksOnly_refl [simp]: "marksOnly r r" by (simp add: marksOnly_def)

lemma marksOnly_trans: "marksOnly a b \<Longrightarrow> marksOnly b c \<Longrightarrow> marksOnly a c"
  by (cases a; cases b; cases c) (simp add: marksOnly_def)

lemma marksOnly_key: "marksOnly r q \<Longrightarrow> nr_vault q = nr_vault r \<and> nr_id q = nr_id r"
  by (cases r; cases q) (simp add: marksOnly_def)

lemma finalizeEach_nodes:
  assumes "finalizeEach pg v i ns d = Inr (Inr u, d')"
  shows "\<exists>g. db_nodes d' = map g (db_nodes d) \<and>
    (\<forall>r. marksOnly r (g r) \<and> (\<not> (nr_vault r = v \<and> nr_id r \<in> pr_nodeId ` set ns) \<longrightarrow> g r = r) \<and>
      (nr_vault r = v \<and> nr_id r \<in> pr_nodeId ` set ns \<longrightarrow> nr_share (g r) = None))"
  using assms
proof (induction ns arbitrary: d)
  case Nil
  then show ?case by (intro exI [of _ "\<lambda>r. r"]) (simp add: tx_ret_def)
next
  case (Cons n ns)
  let ?f = "\<lambda>r. (rename n r)\<lparr>nr_share := None, nr_item := None\<rparr>"
  from Cons.prems obtain d1 d2 where mat: "writeMaterial pg (pr_material n) d = Inr ((), d1)"
    and one: "remarkNode pg ?f (v, pr_nodeId n) d1 = Inr ((), d2)"
    and rest: "finalizeEach pg v i ns d2 = Inr (Inr u, d')"
    by (auto simp: reading_def tx_refuse_def tx_ret_def split: if_splits dest!: tx_seqD)
  let ?h = "\<lambda>r. if nr_vault r = v \<and> nr_id r = pr_nodeId n then ?f r else r"
  have h: "db_nodes d2 = map ?h (db_nodes d)"
    using remarkNode_nodes [OF one] keepsD [OF core_nodes [OF aside_material] mat] by simp
  from Cons.IH [OF rest] obtain g where g: "db_nodes d' = map g (db_nodes d2)"
    "\<And>r. marksOnly r (g r)" "\<And>r. \<not> (nr_vault r = v \<and> nr_id r \<in> pr_nodeId ` set ns) \<Longrightarrow> g r = r"
    "\<And>r. nr_vault r = v \<Longrightarrow> nr_id r \<in> pr_nodeId ` set ns \<Longrightarrow> nr_share (g r) = None" by blast
  have hm: "marksOnly r (?h r)" for r by (simp add: marksOnly_def rename_def)
  have hk: "nr_vault (?h r) = nr_vault r \<and> nr_id (?h r) = nr_id r" for r by (simp add: rename_def)
  show ?case
  proof (intro exI [of _ "g \<circ> ?h"] conjI allI impI)
    show "db_nodes d' = map (g \<circ> ?h) (db_nodes d)" by (simp add: g(1) h)
    fix r
    show "marksOnly r ((g \<circ> ?h) r)" using marksOnly_trans [OF hm g(2)] by simp
    show "(g \<circ> ?h) r = r" if "\<not> (nr_vault r = v \<and> nr_id r \<in> pr_nodeId ` set (n # ns))"
      using that g(3) [of r] by auto
    show "nr_share ((g \<circ> ?h) r) = None" if r: "nr_vault r = v \<and> nr_id r \<in> pr_nodeId ` set (n # ns)"
    proof (cases "nr_id r \<in> pr_nodeId ` set ns")
      case True
      with r g(4) [of "?h r"] hk [of r] show ?thesis by simp
    next
      case False
      with r have "nr_id r = pr_nodeId n" by auto
      moreover have "g (?h r) = ?h r" by (rule g(3)) (use False hk [of r] in simp)
      ultimately show ?thesis using r by simp
    qed
  qed
qed

text \<open>What a finalization covers are nodes of the share.\<close>

lemma finalizeEach_marked:
  assumes "finalizeEach pg v i ns d = Inr (Inr u, d')" "n \<in> set ns"
  shows "\<exists>r\<in>set (db_nodes d). nr_vault r = v \<and> nr_share r = Some i \<and> nr_id r = pr_nodeId n"
  using assms
proof (induction ns arbitrary: d)
  case Nil
  then show ?case by simp
next
  case (Cons k ns)
  let ?f = "\<lambda>r. (rename k r)\<lparr>nr_share := None, nr_item := None\<rparr>"
  from Cons.prems(1) obtain d1 d2 q where mat: "writeMaterial pg (pr_material k) d = Inr ((), d1)"
    and found: "nodeRow d1 v (pr_nodeId k) = Some q" "nr_share q = Some i"
    and one: "remarkNode pg ?f (v, pr_nodeId k) d1 = Inr ((), d2)" and rest: "finalizeEach pg v i ns d2 = Inr (Inr u, d')"
    by (auto simp: reading_def tx_refuse_def tx_ret_def split: if_splits option.splits dest!: tx_seqD)
  have same: "db_nodes d1 = db_nodes d" using keepsD [OF core_nodes [OF aside_material] mat] by simp
  show ?case
  proof (cases "n = k")
    case True
    with found same show ?thesis by (auto simp: nodeRow_def find_Some_iff)
  next
    case False
    with Cons.prems(2) have "n \<in> set ns" by simp
    from Cons.IH [OF rest this] obtain r where r: "r \<in> set (db_nodes d2)" "nr_vault r = v" "nr_share r = Some i" "nr_id r = pr_nodeId n" by blast
    with remarkNode_nodes [OF one] same have "r \<in> set (db_nodes d)" by (auto split: if_splits)
    with r show ?thesis by blast
  qed
qed

text \<open>The history and the claims of the accounts.\<close>

definition heldPast :: "db \<Rightarrow> version_row list \<times> user_blob_row list" where
  "heldPast d = (db_versions d, db_user_blobs d)"

lemma past_updates [simp]:
  "heldPast (d\<lparr>db_shares := a\<rparr>) = heldPast d" "heldPast (d\<lparr>db_members := b\<rparr>) = heldPast d" "heldPast (d\<lparr>db_nodes := c\<rparr>) = heldPast d"
  "heldPast (d\<lparr>db_blob_keys := k\<rparr>) = heldPast d" "heldPast (d\<lparr>db_dedup := t\<rparr>) = heldPast d"
  by (simp_all add: heldPast_def)

lemma past_material: "keeps heldPast (writeMaterial pg m)"
  unfolding writeMaterial_def writeEnvelope_def writeTag_def by (auto intro!: keeps_intro keeps_statement split: prod.splits)

lemma past_remark: "keeps heldPast (remarkNode pg f k)"
  by (cases k) (auto simp: keeps_def remarkNode_def updateNode_def statement_def setNode_def split: option.splits)

lemma past_finalizeEach: "keeps heldPast (finalizeEach pg v i ns)"
  by (induction ns) (auto intro!: keeps_intro past_material past_remark)

lemma past_membersOf: "keeps heldPast (updateMembersOf pg f ks)"
proof (induction ks)
  case Nil
  then show ?case by (auto intro: keeps_intro)
next
  case (Cons k ks)
  obtain a b where k: "k = (a, b)" by (cases k)
  have "keeps heldPast (\<lambda>d. case memberRow d a b of None \<Rightarrow> Inr ((), d)
      | Some old \<Rightarrow> (case memberRefused d old (f old) of Some e \<Rightarrow> Inl (Database e)
        | None \<Rightarrow> statement pg (\<lambda>d. d\<lparr>db_members := map (\<lambda>m. if mb_share m = a \<and> mb_user m = b then f m else m) (db_members d)\<rparr>) d))"
    by (auto simp: keeps_def statement_def split: option.splits)
  with Cons show ?case by (simp add: k keeps_seq)
qed

lemma past_members: "keeps heldPast (updateMembers pg which f)"
  using past_membersOf by (simp add: keeps_def updateMembers_def)

lemma referenced_cong:
  "land d = land d' \<Longrightarrow> db_versions d = db_versions d' \<Longrightarrow> referenced d = referenced d'"
  by (simp add: land_def referenced_def ownedBy_def vaultRow_def fun_eq_iff)

text \<open>The stages of a finalization that is answered.\<close>

lemma finalizeBody_run:
  assumes "finalizeBody pg u i nodes d = Inr (Inr (), d')" "memberRow d i u = Some m" "shareRow d i = Some s"
  obtains d1 d2 d3 where
    "\<forall>r\<in>set (db_nodes d). nr_vault r = the (mb_vault m) \<and> nr_share r = Some i \<longrightarrow> nr_id r \<in> pr_nodeId ` set nodes"
    "land d1 = land d" "crew d1 = crew d" "db_user_blobs d1 = db_user_blobs d"
    "db_versions d1 = (if u = sh_initiator s then db_versions d
      else filter (\<lambda>x. \<not> (vn_vault x = the (mb_vault m) \<and> vn_node x \<in> pr_nodeId ` set nodes)) (db_versions d))"
    "finalizeEach pg (the (mb_vault m)) i nodes d1 = Inr (Inr (), d2)"
    "land d3 = land d2" "crew d3 = crew d2" "db_versions d3 = db_versions d2"
    "db_user_blobs d3 = (if u = sh_initiator s then db_user_blobs d2
      else filter (\<lambda>b. \<not> (ub_user b = u \<and> \<not> referenced d2 u (ub_sha b) \<and> ub_pending b = 0)) (db_user_blobs d2))"
    "updateMembers pg (\<lambda>m. mb_share m = i \<and> mb_user m = u) (\<lambda>d m. m\<lparr>mb_left := Some (db_now d)\<rparr>) d3 = Inr ((), d')"
proof -
  define v where "v = the (mb_vault m)"
  define thinning :: "unit tx" where "thinning = tx_when (u \<noteq> sh_initiator s) (statement pg (\<lambda>d. d\<lparr>db_versions :=
        filter (\<lambda>x. \<not> (vn_vault x = v \<and> vn_node x \<in> set (map pr_nodeId nodes))) (db_versions d)\<rparr>))"
  define dropping where "dropping = tx_when (u \<noteq> sh_initiator s) (dropUnreferenced pg u)"
  from assms obtain d1 d2 d3 where missing: "filter (\<lambda>r. nr_vault r = v \<and> nr_share r = Some i \<and> nr_id r \<notin> set (map pr_nodeId nodes)) (db_nodes d) = []"
    and thin: "thinning d = Inr ((), d1)"
    and each: "finalizeEach pg v i nodes d1 = Inr (Inr (), d2)"
    and drop: "dropping d2 = Inr ((), d3)"
    and left: "updateMembers pg (\<lambda>m. mb_share m = i \<and> mb_user m = u) (\<lambda>d m. m\<lparr>mb_left := Some (db_now d)\<rparr>) d3 = Inr ((), d')"
    unfolding finalizeBody_def reading_def Let_def thinning_def dropping_def
    by (auto simp: tx_ret_def tx_refuse_def v_def split: if_splits sum.splits dest!: tx_seqD tx_bindD)
  have k1: "keeps land thinning" "keeps crew thinning"
    unfolding thinning_def by (auto intro!: keeps_when keeps_statement)
  have k2: "keeps land dropping" "keeps crew dropping"
    unfolding dropping_def by (auto intro!: keeps_intro intro: land_drop)
  have h1: "db_user_blobs d1 = db_user_blobs d"
    "db_versions d1 = (if u = sh_initiator s then db_versions d
      else filter (\<lambda>x. \<not> (vn_vault x = v \<and> vn_node x \<in> pr_nodeId ` set nodes)) (db_versions d))"
    using thin by (auto simp: thinning_def tx_when_def tx_ret_def statement_def split: if_splits option.splits)
  have h2: "db_versions d3 = db_versions d2"
    "db_user_blobs d3 = (if u = sh_initiator s then db_user_blobs d2
      else filter (\<lambda>b. \<not> (ub_user b = u \<and> \<not> referenced d2 u (ub_sha b) \<and> ub_pending b = 0)) (db_user_blobs d2))"
    using drop by (auto simp: dropping_def dropUnreferenced_def tx_when_def tx_ret_def statement_def split: if_splits option.splits)
  show ?thesis
    by (rule that [OF _ keepsD [OF k1(1) thin] keepsD [OF k1(2) thin] h1(1) _ _ keepsD [OF k2(1) drop] keepsD [OF k2(2) drop] h2 left])
      (use missing each h1(2) in \<open>auto simp: v_def filter_empty_conv image_iff\<close>)
qed

lemma member_left:
  assumes "updateMembers pg (\<lambda>m. mb_share m = i \<and> mb_user m = u) (\<lambda>d m. m\<lparr>mb_left := Some (db_now d)\<rparr>) d = Inr ((), d')"
    and "distinct (map mkey (db_members d))" "memberRow d i u = Some m"
  shows "\<exists>m'. memberRow d' i u = Some m' \<and> mb_left m' \<noteq> None"
proof -
  have d': "db_members d' = map (\<lambda>m. if mb_share m = i \<and> mb_user m = u then m\<lparr>mb_left := Some (db_now d)\<rparr> else m) (db_members d)"
    using updateMembers_run [OF assms(1,2)] by (simp add: mkey_def)
  let ?f = "\<lambda>m::member_row. if mb_share m = i \<and> mb_user m = u then m\<lparr>mb_left := Some (db_now d)\<rparr> else m"
  have "(\<lambda>m. mb_share (?f m) = i \<and> mb_user (?f m) = u) = (\<lambda>m. mb_share m = i \<and> mb_user m = u)" by (auto simp: fun_eq_iff)
  then have "memberRow d' i u = map_option ?f (memberRow d i u)"
    unfolding memberRow_def d' find_through by (simp only:)
  moreover have "mb_share m = i \<and> mb_user m = u" using assms(3) by (auto simp: memberRow_def find_Some_iff)
  ultimately show ?thesis using assms(3) by simp
qed

text \<open>C21. Finishing with a share, for the vault \<open>v\<close> of the one who finishes and the identifiers \<open>M\<close> of the nodes marked
  with the share in it: none of them is marked any more and their rows differ in names and marks alone, no
  other row of any vault changes, and the participant has left. The initiator keeps every version and every
  claim. A participant loses the versions of the nodes of \<open>M\<close>, no other version, and of its claims exactly those
  that nothing it has refers to any longer and that no upload is pending for; nobody else loses a claim.\<close>

theorem finalize_frees:
  assumes "finalizeLeave pg u i nodes d = (Done (), d')" "memberRow d i u = Some m" "shareRow d i = Some s"
    and "distinct (map mkey (db_members d))"
    and "v = the (mb_vault m)" "M = {nr_id r | r. r \<in> set (db_nodes d) \<and> nr_vault r = v \<and> nr_share r = Some i}"
  shows "(\<forall>r\<in>set (db_nodes d'). nr_vault r = v \<longrightarrow> nr_share r \<noteq> Some i) \<and>
    (\<exists>g. db_nodes d' = map g (db_nodes d) \<and> (\<forall>r. marksOnly r (g r) \<and> (\<not> (nr_vault r = v \<and> nr_id r \<in> M) \<longrightarrow> g r = r))) \<and>
    (\<exists>m'. memberRow d' i u = Some m' \<and> mb_left m' \<noteq> None) \<and>
    db_versions d' = (if u = sh_initiator s then db_versions d
      else filter (\<lambda>x. \<not> (vn_vault x = v \<and> vn_node x \<in> M)) (db_versions d)) \<and>
    db_user_blobs d' = (if u = sh_initiator s then db_user_blobs d
      else filter (\<lambda>b. \<not> (ub_user b = u \<and> \<not> referenced d' u (ub_sha b) \<and> ub_pending b = 0)) (db_user_blobs d))"
proof -
  have "finalizeBody pg u i nodes d = Inr (Inr (), d')" using assms(1) unfolding finalizeLeave_def by (auto dest: txGuarded_done)
  then obtain d1 d2 d3 where all: "\<forall>r\<in>set (db_nodes d). nr_vault r = v \<and> nr_share r = Some i \<longrightarrow> nr_id r \<in> pr_nodeId ` set nodes"
    and d1: "land d1 = land d" "crew d1 = crew d" "db_user_blobs d1 = db_user_blobs d"
      "db_versions d1 = (if u = sh_initiator s then db_versions d
        else filter (\<lambda>x. \<not> (vn_vault x = v \<and> vn_node x \<in> pr_nodeId ` set nodes)) (db_versions d))"
    and each: "finalizeEach pg v i nodes d1 = Inr (Inr (), d2)"
    and d3: "land d3 = land d2" "crew d3 = crew d2" "db_versions d3 = db_versions d2"
      "db_user_blobs d3 = (if u = sh_initiator s then db_user_blobs d2
        else filter (\<lambda>b. \<not> (ub_user b = u \<and> \<not> referenced d2 u (ub_sha b) \<and> ub_pending b = 0)) (db_user_blobs d2))"
    and left: "updateMembers pg (\<lambda>m. mb_share m = i \<and> mb_user m = u) (\<lambda>d m. m\<lparr>mb_left := Some (db_now d)\<rparr>) d3 = Inr ((), d')"
    unfolding assms(5) by (rule finalizeBody_run [OF _ assms(2,3)])
  have nodes1: "db_nodes d1 = db_nodes d" using d1(1) by (simp add: land_def)
  have M: "pr_nodeId ` set nodes = M"
    using all finalizeEach_marked [OF each] unfolding nodes1 assms(6) by (auto simp: image_iff) metis
  from finalizeEach_nodes [OF each] obtain g where g: "db_nodes d2 = map g (db_nodes d1)" "\<And>r. marksOnly r (g r)"
    "\<And>r. \<not> (nr_vault r = v \<and> nr_id r \<in> M) \<Longrightarrow> g r = r" "\<And>r. nr_vault r = v \<Longrightarrow> nr_id r \<in> M \<Longrightarrow> nr_share (g r) = None"
    unfolding M by blast
  have land: "land d' = land d2" using keepsD [OF land_members left] d3(1) by simp
  then have nodes: "db_nodes d' = map g (db_nodes d)" using g(1) nodes1 by (simp add: land_def)
  have past: "db_versions d2 = db_versions d1 \<and> db_user_blobs d2 = db_user_blobs d1" "db_versions d' = db_versions d3 \<and> db_user_blobs d' = db_user_blobs d3"
    using keepsD [OF past_finalizeEach each] keepsD [OF past_members left] by (simp_all add: heldPast_def)
  have versions: "db_versions d' = (if u = sh_initiator s then db_versions d
      else filter (\<lambda>x. \<not> (vn_vault x = v \<and> vn_node x \<in> M)) (db_versions d))"
    using past d1(4) d3(3) unfolding M by simp
  have ref: "referenced d2 = referenced d'" by (rule referenced_cong) (use land past d3(3) in simp_all)
  have claims: "db_user_blobs d' = (if u = sh_initiator s then db_user_blobs d
      else filter (\<lambda>b. \<not> (ub_user b = u \<and> \<not> referenced d' u (ub_sha b) \<and> ub_pending b = 0)) (db_user_blobs d))"
    using past d1(3) d3(4) unfolding ref by simp
  have members: "db_members d3 = db_members d"
    using d1(2) d3(2) keepsD [OF crew_finalizeEach each] by (simp add: crew_def)
  have "distinct (map mkey (db_members d3))" "memberRow d3 i u = Some m" using assms(2,4) members by (simp_all add: memberRow_def)
  note gone = member_left [OF left this]
  have unmarked: "\<forall>r\<in>set (db_nodes d'). nr_vault r = v \<longrightarrow> nr_share r \<noteq> Some i"
  proof (intro ballI impI)
    fix q assume q: "q \<in> set (db_nodes d')" "nr_vault q = v"
    from q(1) obtain r where r: "r \<in> set (db_nodes d)" "q = g r" unfolding nodes set_map by blast
    have vault: "nr_vault r = v" using marksOnly_key [OF g(2) [of r]] q(2) r(2) by simp
    show "nr_share q \<noteq> Some i"
    proof (cases "nr_id r \<in> M")
      case True
      with g(4) [OF vault] r(2) show ?thesis by simp
    next
      case False
      with r(1) vault have "nr_share r \<noteq> Some i" unfolding assms(6) by blast
      with False g(3) [of r] r(2) show ?thesis by simp
    qed
  qed
  have mapped: "\<exists>g. db_nodes d' = map g (db_nodes d) \<and> (\<forall>r. marksOnly r (g r) \<and> (\<not> (nr_vault r = v \<and> nr_id r \<in> M) \<longrightarrow> g r = r))"
    by (rule exI [of _ g]) (simp add: nodes g(2,3))
  show ?thesis by (rule conjI [OF unmarked conjI [OF mapped conjI [OF gone conjI [OF versions claims]]]])
qed

subsection \<open>Joining\<close>

text \<open>A copy and its original: what the participant's node \<open>c\<close> has of the initiator's \<open>n\<close>, among the pairs copied so far.\<close>

definition copyOf :: "join_input \<Rightarrow> share_row \<Rightarrow> (node_row \<times> node_row) list \<Rightarrow> node_row \<Rightarrow> node_row \<Rightarrow> bool" where
  "copyOf input s pairs n c \<longleftrightarrow>
     nr_vault c = ji_vaultId input \<and> nr_share c = Some (sh_id s) \<and> nr_deleted c = None \<and> nr_item c = nr_item n \<and>
     nr_type c = nr_type n \<and> nr_sha c = nr_sha n \<and> nr_size c = nr_size n \<and> nr_mtime c = nr_mtime n \<and>
     (if nr_id n = sh_node s
      then nr_parent c = Some (ji_parentId input) \<and> nr_name_enc c = Some (in_nameEnc input) \<and> nr_name_hmac c = Some (in_nameHmac input) \<and>
        nr_name_key c = Some (in_nameKeyId input)
      else nr_name_enc c = nr_name_enc n \<and> nr_name_hmac c = nr_name_hmac n \<and> nr_name_key c = nr_name_key n \<and>
        (\<exists>(p, q)\<in>set pairs. nr_parent n = Some (nr_id p) \<and> nr_parent c = Some (nr_id q)))"

lemma copyOf_mono: "copyOf input s pairs n c \<Longrightarrow> set pairs \<subseteq> set pairs' \<Longrightarrow> copyOf input s pairs' n c"
  unfolding copyOf_def by (auto split: if_splits)

lemma nodes_deliver: "keeps db_nodes (deliverContent pg u v n i rv past revs)"
proof -
  have "keeps db_nodes (copyVersions pg v u vs)" for vs
    unfolding copyVersions_def by (intro keeps_intro core_nodes aside_version aside_claim)
  then show ?thesis unfolding deliverContent_def
    by (cases "truthy (nr_sha n)") (simp_all add: keeps_basic keeps_bind keeps_seq core_nodes aside_version aside_claim)
qed

lemma nodes_nextRev: "keeps db_nodes (nextRev pg v)"
  unfolding keeps_def using nextRev_Inr by blast

lemma nodes_reserve: "keeps db_nodes (reserveRevs pg v n)"
  by (induction n) (auto intro!: keeps_intro nodes_nextRev)

lemma createCounterpart_nodes:
  assumes "createCounterpart pg v sid parent item d = Inr ((c, rv), d')"
  shows "db_nodes d' = db_nodes d @ [\<lparr>nr_vault = v, nr_id = cp_id c, nr_parent = Some (cp_id parent), nr_name_enc = Some (in_nameEnc item),
           nr_name_hmac = Some (in_nameHmac item), nr_name_key = Some (in_nameKeyId item), nr_type = ri_type item,
           nr_sha = ri_sha256 item, nr_size = ri_size item, nr_mtime = ri_mtime item, nr_rev = rv, nr_deleted = None,
           nr_ancestry = cp_ancestry parent @ [cp_id parent], nr_share = Some sid, nr_item = Some (ri_shareItemId item)\<rparr>]"
proof -
  from assms obtain d1 d2 d3 i where "nextRev pg v d = Inr (rv, d1)" "randomUUID pg d1 = Inr (i, d2)" and c: "cp_id c = i"
    and ins: "insertNode pg \<lparr>nr_vault = v, nr_id = i, nr_parent = Some (cp_id parent), nr_name_enc = Some (in_nameEnc item),
           nr_name_hmac = Some (in_nameHmac item), nr_name_key = Some (in_nameKeyId item), nr_type = ri_type item,
           nr_sha = ri_sha256 item, nr_size = ri_size item, nr_mtime = ri_mtime item, nr_rev = rv, nr_deleted = None,
           nr_ancestry = cp_ancestry parent @ [cp_id parent], nr_share = Some sid, nr_item = Some (ri_shareItemId item)\<rparr> d2 = Inr ((), d3)"
    and log: "journalEntry pg v rv i OpPut None d3 = Inr ((), d')"
    unfolding createCounterpart_def Let_def by (auto simp: tx_ret_def dest!: tx_bindD tx_seqD)
  then have "db_nodes d2 = db_nodes d" using nextRev_Inr randomUUID_Inr core_nodes_eq by metis
  moreover from journalEntry_Inr [OF log] have "db_nodes d' = db_nodes d3" by (metis core_simps(1) store_simps(3))
  moreover from insertNode_Inr [OF ins] have "st_nodes (core d3) = st_nodes (addNode \<lparr>nr_vault = v, nr_id = i, nr_parent = Some (cp_id parent), nr_name_enc = Some (in_nameEnc item),
           nr_name_hmac = Some (in_nameHmac item), nr_name_key = Some (in_nameKeyId item), nr_type = ri_type item,
           nr_sha = ri_sha256 item, nr_size = ri_size item, nr_mtime = ri_mtime item, nr_rev = rv, nr_deleted = None,
           nr_ancestry = cp_ancestry parent @ [cp_id parent], nr_share = Some sid, nr_item = Some (ri_shareItemId item)\<rparr> (core d2))" by simp
  ultimately show ?thesis by (simp add: c)
qed

lemma joinEach_copies:
  assumes "joinEach pg u s input base ns mapped anc root d = Inr (Inr x, d')"
    and "\<And>k v. jget mapped k = Some v \<Longrightarrow> \<exists>(p, q)\<in>set pairs. nr_id p = k \<and> nr_id q = v"
  shows "\<exists>copies. db_nodes d' = db_nodes d @ copies \<and> length copies = length ns \<and>
    (\<forall>(n, c)\<in>set (zip ns copies). copyOf input s (pairs @ zip ns copies) n c)"
  using assms
proof (induction ns arbitrary: mapped anc root d pairs)
  case Nil
  then show ?case by (simp add: tx_ret_def)
next
  case (Cons n ns)
  define isRoot where "isRoot \<longleftrightarrow> nr_id n = sh_node s"
  define parent where "parent = (if isRoot then Some (ji_parentId input) else Option.bind (nr_parent n) (jget mapped))"
  define names where "names = (if isRoot then Some (item_name.truncate input)
                   else (case (nr_name_enc n, nr_name_hmac n, nr_name_key n) of
                     (Some e, Some h, Some k) \<Rightarrow> Some \<lparr>in_nameEnc = e, in_nameHmac = h, in_nameKeyId = k\<rparr> | _ \<Rightarrow> None))"
  define chain where "chain = (if isRoot then base @ [ji_parentId input] else the (jget anc (the (nr_parent n))) @ [the parent])"
  from Cons.prems(1) obtain past revs d1 name item c rv d2 d3 where
    parent: "truthy parent" and name: "names = Some name" and item: "nr_item n = Some item"
    and res: "reserveRevs pg (ji_vaultId input) (length past - 1) d = Inr (revs, d1)"
    and make: "createCounterpart pg (ji_vaultId input) (sh_id s) \<lparr>cp_id = the parent, cp_ancestry = butlast chain\<rparr>
         \<lparr>in_nameEnc = in_nameEnc name, in_nameHmac = in_nameHmac name, in_nameKeyId = in_nameKeyId name,
          ri_shareItemId = item, ri_type = nr_type n, ri_sha256 = nr_sha n, ri_size = nr_size n, ri_mtime = nr_mtime n\<rparr> d1 = Inr ((c, rv), d2)"
    and deliver: "deliverContent pg u (ji_vaultId input) n (cp_id c) rv past revs d2 = Inr ((), d3)"
    and rest: "joinEach pg u s input base ns (jset (nr_id n) (cp_id c) mapped) (jset (nr_id n) chain anc) (if isRoot then cp_id c else root) d3 = Inr (Inr x, d')"
    unfolding isRoot_def parent_def names_def chain_def
    by (auto simp: Let_def reading_def tx_refuse_def tx_ret_def tx_throw_def split: if_splits option.splits prod.splits dest!: tx_bindD tx_seqD)
  let ?c = "\<lparr>nr_vault = ji_vaultId input, nr_id = cp_id c, nr_parent = parent, nr_name_enc = Some (in_nameEnc name),
     nr_name_hmac = Some (in_nameHmac name), nr_name_key = Some (in_nameKeyId name), nr_type = nr_type n, nr_sha = nr_sha n,
     nr_size = nr_size n, nr_mtime = nr_mtime n, nr_rev = rv, nr_deleted = None, nr_ancestry = butlast chain @ [the parent],
     nr_share = Some (sh_id s), nr_item = Some item\<rparr>"
  have some: "Some (the parent) = parent" using parent by (cases parent) (simp_all add: truthy_def)
  have nodes: "db_nodes d3 = db_nodes d @ [?c]"
    using createCounterpart_nodes [OF make] keepsD [OF nodes_reserve res] keepsD [OF nodes_deliver deliver] some by simp
  have "\<And>k v. jget (jset (nr_id n) (cp_id c) mapped) k = Some v \<Longrightarrow> \<exists>(p, q)\<in>set (pairs @ [(n, ?c)]). nr_id p = k \<and> nr_id q = v"
    using Cons.prems(2) by (fastforce split: if_splits)
  from Cons.IH [OF rest this] obtain copies where copies: "db_nodes d' = db_nodes d3 @ copies" "length copies = length ns"
    "\<forall>(n', c')\<in>set (zip ns copies). copyOf input s ((pairs @ [(n, ?c)]) @ zip ns copies) n' c'" by blast
  have "copyOf input s pairs n ?c"
  proof (cases isRoot)
    case True
    then have "parent = Some (ji_parentId input)" "name = item_name.truncate input" using name by (simp_all add: parent_def names_def)
    with True item show ?thesis by (simp add: copyOf_def isRoot_def item_name.truncate_def)
  next
    case False
    with name have same: "nr_name_enc n = Some (in_nameEnc name)" "nr_name_hmac n = Some (in_nameHmac name)" "nr_name_key n = Some (in_nameKeyId name)"
      by (auto simp: names_def split: option.splits)
    from False some obtain p where p: "nr_parent n = Some p" "jget mapped p = Some (the parent)"
      by (cases "nr_parent n") (auto simp: parent_def)
    from Cons.prems(2) [OF p(2)] obtain a b where "(a, b) \<in> set pairs" "nr_id a = p" "nr_id b = the parent" by blast
    with False item same p some show ?thesis by (auto simp: copyOf_def isRoot_def intro!: bexI [of _ "(a, b)"])
  qed
  then have "copyOf input s (pairs @ (n, ?c) # zip ns copies) n ?c" by (rule copyOf_mono) auto
  with copies nodes show ?case by (intro exI [of _ "?c # copies"]) simp
qed

text \<open>C20. Joining copies the shared folder and touches no other node: the nodes of every vault stay as they are, and
  behind them there is one new node in the participant's vault for every live node of the initiator's
  folder, marked with the same item, with the same content and name, below the copy of its parent; only the
  root goes where, and is called what, the participant said.\<close>

theorem join_mirrors:
  assumes "joinShare pg u i input d = (Done root, d')"
  shows "\<exists>s copies. shareRow d i = Some s \<and> sh_state s = ShareActive \<and> db_nodes d' = db_nodes d @ copies \<and>
    length copies = length (subtreeRows d (sh_vault s) (sh_node s)) \<and>
    (\<forall>(n, c)\<in>set (zip (subtreeRows d (sh_vault s) (sh_node s)) copies).
       copyOf input s (zip (subtreeRows d (sh_vault s) (sh_node s)) copies) n c)"
proof -
  have "joinBody pg u i input d = Inr (Inr root, d')" using txGuarded_done [of pg "joinBody pg u i input" d root d'] assms by (simp add: joinShare_def)
  then obtain s base d1 where s: "shareRow d i = Some s" "sh_state s = ShareActive"
    and member: "updateMembers pg (\<lambda>m. mb_share m = i \<and> mb_user m = u) (\<lambda>d m. m\<lparr>mb_joined := Some (db_now d), mb_vault := Some (ji_vaultId input)\<rparr>) d = Inr ((), d1)"
    and each: "joinEach pg u s input base (subtreeRows d (sh_vault s) (sh_node s)) [] [] [] d1 = Inr (Inr root, d')"
    unfolding joinBody_def reading_def Let_def by (auto simp: tx_refuse_def tx_ret_def split: option.splits if_splits dest!: tx_seqD)
  have "db_nodes d1 = db_nodes d" using keepsD [OF land_members member] by (simp add: land_def)
  moreover from joinEach_copies [OF each, of "[]"] obtain copies where "db_nodes d' = db_nodes d1 @ copies"
    "length copies = length (subtreeRows d (sh_vault s) (sh_node s))"
    "\<forall>(n, c)\<in>set (zip (subtreeRows d (sh_vault s) (sh_node s)) copies). copyOf input s ([] @ zip (subtreeRows d (sh_vault s) (sh_node s)) copies) n c"
    by auto
  ultimately show ?thesis using s by auto
qed

subsection \<open>Examples\<close>

text \<open>Ann prepares to share \<open>s\<close>, in which the note \<open>n\<close> is in the trash, or is named under the share's key.\<close>

definition preparing :: "node_row \<Rightarrow> db" where
  "preparing note = exStore\<lparr>db_shares := [exShare\<lparr>sh_state := SharePreparing\<rparr>], db_members := [exMember ''ann'' ''A''],
     db_nodes := [exRow ''A'' ''ra'' [] 1 None None, (exRow ''A'' ''s'' [''ra''] 2 None (Some ''i''))\<lparr>nr_name_key := Some ''ka''\<rparr>, note]\<rparr>"

definition exNote :: node_row where "exNote = exRow ''A'' ''n'' [''ra'', ''s''] 3 (Some ''h1'') (Some ''j'')"

lemma preparing_keys: "nodeKey note = (''A'', ''n'') \<Longrightarrow> distinct (map nodeKey (db_nodes (preparing note)))"
  by (simp add: preparing_def exRow_def nodeKey_def)

lemma preparing_share: "shareRow (preparing note) ''share'' = Some (exShare\<lparr>sh_state := SharePreparing\<rparr>)"
  by (simp add: preparing_def exShare_def shareRow_def)

theorem preparationGaps_exact_witness: "preparationGaps (preparing exNote) ''A'' ''share'' (Some ''ks'') ''i'' \<noteq> []"
proof
  assume none: "preparationGaps (preparing exNote) ''A'' ''share'' (Some ''ks'') ''i'' = []"
  have "exNote \<in> set (db_nodes (preparing exNote))" "nr_vault exNote = ''A'' \<and> nr_share exNote = Some ''share'' \<and> the (nr_item exNote) \<noteq> ''i''"
    by (simp_all add: preparing_def exNote_def exRow_def)
  with none preparationGaps_exact have "nodeReady (preparing exNote) (Some ''ks'') exNote" by blast
  then show False by (simp add: nodeReady_def exNote_def exRow_def)
qed

text \<open>With the note in the trash no gap is named, and activation fails.\<close>

theorem activation_exact_witness:
  "\<exists>why. activateShare openPg ''ann'' ''share'' (preparing (exNote\<lparr>nr_deleted := Some 8, nr_sha := None\<rparr>)) =
     (Crashed (Database (CheckViolation why)), preparing (exNote\<lparr>nr_deleted := Some 8, nr_sha := None\<rparr>))"
proof -
  let ?n = "exNote\<lparr>nr_deleted := Some 8, nr_sha := None\<rparr>" and ?s = "exShare\<lparr>sh_state := SharePreparing\<rparr>"
  have pg: "\<forall>a b. pg_statement openPg a b = None" "\<forall>a b. pg_commit openPg a b = None" by (simp_all add: openPg_def)
  have "list_all (revisionsWithin (preparing ?n)) (db_vaults (preparing ?n))" by code_simp
  then have within_revs: "\<forall>va\<in>set (db_vaults (preparing ?n)). revisionsWithin (preparing ?n) va" by (simp only: list_all_iff)
  have "?n \<in> set (interiorNodes (preparing ?n) ?s)" by (simp add: interiorNodes_def preparing_def exShare_def exNote_def exRow_def)
  moreover have "preparationGaps (preparing ?n) (sh_vault ?s) ''share'' (sh_key ?s) (sh_root_item ?s) = []" by code_simp
  moreover have "nr_deleted ?n \<noteq> None" "nr_name_key ?n \<noteq> sh_key ?s" by (simp_all add: exShare_def exNote_def exRow_def)
  moreover have "sh_initiator ?s = ''ann''" "sh_state ?s = SharePreparing" by (simp_all add: exShare_def)
  ultimately show ?thesis using activation_exact [OF pg preparing_share _ _ within_revs] by blast
qed

theorem cancel_refused_when_prepared_witness:
  "fst (cancelShare openPg ''ann'' ''share'' (preparing (exNote\<lparr>nr_name_key := Some ''ks''\<rparr>))) \<noteq> Done ()"
proof -
  let ?d = "preparing (exNote\<lparr>nr_name_key := Some ''ks''\<rparr>)"
  have "distinct (map nodeKey (db_nodes ?d))" by (rule preparing_keys) (simp add: exNote_def exRow_def nodeKey_def)
  moreover have "exNote\<lparr>nr_name_key := Some ''ks''\<rparr> \<in> set (db_nodes ?d)" by (simp add: preparing_def)
  moreover have "nr_share (exNote\<lparr>nr_name_key := Some ''ks''\<rparr>) = Some ''share''" by (simp add: exNote_def exRow_def)
  moreover have "vaultRow ?d (nr_vault (exNote\<lparr>nr_name_key := Some ''ks''\<rparr>)) =
      Some \<lparr>vr_id = ''A'', vr_user = ''ann'', vr_key_id = ''ka'', vr_root = ''ra'', vr_head_rev = 4, vr_reset_epoch = 1\<rparr>"
    by (simp add: preparing_def exStore_def vaultRow_def exNote_def exRow_def)
  ultimately show ?thesis by (rule cancel_refused_when_prepared [THEN conjunct1]) (simp add: exNote_def)
qed

text \<open>Bob finishes with the share that ended: both nodes of his copy come under his own vault's key.\<close>

definition exFinal :: "string \<Rightarrow> prepare_item" where
  "exFinal n = \<lparr>in_nameEnc = n, in_nameHmac = n, in_nameKeyId = ''kb'', pr_nodeId = n,
     pr_material = \<lparr>mt_envelopes = [(''h1'', ''kb'', ''w'')], mt_dedupTags = [(''h1'', ''kb'', ''t'')]\<rparr>\<rparr>"

definition finishedStore :: db where
  "finishedStore = snd (finalizeLeave openPg ''bob'' ''share'' [exFinal ''s2'', exFinal ''n2''] leftStore)"

lemma finishedStore_runs: "finalizeLeave openPg ''bob'' ''share'' [exFinal ''s2'', exFinal ''n2''] leftStore = (Done (), finishedStore)"
proof -
  have "fst (finalizeLeave openPg ''bob'' ''share'' [exFinal ''s2'', exFinal ''n2''] leftStore) = Done ()" by code_simp
  then show ?thesis by (simp add: finishedStore_def prod_eq_iff)
qed

theorem finalize_frees_witness:
  "(\<exists>m'. memberRow finishedStore ''share'' ''bob'' = Some m' \<and> mb_left m' \<noteq> None) \<and>
   filter (\<lambda>r. nr_vault r = ''B'' \<and> nr_share r = Some ''share'') (db_nodes finishedStore) = []"
proof -
  have m: "memberRow leftStore ''share'' ''bob'' = Some ((exMember ''bob'' ''B'')\<lparr>mb_finalizing := Some 9\<rparr>)"
    by (simp add: memberRow_def leftStore_rows exMember_def)
  have "shareRow leftStore ''share'' \<noteq> None" by code_simp
  then obtain s where s: "shareRow leftStore ''share'' = Some s" by blast
  have v: "''B'' = the (mb_vault ((exMember ''bob'' ''B'')\<lparr>mb_finalizing := Some 9\<rparr>))" by (simp add: exMember_def)
  have "distinct (map mkey (db_members leftStore))" by (simp add: leftStore_rows exMember_def mkey_def)
  from finalize_frees [OF finishedStore_runs m s this v refl] show ?thesis by (simp only: filter_empty_conv) blast
qed

text \<open>Bob, invited and with nothing in his vault yet, joins.\<close>

definition invitedStore :: db where
  "invitedStore = exStore\<lparr>db_members := [exMember ''ann'' ''A'', (exMember ''bob'' ''B'')\<lparr>mb_vault := None, mb_joined := None\<rparr>],
     db_nodes := filter (\<lambda>r. nr_vault r = ''A'' \<or> nr_id r = ''rb'') (db_nodes exStore),
     db_journal := filter (\<lambda>j. jr_vault j = ''A'' \<or> jr_rev j = 1) (db_journal exStore)\<rparr>"

definition exJoin :: join_input where
  "exJoin = \<lparr>in_nameEnc = ''x'', in_nameHmac = ''x'', in_nameKeyId = ''kb'', ji_vaultId = ''B'', ji_parentId = ''rb''\<rparr>"

definition joinedStore :: db where "joinedStore = snd (joinShare openPg ''bob'' ''share'' exJoin invitedStore)"

lemma joinedStore_runs: "joinShare openPg ''bob'' ''share'' exJoin invitedStore = (Done ''u0'', joinedStore)"
proof -
  have "fst (joinShare openPg ''bob'' ''share'' exJoin invitedStore) = Done ''u0''" by code_simp
  then show ?thesis by (simp add: joinedStore_def prod_eq_iff)
qed

theorem join_mirrors_witness: "\<exists>copies. db_nodes joinedStore = db_nodes invitedStore @ copies \<and> length copies = 2"
proof -
  have "length (subtreeRows invitedStore ''A'' ''s'') = 2" by code_simp
  moreover have "shareRow invitedStore ''share'' = Some exShare" by (simp add: invitedStore_def exStore_def shareRow_def exShare_def)
  moreover have "sh_vault exShare = ''A''" "sh_node exShare = ''s''" by (simp_all add: exShare_def)
  ultimately show ?thesis using join_mirrors [OF joinedStore_runs] by auto
qed

end
