(* ===== verification/Server_Catchup.thy ===== *)
theory Server_Catchup
  imports Share_Rules
begin

text \<open>
  The end of a freeze: bringing a participant's copies level with a live copy of each share
  (\<open>shares/catchup.ts\<close>) in the transaction that lifts the freeze (\<open>shares/thaw.ts\<close>). A catch-up writes in the
  participant's own vault alone and writes nothing where the copy is level already; and there is a way to
  a state it can never commit from.
\<close>

subsection \<open>What there is to catch up with\<close>

record source_node = replica_item +
  sn_parentItem :: "string option"
  sn_deleted :: bool

record caught_up =
  cu_shareId :: string
  cu_created :: nat
  cu_updated :: nat
  cu_moved :: nat
  cu_restored :: nat
  cu_deleted :: nat
  cu_versions :: nat

text \<open>Whom the order leaves open after the initiator is the first row's.\<close>

definition sourceOf :: "db \<Rightarrow> string \<Rightarrow> string \<Rightarrow> string option" where
  "sourceOf d shareId exceptVaultId =
     (case shareRow d shareId of
        None \<Rightarrow> None
      | Some s \<Rightarrow>
          (let ms = filter (\<lambda>m. mb_share m = shareId \<and> LIVE_UNFROZEN d m \<and> mb_vault m \<noteq> Some exceptVaultId) (db_members d)
           in map_option (\<lambda>m. the (mb_vault m))
                (case find (\<lambda>m. mb_user m = sh_initiator s) ms of Some m \<Rightarrow> Some m | None \<Rightarrow> find (\<lambda>_. True) ms)))"

definition parentItem :: "db \<Rightarrow> node_row \<Rightarrow> string option" where
  "parentItem d r = Option.bind (nr_parent r) (\<lambda>p. Option.bind (nodeRow d (nr_vault r) p) nr_item)"

text \<open>A marked node has an item, and a name unless it is a vault's root.\<close>

definition sourceNode :: "db \<Rightarrow> node_row \<Rightarrow> source_node" where
  "sourceNode d r =
     \<lparr>in_nameEnc = the (nr_name_enc r), in_nameHmac = the (nr_name_hmac r), in_nameKeyId = the (nr_name_key r),
      ri_shareItemId = the (nr_item r), ri_type = nr_type r, ri_sha256 = nr_sha r, ri_size = nr_size r, ri_mtime = nr_mtime r,
      sn_parentItem = parentItem d r, sn_deleted = (nr_deleted r \<noteq> None)\<rparr>"

definition markedRows :: "db \<Rightarrow> string \<Rightarrow> string \<Rightarrow> node_row list" where
  "markedRows d vaultId shareId = filter (\<lambda>r. nr_vault r = vaultId \<and> nr_share r = Some shareId) (db_nodes d)"

definition subtreeOf :: "db \<Rightarrow> string \<Rightarrow> string \<Rightarrow> source_node list" where
  "subtreeOf d vaultId shareId =
     map (sourceNode d) (sort_key (length \<circ> nr_ancestry) (sort_key nr_id (markedRows d vaultId shareId)))"

record replica_node =
  rn_id :: string
  rn_parentItem :: "string option"
  rn_nameEnc :: "string option"
  rn_nameHmac :: "string option"
  rn_sha256 :: "string option"
  rn_deleted :: bool

definition replicaIndex :: "db \<Rightarrow> string \<Rightarrow> string \<Rightarrow> (string, replica_node) jmap" where
  "replicaIndex d vaultId shareId =
     fold (\<lambda>r m. jset (the (nr_item r)) \<lparr>rn_id = nr_id r, rn_parentItem = parentItem d r, rn_nameEnc = nr_name_enc r,
       rn_nameHmac = nr_name_hmac r, rn_sha256 = nr_sha r, rn_deleted = (nr_deleted r \<noteq> None)\<rparr> m) (markedRows d vaultId shareId) []"

text \<open>The versions an item has in one vault, and those of the source after the last one both have: the same
  content within a millisecond.\<close>

definition versionsOf :: "db \<Rightarrow> string \<Rightarrow> string \<Rightarrow> string \<Rightarrow> version_row list" where
  "versionsOf d vaultId shareId item =
     filter (\<lambda>v. vn_vault v = vaultId \<and> (case nodeRow d vaultId (vn_node v) of None \<Rightarrow> False
       | Some n \<Rightarrow> nr_share n = Some shareId \<and> nr_item n = Some item)) (db_versions d)"

definition sameMoment :: "version_row \<Rightarrow> version_row \<Rightarrow> bool" where
  "sameMoment m t \<longleftrightarrow> vn_sha m = vn_sha t \<and> max (vn_at m) (vn_at t) - min (vn_at m) (vn_at t) < 1000"

definition reachedRev :: "version_row list \<Rightarrow> version_row list \<Rightarrow> nat" where
  "reachedRev theirs mine = fold max (map vn_rev (filter (\<lambda>t. list_ex (\<lambda>m. sameMoment m t) mine) theirs)) 0"

definition historyOwed :: "db \<Rightarrow> string \<Rightarrow> string \<Rightarrow> string \<Rightarrow> string option \<Rightarrow> string \<Rightarrow> version_row list" where
  "historyOwed d fromVault toVault shareId rootItem item =
     (let theirs = (if Some item = rootItem then [] else versionsOf d fromVault shareId item)
      in sort_key vn_rev (filter (\<lambda>t. vn_rev t > reachedRev theirs (versionsOf d toVault shareId item)) theirs))"

subsection \<open>The three passes\<close>

definition placedElsewhere :: "source_node \<Rightarrow> replica_node \<Rightarrow> bool" where
  "placedElsewhere node here \<longleftrightarrow>
     rn_parentItem here \<noteq> sn_parentItem node \<or> rn_nameEnc here \<noteq> Some (in_nameEnc node) \<or> rn_nameHmac here \<noteq> Some (in_nameHmac node)"

fun trashEach ::
  "pg \<Rightarrow> string \<Rightarrow> source_node list \<Rightarrow> (string, replica_node) jmap \<Rightarrow> caught_up \<Rightarrow> ((string, replica_node) jmap \<times> caught_up) tx"
where
  "trashEach pg vaultId [] mine cu = tx_ret (mine, cu)"
| "trashEach pg vaultId (node # nodes) mine cu =
     (case jget mine (ri_shareItemId node) of
        None \<Rightarrow> trashEach pg vaultId nodes mine cu
      | Some here \<Rightarrow>
          if \<not> sn_deleted node \<or> rn_deleted here then trashEach pg vaultId nodes mine cu
          else tx_bind (tx_get db_now) (\<lambda>now. tx_bind (nextRev pg vaultId) (\<lambda>rv.
            tx_seq (updateNode pg vaultId (rn_id here) (\<lambda>r. r\<lparr>nr_deleted := Some now, nr_rev := rv\<rparr>))
            (tx_seq (journalEntry pg vaultId rv (rn_id here) OpDel None)
            (trashEach pg vaultId nodes (jset (ri_shareItemId node) (here\<lparr>rn_deleted := True\<rparr>) mine) (cu\<lparr>cu_deleted := cu_deleted cu + 1\<rparr>))))))"

text \<open>The placeholder name is PostgreSQL's digest of a fresh identifier.\<close>

fun stepAside :: "pg \<Rightarrow> (string \<Rightarrow> string) \<Rightarrow> string \<Rightarrow> (string, replica_node) jmap \<Rightarrow> source_node list \<Rightarrow> unit tx" where
  "stepAside pg digest vaultId mine [] = tx_ret ()"
| "stepAside pg digest vaultId mine (node # nodes) =
     (case jget mine (ri_shareItemId node) of
        None \<Rightarrow> stepAside pg digest vaultId mine nodes
      | Some here \<Rightarrow>
          if sn_deleted node \<or> rn_deleted here \<or> \<not> placedElsewhere node here then stepAside pg digest vaultId mine nodes
          else tx_bind (randomUUID pg) (\<lambda>u.
            tx_seq (updateNode pg vaultId (rn_id here) (\<lambda>r. r\<lparr>nr_name_hmac := Some (digest u)\<rparr>))
              (stepAside pg digest vaultId mine nodes)))"

definition owedCopy :: "string \<Rightarrow> nat \<Rightarrow> version_row \<Rightarrow> version_to_copy" where
  "owedCopy nodeId rv v = \<lparr>vc_targetNodeId = nodeId, vc_rev = rv, vc_sha256 = vn_sha v, vc_size = vn_size v, vc_authorId = vn_author v, vc_at = vn_at v\<rparr>"

text \<open>The node itself: created, moved, brought back, given its content; with its identifier and the revision of
  the content that arrived.\<close>

definition placeNode ::
  "pg \<Rightarrow> string \<Rightarrow> string \<Rightarrow> source_node \<Rightarrow> replica_node option \<Rightarrow> bool \<Rightarrow> counterpart option \<Rightarrow> bool \<Rightarrow> caught_up \<Rightarrow>
   (string \<times> nat option \<times> caught_up) tx"
where
  "placeNode pg vaultId shareId node here placing parent arriving cu =
     (case here of
        None \<Rightarrow> tx_bind (createCounterpart pg vaultId shareId (the parent) (replica_item.truncate node)) (\<lambda>(written, rv).
          tx_ret (cp_id written, Some rv, cu\<lparr>cu_created := cu_created cu + 1\<rparr>))
      | Some h \<Rightarrow>
          tx_bind (if placing \<and> placedElsewhere node h then
              tx_bind (moveCounterpart pg vaultId (rn_id h) (the parent) node (rn_deleted h)) (\<lambda>_.
                tx_ret (cu\<lparr>cu_moved := cu_moved cu + 1, cu_restored := cu_restored cu + (if rn_deleted h then 1 else 0)\<rparr>))
            else if placing then
              tx_bind (nextRev pg vaultId) (\<lambda>rv.
                tx_seq (updateNode pg vaultId (rn_id h) (\<lambda>r. r\<lparr>nr_deleted := None, nr_rev := rv\<rparr>))
                (tx_seq (journalEntry pg vaultId rv (rn_id h) OpPut None)
                (tx_ret (cu\<lparr>cu_restored := cu_restored cu + 1\<rparr>))))
            else tx_ret cu) (\<lambda>cu.
          if arriving then
            tx_bind (nextRev pg vaultId) (\<lambda>rv.
              tx_seq (updateNode pg vaultId (rn_id h) (\<lambda>r.
                r\<lparr>nr_sha := ri_sha256 node, nr_size := ri_size node, nr_mtime := ri_mtime node, nr_rev := rv\<rparr>))
              (tx_seq (journalEntry pg vaultId rv (rn_id h) OpPut None)
              (tx_ret (rn_id h, Some rv, cu\<lparr>cu_updated := cu_updated cu + 1\<rparr>))))
          else tx_ret (rn_id h, None, cu)))"

text \<open>One node of the walk, once it is known to have a place.\<close>

definition deliverNode ::
  "pg \<Rightarrow> string \<Rightarrow> string \<Rightarrow> string \<Rightarrow> source_node \<Rightarrow> replica_node option \<Rightarrow> bool \<Rightarrow> counterpart option \<Rightarrow> version_row list \<Rightarrow> caught_up \<Rightarrow> caught_up tx"
where
  "deliverNode pg userId vaultId shareId node here placing parent history cu =
     (let arriving = (\<not> sn_deleted node \<and> ri_sha256 node \<noteq> None \<and> (case here of None \<Rightarrow> True | Some h \<Rightarrow> rn_sha256 h \<noteq> ri_sha256 node));
          hasHead = (arriving \<and> history \<noteq> [] \<and> Some (vn_sha (last history)) = ri_sha256 node);
          past = (if hasHead then butlast history else history)
      in tx_bind (reserveRevs pg vaultId (length past)) (\<lambda>pastRevs.
         tx_bind (placeNode pg vaultId shareId node here placing parent arriving cu) (\<lambda>(nodeId, headRev, cu).
         tx_bind (copyVersions pg vaultId userId
             (map (\<lambda>(v, rv). owedCopy nodeId rv v) (zip past pastRevs) @
              (case headRev of Some rv \<Rightarrow> if hasHead then [owedCopy nodeId rv (last history)] else [] | None \<Rightarrow> []))) (\<lambda>n.
         tx_seq (tx_when (arriving \<and> \<not> hasHead) (claimBlob pg userId (the (ri_sha256 node))))
           (tx_ret (cu\<lparr>cu_versions := cu_versions cu + n\<rparr>))))))"

fun placeEach ::
  "pg \<Rightarrow> string \<Rightarrow> string \<Rightarrow> string \<Rightarrow> (string, replica_node) jmap \<Rightarrow> (string \<Rightarrow> version_row list) \<Rightarrow> source_node list \<Rightarrow> caught_up \<Rightarrow> caught_up tx"
where
  "placeEach pg userId vaultId shareId mine owed [] cu = tx_ret cu"
| "placeEach pg userId vaultId shareId mine owed (node # nodes) cu =
     (let here = jget mine (ri_shareItemId node);
          placing = (\<not> sn_deleted node \<and> (case here of None \<Rightarrow> True | Some h \<Rightarrow> rn_deleted h \<or> placedElsewhere node h))
      in if here = None \<and> sn_deleted node then placeEach pg userId vaultId shareId mine owed nodes cu
         else tx_bind (case (if placing then sn_parentItem node else None) of
                None \<Rightarrow> tx_ret None | Some item \<Rightarrow> counterpartOf vaultId item True) (\<lambda>parent.
           tx_bind
             (if placing \<and> parent = None then
                (case here of
                   None \<Rightarrow> tx_ret cu
                 | Some h \<Rightarrow>
                     if rn_deleted h then tx_ret cu
                     else tx_bind (tx_get db_now) (\<lambda>now. tx_bind (nextRev pg vaultId) (\<lambda>rv.
                       tx_seq (updateNode pg vaultId (rn_id h) (\<lambda>r. (rename node r)\<lparr>nr_deleted := Some now, nr_rev := rv\<rparr>))
                       (tx_seq (journalEntry pg vaultId rv (rn_id h) OpDel None)
                       (tx_ret (cu\<lparr>cu_deleted := cu_deleted cu + 1\<rparr>))))))
              else deliverNode pg userId vaultId shareId node here placing parent (owed (ri_shareItemId node)) cu)
             (placeEach pg userId vaultId shareId mine owed nodes)))"

definition catchUpShare :: "pg \<Rightarrow> (string \<Rightarrow> string) \<Rightarrow> string \<times> string \<Rightarrow> string \<Rightarrow> caught_up tx" where
  "catchUpShare pg digest = (\<lambda>(userId, vaultId) shareId.
     reading (\<lambda>d.
       let none = \<lparr>cu_shareId = shareId, cu_created = 0, cu_updated = 0, cu_moved = 0, cu_restored = 0, cu_deleted = 0, cu_versions = 0\<rparr>
       in case sourceOf d shareId vaultId of
            None \<Rightarrow> tx_ret none
          | Some source \<Rightarrow>
              (let rootItem = map_option sh_root_item (shareRow d shareId);
                   theirs = filter (\<lambda>n. Some (ri_shareItemId n) \<noteq> rootItem) (subtreeOf d source shareId)
               in tx_bind (trashEach pg vaultId theirs (replicaIndex d vaultId shareId) none) (\<lambda>(mine, cu).
                  tx_seq (stepAside pg digest vaultId mine theirs)
                  (tx_bind (placeEach pg userId vaultId shareId mine (historyOwed d source vaultId shareId rootItem) theirs cu) (\<lambda>cu.
                   tx_bind (freezeIfOverQuota pg userId) (\<lambda>_. tx_ret cu)))))))"

fun catchUpEach :: "pg \<Rightarrow> (string \<Rightarrow> string) \<Rightarrow> string \<Rightarrow> (string \<times> string) list \<Rightarrow> caught_up list tx" where
  "catchUpEach pg digest userId [] = tx_ret []"
| "catchUpEach pg digest userId ((shareId, vaultId) # ss) =
     tx_bind (catchUpShare pg digest (userId, vaultId) shareId) (\<lambda>cu.
     tx_bind (catchUpEach pg digest userId ss) (\<lambda>cus. tx_ret (cu # cus)))"

definition catchUpMember :: "pg \<Rightarrow> (string \<Rightarrow> string) \<Rightarrow> string \<Rightarrow> caught_up list tx" where
  "catchUpMember pg digest userId =
     reading (\<lambda>d. catchUpEach pg digest userId (map (\<lambda>m. (mb_share m, the (mb_vault m))) (sort_key mb_share
       (filter (\<lambda>m. mb_user m = userId \<and> LIVE m \<and> (case shareRow d (mb_share m) of None \<Rightarrow> False | Some s \<Rightarrow> sh_state s = ShareActive)) (db_members d)))))"

subsection \<open>Settling a freeze\<close>

record settled =
  st_frozen :: bool
  st_thawed :: "caught_up list option"

definition liftFreeze :: "pg \<Rightarrow> string \<Rightarrow> unit tx" where
  "liftFreeze pg userId =
     statement pg (\<lambda>d. d\<lparr>db_users := map (\<lambda>u. if us_id u = userId then u\<lparr>us_frozen_at := None\<rparr> else u) (db_users d)\<rparr>)"

definition settleFreeze :: "pg \<Rightarrow> (string \<Rightarrow> string) \<Rightarrow> string \<Rightarrow> settled tx" where
  "settleFreeze pg digest userId =
     reading (\<lambda>d. case headroom d userId of
        None \<Rightarrow> tx_ret \<lparr>st_frozen = False, st_thawed = None\<rparr>
      | Some room \<Rightarrow>
          if room < 0 then tx_bind (freezeIfOverQuota pg userId) (\<lambda>f. tx_ret \<lparr>st_frozen = f, st_thawed = None\<rparr>)
          else if \<not> isFrozen d userId then tx_ret \<lparr>st_frozen = False, st_thawed = None\<rparr>
          else tx_seq (liftFreeze pg userId)
            (tx_bind (catchUpMember pg digest userId) (\<lambda>thawed.
             tx_bind (tx_get (\<lambda>d. isFrozen d userId)) (\<lambda>f. tx_ret \<lparr>st_frozen = f, st_thawed = Some thawed\<rparr>))))"

subsection \<open>A catch-up writes in its own vault\<close>

definition away :: "string \<Rightarrow> string \<Rightarrow> db \<Rightarrow> (node_row list \<times> journal_row list \<times> version_row list) \<times> user_blob_row list \<times> share_row list \<times> member_row list" where
  "away v u d = ((filter (\<lambda>r. nr_vault r \<noteq> v) (db_nodes d), filter (\<lambda>j. jr_vault j \<noteq> v) (db_journal d), filter (\<lambda>x. vn_vault x \<noteq> v) (db_versions d)),
     filter (\<lambda>b. ub_user b \<noteq> u) (db_user_blobs d), db_shares d, db_members d)"

lemma filter_map_outside: "(\<And>x. x \<in> set xs \<Longrightarrow> P (f x) = P x) \<Longrightarrow> (\<And>x. x \<in> set xs \<Longrightarrow> P x \<Longrightarrow> f x = x) \<Longrightarrow> filter P (map f xs) = filter P xs"
  by (induction xs) auto

named_theorems own_writes

lemma away_next [own_writes]: "keeps (away v u) (nextRev pg v)"
  by (auto simp: keeps_def nextRev_def statement_def tx_bind_def tx_ret_def away_def split: option.splits)

lemma away_uuid [own_writes]: "keeps (away v u) (randomUUID pg)"
  by (auto simp: keeps_def randomUUID_def away_def)

lemma away_update: "(\<And>r. nr_vault (f r) = nr_vault r) \<Longrightarrow> keeps (away v u) (updateNode pg v n f)"
  unfolding keeps_def
proof (intro allI impI)
  fix d a d' assume f: "\<And>r. nr_vault (f r) = nr_vault r" and run: "updateNode pg v n f d = Inr (a, d')"
  then consider "d' = d" | "d' = setNode v n f d" by (auto simp: updateNode_def statement_def split: option.splits)
  then show "away v u d' = away v u d"
  proof cases
    case 2
    have "filter (\<lambda>r. nr_vault r \<noteq> v) (map (\<lambda>r. if nr_vault r = v \<and> nr_id r = n then f r else r) (db_nodes d)) = filter (\<lambda>r. nr_vault r \<noteq> v) (db_nodes d)"
      by (rule filter_map_outside) (auto simp: f)
    with 2 show ?thesis by (simp add: away_def setNode_def)
  qed simp
qed

lemma away_insert: "nr_vault r = v \<Longrightarrow> keeps (away v u) (insertNode pg r)"
  by (auto simp: keeps_def insertNode_def statement_def away_def split: option.splits)

lemma away_journal [own_writes]: "keeps (away v u) (journalEntry pg v rv n op prev)"
  by (auto simp: keeps_def journalEntry_def statement_def away_def Let_def split: option.splits)

lemma away_version [own_writes]: "keeps (away v u) (recordVersion pg v n rv sha sz au at)"
  by (auto simp: keeps_def recordVersion_def statement_def away_def split: option.splits if_splits)

lemma away_claim [own_writes]: "keeps (away v u) (claimBlob pg u sha)"
proof -
  have "filter (\<lambda>b. ub_user b \<noteq> u) (map (\<lambda>b. if ub_user b = u \<and> ub_sha b = sha then b\<lparr>ub_own := ub_own b + 1\<rparr> else b) bs) = filter (\<lambda>b. ub_user b \<noteq> u) bs" for bs :: "user_blob_row list"
    by (rule filter_map_outside) auto
  then show ?thesis
    unfolding claimBlob_def upsertBlob_def by (intro keeps_statement) (simp add: away_def)
qed

lemma away_rewrite [own_writes]: "keeps (away v u) (rewriteSubtreeAncestry pg v n anc)"
proof -
  have "filter (\<lambda>r. nr_vault r \<noteq> v) (map (\<lambda>r. if nr_vault r = v \<and> n \<in> set (nr_ancestry r)
       then r\<lparr>nr_ancestry := anc @ n # below n (nr_ancestry r)\<rparr> else r) rs) = filter (\<lambda>r. nr_vault r \<noteq> v) rs" for rs :: "node_row list"
    by (rule filter_map_outside) auto
  then show ?thesis unfolding rewriteSubtreeAncestry_def by (intro keeps_statement) (simp add: away_def)
qed

lemma away_freeze [own_writes]: "keeps (away v u) (freezeIfOverQuota pg w)"
  by (auto simp: keeps_def freezeIfOverQuota_def statement_def tx_bind_def tx_ret_def away_def split: option.splits if_splits)

lemma away_get [own_writes]: "keeps (away v u) (counterpartOf w item del)"
  unfolding counterpartOf_def by (rule keeps_intro)

lemma away_copy [own_writes]: "keeps (away v u) (copyVersions pg v u vs)"
  unfolding copyVersions_def by (intro keeps_intro own_writes)

lemma away_create [own_writes]: "keeps (away v u) (createCounterpart pg v s p i)"
  unfolding createCounterpart_def Let_def by (intro keeps_intro own_writes away_insert) simp

lemma away_move [own_writes]: "keeps (away v u) (moveCounterpart pg v n p nm un)"
  unfolding moveCounterpart_def Let_def by (intro keeps_intro own_writes away_update) simp

lemma away_reserve [own_writes]: "keeps (away v u) (reserveRevs pg v n)"
  by (induction n) (auto intro!: keeps_intro own_writes)

lemma away_trash [own_writes]: "keeps (away v u) (trashEach pg v ns mine cu)"
  by (induction ns arbitrary: mine cu) (auto intro!: keeps_intro own_writes away_update split: option.splits)

lemma away_aside [own_writes]: "keeps (away v u) (stepAside pg digest v mine ns)"
  by (induction ns) (auto intro!: keeps_intro own_writes away_update split: option.splits)

lemma away_place [own_writes]: "keeps (away v u) (placeNode pg v i node here placing parent arriving cu)"
  unfolding placeNode_def by (auto intro!: keeps_intro own_writes away_update split: option.splits prod.splits)

lemma away_deliver [own_writes]: "keeps (away v u) (deliverNode pg u v i node here placing parent history cu)"
  unfolding deliverNode_def Let_def by (auto intro!: keeps_intro own_writes split: prod.splits)

lemma away_placeEach [own_writes]: "keeps (away v u) (placeEach pg u v i mine owed ns cu)"
proof (induction ns arbitrary: cu)
  case Nil
  then show ?case by (auto intro: keeps_intro)
next
  case (Cons n ns)
  then show ?case
    by (auto simp: Let_def rename_def intro!: keeps_intro own_writes away_update split: option.splits)
qed

text \<open>C25. Catching a participant's copy up writes in the participant's own vault alone: the nodes, the journal and
  the versions of every other vault, the claims of every other account, and all shares and members stay as
  they are.\<close>

theorem catchUp_own_vault:
  assumes "catchUpShare pg digest (u, v) i d = Inr (cu, d')"
  shows "away v u d' = away v u d"
proof -
  have "keeps (away v u) (catchUpShare pg digest (u, v) i)"
    unfolding catchUpShare_def Let_def by (auto intro!: keeps_intro own_writes split: option.splits prod.splits)
  from keepsD [OF this assms] show ?thesis .
qed

subsection \<open>A level copy is left alone\<close>

definition levelWith :: "(string, replica_node) jmap \<Rightarrow> (string \<Rightarrow> version_row list) \<Rightarrow> source_node \<Rightarrow> bool" where
  "levelWith mine owed n \<longleftrightarrow> owed (ri_shareItemId n) = [] \<and>
     (case jget mine (ri_shareItemId n) of
        None \<Rightarrow> False
      | Some h \<Rightarrow> rn_deleted h = sn_deleted n \<and> (sn_deleted n \<or> \<not> placedElsewhere n h \<and> rn_sha256 h = ri_sha256 n))"

lemma trashEach_level: "(\<And>n. n \<in> set ns \<Longrightarrow> levelWith mine owed n) \<Longrightarrow> trashEach pg v ns mine cu d = Inr ((mine, cu), d)"
proof (induction ns)
  case Nil
  then show ?case by (simp add: tx_ret_def)
next
  case (Cons n ns)
  then have "levelWith mine owed n" "trashEach pg v ns mine cu d = Inr ((mine, cu), d)" by simp_all
  then show ?case by (auto simp: levelWith_def split: option.splits)
qed

lemma stepAside_level: "(\<And>n. n \<in> set ns \<Longrightarrow> levelWith mine owed n) \<Longrightarrow> stepAside pg digest v mine ns d = Inr ((), d)"
proof (induction ns)
  case Nil
  then show ?case by (simp add: tx_ret_def)
next
  case (Cons n ns)
  then have "levelWith mine owed n" "stepAside pg digest v mine ns d = Inr ((), d)" by simp_all
  then show ?case by (auto simp: levelWith_def split: option.splits)
qed

lemma deliverNode_level:
  assumes "levelWith mine owed n" "jget mine (ri_shareItemId n) = Some h"
  shows "deliverNode pg u v i n (Some h) False None [] cu d = Inr (cu, d)"
proof -
  have still: "(\<not> sn_deleted n \<and> ri_sha256 n \<noteq> None \<and> rn_sha256 h \<noteq> ri_sha256 n) = False" using assms by (auto simp: levelWith_def)
  show ?thesis
    unfolding deliverNode_def option.case still Let_def
    by (simp add: placeNode_def copyVersions_def tx_bind_def tx_ret_def tx_seq_def tx_when_def)
qed

lemma placeEach_level: "(\<And>n. n \<in> set ns \<Longrightarrow> levelWith mine owed n) \<Longrightarrow> placeEach pg u v i mine owed ns cu d = Inr (cu, d)"
proof (induction ns)
  case Nil
  then show ?case by (simp add: tx_ret_def)
next
  case (Cons n ns)
  then have l: "levelWith mine owed n" by simp
  then obtain h where h: "jget mine (ri_shareItemId n) = Some h" "owed (ri_shareItemId n) = []"
    and still: "(\<not> sn_deleted n \<and> (rn_deleted h \<or> placedElsewhere n h)) = False"
    by (auto simp: levelWith_def split: option.splits)
  have here: "(Some h = None \<and> sn_deleted n) = False" by simp
  from Cons have "placeEach pg u v i mine owed ns cu d = Inr (cu, d)" by simp
  with deliverNode_level [OF l h(1)] show ?case
    unfolding placeEach.simps Let_def h option.case still here if_False by (simp add: tx_bind_def tx_ret_def)
qed

text \<open>C26. A copy that is level with its source is not written to at all: when every item of the source is there in
  the same state, place and content with no version missing, catching up changes nothing.\<close>

theorem catchUp_level:
  assumes "sourceOf d i v = Some source" "headroom d u = Some room" "0 \<le> room"
    and "\<And>n. n \<in> set (subtreeOf d source i) \<Longrightarrow> Some (ri_shareItemId n) \<noteq> map_option sh_root_item (shareRow d i) \<Longrightarrow>
      levelWith (replicaIndex d v i) (historyOwed d source v i (map_option sh_root_item (shareRow d i))) n"
  shows "catchUpShare pg digest (u, v) i d =
    Inr (\<lparr>cu_shareId = i, cu_created = 0, cu_updated = 0, cu_moved = 0, cu_restored = 0, cu_deleted = 0, cu_versions = 0\<rparr>, d)"
proof -
  define theirs where "theirs = filter (\<lambda>n. Some (ri_shareItemId n) \<noteq> map_option sh_root_item (shareRow d i)) (subtreeOf d source i)"
  have level: "\<And>n. n \<in> set theirs \<Longrightarrow> levelWith (replicaIndex d v i) (historyOwed d source v i (map_option sh_root_item (shareRow d i))) n"
    using assms(4) by (auto simp: theirs_def)
  have "freezeIfOverQuota pg u d = Inr (False, d)"
    using assms(2,3) by (auto simp: freezeIfOverQuota_def headroom_def)
  then show ?thesis
    using trashEach_level [OF level] stepAside_level [OF level] placeEach_level [OF level]
    unfolding catchUpShare_def reading_def theirs_def [symmetric] Let_def assms(1)
    by (simp add: assms(1) tx_bind_def tx_seq_def tx_ret_def flip: theirs_def)
qed

subsection \<open>A freeze that cannot be settled\<close>

text \<open>A note that has one version, a participant who joins later, and is frozen later still.\<close>

definition datedStore :: db where
  "datedStore = invitedStore\<lparr>db_now := 1000, db_versions := [\<lparr>vn_vault = ''A'', vn_node = ''n'', vn_rev = 3, vn_sha = ''h1'', vn_size = 1, vn_author = ''ann'', vn_at = 0\<rparr>]\<rparr>"

definition lateStore :: db where "lateStore = snd (joinShare openPg ''bob'' ''share'' exJoin datedStore)"

definition freezeOf :: "string \<Rightarrow> db \<Rightarrow> db" where
  "freezeOf u d = d\<lparr>db_users := map (\<lambda>r. if us_id r = u then r\<lparr>us_frozen_at := Some (db_now d)\<rparr> else r) (db_users d)\<rparr>"

text \<open>A participant whose account was frozen after joining can be locked out of thawing: the copy's version
  is dated by the join and not by the write, so the thaw takes the source's version for one that is owed, writes
  it above the revision of the node, which does not change, and the deferred check refuses the whole
  transaction, although the account is far below its limit.\<close>

lemma thaw_fails_after_join:
  "fst (joinShare openPg ''bob'' ''share'' exJoin datedStore) = Done ''u0'' \<and>
   headroom (freezeOf ''bob'' lateStore) ''bob'' = Some 99 \<and>
   fst (plainTx openPg (settleFreeze openPg digest ''bob'') (freezeOf ''bob'' lateStore)) = Inl (Database (CheckViolation ''revision beyond the head revision''))"
proof (intro conjI)
  show "fst (joinShare openPg ''bob'' ''share'' exJoin datedStore) = Done ''u0''" by code_simp
  show "headroom (freezeOf ''bob'' lateStore) ''bob'' = Some 99" by code_simp
  have "case fst (plainTx openPg (settleFreeze openPg digest ''bob'') (freezeOf ''bob'' lateStore)) of
      Inl e \<Rightarrow> e = Database (CheckViolation ''revision beyond the head revision'') | Inr _ \<Rightarrow> False"
    by code_simp
  then show "fst (plainTx openPg (settleFreeze openPg digest ''bob'') (freezeOf ''bob'' lateStore)) = Inl (Database (CheckViolation ''revision beyond the head revision''))"
    by (simp split: sum.splits)
qed

subsection \<open>Examples\<close>

text \<open>Bob's copy, just joined, is level with Ann's.\<close>

theorem catchUp_level_witness:
  "catchUpShare openPg (\<lambda>u. u) (''bob'', ''B'') ''share'' joinedStore =
    Inr (\<lparr>cu_shareId = ''share'', cu_created = 0, cu_updated = 0, cu_moved = 0, cu_restored = 0, cu_deleted = 0, cu_versions = 0\<rparr>, joinedStore)"
proof (rule catchUp_level)
  show "sourceOf joinedStore ''share'' ''B'' = Some ''A''" by code_simp
  show "headroom joinedStore ''bob'' = Some 99" by code_simp
  have "list_all (\<lambda>n. Some (ri_shareItemId n) = map_option sh_root_item (shareRow joinedStore ''share'') \<or>
      levelWith (replicaIndex joinedStore ''B'' ''share'') (historyOwed joinedStore ''A'' ''B'' ''share'' (map_option sh_root_item (shareRow joinedStore ''share''))) n)
    (subtreeOf joinedStore ''A'' ''share'')" by code_simp
  then show "levelWith (replicaIndex joinedStore ''B'' ''share'') (historyOwed joinedStore ''A'' ''B'' ''share'' (map_option sh_root_item (shareRow joinedStore ''share''))) n"
    if "n \<in> set (subtreeOf joinedStore ''A'' ''share'')" "Some (ri_shareItemId n) \<noteq> map_option sh_root_item (shareRow joinedStore ''share'')" for n
    using that by (auto simp: list_all_iff)
qed simp

definition caughtStore :: db where
  "caughtStore = (case catchUpShare openPg (\<lambda>u. u) (''bob'', ''B'') ''share'' exStore of Inl _ \<Rightarrow> exStore | Inr (_, d) \<Rightarrow> d)"

definition caughtReport :: caught_up where
  "caughtReport = \<lparr>cu_shareId = ''share'', cu_created = 0, cu_updated = 0, cu_moved = 1, cu_restored = 0, cu_deleted = 0, cu_versions = 0\<rparr>"

lemma caughtStore_runs: "catchUpShare openPg (\<lambda>u. u) (''bob'', ''B'') ''share'' exStore = Inr (caughtReport, caughtStore)"
proof -
  have "case catchUpShare openPg (\<lambda>u. u) (''bob'', ''B'') ''share'' exStore of Inl _ \<Rightarrow> False | Inr (cu, _) \<Rightarrow> cu = caughtReport"
    by code_simp
  then show ?thesis by (auto simp: caughtStore_def split: sum.splits prod.splits)
qed

theorem catchUp_own_vault_witness: "away ''B'' ''bob'' caughtStore = away ''B'' ''bob'' exStore"
  by (rule catchUp_own_vault [OF caughtStore_runs])

end
