(* ===== verification/Server_Retention.thy ===== *)
theory Server_Retention
  imports Server_Blobs Server_Delta
begin

text \<open>
  What the server forgets: the removal of a set of nodes from the deepest up (\<open>nodes/remove.ts\<close>), the
  retention ladder, the spent trash, the claims and the marks (\<open>retention.ts\<close>), and the collector's pass
  over them (\<open>collector.ts\<close>). Days and weeks are those of UTC. The advisory lock, the sweep of old temporary
  files and the list of sync problems are left out.
\<close>

subsection \<open>Removing a set of nodes\<close>

record doomed =
  dm_id :: string
  dm_vaultId :: string
  dm_depth :: nat

definition doomedRow :: "node_row \<Rightarrow> doomed" where
  "doomedRow r = \<lparr>dm_id = nr_id r, dm_vaultId = nr_vault r, dm_depth = length (nr_ancestry r)\<rparr>"

fun levelLoop :: "nat option \<Rightarrow> doomed list list \<Rightarrow> doomed list \<Rightarrow> doomed list list" where
  "levelLoop at ls [] = ls"
| "levelLoop at ls (row # rows) =
     (let ls = (if Some (dm_depth row) \<noteq> at then ls @ [[]] else ls)
      in levelLoop (Some (dm_depth row)) (butlast ls @ [last ls @ [row]]) rows)"

definition byDepth :: "doomed list \<Rightarrow> doomed list list" where
  "byDepth rows = levelLoop None [] (sort_key (\<lambda>r. - int (dm_depth r)) rows)"

definition named :: "doomed list \<Rightarrow> string \<Rightarrow> string \<Rightarrow> bool" where
  "named ds v n \<longleftrightarrow> list_ex (\<lambda>m. dm_vaultId m = v \<and> dm_id m = n) ds"

definition dropNodes :: "doomed list \<Rightarrow> db \<Rightarrow> db" where
  "dropNodes ds d =
     d\<lparr>db_nodes := filter (\<lambda>r. \<not> named ds (nr_vault r) (nr_id r)) (db_nodes d),
       db_versions := filter (\<lambda>v. \<not> named ds (vn_vault v) (vn_node v)) (db_versions d)\<rparr>"

text \<open>The two references to a node that a delete meets: a child's to its parent, which is refused even when
  the child goes in the same statement (\<open>nodes/remove.ts\<close>), and a share's to its root, whatever the
  state of the share.\<close>

definition deleteNodes :: "pg \<Rightarrow> doomed list \<Rightarrow> nat tx" where
  "deleteNodes pg ds =
     (\<lambda>d. let gone = filter (\<lambda>r. named ds (nr_vault r) (nr_id r)) (db_nodes d)
          in if list_ex (\<lambda>c. list_ex (\<lambda>r. nr_vault r = nr_vault c \<and> nr_parent c = Some (nr_id r)) gone) (db_nodes d)
             then Inl (Database (ForeignKeyViolation ''nodes_vault_id_parent_id_fkey''))
             else if list_ex (\<lambda>s. list_ex (\<lambda>r. nr_vault r = sh_vault s \<and> nr_id r = sh_node s) gone) (db_shares d)
             then Inl (Database (ForeignKeyViolation ''shares_initiator_vault_id_subtree_node_id_fkey''))
             else tx_bind (statement pg (dropNodes ds)) (\<lambda>_. tx_ret (length gone)) d)"

fun removeLevels :: "pg \<Rightarrow> doomed list list \<Rightarrow> nat \<Rightarrow> nat tx" where
  "removeLevels pg [] removed = tx_ret removed"
| "removeLevels pg (level # ls) removed = tx_bind (deleteNodes pg level) (\<lambda>n. removeLevels pg ls (removed + n))"

definition removeNodesByDepth :: "pg \<Rightarrow> doomed list \<Rightarrow> nat tx" where
  "removeNodesByDepth pg ds = removeLevels pg (byDepth ds) 0"

subsection \<open>The ladder\<close>

definition dayOf :: "nat \<Rightarrow> nat" where "dayOf at = at div day"

text \<open>Weeks begin on Mondays; the clock began on a Thursday.\<close>

definition weekOf :: "nat \<Rightarrow> nat" where "weekOf at = (dayOf at + 3) div 7"

definition sameNode :: "version_row \<Rightarrow> version_row \<Rightarrow> bool" where
  "sameNode v w \<longleftrightarrow> vn_vault v = vn_vault w \<and> vn_node v = vn_node w"

definition isHead :: "db \<Rightarrow> version_row \<Rightarrow> bool" where
  "isHead d v \<longleftrightarrow>
     (case nodeRow d (vn_vault v) (vn_node v) of
        None \<Rightarrow> False
      | Some n \<Rightarrow> nr_deleted n = None \<and> list_all (\<lambda>w. sameNode v w \<longrightarrow> vn_rev w \<le> vn_rev v) (db_versions d))"

definition newestOf :: "(nat \<Rightarrow> nat) \<Rightarrow> db \<Rightarrow> version_row \<Rightarrow> bool" where
  "newestOf period d v \<longleftrightarrow>
     list_all (\<lambda>w. sameNode v w \<and> period (vn_at w) = period (vn_at v) \<longrightarrow> vn_rev w \<le> vn_rev v) (db_versions d)"

definition historyDays :: "db \<Rightarrow> string \<Rightarrow> nat option" where
  "historyDays d v = Option.bind (vaultRow d v) (\<lambda>va. map_option us_history_days (userRow d (vr_user va)))"

definition thinned :: "db \<Rightarrow> version_row \<Rightarrow> bool" where
  "thinned d v \<longleftrightarrow>
     (let age = db_now d - vn_at v
      in case historyDays d (vn_vault v) of
           None \<Rightarrow> False
         | Some keep \<Rightarrow>
             nodeRow d (vn_vault v) (vn_node v) \<noteq> None \<and> \<not> isHead d v \<and> age \<ge> 7 * day \<and>
             \<not> (age < 30 * day \<and> newestOf dayOf d v) \<and> \<not> (age < keep * day \<and> newestOf weekOf d v))"

definition thinVersions :: "pg \<Rightarrow> nat tx" where
  "thinVersions pg =
     (\<lambda>d. tx_bind (statement pg (\<lambda>d. d\<lparr>db_versions := filter (\<lambda>v. \<not> thinned d v) (db_versions d)\<rparr>))
        (\<lambda>_. tx_ret (length (filter (thinned d) (db_versions d)))) d)"

definition hasVersion :: "db \<Rightarrow> node_row \<Rightarrow> bool" where
  "hasVersion d n \<longleftrightarrow> list_ex (\<lambda>v. vn_vault v = nr_vault n \<and> vn_node v = nr_id n) (db_versions d)"

definition spentTrash :: "db \<Rightarrow> node_row \<Rightarrow> bool" where
  "spentTrash d n \<longleftrightarrow> nr_deleted n \<noteq> None \<and> \<not> hasVersion d n \<and>
     \<not> list_ex (\<lambda>c. nr_vault c = nr_vault n \<and> nr_parent c = Some (nr_id n)) (db_nodes d)"

definition removeSpentTrash :: "pg \<Rightarrow> nat tx" where
  "removeSpentTrash pg = (\<lambda>d. removeNodesByDepth pg (map doomedRow (filter (spentTrash d) (db_nodes d))) d)"

subsection \<open>Claims and marks\<close>

definition dropSpentClaims :: "pg \<Rightarrow> nat tx" where
  "dropSpentClaims pg =
     (\<lambda>d. let spent = (\<lambda>b. ub_pending b = 0 \<and> \<not> Server_Ledger.referenced d (ub_user b) (ub_sha b))
          in tx_bind (statement pg (\<lambda>d. d\<lparr>db_user_blobs := filter (\<lambda>b. \<not> spent b) (db_user_blobs d)\<rparr>))
               (\<lambda>_. tx_ret (length (filter spent (db_user_blobs d)))) d)"

definition REFERENCED :: "db \<Rightarrow> string \<Rightarrow> bool" where
  "REFERENCED d sha \<longleftrightarrow> list_ex (\<lambda>u. ub_sha u = sha) (db_user_blobs d) \<or> list_ex (\<lambda>n. nr_sha n = Some sha) (db_nodes d) \<or>
     list_ex (\<lambda>v. vn_sha v = sha) (db_versions d)"

definition updateBlobs :: "pg \<Rightarrow> (db \<Rightarrow> blob_row \<Rightarrow> bool) \<Rightarrow> (db \<Rightarrow> blob_row \<Rightarrow> blob_row) \<Rightarrow> nat tx" where
  "updateBlobs pg which f =
     (\<lambda>d. tx_bind (statement pg (\<lambda>d. d\<lparr>db_blobs := map (\<lambda>b. if which d b then f d b else b) (db_blobs d)\<rparr>))
        (\<lambda>_. tx_ret (length (filter (which d) (db_blobs d)))) d)"

definition markUnreferenced :: "pg \<Rightarrow> (nat \<times> nat) tx" where
  "markUnreferenced pg =
     tx_bind (updateBlobs pg (\<lambda>d b. bl_marked b \<noteq> None \<and> REFERENCED d (bl_sha b)) (\<lambda>d b. b\<lparr>bl_marked := None\<rparr>)) (\<lambda>unmarked.
     tx_bind (updateBlobs pg (\<lambda>d b. bl_marked b = None \<and> \<not> REFERENCED d (bl_sha b)) (\<lambda>d b. b\<lparr>bl_marked := Some (db_now d)\<rparr>)) (\<lambda>marked.
     tx_ret (marked, unmarked)))"

subsection \<open>A pass of the collector\<close>

record collected =
  co_versionsThinned :: nat
  co_trashRemoved :: nat
  co_claimsDropped :: nat
  co_blobsMarked :: nat
  co_blobsUnmarked :: nat
  co_unboundDropped :: nat
  co_pendingCleared :: nat
  co_blobsRemoved :: nat
  co_journalPruned :: nat
  co_skipped :: bool

definition EMPTY :: collected where
  "EMPTY = \<lparr>co_versionsThinned = 0, co_trashRemoved = 0, co_claimsDropped = 0, co_blobsMarked = 0, co_blobsUnmarked = 0,
     co_unboundDropped = 0, co_pendingCleared = 0, co_blobsRemoved = 0, co_journalPruned = 0, co_skipped = False\<rparr>"

record collector_limits =
  cl_unboundBlobTtlSeconds :: nat
  cl_gcQuarantineSeconds :: nat
  cl_journalTtlSeconds :: nat

type_synonym 'a pass = "intake \<Rightarrow> (tx_error + 'a) \<times> intake"

definition pass_bind :: "'a pass \<Rightarrow> ('a \<Rightarrow> 'b pass) \<Rightarrow> 'b pass" where
  "pass_bind m f = (\<lambda>ik. case m ik of (Inl e, ik') \<Rightarrow> (Inl e, ik') | (Inr a, ik') \<Rightarrow> f a ik')"

definition inTx :: "pg \<Rightarrow> 'a tx \<Rightarrow> 'a pass" where
  "inTx pg m = (\<lambda>ik. case plainTx pg m (ik_db ik) of (r, d) \<Rightarrow> (r, ik\<lparr>ik_db := d\<rparr>))"

definition ageAndSpend :: "pg \<Rightarrow> (nat \<times> nat) tx" where
  "ageAndSpend pg = tx_bind (thinVersions pg) (\<lambda>v. tx_bind (removeSpentTrash pg) (\<lambda>t. tx_ret (v, t)))"

definition staleClaim :: "nat \<Rightarrow> db \<Rightarrow> user_blob_row \<Rightarrow> bool" where
  "staleClaim ttl d b \<longleftrightarrow> ub_pending b > 0 \<and> (case ub_since b of None \<Rightarrow> False | Some t \<Rightarrow> t + ttl * second < db_now d)"

definition dropUnbound :: "pg \<Rightarrow> nat \<Rightarrow> nat tx" where
  "dropUnbound pg ttl =
     (\<lambda>d. let stale = (\<lambda>b. ub_own b = 0 \<and> staleClaim ttl d b)
          in tx_bind (statement pg (\<lambda>d. d\<lparr>db_user_blobs := filter (\<lambda>b. \<not> stale b) (db_user_blobs d)\<rparr>))
               (\<lambda>_. tx_ret (length (filter stale (db_user_blobs d)))) d)"

definition clearPending :: "pg \<Rightarrow> nat \<Rightarrow> nat tx" where
  "clearPending pg ttl =
     (\<lambda>d. let stale = (\<lambda>b. ub_own b > 0 \<and> staleClaim ttl d b)
          in tx_bind (statement pg (\<lambda>d. d\<lparr>db_user_blobs :=
                 map (\<lambda>b. if stale b then b\<lparr>ub_pending := 0, ub_since := None, ub_device := None\<rparr> else b) (db_user_blobs d)\<rparr>))
               (\<lambda>_. tx_ret (length (filter stale (db_user_blobs d)))) d)"

definition claimsAndMarks :: "pg \<Rightarrow> (nat \<times> nat \<times> nat) tx" where
  "claimsAndMarks pg = tx_bind (dropSpentClaims pg) (\<lambda>n. tx_bind (markUnreferenced pg) (\<lambda>m. tx_ret (n, m)))"

text \<open>The envelopes and tags of a blob go with its row.\<close>

definition deleteOrphans :: "pg \<Rightarrow> nat \<Rightarrow> string list tx" where
  "deleteOrphans pg quarantine =
     (\<lambda>d. let orphan = (\<lambda>b. (case bl_marked b of None \<Rightarrow> False | Some t \<Rightarrow> t + quarantine * second < db_now d) \<and> \<not> REFERENCED d (bl_sha b))
          in tx_bind (statement pg (\<lambda>d. d\<lparr>db_blobs := filter (\<lambda>b. \<not> orphan b) (db_blobs d),
                 db_blob_keys := filter (\<lambda>k. fst (fst k) \<notin> bl_sha ` set (filter orphan (db_blobs d))) (db_blob_keys d),
                 db_dedup := filter (\<lambda>t. snd t \<notin> bl_sha ` set (filter orphan (db_blobs d))) (db_dedup d)\<rparr>))
               (\<lambda>_. tx_ret (map bl_storageKey (filter orphan (db_blobs d)))) d)"

text \<open>What other requests do between the commit that deleted the rows and the look at who claimed them again
  is \<open>meanwhile\<close>.\<close>

definition removeFiles :: "(intake \<Rightarrow> intake) \<Rightarrow> string list \<Rightarrow> nat pass" where
  "removeFiles meanwhile orphans =
     (\<lambda>ik. let ik = meanwhile ik;
               claimed = filter (\<lambda>k. k \<in> set orphans) (map bl_storageKey (db_blobs (ik_db ik)));
               doomed = filter (\<lambda>k. k \<notin> set claimed) orphans
           in (Inr (length doomed), ik\<lparr>ik_store := fold store_remove doomed (ik_store ik)\<rparr>))"

definition pruneOld :: "pg \<Rightarrow> nat \<Rightarrow> nat tx" where
  "pruneOld pg ttl = (\<lambda>d. tx_bind (statement pg (pruneJournal ttl)) (\<lambda>_. tx_ret (length (db_journal d) - length (db_journal (pruneJournal ttl d)))) d)"

definition sweep :: "pg \<Rightarrow> collector_limits \<Rightarrow> (intake \<Rightarrow> intake) \<Rightarrow> collected pass" where
  "sweep pg cfg meanwhile =
     pass_bind (inTx pg (ageAndSpend pg)) (\<lambda>(versionsThinned, trashRemoved).
     pass_bind (inTx pg (dropUnbound pg (cl_unboundBlobTtlSeconds cfg))) (\<lambda>unbound.
     pass_bind (inTx pg (clearPending pg (cl_unboundBlobTtlSeconds cfg))) (\<lambda>cleared.
     pass_bind (inTx pg (claimsAndMarks pg)) (\<lambda>(claimsDropped, marked, unmarked).
     pass_bind (inTx pg (deleteOrphans pg (cl_gcQuarantineSeconds cfg))) (\<lambda>orphans.
     pass_bind (removeFiles meanwhile orphans) (\<lambda>filesRemoved.
     pass_bind (inTx pg (pruneOld pg (cl_journalTtlSeconds cfg))) (\<lambda>pruned.
     (\<lambda>ik. (Inr \<lparr>co_versionsThinned = versionsThinned, co_trashRemoved = trashRemoved, co_claimsDropped = claimsDropped,
        co_blobsMarked = marked, co_blobsUnmarked = unmarked, co_unboundDropped = unbound, co_pendingCleared = cleared,
        co_blobsRemoved = filesRemoved, co_journalPruned = pruned, co_skipped = False\<rparr>, ik)))))))))"

definition runCollector :: "pg \<Rightarrow> collector_limits \<Rightarrow> (intake \<Rightarrow> intake) \<Rightarrow> bool \<Rightarrow> collected pass" where
  "runCollector pg cfg meanwhile free =
     (if free then sweep pg cfg meanwhile else (\<lambda>ik. (Inr (EMPTY\<lparr>co_skipped := True\<rparr>), ik)))"

subsection \<open>From the deepest up\<close>

definition levelled :: "doomed list list \<Rightarrow> bool" where
  "levelled ls \<longleftrightarrow> (\<forall>l\<in>set ls. \<forall>x\<in>set l. \<forall>y\<in>set l. dm_depth y \<le> dm_depth x) \<and>
     sorted_wrt (\<lambda>a b. \<forall>x\<in>set a. \<forall>y\<in>set b. dm_depth y < dm_depth x) ls"

lemma levelLoop_levels:
  assumes "sorted_wrt (\<lambda>a b. dm_depth b \<le> dm_depth a) rows" "\<forall>x\<in>set rows. dm_depth x \<le> k"
    and "\<forall>x\<in>set l. dm_depth x = k" "\<forall>m\<in>set init. \<forall>x\<in>set m. k < dm_depth x" "levelled init"
  shows "levelled (levelLoop (Some k) (init @ [l]) rows) \<and> concat (levelLoop (Some k) (init @ [l]) rows) = concat init @ l @ rows"
  using assms
proof (induction rows arbitrary: k l init)
  case Nil
  then show ?case by (auto simp: levelled_def sorted_wrt_append)
next
  case (Cons row rows)
  show ?case
  proof (cases "dm_depth row = k")
    case True
    with Cons.prems show ?thesis using Cons.IH [of k "l @ [row]" init] by simp
  next
    case False
    then have less: "dm_depth row < k" using Cons.prems(2) by force
    have "levelled (init @ [l])" using Cons.prems(3-5) unfolding levelled_def sorted_wrt_append by simp
    moreover have "\<forall>m\<in>set (init @ [l]). \<forall>x\<in>set m. dm_depth row < dm_depth x"
      using less Cons.prems(3,4) by (simp add: ball_Un) (meson less_trans)
    moreover have "sorted_wrt (\<lambda>a b. dm_depth b \<le> dm_depth a) rows" "\<forall>x\<in>set rows. dm_depth x \<le> dm_depth row"
      using Cons.prems(1) by simp_all
    ultimately have "levelled (levelLoop (Some (dm_depth row)) ((init @ [l]) @ [[row]]) rows) \<and>
        concat (levelLoop (Some (dm_depth row)) ((init @ [l]) @ [[row]]) rows) = concat (init @ [l]) @ [row] @ rows"
      by (intro Cons.IH) simp_all
    moreover have "levelLoop (Some k) (init @ [l]) (row # rows) = levelLoop (Some (dm_depth row)) ((init @ [l]) @ [[row]]) rows"
      using False by (simp add: Let_def butlast_append)
    ultimately show ?thesis by (simp only: concat_append concat.simps append_assoc append_Cons append_Nil append_Nil2) 
  qed
qed

lemma byDepth_levels: "levelled (byDepth ds) \<and> set (concat (byDepth ds)) = set ds"
proof -
  define rows where "rows = sort_key (\<lambda>r. - int (dm_depth r)) ds"
  have sorted: "sorted_wrt (\<lambda>a b. dm_depth b \<le> dm_depth a) rows"
    using sorted_sort_key [of "\<lambda>r. - int (dm_depth r)" ds] by (simp add: rows_def sorted_map)
  have same: "set rows = set ds" by (simp add: rows_def)
  show ?thesis
  proof (cases rows)
    case Nil
    then show ?thesis using same by (simp add: byDepth_def rows_def [symmetric] levelled_def)
  next
    case (Cons row rest)
    have "sorted_wrt (\<lambda>a b. dm_depth b \<le> dm_depth a) rest" "\<forall>x\<in>set rest. dm_depth x \<le> dm_depth row"
      using sorted Cons by simp_all
    then have "levelled (levelLoop (Some (dm_depth row)) ([] @ [[row]]) rest) \<and>
        concat (levelLoop (Some (dm_depth row)) ([] @ [[row]]) rest) = concat [] @ [row] @ rest"
      by (rule levelLoop_levels) (simp_all add: levelled_def)
    with Cons have "levelled (levelLoop (Some (dm_depth row)) [[row]] rest) \<and> concat (levelLoop (Some (dm_depth row)) [[row]] rest) = rows"
      unfolding append_Nil concat.simps append_Cons by metis
    moreover have "byDepth ds = levelLoop (Some (dm_depth row)) [[row]] rest" using Cons by (simp add: byDepth_def rows_def [symmetric])
    ultimately show ?thesis using same by (simp del: set_concat)
  qed
qed

lemma named_append [simp]: "named (a @ b) v n \<longleftrightarrow> named a v n \<or> named b v n"
  by (simp add: named_def)

lemma named_set: "set a = set b \<Longrightarrow> named a = named b"
  by (simp add: named_def list_ex_iff fun_eq_iff)

lemma dropNodes_append: "dropNodes b (dropNodes a d) = dropNodes (a @ b) d"
  by (simp add: dropNodes_def conj_commute cong: filter_cong)

text \<open>Parents are above their children, and a doomed set that takes the children with their parents and no
  root of a share goes level by level without meeting a reference.\<close>

definition removable :: "db \<Rightarrow> doomed list \<Rightarrow> bool" where
  "removable d ds \<longleftrightarrow>
     (\<forall>r\<in>set (db_nodes d). \<forall>m\<in>set ds. dm_vaultId m = nr_vault r \<and> dm_id m = nr_id r \<longrightarrow> dm_depth m = length (nr_ancestry r)) \<and>
     (\<forall>c\<in>set (db_nodes d). \<forall>q\<in>set (db_nodes d). nr_vault q = nr_vault c \<and> nr_parent c = Some (nr_id q) \<longrightarrow>
        length (nr_ancestry c) = Suc (length (nr_ancestry q)) \<and>
        (named ds (nr_vault q) (nr_id q) \<longrightarrow> named ds (nr_vault c) (nr_id c))) \<and>
     (\<forall>s\<in>set (db_shares d). \<forall>r\<in>set (db_nodes d). nr_vault r = sh_vault s \<and> nr_id r = sh_node s \<longrightarrow> \<not> named ds (nr_vault r) (nr_id r))"

lemma removableD:
  assumes "removable d ds"
  shows "r \<in> set (db_nodes d) \<Longrightarrow> m \<in> set ds \<Longrightarrow> dm_vaultId m = nr_vault r \<Longrightarrow> dm_id m = nr_id r \<Longrightarrow> dm_depth m = length (nr_ancestry r)"
    and "c \<in> set (db_nodes d) \<Longrightarrow> q \<in> set (db_nodes d) \<Longrightarrow> nr_vault q = nr_vault c \<Longrightarrow> nr_parent c = Some (nr_id q) \<Longrightarrow>
      length (nr_ancestry c) = Suc (length (nr_ancestry q)) \<and> (named ds (nr_vault q) (nr_id q) \<longrightarrow> named ds (nr_vault c) (nr_id c))"
    and "s \<in> set (db_shares d) \<Longrightarrow> r \<in> set (db_nodes d) \<Longrightarrow> nr_vault r = sh_vault s \<Longrightarrow> nr_id r = sh_node s \<Longrightarrow> \<not> named ds (nr_vault r) (nr_id r)"
  using assms unfolding removable_def by blast+

lemma removable_drop:
  assumes "removable d (l @ ds)"
  shows "removable (dropNodes l d) ds"
proof -
  have sub: "r \<in> set (db_nodes d) \<and> \<not> named l (nr_vault r) (nr_id r)" if "r \<in> set (db_nodes (dropNodes l d))" for r
    using that by (simp add: dropNodes_def)
  have shares: "db_shares (dropNodes l d) = db_shares d" by (simp add: dropNodes_def)
  show ?thesis unfolding removable_def shares
  proof (intro conjI ballI impI)
    fix r m assume "r \<in> set (db_nodes (dropNodes l d))" "m \<in> set ds" "dm_vaultId m = nr_vault r \<and> dm_id m = nr_id r"
    with sub removableD(1) [OF assms, of r m] show "dm_depth m = length (nr_ancestry r)" by simp
  next
    fix c q assume "c \<in> set (db_nodes (dropNodes l d))" "q \<in> set (db_nodes (dropNodes l d))" "nr_vault q = nr_vault c \<and> nr_parent c = Some (nr_id q)"
    with sub removableD(2) [OF assms, of c q] show "length (nr_ancestry c) = Suc (length (nr_ancestry q))" by simp
  next
    fix c q assume cq: "c \<in> set (db_nodes (dropNodes l d))" "q \<in> set (db_nodes (dropNodes l d))" "nr_vault q = nr_vault c \<and> nr_parent c = Some (nr_id q)"
      "named ds (nr_vault q) (nr_id q)"
    with sub removableD(2) [OF assms, of c q] have "named (l @ ds) (nr_vault c) (nr_id c)" by simp
    with sub [OF cq(1)] show "named ds (nr_vault c) (nr_id c)" by simp
  next
    fix s r assume "s \<in> set (db_shares d)" "r \<in> set (db_nodes (dropNodes l d))" "nr_vault r = sh_vault s \<and> nr_id r = sh_node s"
    with sub removableD(3) [OF assms, of s r] show "\<not> named ds (nr_vault r) (nr_id r)" by simp
  qed
qed

lemma deepest_free:
  assumes "removable d (l @ concat ls)" "levelled (l # ls)"
    and c: "c \<in> set (db_nodes d)" and q: "q \<in> set (db_nodes d)" "nr_vault q = nr_vault c" "nr_parent c = Some (nr_id q)"
  shows "\<not> named l (nr_vault q) (nr_id q)"
proof
  assume "named l (nr_vault q) (nr_id q)"
  then obtain x where x: "x \<in> set l" "dm_vaultId x = nr_vault q" "dm_id x = nr_id q" by (auto simp: named_def list_ex_iff)
  have child: "named (l @ concat ls) (nr_vault c) (nr_id c)" "length (nr_ancestry c) = Suc (length (nr_ancestry q))"
    using removableD(2) [OF assms(1) c q] \<open>named l _ _\<close> by simp_all
  then obtain y where y: "y \<in> set (l @ concat ls)" "dm_vaultId y = nr_vault c" "dm_id y = nr_id c" by (auto simp: named_def list_ex_iff)
  have "dm_depth x = length (nr_ancestry q)" "dm_depth y = length (nr_ancestry c)"
    using removableD(1) [OF assms(1) q(1), of x] removableD(1) [OF assms(1) c, of y] x y by simp_all
  moreover have "dm_depth y \<le> dm_depth x"
  proof (cases "y \<in> set l")
    case True
    with x(1) assms(2) show ?thesis unfolding levelled_def by simp
  next
    case False
    with y(1) obtain k where "k \<in> set ls" "y \<in> set k" by auto
    with x(1) assms(2) have "dm_depth y < dm_depth x" unfolding levelled_def by simp
    then show ?thesis by simp
  qed
  ultimately show False using child(2) by simp
qed

lemma removeLevels_free:
  assumes "\<forall>d d'. pg_statement pg d d' = None"
  shows "removable d (concat ls) \<Longrightarrow> levelled ls \<Longrightarrow>
    \<exists>n. removeLevels pg ls k d = Inr (n, dropNodes (concat ls) d)"
proof (induction ls arbitrary: d k)
  case Nil
  then show ?case by (simp add: tx_ret_def dropNodes_def named_def)
next
  case (Cons l ls)
  from deepest_free [of d l ls] Cons.prems have free: "\<not> list_ex (\<lambda>c. list_ex (\<lambda>r. nr_vault r = nr_vault c \<and> nr_parent c = Some (nr_id r))
      (filter (\<lambda>r. named l (nr_vault r) (nr_id r)) (db_nodes d))) (db_nodes d)"
    by (auto simp: list_ex_iff)
  have roots: "\<not> list_ex (\<lambda>s. list_ex (\<lambda>r. nr_vault r = sh_vault s \<and> nr_id r = sh_node s)
      (filter (\<lambda>r. named l (nr_vault r) (nr_id r)) (db_nodes d))) (db_shares d)"
    using removableD(3) [OF Cons.prems(1)] by (auto simp: list_ex_iff)
  have one: "\<exists>n. deleteNodes pg l d = Inr (n, dropNodes l d)"
    using free roots assms unfolding deleteNodes_def Let_def by (simp add: tx_bind_def statement_def tx_ret_def)
  then obtain n where n: "deleteNodes pg l d = Inr (n, dropNodes l d)" by blast
  have "levelled ls" using Cons.prems(2) by (simp add: levelled_def)
  with Cons.IH [of "dropNodes l d" "k + n"] removable_drop [of d l "concat ls"] Cons.prems(1) show ?case
    by (simp add: n tx_bind_def dropNodes_append del: set_concat)
qed

lemma removeNodesByDepth_free:
  assumes "\<forall>d d'. pg_statement pg d d' = None" "removable d ds"
  shows "\<exists>n. removeNodesByDepth pg ds d = Inr (n, dropNodes ds d)"
proof -
  note levels = byDepth_levels [of ds]
  then have same: "named (concat (byDepth ds)) = named ds" using named_set by blast
  have "removable d (concat (byDepth ds))"
    using assms(2) levels unfolding removable_def same by (simp del: set_concat)
  with removeLevels_free [OF assms(1)] levels obtain n where "removeLevels pg (byDepth ds) 0 d = Inr (n, dropNodes (concat (byDepth ds)) d)" by blast
  then show ?thesis by (auto simp: removeNodesByDepth_def dropNodes_def same)
qed

text \<open>In a store whose ancestries are its parent chains, a set chosen by a predicate that goes down to the
  children is removable.\<close>

lemma removable_rows:
  assumes wf: "wellFormed bottom d"
    and down: "\<forall>c\<in>set (db_nodes d). \<forall>q\<in>set (db_nodes d). nr_vault q = nr_vault c \<and> nr_parent c = Some (nr_id q) \<and> P q \<longrightarrow> P c"
    and roots: "\<forall>s\<in>set (db_shares d). \<forall>r\<in>set (db_nodes d). nr_vault r = sh_vault s \<and> nr_id r = sh_node s \<longrightarrow> \<not> P r"
  shows "removable d (map doomedRow (filter P (db_nodes d)))"
proof -
  have one: "a = b" if "a \<in> set (db_nodes d)" "b \<in> set (db_nodes d)" "nr_vault a = nr_vault b" "nr_id a = nr_id b" for a b
    using wf that same_key [of "core d"] by (simp add: wellFormed_def core_def)
  have named: "named (map doomedRow (filter P (db_nodes d))) (nr_vault r) (nr_id r) \<longleftrightarrow> P r" if "r \<in> set (db_nodes d)" for r
    using that one by (auto simp: named_def list_ex_iff doomedRow_def)
  have depth: "length (nr_ancestry c) = Suc (length (nr_ancestry q))"
    if "c \<in> set (db_nodes d)" "q \<in> set (db_nodes d)" "nr_vault q = nr_vault c" "nr_parent c = Some (nr_id q)" for c q
  proof -
    from wf that(1) have "chainOk (core d) c" by (auto simp: wellFormed_def core_def chains_def list_all_iff)
    with that obtain t where "t \<in> set (db_nodes d)" "nr_vault t = nr_vault c" "nr_id t = nr_id q" "nr_ancestry c = nr_ancestry t @ [nr_id q]"
      by (auto simp: chainOk_def core_def)
    with one [of t q] that show ?thesis by simp
  qed
  show ?thesis unfolding removable_def
  proof (intro conjI)
    show "\<forall>r\<in>set (db_nodes d). \<forall>m\<in>set (map doomedRow (filter P (db_nodes d))).
        dm_vaultId m = nr_vault r \<and> dm_id m = nr_id r \<longrightarrow> dm_depth m = length (nr_ancestry r)"
      using one by (auto simp: doomedRow_def)
  next
    show "\<forall>c\<in>set (db_nodes d). \<forall>q\<in>set (db_nodes d). nr_vault q = nr_vault c \<and> nr_parent c = Some (nr_id q) \<longrightarrow>
        length (nr_ancestry c) = Suc (length (nr_ancestry q)) \<and>
        (named (map doomedRow (filter P (db_nodes d))) (nr_vault q) (nr_id q) \<longrightarrow>
         named (map doomedRow (filter P (db_nodes d))) (nr_vault c) (nr_id c))"
    proof (intro ballI impI)
      fix c q assume cq: "c \<in> set (db_nodes d)" "q \<in> set (db_nodes d)" "nr_vault q = nr_vault c \<and> nr_parent c = Some (nr_id q)"
      with down named [OF cq(1)] named [OF cq(2)] depth [OF cq(1,2)]
      show "length (nr_ancestry c) = Suc (length (nr_ancestry q)) \<and>
          (named (map doomedRow (filter P (db_nodes d))) (nr_vault q) (nr_id q) \<longrightarrow>
           named (map doomedRow (filter P (db_nodes d))) (nr_vault c) (nr_id c))" by metis
    qed
  next
    show "\<forall>s\<in>set (db_shares d). \<forall>r\<in>set (db_nodes d). nr_vault r = sh_vault s \<and> nr_id r = sh_node s \<longrightarrow>
        \<not> named (map doomedRow (filter P (db_nodes d))) (nr_vault r) (nr_id r)"
    proof (intro ballI impI)
      fix s r assume sr: "s \<in> set (db_shares d)" "r \<in> set (db_nodes d)" "nr_vault r = sh_vault s \<and> nr_id r = sh_node s"
      with roots named [OF sr(2)] show "\<not> named (map doomedRow (filter P (db_nodes d))) (nr_vault r) (nr_id r)" by metis
    qed
  qed
qed

subsection \<open>What the ladder keeps\<close>

lemma thinVersions_runs:
  assumes "thinVersions pg d = Inr (n, d')"
  shows "d' = d\<lparr>db_versions := filter (\<lambda>v. \<not> thinned d v) (db_versions d)\<rparr>"
  using assms by (auto simp: thinVersions_def tx_bind_def statement_def tx_ret_def split: option.splits)

definition latest :: "(nat \<Rightarrow> nat) \<Rightarrow> db \<Rightarrow> version_row \<Rightarrow> version_row \<Rightarrow> bool" where
  "latest period d v w \<longleftrightarrow> w \<in> set (db_versions d) \<and> sameNode v w \<and> period (vn_at w) = period (vn_at v) \<and> vn_rev v \<le> vn_rev w \<and> newestOf period d w"

lemma latest_exists:
  assumes "v \<in> set (db_versions d)"
  shows "\<exists>w. latest period d v w"
proof -
  define C where "C = {w \<in> set (db_versions d). sameNode v w \<and> period (vn_at w) = period (vn_at v)}"
  have C: "finite C" "v \<in> C" using assms by (auto simp: C_def sameNode_def)
  then have "Max (vn_rev ` C) \<in> vn_rev ` C" by (intro Max_in) auto
  then obtain w where w: "w \<in> C" "vn_rev w = Max (vn_rev ` C)" by auto
  have top: "vn_rev u \<le> vn_rev w" if "u \<in> C" for u using C(1) that by (simp add: w(2))
  have "newestOf period d w"
    unfolding newestOf_def list_all_iff
  proof (intro ballI impI)
    fix u assume "u \<in> set (db_versions d)" "sameNode w u \<and> period (vn_at u) = period (vn_at w)"
    with w(1) have "u \<in> C" by (auto simp: C_def sameNode_def)
    then show "vn_rev u \<le> vn_rev w" by (rule top)
  qed
  with w(1) top [OF C(2)] have "latest period d v w" by (simp add: latest_def C_def)
  then show ?thesis by blast
qed

text \<open>The moments of a node's versions follow its revisions.\<close>

definition timely :: "db \<Rightarrow> bool" where
  "timely d \<longleftrightarrow> (\<forall>v\<in>set (db_versions d). \<forall>w\<in>set (db_versions d). sameNode v w \<and> vn_rev v \<le> vn_rev w \<longrightarrow> vn_at v \<le> vn_at w)"

lemma thinned_age:
  assumes "thinned d v"
  shows "7 * day \<le> db_now d - vn_at v" "\<not> isHead d v" "newestOf dayOf d v \<Longrightarrow> 30 * day \<le> db_now d - vn_at v"
    and "newestOf weekOf d v \<Longrightarrow> historyDays d (vn_vault v) = Some keep \<Longrightarrow> keep * day \<le> db_now d - vn_at v"
  using assms by (auto simp: thinned_def Let_def split: option.splits)

lemma latest_kept:
  assumes "timely d" "v \<in> set (db_versions d)" "latest period d v w" "db_now d - vn_at v < limit"
    and "thinned d w \<Longrightarrow> limit \<le> db_now d - vn_at w"
  shows "\<not> thinned d w"
proof
  assume "thinned d w"
  then have "limit \<le> db_now d - vn_at w" by (rule assms(5))
  moreover have "vn_at v \<le> vn_at w" using assms(1-3) by (auto simp: timely_def latest_def)
  ultimately show False using assms(4) by linarith
qed

text \<open>C31. What the retention ladder keeps, for every node whose versions are in order of time: the content of a
  live file, whatever its age; everything of the last seven days; of each of the last thirty days the newest
  version at least; of each week within the account's own bound the newest at least; and of what is older than that
  nothing else.\<close>

theorem thinVersions_keeps:
  assumes "timely d" "thinVersions pg d = Inr (n, d')" "v \<in> set (db_versions d)"
  shows "(isHead d v \<longrightarrow> v \<in> set (db_versions d')) \<and>
    (db_now d - vn_at v < 7 * day \<longrightarrow> v \<in> set (db_versions d')) \<and>
    (db_now d - vn_at v < 30 * day \<longrightarrow>
      (\<exists>w\<in>set (db_versions d'). sameNode v w \<and> dayOf (vn_at w) = dayOf (vn_at v) \<and> vn_rev v \<le> vn_rev w)) \<and>
    (\<forall>keep. historyDays d (vn_vault v) = Some keep \<and> db_now d - vn_at v < keep * day \<longrightarrow>
      (\<exists>w\<in>set (db_versions d'). sameNode v w \<and> weekOf (vn_at w) = weekOf (vn_at v) \<and> vn_rev v \<le> vn_rev w)) \<and>
    (\<forall>keep. historyDays d (vn_vault v) = Some keep \<and> nodeRow d (vn_vault v) (vn_node v) \<noteq> None \<and> \<not> isHead d v \<and>
      30 * day \<le> db_now d - vn_at v \<and> keep * day \<le> db_now d - vn_at v \<longrightarrow> v \<notin> set (db_versions d'))"
proof -
  have d': "w \<in> set (db_versions d') \<longleftrightarrow> w \<in> set (db_versions d) \<and> \<not> thinned d w" for w
    using thinVersions_runs [OF assms(2)] by simp
  have period: "\<exists>w\<in>set (db_versions d'). sameNode v w \<and> period (vn_at w) = period (vn_at v) \<and> vn_rev v \<le> vn_rev w"
    if "db_now d - vn_at v < limit" "\<And>w. latest period d v w \<Longrightarrow> thinned d w \<Longrightarrow> limit \<le> db_now d - vn_at w" for period limit
  proof -
    from latest_exists [OF assms(3)] obtain w where w: "latest period d v w" by blast
    with latest_kept [OF assms(1,3) w that(1) that(2) [OF w]] show ?thesis
      by (auto simp: d' latest_def)
  qed
  have "historyDays d (vn_vault w) = historyDays d (vn_vault v)" if "latest period d v w" for w period
    using that by (simp add: latest_def sameNode_def)
  then have weeks: "\<exists>w\<in>set (db_versions d'). sameNode v w \<and> weekOf (vn_at w) = weekOf (vn_at v) \<and> vn_rev v \<le> vn_rev w"
    if "historyDays d (vn_vault v) = Some keep" "db_now d - vn_at v < keep * day" for keep
  proof (intro period [OF that(2)])
    fix w assume "latest weekOf d v w" "thinned d w"
    with thinned_age(4) [of d w keep] that(1) \<open>\<And>w period. latest period d v w \<Longrightarrow> _\<close> [of weekOf w]
    show "keep * day \<le> db_now d - vn_at w" by (simp add: latest_def)
  qed
  have days: "\<exists>w\<in>set (db_versions d'). sameNode v w \<and> dayOf (vn_at w) = dayOf (vn_at v) \<and> vn_rev v \<le> vn_rev w"
    if "db_now d - vn_at v < 30 * day"
    using period [OF that, of dayOf] thinned_age(3) [of d] by (simp add: latest_def)
  have "isHead d v \<Longrightarrow> v \<in> set (db_versions d')" "db_now d - vn_at v < 7 * day \<Longrightarrow> v \<in> set (db_versions d')"
    using assms(3) thinned_age(1,2) [of d v] by (auto simp: d')
  with weeks days show ?thesis using assms(3) by (auto simp: d' thinned_def)
qed

text \<open>Thinning twice at one moment is thinning once: what the ladder leaves, it leaves for good.\<close>

theorem thinVersions_idempotent:
  assumes "thinVersions pg d = Inr (n, d')"
  shows "filter (thinned d') (db_versions d') = []"
proof -
  have d': "d' = d\<lparr>db_versions := filter (\<lambda>v. \<not> thinned d v) (db_versions d)\<rparr>" by (rule thinVersions_runs [OF assms])
  have rows: "nodeRow d' = nodeRow d" "historyDays d' = historyDays d" "db_now d' = db_now d"
    by (simp_all add: d' nodeRow_def historyDays_def vaultRow_def userRow_def fun_eq_iff)
  have left: "\<not> thinned d v" if "v \<in> set (db_versions d')" for v using that by (simp add: d')
  have "thinned d v" if t: "thinned d' v" for v
  proof (cases "historyDays d (vn_vault v)")
    case None
    with t show ?thesis by (simp add: thinned_def rows)
  next
    case (Some keep)
    have head: "isHead d v \<Longrightarrow> isHead d' v"
      by (auto simp: isHead_def rows list_all_iff split: option.splits) (simp add: d')
    have newest: "newestOf p d v \<Longrightarrow> newestOf p d' v" for p by (simp add: newestOf_def list_all_iff d')
    from t Some have "nodeRow d (vn_vault v) (vn_node v) \<noteq> None \<and> \<not> isHead d' v \<and> db_now d - vn_at v \<ge> 7 * day \<and>
        \<not> (db_now d - vn_at v < 30 * day \<and> newestOf dayOf d' v) \<and> \<not> (db_now d - vn_at v < keep * day \<and> newestOf weekOf d' v)"
      unfolding thinned_def rows Let_def by (simp only: Some option.case simp_thms)
    with head newest [of dayOf] newest [of weekOf] show ?thesis
      unfolding thinned_def Let_def Some option.case by blast
  qed
  with left show ?thesis unfolding filter_empty_conv by blast
qed

subsection \<open>What a pass leaves alone\<close>

text \<open>A live file's row, its newest version and the row of its blob.\<close>

definition lives :: "node_row \<Rightarrow> version_row \<Rightarrow> string \<Rightarrow> string \<Rightarrow> db \<Rightarrow> bool" where
  "lives n v sha key d \<longleftrightarrow>
     n \<in> set (db_nodes d) \<and> nr_deleted n = None \<and> nr_sha n = Some sha \<and>
     (\<forall>m\<in>set (db_nodes d). nr_vault m = nr_vault n \<and> nr_id m = nr_id n \<longrightarrow> m = n) \<and>
     v \<in> set (db_versions d) \<and> vn_vault v = nr_vault n \<and> vn_node v = nr_id n \<and>
     (\<forall>w\<in>set (db_versions d). sameNode v w \<longrightarrow> vn_rev w \<le> vn_rev v) \<and>
     (\<exists>b\<in>set (db_blobs d). bl_sha b = sha \<and> bl_storageKey b = key)"

lemma lives_row: "lives n v sha key d \<Longrightarrow> nodeRow d (nr_vault n) (nr_id n) = Some n"
  unfolding lives_def nodeRow_def
  by (cases "find (\<lambda>r. nr_vault r = nr_vault n \<and> nr_id r = nr_id n) (db_nodes d)") (auto simp: find_None_iff find_Some_iff)

lemma lives_referenced: "lives n v sha key d \<Longrightarrow> REFERENCED d sha"
  by (auto simp: lives_def REFERENCED_def list_ex_iff)

lemma statement_run: "tx_bind (statement pg f) (\<lambda>_. tx_ret a) d = Inr (x, d') \<Longrightarrow> d' = f d"
  by (auto simp: tx_bind_def statement_def tx_ret_def split: option.splits)

lemma lives_dropNodes:
  assumes "lives n v sha key d" "\<not> named ds (nr_vault n) (nr_id n)"
  shows "lives n v sha key (dropNodes ds d)"
  using assms by (auto simp: lives_def dropNodes_def)

lemma lives_removeLevels:
  "removeLevels pg ls k d = Inr (x, d') \<Longrightarrow> \<not> named (concat ls) (nr_vault n) (nr_id n) \<Longrightarrow> lives n v sha key d \<Longrightarrow> lives n v sha key d'"
proof (induction ls arbitrary: k d)
  case Nil
  then show ?case by (simp add: tx_ret_def)
next
  case (Cons l ls)
  from Cons.prems(1) obtain m d1 where one: "deleteNodes pg l d = Inr (m, d1)" and rest: "removeLevels pg ls (k + m) d1 = Inr (x, d')"
    by (auto simp: tx_bind_def split: sum.splits prod.splits)
  from one have "d1 = dropNodes l d"
    by (auto simp: deleteNodes_def Let_def dest: statement_run split: if_splits)
  with lives_dropNodes [OF Cons.prems(3), of l] Cons.prems(2) have "lives n v sha key d1" by simp
  with Cons.IH [OF rest] Cons.prems(2) show ?case by simp
qed

lemma lives_spent:
  assumes "removeSpentTrash pg d = Inr (x, d')" "lives n v sha key d"
  shows "lives n v sha key d'"
proof (rule lives_removeLevels)
  let ?ds = "map doomedRow (filter (spentTrash d) (db_nodes d))"
  show "removeLevels pg (byDepth ?ds) 0 d = Inr (x, d')"
    using assms(1) by (simp add: removeSpentTrash_def removeNodesByDepth_def)
  have "\<not> named ?ds (nr_vault n) (nr_id n)"
    using assms(2) by (auto simp: named_def list_ex_iff doomedRow_def lives_def spentTrash_def)
  then show "\<not> named (concat (byDepth ?ds)) (nr_vault n) (nr_id n)"
    using byDepth_levels [of ?ds] named_set [of "concat (byDepth ?ds)" ?ds] by simp
qed fact

lemma lives_thin:
  assumes "thinVersions pg d = Inr (x, d')" "lives n v sha key d"
  shows "lives n v sha key d'"
proof -
  have "isHead d v" using assms(2) lives_row [OF assms(2)] by (simp add: isHead_def lives_def list_all_iff)
  then have "\<not> thinned d v" using thinned_age(2) by blast
  with assms(2) show ?thesis by (auto simp: thinVersions_runs [OF assms(1)] lives_def)
qed

lemma lives_updateBlobs:
  assumes "updateBlobs pg which f d = Inr (x, d')" "\<And>b. bl_sha (f d b) = bl_sha b \<and> bl_storageKey (f d b) = bl_storageKey b" "lives n v sha key d"
  shows "lives n v sha key d'"
proof -
  have "d' = d\<lparr>db_blobs := map (\<lambda>b. if which d b then f d b else b) (db_blobs d)\<rparr>"
    using statement_run [OF assms(1) [unfolded updateBlobs_def]] .
  moreover from assms(3) obtain b where "b \<in> set (db_blobs d)" "bl_sha b = sha" "bl_storageKey b = key" by (auto simp: lives_def)
  then have "\<exists>b'\<in>(\<lambda>b. if which d b then f d b else b) ` set (db_blobs d). bl_sha b' = sha \<and> bl_storageKey b' = key"
    using assms(2) [of b] by (intro bexI [of _ "if which d b then f d b else b"]) simp_all
  ultimately show ?thesis using assms(3) by (simp add: lives_def)
qed

lemma lives_claims:
  assumes "lives n v sha key d"
  shows "lives n v sha key (d\<lparr>db_user_blobs := xs\<rparr>)" "lives n v sha key (pruneJournal k d)"
  using assms by (simp_all add: lives_def pruneJournal_def)

lemma tx_bind_run: "tx_bind m f d = Inr (b, d') \<Longrightarrow> \<exists>a d1. m d = Inr (a, d1) \<and> f a d1 = Inr (b, d')"
  by (auto simp: tx_bind_def split: sum.splits prod.splits)

lemma lives_stages:
  assumes "lives n v sha key d"
  shows "ageAndSpend pg d = Inr (x, d') \<Longrightarrow> lives n v sha key d'"
    and "dropUnbound pg ttl d = Inr (y, d') \<Longrightarrow> lives n v sha key d'"
    and "clearPending pg ttl d = Inr (y, d') \<Longrightarrow> lives n v sha key d'"
    and "claimsAndMarks pg d = Inr (z, d') \<Longrightarrow> lives n v sha key d'"
    and "pruneOld pg ttl d = Inr (y, d') \<Longrightarrow> lives n v sha key d'"
proof -
  assume "ageAndSpend pg d = Inr (x, d')"
  then obtain a d1 b where "thinVersions pg d = Inr (a, d1)" "removeSpentTrash pg d1 = Inr (b, d')"
    by (auto simp: ageAndSpend_def tx_ret_def dest!: tx_bind_run)
  from lives_spent [OF this(2) lives_thin [OF this(1) assms]] show "lives n v sha key d'" .
next
  show "dropUnbound pg ttl d = Inr (y, d') \<Longrightarrow> lives n v sha key d'" "clearPending pg ttl d = Inr (y, d') \<Longrightarrow> lives n v sha key d'"
    "pruneOld pg ttl d = Inr (y, d') \<Longrightarrow> lives n v sha key d'"
    using lives_claims [OF assms] by (auto simp: dropUnbound_def clearPending_def pruneOld_def Let_def dest!: statement_run)
next
  assume "claimsAndMarks pg d = Inr (z, d')"
  then obtain a d1 b where "dropSpentClaims pg d = Inr (a, d1)" and m: "markUnreferenced pg d1 = Inr (b, d')"
    by (auto simp: claimsAndMarks_def tx_ret_def dest!: tx_bind_run)
  then have "lives n v sha key d1" using lives_claims(1) [OF assms] by (auto simp: dropSpentClaims_def Let_def dest!: statement_run)
  moreover from m obtain x d2 y where u1: "updateBlobs pg (\<lambda>d b. bl_marked b \<noteq> None \<and> REFERENCED d (bl_sha b)) (\<lambda>d b. b\<lparr>bl_marked := None\<rparr>) d1 = Inr (x, d2)"
    and u2: "updateBlobs pg (\<lambda>d b. bl_marked b = None \<and> \<not> REFERENCED d (bl_sha b)) (\<lambda>d b. b\<lparr>bl_marked := Some (db_now d)\<rparr>) d2 = Inr (y, d')"
    by (auto simp: markUnreferenced_def tx_ret_def simp del: not_None_eq dest!: tx_bind_run)
  ultimately show "lives n v sha key d'"
    using lives_updateBlobs [OF u1] lives_updateBlobs [OF u2] by simp
qed

lemma lives_orphans:
  assumes "deleteOrphans pg ttl d = Inr (x, d')" "lives n v sha key d"
  shows "lives n v sha key d'"
  using assms(2) lives_referenced [OF assms(2)] statement_run [OF assms(1) [unfolded deleteOrphans_def Let_def]]
  by (auto simp: lives_def)

definition spared :: "node_row \<Rightarrow> version_row \<Rightarrow> string \<Rightarrow> string \<Rightarrow> string option \<Rightarrow> intake \<Rightarrow> bool" where
  "spared n v sha key content ik \<longleftrightarrow> lives n v sha key (ik_db ik) \<and> jget (bs_files (ik_store ik)) key = content"

lemma spared_tx:
  assumes "\<And>d a d'. m d = Inr (a, d') \<Longrightarrow> lives n v sha key d \<Longrightarrow> lives n v sha key d'" "spared n v sha key c ik"
  shows "spared n v sha key c (snd (inTx pg m ik))"
proof (cases rule: plainTx_cases [of m "ik_db ik" pg])
  case (committed a d')
  with assms show ?thesis by (simp add: inTx_def spared_def)
next
  case (kept e)
  with assms(2) show ?thesis by (simp add: inTx_def spared_def)
qed

lemma spared_bind:
  assumes "spared n v sha key c (snd (m ik))" "\<And>a ik. spared n v sha key c ik \<Longrightarrow> spared n v sha key c (snd (f a ik))"
  shows "spared n v sha key c (snd (pass_bind m f ik))"
  using assms by (auto simp: pass_bind_def split: prod.splits sum.splits)

lemma fold_remove: "k \<notin> set ks \<Longrightarrow> jget (bs_files (fold store_remove ks st)) k = jget (bs_files st) k"
  by (induction ks arbitrary: st) (simp_all add: store_remove_def)

lemma spared_files:
  assumes "spared n v sha key c ik"
  shows "spared n v sha key c (snd (removeFiles (\<lambda>ik. ik) orphans ik))"
proof -
  have "key \<in> set (map bl_storageKey (db_blobs (ik_db ik)))" using assms by (auto simp: spared_def lives_def)
  then have "jget (bs_files (fold store_remove (filter (\<lambda>k. k \<notin> set (filter (\<lambda>k. k \<in> set orphans) (map bl_storageKey (db_blobs (ik_db ik))))) orphans) (ik_store ik))) key =
      jget (bs_files (ik_store ik)) key"
    by (intro fold_remove) auto
  with assms show ?thesis by (simp add: spared_def removeFiles_def Let_def)
qed

lemma sweep_spares:
  assumes "spared n v sha key c ik"
  shows "spared n v sha key c (snd (sweep pg cfg (\<lambda>ik. ik) ik))"
proof -
  note tx = spared_tx [where n = n and v = v and sha = sha and key = key and c = c]
  have stages: "spared n v sha key c ik \<Longrightarrow> spared n v sha key c (snd (inTx pg (ageAndSpend pg) ik))"
    "spared n v sha key c ik \<Longrightarrow> spared n v sha key c (snd (inTx pg (dropUnbound pg ttl) ik))"
    "spared n v sha key c ik \<Longrightarrow> spared n v sha key c (snd (inTx pg (clearPending pg ttl) ik))"
    "spared n v sha key c ik \<Longrightarrow> spared n v sha key c (snd (inTx pg (claimsAndMarks pg) ik))"
    "spared n v sha key c ik \<Longrightarrow> spared n v sha key c (snd (inTx pg (deleteOrphans pg ttl) ik))"
    "spared n v sha key c ik \<Longrightarrow> spared n v sha key c (snd (inTx pg (pruneOld pg ttl) ik))" for ik ttl
    by (rule tx, erule (1) lives_stages lives_orphans, assumption)+
  have last: "spared n v sha key c ik \<Longrightarrow> spared n v sha key c (snd (Inr x, ik))" for ik and x :: collected by simp
  show ?thesis unfolding sweep_def split_def
    by (rule assms | assumption | rule spared_bind | rule stages | rule spared_files | rule last)+
qed

text \<open>C32. The collector never takes what is in use: after a pass, wherever it stopped, every live file still has
  its row, its newest version, the row of its blob and the bytes at its address.\<close>

theorem collector_keeps_live:
  assumes "lives n v sha key (ik_db ik)" "runCollector pg cfg (\<lambda>ik. ik) free ik = (result, ik')"
  shows "lives n v sha key (ik_db ik') \<and> jget (bs_files (ik_store ik')) key = jget (bs_files (ik_store ik)) key"
  using sweep_spares [of n v sha key "jget (bs_files (ik_store ik)) key" ik pg cfg] assms
  by (auto simp: runCollector_def spared_def split: if_splits)

subsection \<open>What stops a pass\<close>

definition rootsAShare :: "db \<Rightarrow> node_row \<Rightarrow> bool" where
  "rootsAShare d n \<longleftrightarrow> list_ex (\<lambda>s. sh_vault s = nr_vault n \<and> sh_node s = nr_id n) (db_shares d)"

lemma removeLevels_root:
  assumes "n \<in> set (db_nodes d)" "rootsAShare d n" "named (concat ls) (nr_vault n) (nr_id n)"
  shows "\<exists>e. removeLevels pg ls k d = Inl e"
  using assms
proof (induction ls arbitrary: k d)
  case Nil
  then show ?case by (simp add: named_def)
next
  case (Cons l ls)
  show ?case
  proof (cases "deleteNodes pg l d")
    case (Inl e)
    then show ?thesis by (simp add: tx_bind_def)
  next
    case (Inr r)
    then obtain m d1 where one: "deleteNodes pg l d = Inr (m, d1)" by (cases r) auto
    then have d1: "d1 = dropNodes l d"
      and roots: "\<not> list_ex (\<lambda>s. list_ex (\<lambda>r. nr_vault r = sh_vault s \<and> nr_id r = sh_node s) (filter (\<lambda>r. named l (nr_vault r) (nr_id r)) (db_nodes d))) (db_shares d)"
      unfolding deleteNodes_def Let_def by (auto dest: statement_run split: if_splits)
    from Cons.prems(2) obtain s where s: "s \<in> set (db_shares d)" "sh_vault s = nr_vault n" "sh_node s = nr_id n"
      by (auto simp: rootsAShare_def list_ex_iff)
    have free: "\<not> named l (nr_vault n) (nr_id n)"
    proof
      assume "named l (nr_vault n) (nr_id n)"
      with Cons.prems(1) s have "list_ex (\<lambda>s. list_ex (\<lambda>r. nr_vault r = sh_vault s \<and> nr_id r = sh_node s) (filter (\<lambda>r. named l (nr_vault r) (nr_id r)) (db_nodes d))) (db_shares d)"
        unfolding list_ex_iff by (intro bexI [of _ s] bexI [of _ n]) simp_all
      with roots show False ..
    qed
    have "n \<in> set (db_nodes d1)" "rootsAShare d1 n" "named (concat ls) (nr_vault n) (nr_id n)"
      using Cons.prems free by (auto simp: d1 dropNodes_def rootsAShare_def)
    from Cons.IH [OF this] show ?thesis by (simp add: one tx_bind_def)
  qed
qed

text \<open>C33. What stops the collector for good: one node of the trash without history or children that some share was
  once rooted at, be the share ended or cancelled. The reference of the share's row refuses its removal,
  the refusal rolls the first transaction back and ends the pass, and nothing at all is collected, in this
  pass or, the store being as it was, in a later one.\<close>

theorem share_root_stops_collector:
  assumes "n \<in> set (db_nodes (ik_db ik))" "spentTrash (ik_db ik) n" "rootsAShare (ik_db ik) n"
  shows "\<exists>e. runCollector pg cfg meanwhile True ik = (Inl e, ik)"
proof -
  have "\<exists>e. ageAndSpend pg (ik_db ik) = Inl e"
  proof (cases "thinVersions pg (ik_db ik)")
    case (Inl e)
    then show ?thesis by (simp add: ageAndSpend_def tx_bind_def)
  next
    case (Inr r)
    then obtain x d1 where thin: "thinVersions pg (ik_db ik) = Inr (x, d1)" by (cases r) auto
    have n: "n \<in> set (db_nodes d1)" "rootsAShare d1 n" "spentTrash d1 n"
      using assms by (auto simp: thinVersions_runs [OF thin] rootsAShare_def spentTrash_def hasVersion_def list_ex_iff)
    let ?ds = "map doomedRow (filter (spentTrash d1) (db_nodes d1))"
    have "named ?ds (nr_vault n) (nr_id n)" using n(1,3) by (auto simp: named_def list_ex_iff doomedRow_def)
    then have "named (concat (byDepth ?ds)) (nr_vault n) (nr_id n)"
      using byDepth_levels [of ?ds] named_set [of "concat (byDepth ?ds)" ?ds] by simp
    from removeLevels_root [OF n(1,2) this, of pg 0] show ?thesis
      by (auto simp: ageAndSpend_def thin tx_bind_def removeSpentTrash_def removeNodesByDepth_def)
  qed
  then show ?thesis by (auto simp: runCollector_def sweep_def pass_bind_def inTx_def plainTx_def)
qed

subsection \<open>Examples\<close>

text \<open>Three versions of the file \<open>n\<close>: two of one day seven weeks ago, and today's.\<close>

definition exVersion :: "nat \<Rightarrow> nat \<Rightarrow> version_row" where
  "exVersion rv at = \<lparr>vn_vault = ''A'', vn_node = ''n'', vn_rev = rv, vn_sha = ''h1'', vn_size = 1, vn_author = ''ann'', vn_at = at\<rparr>"

definition agedStore :: db where
  "agedStore = exStore\<lparr>db_now := 100 * day, db_versions := [exVersion 1 (50 * day), exVersion 2 (50 * day + 1), exVersion 3 (99 * day)]\<rparr>"

lemma agedStore_head: "nodeRow agedStore ''A'' ''n'' = Some (exRow ''A'' ''n'' [''ra'', ''s''] 3 (Some ''h1'') (Some ''j''))"
  by (simp add: agedStore_def exStore_def nodeRow_def exRow_def)

lemma agedStore_days: "historyDays agedStore ''A'' = Some 365"
  by (simp add: agedStore_def exStore_def historyDays_def vaultRow_def userRow_def)

definition thinnedStore :: db where
  "thinnedStore = agedStore\<lparr>db_versions := filter (\<lambda>v. \<not> thinned agedStore v) (db_versions agedStore)\<rparr>"

lemma thinnedStore_runs: "thinVersions openPg agedStore = Inr (length (filter (thinned agedStore) (db_versions agedStore)), thinnedStore)"
  by (simp add: thinVersions_def tx_bind_def statement_def openPg_def tx_ret_def thinnedStore_def)

lemma timely_aged: "timely agedStore"
  by (auto simp: timely_def agedStore_def exVersion_def)

theorem thinVersions_keeps_witness:
  "exVersion 3 (99 * day) \<in> set (db_versions thinnedStore) \<and>
   (\<exists>w\<in>set (db_versions thinnedStore). sameNode (exVersion 1 (50 * day)) w \<and> weekOf (vn_at w) = weekOf (50 * day) \<and> 1 \<le> vn_rev w)"
proof -
  have "exVersion 3 (99 * day) \<in> set (db_versions agedStore)" "exVersion 1 (50 * day) \<in> set (db_versions agedStore)"
    by (simp_all add: agedStore_def)
  note kept = thinVersions_keeps [OF timely_aged thinnedStore_runs this(1)] thinVersions_keeps [OF timely_aged thinnedStore_runs this(2)]
  have "db_now agedStore - vn_at (exVersion 3 (99 * day)) < 7 * day" "db_now agedStore - vn_at (exVersion 1 (50 * day)) < 365 * day"
    by (simp_all add: agedStore_def exVersion_def)
  moreover have "historyDays agedStore (vn_vault (exVersion 1 (50 * day))) = Some 365"
    using agedStore_days by (simp add: exVersion_def)
  ultimately show ?thesis
    using kept by (simp add: exVersion_def)
qed

theorem thinVersions_idempotent_witness: "filter (thinned thinnedStore) (db_versions thinnedStore) = []"
  by (rule thinVersions_idempotent [OF thinnedStore_runs])

definition exIdle :: "db \<Rightarrow> intake" where
  "exIdle d = \<lparr>ik_db = d, ik_store = \<lparr>bs_files = [(''h1'', ''x'')], bs_staged = []\<rparr>, ik_windows = []\<rparr>"

definition exHorizon :: collector_limits where
  "exHorizon = \<lparr>cl_unboundBlobTtlSeconds = 60, cl_gcQuarantineSeconds = 60, cl_journalTtlSeconds = 60\<rparr>"

theorem collector_keeps_live_witness:
  "jget (bs_files (ik_store (snd (runCollector openPg exHorizon (\<lambda>ik. ik) True (exIdle agedStore))))) ''h1'' = Some ''x''"
proof -
  have "lives (exRow ''A'' ''n'' [''ra'', ''s''] 3 (Some ''h1'') (Some ''j'')) (exVersion 3 (99 * day)) ''h1'' ''h1'' (ik_db (exIdle agedStore))"
    by (simp add: lives_def exIdle_def agedStore_def exStore_def exRow_def exVersion_def exBlob_def)
  from collector_keeps_live [OF this surjective_pairing, of openPg exHorizon True] show ?thesis by (simp add: exIdle_def)
qed

text \<open>The folder \<open>p\<close> is in the trash, and a share that was cancelled was to be rooted there.\<close>

definition exBuried :: node_row where
  "exBuried = (exRow ''A'' ''p'' [''ra''] 4 None None)\<lparr>nr_deleted := Some 8\<rparr>"

definition buriedStore :: db where
  "buriedStore = exStore\<lparr>db_nodes := map (\<lambda>r. if nr_id r = ''p'' then exBuried else r) (db_nodes exStore),
     db_shares := [exShare\<lparr>sh_id := ''old'', sh_node := ''p'', sh_state := ShareCancelled, sh_terminal := Some 5\<rparr>]\<rparr>"

theorem share_root_stops_collector_witness: "\<exists>e. runCollector openPg exHorizon (\<lambda>ik. ik) True (exIdle buriedStore) = (Inl e, exIdle buriedStore)"
proof (rule share_root_stops_collector)
  show "exBuried \<in> set (db_nodes (ik_db (exIdle buriedStore)))"
    by (simp add: exIdle_def buriedStore_def exStore_def exRow_def)
  show "spentTrash (ik_db (exIdle buriedStore)) exBuried"
    by (simp add: exIdle_def buriedStore_def exStore_def exRow_def exBuried_def spentTrash_def hasVersion_def)
  show "rootsAShare (ik_db (exIdle buriedStore)) exBuried"
    by (simp add: exIdle_def buriedStore_def exShare_def exRow_def exBuried_def rootsAShare_def)
qed

end
