(* ===== verification/Server_History.thy ===== *)
theory Server_History
  imports Server_Catchup Server_Retention
begin

text \<open>
  Going back and discarding: the versions of a note, the trash and the restore (\<open>history/service.ts\<close>), the
  emptying of the trash (\<open>history/purge.ts\<close>) and the reset of a vault (\<open>vaults/reset.ts\<close>). A restore lifts the
  node and the deleted folders above it and nothing else of the vault; a purge or a reset takes a set that
  holds every child of what it holds, so no reference between nodes stops it, but a share's row can.
\<close>

subsection \<open>History and trash\<close>

record version_view =
  vv_rev :: nat
  vv_sha256 :: string
  vv_size :: nat
  vv_at :: nat
  vv_author_id :: string

definition versionView :: "version_row \<Rightarrow> version_view" where
  "versionView v = \<lparr>vv_rev = vn_rev v, vv_sha256 = vn_sha v, vv_size = vn_size v, vv_at = vn_at v, vv_author_id = vn_author v\<rparr>"

definition versionsIn :: "db \<Rightarrow> string \<Rightarrow> string \<Rightarrow> version_row list" where
  "versionsIn d vaultId nodeId = filter (\<lambda>v. vn_vault v = vaultId \<and> vn_node v = nodeId) (db_versions d)"

definition listVersions :: "db \<Rightarrow> string \<Rightarrow> string \<Rightarrow> version_view list" where
  "listVersions d vaultId nodeId = map versionView (sort_key (\<lambda>v. - int (vn_rev v)) (versionsIn d vaultId nodeId))"

record trash_entry =
  te_node_id :: string
  te_parent_id :: "string option"
  te_name_enc :: "string option"
  te_type :: node_type
  te_deleted_at :: nat
  te_versions :: nat
  te_name_key_id :: "string option"
  te_share_id :: "string option"

definition trashEntry :: "db \<Rightarrow> node_row \<Rightarrow> trash_entry" where
  "trashEntry d n = \<lparr>te_node_id = nr_id n, te_parent_id = nr_parent n, te_name_enc = nr_name_enc n, te_type = nr_type n,
     te_deleted_at = the (nr_deleted n), te_versions = length (versionsIn d (nr_vault n) (nr_id n)),
     te_name_key_id = nr_name_key n, te_share_id = nr_share n\<rparr>"

definition recoverable :: "db \<Rightarrow> string \<Rightarrow> string option \<Rightarrow> node_row \<Rightarrow> bool" where
  "recoverable d vaultId under_id n \<longleftrightarrow> nr_vault n = vaultId \<and> nr_deleted n \<noteq> None \<and> hasVersion d n \<and>
     (case under_id of None \<Rightarrow> True | Some a \<Rightarrow> a \<in> set (nr_ancestry n))"

definition listTrash :: "db \<Rightarrow> string \<Rightarrow> string option \<Rightarrow> nat \<Rightarrow> trash_entry list \<times> nat" where
  "listTrash d vaultId under_id limit =
     (let ns = filter (recoverable d vaultId under_id) (db_nodes d)
      in (map (trashEntry d) (take limit (sort_key (\<lambda>n. - int (the (nr_deleted n))) ns)), length ns))"

subsection \<open>Restoring\<close>

definition blockingSibling :: "db \<Rightarrow> string \<Rightarrow> node_row \<Rightarrow> string option" where
  "blockingSibling d vaultId n =
     (if nr_name_hmac n = None \<or> nr_parent n = None then None
      else map_option nr_id (find (\<lambda>r. nr_vault r = vaultId \<and> nr_parent r = nr_parent n \<and> nr_name_hmac r = nr_name_hmac n \<and>
        nr_deleted r = None \<and> nr_id r \<noteq> nr_id n) (db_nodes d)))"

fun firstBlocked :: "db \<Rightarrow> string \<Rightarrow> node_row list \<Rightarrow> string option" where
  "firstBlocked d vaultId [] = None"
| "firstBlocked d vaultId (n # ns) =
     (case blockingSibling d vaultId n of Some b \<Rightarrow> Some b | None \<Rightarrow> firstBlocked d vaultId ns)"

text \<open>The outermost first; \<open>array_length\<close> of an empty array is null, and nulls come last.\<close>

definition deletedAncestors :: "db \<Rightarrow> string \<Rightarrow> node_row \<Rightarrow> node_row list" where
  "deletedAncestors d vaultId n =
     (let as = filter (\<lambda>r. nr_vault r = vaultId \<and> nr_id r \<in> set (nr_ancestry n) \<and> nr_deleted r \<noteq> None) (db_nodes d)
      in sort_key (length \<circ> nr_ancestry) (filter (\<lambda>r. nr_ancestry r \<noteq> []) as) @ filter (\<lambda>r. nr_ancestry r = []) as)"

definition undeleteMark :: "string \<Rightarrow> node_row \<Rightarrow> fanout_event" where
  "undeleteMark vaultId r = FanUndelete \<lparr>fm_vaultId = vaultId, fm_shareId = nr_share r, fm_shareItemId = nr_item r\<rparr>"

fun liftEach :: "pg \<Rightarrow> string \<Rightarrow> node_row list \<Rightarrow> unit tx" where
  "liftEach pg vaultId [] = tx_ret ()"
| "liftEach pg vaultId (a # as) =
     tx_bind (nextRev pg vaultId) (\<lambda>rv.
     tx_seq (updateNode pg vaultId (nr_id a) (\<lambda>r. r\<lparr>nr_deleted := None, nr_rev := rv\<rparr>))
     (tx_seq (journalEntry pg vaultId rv (nr_id a) OpPut None)
     (tx_seq (fanOut pg (undeleteMark vaultId a))
       (liftEach pg vaultId as))))"

record restore_result =
  rr_rev :: nat
  rr_lifted :: "string list"

definition restoredRow :: "node_row \<Rightarrow> version_row \<Rightarrow> nat \<Rightarrow> string \<Rightarrow> node_row \<Rightarrow> node_row" where
  "restoredRow n ver rv mtime r =
     r\<lparr>nr_deleted := None, nr_sha := (if nr_type n = NodeFolder then None else Some (vn_sha ver)),
       nr_size := (if nr_type n = NodeFolder then None else Some (vn_size ver)), nr_rev := rv, nr_mtime := mtime\<rparr>"

text \<open>\<open>iso\<close> writes the clock's moment as the modification time.\<close>

definition restoreBody :: "pg \<Rightarrow> (nat \<Rightarrow> string) \<Rightarrow> string \<Rightarrow> string \<Rightarrow> nat \<Rightarrow> (refusal + restore_result) tx" where
  "restoreBody pg iso_time vaultId nodeId at =
     reading (\<lambda>d. case ownerAndFrozen d vaultId of
        OwnerNotFound \<Rightarrow> tx_refuse not_found
      | OwnerFrozen _ \<Rightarrow> tx_refuse frozen
      | OwnerOk userId \<Rightarrow> (case nodeRow d vaultId nodeId of
          None \<Rightarrow> tx_refuse not_found
        | Some n \<Rightarrow> (case find (\<lambda>v. vn_rev v = at) (versionsIn d vaultId nodeId) of
            None \<Rightarrow> tx_refuse no_such_version
          | Some ver \<Rightarrow> (case firstBlocked d vaultId (deletedAncestors d vaultId n @ [n]) of
              Some b \<Rightarrow> tx_refuse (name_taken (Some b))
            | None \<Rightarrow>
                tx_seq (liftEach pg vaultId (deletedAncestors d vaultId n))
                (tx_bind (nextRev pg vaultId) (\<lambda>rv.
                 tx_seq (updateNode pg vaultId nodeId (restoredRow n ver rv (iso_time (db_now d))))
                 (tx_seq (journalEntry pg vaultId rv nodeId OpPut None)
                 (tx_seq (fanOut pg (undeleteMark vaultId n))
                 (tx_seq (if nr_type n = NodeFolder then tx_ret ()
                   else tx_seq (recordVersion pg vaultId nodeId rv (vn_sha ver) (vn_size ver) userId None)
                     (tx_seq (claimBlob pg userId (vn_sha ver))
                       (fanOut pg (FanPut \<lparr>fp_vaultId = vaultId, fp_shareId = nr_share n, fp_shareItemId = nr_item n,
                          fp_sha256 = vn_sha ver, fp_size = vn_size ver, fp_mtime = iso_time (db_now d), fp_authorId = userId\<rparr>))))
                 (tx_ret (Inr \<lparr>rr_rev = rv, rr_lifted = map nr_id (deletedAncestors d vaultId n)\<rparr>)))))))))))"

definition restoreNode :: "pg \<Rightarrow> (nat \<Rightarrow> string) \<Rightarrow> string \<Rightarrow> string \<Rightarrow> nat \<Rightarrow> db \<Rightarrow> restore_result outcome \<times> db" where
  "restoreNode pg iso_time vaultId nodeId at = txGuarded pg (restoreBody pg iso_time vaultId nodeId at)"

subsection \<open>Emptying the trash\<close>

record purge_result =
  pr_purged :: nat
  pr_thawed :: bool

definition doomedTrash :: "db \<Rightarrow> string \<Rightarrow> string option \<Rightarrow> node_row \<Rightarrow> bool" where
  "doomedTrash d vaultId target n \<longleftrightarrow> nr_vault n = vaultId \<and> nr_deleted n \<noteq> None \<and>
     (case target of None \<Rightarrow> True | Some t \<Rightarrow> nr_id n = t \<or> t \<in> set (nr_ancestry n)) \<and>
     \<not> list_ex (\<lambda>live. nr_vault live = nr_vault n \<and> nr_id n \<in> set (nr_ancestry live) \<and> nr_deleted live = None) (db_nodes d)"

definition discardTrash :: "pg \<Rightarrow> string \<Rightarrow> string option \<Rightarrow> nat tx" where
  "discardTrash pg vaultId target =
     reading (\<lambda>d. removeNodesByDepth pg (map doomedRow (filter (doomedTrash d vaultId target) (db_nodes d))))"

definition purgeRefusal :: "db \<Rightarrow> string \<Rightarrow> string \<Rightarrow> refusal option" where
  "purgeRefusal d vaultId t =
     (case nodeRow d vaultId t of
        None \<Rightarrow> Some not_found
      | Some n \<Rightarrow>
          if nr_deleted n = None then Some (invalid_write (''node '' @ t @ '' is not in the trash; delete it before discarding it''))
          else if filter (doomedTrash d vaultId (Some t)) (db_nodes d) = []
            then Some (invalid_write (''node '' @ t @ '' still holds files that are not deleted; empty it first''))
          else None)"

definition purgeBody :: "pg \<Rightarrow> (string \<Rightarrow> string) \<Rightarrow> string \<Rightarrow> string option \<Rightarrow> (refusal + purge_result) tx" where
  "purgeBody pg digest vaultId target =
     reading (\<lambda>d. case vaultRow d vaultId of
        None \<Rightarrow> tx_refuse not_found
      | Some va \<Rightarrow> (case (if truthy target then purgeRefusal d vaultId (the target) else None) of
          Some r \<Rightarrow> tx_refuse r
        | None \<Rightarrow>
            tx_bind (discardTrash pg vaultId target) (\<lambda>purged.
            tx_seq (dropUnreferenced pg (vr_user va))
            (tx_bind (settleFreeze pg digest (vr_user va)) (\<lambda>s.
            tx_ret (Inr \<lparr>pr_purged = purged, pr_thawed = (st_thawed s \<noteq> None)\<rparr>))))))"

definition purgeTrash :: "pg \<Rightarrow> (string \<Rightarrow> string) \<Rightarrow> string \<Rightarrow> string option \<Rightarrow> db \<Rightarrow> purge_result outcome \<times> db" where
  "purgeTrash pg digest vaultId target = txGuarded pg (purgeBody pg digest vaultId target)"

subsection \<open>Resetting a vault\<close>

definition KEEP :: "db \<Rightarrow> node_row \<Rightarrow> bool" where
  "KEEP d n \<longleftrightarrow> nr_parent n = None \<or> nr_share n \<noteq> None \<or>
     list_ex (\<lambda>m. nr_vault m = nr_vault n \<and> nr_share m \<noteq> None \<and> nr_id n \<in> set (nr_ancestry m)) (db_nodes d)"

definition deleteOwnTree :: "pg \<Rightarrow> string \<Rightarrow> nat tx" where
  "deleteOwnTree pg vaultId =
     reading (\<lambda>d. removeNodesByDepth pg (map doomedRow (filter (\<lambda>n. nr_vault n = vaultId \<and> \<not> KEEP d n) (db_nodes d))))"

definition HELD :: "db \<Rightarrow> string \<Rightarrow> string \<Rightarrow> nat" where
  "HELD d userId sha =
     length (filter (\<lambda>n. ownedBy d userId (nr_vault n) \<and> nr_sha n = Some sha) (db_nodes d)) +
     length (filter (\<lambda>v. ownedBy d userId (vn_vault v) \<and> vn_sha v = sha) (db_versions d))"

definition recountQuota :: "pg \<Rightarrow> string \<Rightarrow> unit tx" where
  "recountQuota pg userId =
     tx_seq (statement pg (\<lambda>d. d\<lparr>db_user_blobs :=
         filter (\<lambda>b. \<not> (ub_user b = userId \<and> ub_pending b = 0 \<and> HELD d userId (ub_sha b) = 0)) (db_user_blobs d)\<rparr>))
       (statement pg (\<lambda>d. d\<lparr>db_user_blobs :=
         map (\<lambda>b. if ub_user b = userId then b\<lparr>ub_own := HELD d userId (ub_sha b)\<rparr> else b) (db_user_blobs d)\<rparr>))"

record reset_result =
  rs_resetEpoch :: nat
  rs_rootNodeId :: string
  rs_removed :: nat

definition resetBody :: "pg \<Rightarrow> (string \<Rightarrow> string) \<Rightarrow> string \<Rightarrow> string \<Rightarrow> reset_result option tx" where
  "resetBody pg digest userId vaultId =
     reading (\<lambda>d. case find (\<lambda>v. vr_id v = vaultId \<and> vr_user v = userId) (db_vaults d) of
        None \<Rightarrow> tx_ret None
      | Some va \<Rightarrow>
          tx_bind (deleteOwnTree pg vaultId) (\<lambda>removed.
          tx_seq (recountQuota pg userId)
          (tx_bind (settleFreeze pg digest userId) (\<lambda>_.
          tx_seq (statement pg (\<lambda>d. d\<lparr>db_vaults :=
              map (\<lambda>v. if vr_id v = vaultId then v\<lparr>vr_reset_epoch := vr_reset_epoch v + 1\<rparr> else v) (db_vaults d)\<rparr>))
            (tx_bind (tx_get (\<lambda>d. map_option vr_reset_epoch (vaultRow d vaultId))) (\<lambda>epoch.
             tx_ret (Some \<lparr>rs_resetEpoch = the epoch, rs_rootNodeId = vr_root va, rs_removed = removed\<rparr>)))))))"

definition resetVault :: "pg \<Rightarrow> (string \<Rightarrow> string) \<Rightarrow> string \<Rightarrow> string \<Rightarrow> db \<Rightarrow> (tx_error + reset_result option) \<times> db" where
  "resetVault pg digest userId vaultId = plainTx pg (resetBody pg digest userId vaultId)"

subsection \<open>The fan-out stays out of the writer's vault\<close>

definition own :: "string \<Rightarrow> db \<Rightarrow> node_row list" where
  "own v d = filter (\<lambda>r. nr_vault r = v) (db_nodes d)"

lemma nodeRow_own: "nodeRow d v n = find (\<lambda>r. nr_id r = n) (own v d)"
proof -
  have "find (\<lambda>r. nr_vault r = v \<and> nr_id r = n) rs = find (\<lambda>r. nr_id r = n) (filter (\<lambda>r. nr_vault r = v) rs)" for rs :: "node_row list"
    by (induction rs) auto
  then show ?thesis by (simp add: nodeRow_def own_def)
qed

lemma keeps_own: "v \<noteq> w \<Longrightarrow> keeps (away w u) m \<Longrightarrow> keeps (own v) m"
proof -
  assume vw: "v \<noteq> w" and k: "keeps (away w u) m"
  have own: "own v d = filter (\<lambda>r. nr_vault r = v) (fst (fst (away w u d)))" for d
    using vw by (auto simp: own_def away_def intro: filter_cong)
  show ?thesis using k unfolding keeps_def own by metis
qed

lemma away_propagate: "keeps (away w u) (propagate pg s i e (u, w))"
proof (cases e)
  case (FanCreate x)
  have "keeps (away w u) (createOne pg x s i p (u, w))" for p
    by (auto simp: createOne_def intro!: keeps_intro own_writes split: option.splits prod.splits)
  with FanCreate show ?thesis by simp
next
  case (FanPut x)
  have "keeps (away w u) (putOne pg x i (u, w))"
    by (auto simp: putOne_def intro!: keeps_intro own_writes away_update split: option.splits)
  with FanPut show ?thesis by simp
next
  case (FanDelete x)
  have "keeps (away w u) (deleteOne pg i (u, w))"
    by (auto simp: deleteOne_def intro!: keeps_intro own_writes away_update split: option.splits)
  with FanDelete show ?thesis by simp
next
  case (FanUndelete x)
  have "keeps (away w u) (undeleteOne pg i (u, w))"
    by (auto simp: undeleteOne_def intro!: keeps_intro own_writes away_update split: option.splits)
  with FanUndelete show ?thesis by simp
next
  case (FanMove x)
  have "keeps (away w u) (moveOne pg x i p (u, w))" for p
    by (auto simp: moveOne_def intro!: keeps_intro own_writes split: option.splits)
  with FanMove show ?thesis by simp
qed

lemma keeps_each_in: "(\<And>x. x \<in> set xs \<Longrightarrow> keeps p (f x)) \<Longrightarrow> keeps p (tx_each f xs)"
  by (induction xs) (auto intro!: keeps_intro)

lemma own_fanOut: "keeps (own (eventVault e)) (fanOut pg e)"
proof -
  have "keeps (own (eventVault e)) (tx_bind (fanoutTargets s (eventVault e)) (\<lambda>ts. tx_each (propagate pg s i e) ts))" for s i
    unfolding keeps_def
  proof (intro allI impI)
    fix d a d' assume run: "tx_bind (fanoutTargets s (eventVault e)) (\<lambda>ts. tx_each (propagate pg s i e) ts) d = Inr (a, d')"
    then obtain ts where ts: "fanoutTargets s (eventVault e) d = Inr (ts, d)" and each: "tx_each (propagate pg s i e) ts d = Inr (a, d')"
      by (auto simp: tx_bind_def fanoutTargets_def tx_get_def)
    have out: "snd t \<noteq> eventVault e" if "t \<in> set ts" for t
      using that ts by (auto simp: fanoutTargets_def tx_get_def)
    have "keeps (own (eventVault e)) (tx_each (propagate pg s i e) ts)"
    proof (rule keeps_each_in)
      fix t assume "t \<in> set ts"
      then show "keeps (own (eventVault e)) (propagate pg s i e t)"
        using keeps_own [OF _ away_propagate [of "snd t" "fst t"]] out [of t] by (metis prod.collapse)
    qed
    from keepsD [OF this each] show "own (eventVault e) d' = own (eventVault e) d" .
  qed
  then show ?thesis by (simp add: fanOut_def keeps_intro)
qed

subsection \<open>What a restore changes in the vault\<close>

text \<open>The rows of a vault before and after: those of \<open>ids\<close> are live at a new revision, the others are the same.\<close>

definition liftedIn :: "string set \<Rightarrow> node_row \<Rightarrow> node_row \<Rightarrow> bool" where
  "liftedIn ids r r' \<longleftrightarrow> (if nr_id r \<in> ids then \<exists>k. r' = r\<lparr>nr_deleted := None, nr_rev := k\<rparr> else r' = r)"

lemma own_update: "(\<And>r. nr_vault (f r) = nr_vault r) \<Longrightarrow> updateNode pg v n f d = Inr (u, d') \<Longrightarrow>
    own v d' = map (\<lambda>r. if nr_id r = n then f r else r) (own v d)"
proof -
  assume f: "\<And>r. nr_vault (f r) = nr_vault r" and run: "updateNode pg v n f d = Inr (u, d')"
  have "db_nodes d' = map (\<lambda>r. if nr_vault r = v \<and> nr_id r = n then f r else r) (db_nodes d)"
    using updateNode_Inr [OF run] by (simp add: core_def rewriteNode_def)
  moreover have "filter (\<lambda>r. nr_vault r = v) (map (\<lambda>r. if nr_vault r = v \<and> nr_id r = n then f r else r) rs) =
      map (\<lambda>r. if nr_id r = n then f r else r) (filter (\<lambda>r. nr_vault r = v) rs)" for rs :: "node_row list"
    by (induction rs) (auto simp: f)
  ultimately show ?thesis by (simp add: own_def)
qed

lemma own_next: "nextRev pg v d = Inr (rv, d') \<Longrightarrow> own w d' = own w d"
  using nextRev_Inr [of pg v d rv d'] by (simp add: own_def)

lemma own_journal:
  assumes "journalEntry pg v rv n op prev d = Inr (x, d')"
  shows "own w d' = own w d"
proof -
  from journalEntry_Inr [OF assms] obtain j where "core d' = log j (core d)" .
  from arg_cong [OF this, of st_nodes] show ?thesis by (simp add: own_def)
qed

lemma own_aside: "aside m \<Longrightarrow> m d = Inr (x, d') \<Longrightarrow> own w d' = own w d"
  unfolding aside_def own_def using core_nodes_eq by metis

lemma liftEach_rows:
  "liftEach pg v as d = Inr (x, d') \<Longrightarrow> list_all2 (liftedIn (nr_id ` set as)) (own v d) (own v d')"
proof (induction as arbitrary: d)
  case Nil
  then show ?case by (simp add: tx_ret_def liftedIn_def list_all2_same)
next
  case (Cons a as)
  from Cons.prems obtain rv d1 d2 d3 d4 u1 u2 u3 where steps: "nextRev pg v d = Inr (rv, d1)"
    "updateNode pg v (nr_id a) (\<lambda>r. r\<lparr>nr_deleted := None, nr_rev := rv\<rparr>) d1 = Inr (u1, d2)"
    "journalEntry pg v rv (nr_id a) OpPut None d2 = Inr (u2, d3)" "fanOut pg (undeleteMark v a) d3 = Inr (u3, d4)"
    and rest: "liftEach pg v as d4 = Inr (x, d')"
    unfolding liftEach.simps by (elim tx_bindE tx_seqE) blast
  have "own v d4 = own v d3" using keepsD [OF own_fanOut steps(4)] by (simp add: undeleteMark_def)
  then have one: "own v d4 = map (\<lambda>r. if nr_id r = nr_id a then r\<lparr>nr_deleted := None, nr_rev := rv\<rparr> else r) (own v d)"
    using own_journal [OF steps(3)] own_update [OF _ steps(2)] own_next [OF steps(1)] by simp
  have both: "liftedIn (nr_id ` set (a # as)) r r'"
    if "liftedIn (nr_id ` set as) (if nr_id r = nr_id a then r\<lparr>nr_deleted := None, nr_rev := rv\<rparr> else r) r'" for r r'
  proof (cases "nr_id r = nr_id a")
    case True
    with that have "liftedIn (nr_id ` set as) (r\<lparr>nr_deleted := None, nr_rev := rv\<rparr>) r'" by simp
    then have "\<exists>k. r' = r\<lparr>nr_deleted := None, nr_rev := k\<rparr>" unfolding liftedIn_def by (cases "nr_id r \<in> nr_id ` set as") auto
    with True show ?thesis by (simp add: liftedIn_def)
  next
    case False
    with that show ?thesis by (simp add: liftedIn_def)
  qed
  show ?case using Cons.IH [OF rest] unfolding one list_all2_map1 by (rule list_all2_mono) (rule both)
qed

lemma find_all2:
  assumes "list_all2 R rs rs'" "\<And>r r'. R r r' \<Longrightarrow> P r = P r'"
  shows "rel_option R (find P rs) (find P rs')"
  using assms(1) by (induction rule: list_all2_induct) (auto simp: assms(2))

lemma liftedIn_id: "liftedIn ids r r' \<Longrightarrow> nr_id r' = nr_id r"
  by (auto simp: liftedIn_def split: if_splits)

lemma liftEach_nodeRow:
  assumes "liftEach pg v as d = Inr (x, d')"
  shows "rel_option (liftedIn (nr_id ` set as)) (nodeRow d v m) (nodeRow d' v m)"
  unfolding nodeRow_own by (rule find_all2 [OF liftEach_rows [OF assms]]) (auto dest: liftedIn_id)

lemma restore_tail:
  assumes "(if nr_type n = NodeFolder then tx_ret ()
      else tx_seq (recordVersion pg v m rv sha sz u None) (tx_seq (claimBlob pg u sha) (fanOut pg (FanPut e)))) d = Inr (x, d')"
    and "fp_vaultId e = v"
  shows "own v d' = own v d"
proof (cases "nr_type n = NodeFolder")
  case True
  with assms(1) show ?thesis by (simp add: tx_ret_def)
next
  case False
  with assms(1) obtain d1 d2 u1 u2 where steps: "recordVersion pg v m rv sha sz u None d = Inr (u1, d1)" "claimBlob pg u sha d1 = Inr (u2, d2)"
    "fanOut pg (FanPut e) d2 = Inr (x, d')"
    by (auto elim!: tx_seqE)
  have "own v d' = own v d2" using keepsD [OF own_fanOut steps(3)] assms(2) by simp
  then show ?thesis using own_aside [OF aside_claim steps(2)] own_aside [OF aside_version steps(1)] by simp
qed

text \<open>The two stages of a restore that is answered.\<close>

lemma restoreBody_stages:
  assumes "restoreBody pg iso_time v n at d = Inr (Inr res, d')"
  obtains row ver d1 x where "nodeRow d v n = Some row" "find (\<lambda>w. vn_rev w = at) (versionsIn d v n) = Some ver"
    "liftEach pg v (deletedAncestors d v row) d = Inr (x, d1)" "rr_lifted res = map nr_id (deletedAncestors d v row)"
    "own v d' = map (\<lambda>r. if nr_id r = n then restoredRow row ver (rr_rev res) (iso_time (db_now d)) r else r) (own v d1)"
proof -
  from assms obtain owner row ver where found: "ownerAndFrozen d v = OwnerOk owner" "nodeRow d v n = Some row"
    "find (\<lambda>w. vn_rev w = at) (versionsIn d v n) = Some ver" "firstBlocked d v (deletedAncestors d v row @ [row]) = None"
    by (auto simp: restoreBody_def reading_def tx_refuse_def tx_ret_def split: owner_access.splits option.splits)
  note run = assms [unfolded restoreBody_def reading_def found owner_access.case option.case]
  then obtain d1 d2 d3 d4 d5 d6 x u1 u2 u3 u4 rv where steps: "liftEach pg v (deletedAncestors d v row) d = Inr (x, d1)"
    "nextRev pg v d1 = Inr (rv, d2)" "updateNode pg v n (restoredRow row ver rv (iso_time (db_now d))) d2 = Inr (u1, d3)"
    "journalEntry pg v rv n OpPut None d3 = Inr (u2, d4)" "fanOut pg (undeleteMark v row) d4 = Inr (u3, d5)"
    "(if nr_type row = NodeFolder then tx_ret ()
      else tx_seq (recordVersion pg v n rv (vn_sha ver) (vn_size ver) owner None) (tx_seq (claimBlob pg owner (vn_sha ver))
        (fanOut pg (FanPut \<lparr>fp_vaultId = v, fp_shareId = nr_share row, fp_shareItemId = nr_item row, fp_sha256 = vn_sha ver,
           fp_size = vn_size ver, fp_mtime = iso_time (db_now d), fp_authorId = owner\<rparr>)))) d5 = Inr (u4, d6)"
    and last: "tx_ret (Inr \<lparr>rr_rev = rv, rr_lifted = map nr_id (deletedAncestors d v row)\<rparr>) d6 = Inr (Inr res :: refusal + restore_result, d')"
    by (elim tx_bindE tx_seqE) (rule that; assumption)
  from last have res: "res = \<lparr>rr_rev = rv, rr_lifted = map nr_id (deletedAncestors d v row)\<rparr>" "d' = d6" by (simp_all add: tx_ret_def)
  have "own v d6 = own v d5" using restore_tail [OF steps(6)] by simp
  moreover have "own v d5 = own v d4" using keepsD [OF own_fanOut steps(5)] by (simp add: undeleteMark_def)
  moreover have "own v d4 = own v d3" by (rule own_journal [OF steps(4)])
  moreover have "own v d3 = map (\<lambda>r. if nr_id r = n then restoredRow row ver rv (iso_time (db_now d)) r else r) (own v d2)"
    by (rule own_update [OF _ steps(3)]) (simp add: restoredRow_def)
  moreover have "own v d2 = own v d1" by (rule own_next [OF steps(2)])
  ultimately have final: "own v d' = map (\<lambda>r. if nr_id r = n then restoredRow row ver rv (iso_time (db_now d)) r else r) (own v d1)"
    unfolding res(2) by (simp only:)
  have "rv = rr_rev res" "rr_lifted res = map nr_id (deletedAncestors d v row)" using res(1) by simp_all
  then show thesis using that [OF found(2,3) steps(1) _ final [unfolded \<open>rv = rr_rev res\<close>]] by blast
qed
lemma row_id: "nodeRow d v m = Some r \<Longrightarrow> nr_id r = m"
  by (auto simp: nodeRow_def find_Some_iff)

lemma firstIn_sorted: "set (deletedAncestors d v n) = {r \<in> set (db_nodes d). nr_vault r = v \<and> nr_id r \<in> set (nr_ancestry n) \<and> nr_deleted r \<noteq> None}"
  by (auto simp: deletedAncestors_def Let_def)

text \<open>C28. A restore that is answered brings the node back with the content of the version that was asked for, lifts
  the deleted folders above it and answers exactly their names, so that everything above it is live; and
  every other node of the vault is as it was, whatever the fan-out of it wrote in the other participants'
  vaults.\<close>

theorem restore_effect:
  assumes "restoreNode pg iso_time v n at d = (Done res, d')" and wf: "wellFormed bottom d"
    and row: "nodeRow d v n = Some row" and ver: "find (\<lambda>w. vn_rev w = at) (versionsIn d v n) = Some ver"
  shows "nodeRow d' v n = Some (restoredRow row ver (rr_rev res) (iso_time (db_now d)) row) \<and>
    set (rr_lifted res) = {a \<in> set (nr_ancestry row). \<exists>r. nodeRow d v a = Some r \<and> nr_deleted r \<noteq> None} \<and>
    (\<forall>a r'. a \<in> set (nr_ancestry row) \<and> nodeRow d' v a = Some r' \<longrightarrow> nr_deleted r' = None) \<and>
    (\<forall>m. m \<noteq> n \<and> m \<notin> set (rr_lifted res) \<longrightarrow> nodeRow d' v m = nodeRow d v m)"
proof -
  from assms(1) have "restoreBody pg iso_time v n at d = Inr (Inr res, d')" by (simp add: restoreNode_def txGuarded_done)
  then obtain d1 x where lift: "liftEach pg v (deletedAncestors d v row) d = Inr (x, d1)"
    and res: "rr_lifted res = map nr_id (deletedAncestors d v row)"
    and rows: "own v d' = map (\<lambda>r. if nr_id r = n then restoredRow row ver (rr_rev res) (iso_time (db_now d)) r else r) (own v d1)"
    by (rule restoreBody_stages) (use row ver in auto)
  have after: "nodeRow d' v m = map_option (\<lambda>r. if nr_id r = n then restoredRow row ver (rr_rev res) (iso_time (db_now d)) r else r) (nodeRow d1 v m)" for m
  proof -
    have "(\<lambda>r. nr_id (if nr_id r = n then restoredRow row ver (rr_rev res) (iso_time (db_now d)) r else r) = m) = (\<lambda>r. nr_id r = m)"
      by (auto simp: restoredRow_def)
    then show ?thesis unfolding nodeRow_own rows by (simp add: find_through)
  qed
  have ids: "nr_id ` set (deletedAncestors d v row) = set (rr_lifted res)" by (simp add: res)
  note stage = liftEach_nodeRow [OF lift, unfolded ids]
  have keys: "keysOk (core d)" using wf by (simp add: wellFormed_def)
  have lifted: "set (rr_lifted res) = {a \<in> set (nr_ancestry row). \<exists>r. nodeRow d v a = Some r \<and> nr_deleted r \<noteq> None}"
    using keysOk_find [OF keys] nodeIn_Some [of "core d" v] by (auto simp: res firstIn_sorted)
  have "n \<notin> set (nr_ancestry row)" using wf row by (metis not_own_ancestor nodeIn_Some nodeIn_core wellFormed_def)
  then have free: "n \<notin> set (rr_lifted res)" using lifted by blast
  have same: "nodeRow d1 v m = nodeRow d v m" if "m \<notin> set (rr_lifted res)" for m
    using stage [of m] that row_id [of d v m] by (auto simp: liftedIn_def option_rel_Some1 elim!: option.rel_cases)
  have live: "nr_deleted r = None" if "a \<in> set (rr_lifted res)" "nodeRow d1 v a = Some r" for a r
    using stage [of a] that row_id [of d v a] by (auto simp: liftedIn_def elim!: option.rel_cases)
  show ?thesis
  proof (intro conjI allI impI)
    show "nodeRow d' v n = Some (restoredRow row ver (rr_rev res) (iso_time (db_now d)) row)"
      using after [of n] same [OF free] row row_id [OF row] by simp
    show "set (rr_lifted res) = {a \<in> set (nr_ancestry row). \<exists>r. nodeRow d v a = Some r \<and> nr_deleted r \<noteq> None}" by (rule lifted)
  next
    fix a r' assume a: "a \<in> set (nr_ancestry row) \<and> nodeRow d' v a = Some r'"
    with \<open>n \<notin> set (nr_ancestry row)\<close> have "a \<noteq> n" by blast
    with a after [of a] row_id [of d1 v a] have r': "nodeRow d1 v a = Some r'" by auto
    show "nr_deleted r' = None"
    proof (cases "a \<in> set (rr_lifted res)")
      case True
      with live r' show ?thesis by blast
    next
      case False
      with r' same [OF False] lifted a show ?thesis by auto
    qed
  next
    fix m assume m: "m \<noteq> n \<and> m \<notin> set (rr_lifted res)"
    then have "nodeRow d1 v m = nodeRow d v m" by (simp add: same)
    with m after [of m] row_id [of d1 v m] show "nodeRow d' v m = nodeRow d v m" by (cases "nodeRow d v m") auto
  qed
qed
subsection \<open>What a purge and a reset take\<close>

lemma ancestry_step:
  assumes "wellFormed bottom d" "c \<in> set (db_nodes d)" "q \<in> set (db_nodes d)" "nr_vault q = nr_vault c" "nr_parent c = Some (nr_id q)"
  shows "nr_ancestry c = nr_ancestry q @ [nr_id q]"
  using wellFormed_ancestry [OF assms(1,3)] assms(2,4,5) by (auto simp: ancestryMatches_def list_all_iff)

text \<open>What is below a node is below its parent.\<close>

lemma ancestry_trans:
  assumes wf: "wellFormed bottom d" and m: "m \<in> set (db_nodes d)" and c: "c \<in> set (db_nodes d)" "nr_vault c = nr_vault m" "nr_id c \<in> set (nr_ancestry m)"
  shows "set (nr_ancestry c) \<subseteq> set (nr_ancestry m)"
proof -
  from c(3) obtain a b where ab: "nr_ancestry m = a @ nr_id c # b" by (meson split_list)
  have keys: "keysOk (core d)" "chains (core d)" using wf by (simp_all add: wellFormed_def)
  from ancestor_row [OF keys _ ab] m obtain q where q: "q \<in> set (db_nodes d)" "nr_vault q = nr_vault m" "nr_id q = nr_id c" "nr_ancestry q = a"
    by auto
  from same_key [OF keys(1), of q c] q c(1,2) have "q = c" by simp
  with q(4) ab show ?thesis by auto
qed

lemma doomedTrash_down:
  assumes wf: "wellFormed bottom d" and c: "c \<in> set (db_nodes d)" and q: "q \<in> set (db_nodes d)" "nr_vault q = nr_vault c" "nr_parent c = Some (nr_id q)"
    and P: "doomedTrash d v t q"
  shows "doomedTrash d v t c"
proof -
  note anc = ancestry_step [OF wf c q]
  have "nr_deleted c \<noteq> None" using P c q(2) anc by (auto simp: doomedTrash_def list_ex_iff)
  moreover have "\<not> (m \<in> set (db_nodes d) \<and> nr_vault m = nr_vault c \<and> nr_id c \<in> set (nr_ancestry m) \<and> nr_deleted m = None)" for m
    using P ancestry_trans [OF wf, of m c] c q(2) anc by (auto simp: doomedTrash_def list_ex_iff)
  ultimately show ?thesis using P anc q(2) by (auto simp: doomedTrash_def list_ex_iff split: option.splits)
qed

lemma KEEP_up:
  assumes wf: "wellFormed bottom d" and c: "c \<in> set (db_nodes d)" and q: "q \<in> set (db_nodes d)" "nr_vault q = nr_vault c" "nr_parent c = Some (nr_id q)"
    and "KEEP d c"
  shows "KEEP d q"
proof -
  note anc = ancestry_step [OF wf c q]
  from assms(6) consider "nr_share c \<noteq> None"
    | m where "m \<in> set (db_nodes d)" "nr_vault m = nr_vault c" "nr_share m \<noteq> None" "nr_id c \<in> set (nr_ancestry m)"
    using q(3) by (auto simp: KEEP_def list_ex_iff)
  then show ?thesis
  proof cases
    case 1
    with c q(2) anc show ?thesis by (auto simp: KEEP_def list_ex_iff)
  next
    case 2
    with ancestry_trans [OF wf 2(1) c] anc q(2) show ?thesis by (auto simp: KEEP_def list_ex_iff)
  qed
qed

text \<open>Discarding trash, one subtree or all of it, never meets a reference between nodes: where no share was rooted
  at what is discarded, the removal goes through from the deepest level up and takes exactly the doomed
  rows and their versions, so a deleted folder that still holds a live node stays, with all it holds.\<close>

theorem discard_exact:
  assumes "wellFormed bottom d" "\<forall>a b. pg_statement pg a b = None"
    and "\<forall>r\<in>set (db_nodes d). rootsAShare d r \<longrightarrow> \<not> doomedTrash d v t r"
  shows "\<exists>k. discardTrash pg v t d =
    Inr (k, dropNodes (map doomedRow (filter (doomedTrash d v t) (db_nodes d))) d)"
proof -
  have "removable d (map doomedRow (filter (doomedTrash d v t) (db_nodes d)))"
  proof (rule removable_rows [OF assms(1)])
    show "\<forall>s\<in>set (db_shares d). \<forall>r\<in>set (db_nodes d). nr_vault r = sh_vault s \<and> nr_id r = sh_node s \<longrightarrow> \<not> doomedTrash d v t r"
      using assms(3) unfolding rootsAShare_def list_ex_iff by metis
  qed (use doomedTrash_down [OF assms(1)] in blast)
  from removeNodesByDepth_free [OF assms(2) this] show ?thesis by (simp add: discardTrash_def reading_def)
qed

lemma deleteOwnTree_free:
  assumes wf: "wellFormed bottom d" and "\<forall>a b. pg_statement pg a b = None"
    and "\<forall>r\<in>set (db_nodes d). rootsAShare d r \<and> nr_vault r = v \<longrightarrow> KEEP d r"
  shows "\<exists>k. deleteOwnTree pg v d = Inr (k, dropNodes (map doomedRow (filter (\<lambda>n. nr_vault n = v \<and> \<not> KEEP d n) (db_nodes d))) d)"
proof -
  let ?P = "\<lambda>n. nr_vault n = v \<and> \<not> KEEP d n"
  have "removable d (map doomedRow (filter ?P (db_nodes d)))"
  proof (rule removable_rows [OF wf])
    show "\<forall>s\<in>set (db_shares d). \<forall>r\<in>set (db_nodes d). nr_vault r = sh_vault s \<and> nr_id r = sh_node s \<longrightarrow> \<not> ?P r"
      using assms(3) unfolding rootsAShare_def list_ex_iff by metis
    show "\<forall>c\<in>set (db_nodes d). \<forall>q\<in>set (db_nodes d). nr_vault q = nr_vault c \<and> nr_parent c = Some (nr_id q) \<and> ?P q \<longrightarrow> ?P c"
    proof (intro ballI impI)
      fix c q assume cq: "c \<in> set (db_nodes d)" "q \<in> set (db_nodes d)" "nr_vault q = nr_vault c \<and> nr_parent c = Some (nr_id q) \<and> ?P q"
      with KEEP_up [OF wf cq(1,2)] show "?P c" by auto
    qed
  qed
  from removeNodesByDepth_free [OF assms(2) this] show ?thesis
    by (auto simp: deleteOwnTree_def reading_def)
qed

text \<open>C29. A reset takes the vault's own tree and leaves every copy of a shared folder: when no share was rooted in
  what goes, the removal succeeds, every marked node stays with all the folders above it and the vault's
  root, no other vault loses anything, and nothing else of the vault is left.\<close>

theorem reset_keeps_shared:
  assumes wf: "wellFormed bottom d" and "\<forall>a b. pg_statement pg a b = None"
    and "\<forall>r\<in>set (db_nodes d). rootsAShare d r \<and> nr_vault r = v \<longrightarrow> KEEP d r"
  shows "\<exists>k d'. deleteOwnTree pg v d = Inr (k, d') \<and>
    db_nodes d' = filter (\<lambda>r. nr_vault r \<noteq> v \<or> KEEP d r) (db_nodes d) \<and>
    (\<forall>r\<in>set (db_nodes d'). \<forall>a\<in>set (nr_ancestry r). nodeRow d' (nr_vault r) a \<noteq> None) \<and>
    (\<forall>r\<in>set (db_nodes d). nr_share r \<noteq> None \<longrightarrow> r \<in> set (db_nodes d'))"
proof -
  let ?P = "\<lambda>n. nr_vault n = v \<and> \<not> KEEP d n"
  let ?d' = "dropNodes (map doomedRow (filter ?P (db_nodes d))) d"
  have keys: "keysOk (core d)" "chains (core d)" using wf by (simp_all add: wellFormed_def)
  from deleteOwnTree_free [OF assms] obtain k where run: "deleteOwnTree pg v d = Inr (k, ?d')" by blast
  have "named (map doomedRow (filter ?P (db_nodes d))) (nr_vault r) (nr_id r) \<longleftrightarrow> ?P r" if "r \<in> set (db_nodes d)" for r
    using same_key [OF keys(1)] that by (auto simp: named_def list_ex_iff doomedRow_def)
  then have rows: "db_nodes ?d' = filter (\<lambda>r. nr_vault r \<noteq> v \<or> KEEP d r) (db_nodes d)"
    by (auto simp: dropNodes_def intro: filter_cong)
  have above: "nodeRow ?d' (nr_vault r) a \<noteq> None" if r: "r \<in> set (db_nodes ?d')" and a: "a \<in> set (nr_ancestry r)" for r a
  proof -
    have rd: "r \<in> set (db_nodes d)" "nr_vault r \<noteq> v \<or> KEEP d r" using r unfolding rows by simp_all
    from a obtain x y where "nr_ancestry r = x @ a # y" by (meson split_list)
    from ancestor_row [OF keys _ this] rd(1) obtain q where q: "q \<in> set (db_nodes d)" "nr_vault q = nr_vault r" "nr_id q = a" by auto
    have "KEEP d q" if keep: "KEEP d r"
    proof -
      have "nr_ancestry r \<noteq> []" using a by auto
      then have "nr_parent r \<noteq> None" using wellFormed_chain [OF wf rd(1)] by (auto simp: parentChain_def split: option.splits)
      with keep consider "nr_share r \<noteq> None"
        | m where "m \<in> set (db_nodes d)" "nr_vault m = nr_vault r" "nr_share m \<noteq> None" "nr_id r \<in> set (nr_ancestry m)"
        by (auto simp: KEEP_def list_ex_iff)
      then show ?thesis
      proof cases
        case 1
        with rd(1) q a show ?thesis by (auto simp: KEEP_def list_ex_iff)
      next
        case 2
        with ancestry_trans [OF wf 2(1) rd(1)] q a show ?thesis by (auto simp: KEEP_def list_ex_iff)
      qed
    qed
    with rd(2) q have "q \<in> set (db_nodes ?d')" unfolding rows by auto
    with q show ?thesis by (auto simp: nodeRow_def find_None_iff)
  qed
  have "r \<in> set (db_nodes ?d')" if "r \<in> set (db_nodes d)" "nr_share r \<noteq> None" for r
    using that unfolding rows by (simp add: KEEP_def)
  with run rows above show ?thesis by (intro exI [of _ k] exI [of _ ?d']) simp
qed
subsection \<open>What stops a reset and a purge\<close>

lemma removal_root:
  assumes "n \<in> set (db_nodes d)" "rootsAShare d n" "P n"
  shows "\<exists>e. removeNodesByDepth pg (map doomedRow (filter P (db_nodes d))) d = Inl e"
proof -
  let ?ds = "map doomedRow (filter P (db_nodes d))"
  have "named ?ds (nr_vault n) (nr_id n)" using assms(1,3) by (auto simp: named_def list_ex_iff doomedRow_def)
  then have "named (concat (byDepth ?ds)) (nr_vault n) (nr_id n)"
    using byDepth_levels [of ?ds] named_set [of "concat (byDepth ?ds)" ?ds] by simp
  from removeLevels_root [OF assms(1,2) this] show ?thesis by (simp add: removeNodesByDepth_def)
qed

text \<open>C30. The rows of shares outlive them, and they decide whether a vault can be reset: where nothing else of the
  schema is in the way, removing the vault's own tree fails exactly when some share, ended or cancelled
  included, was rooted at a node that is not kept, one without a mark and with no marked node under it, as the
  root is once its owner has finished with the share. Then every reset of the vault fails and leaves the
  store as it was.\<close>

theorem share_root_stops_reset:
  assumes "wellFormed bottom d" "\<forall>a b. pg_statement pg a b = None"
    and "find (\<lambda>va. vr_id va = v \<and> vr_user va = u) (db_vaults d) = Some va"
  shows "((\<exists>e. deleteOwnTree pg v d = Inl e) \<longleftrightarrow> (\<exists>n\<in>set (db_nodes d). nr_vault n = v \<and> rootsAShare d n \<and> \<not> KEEP d n)) \<and>
    ((\<exists>n\<in>set (db_nodes d). nr_vault n = v \<and> rootsAShare d n \<and> \<not> KEEP d n) \<longrightarrow> (\<exists>e. resetVault pg digest u v d = (Inl e, d)))"
proof -
  have stops: "\<exists>e. deleteOwnTree pg v d = Inl e" if "n \<in> set (db_nodes d)" "nr_vault n = v" "rootsAShare d n" "\<not> KEEP d n" for n
    using removal_root [OF that(1,3), of "\<lambda>m. nr_vault m = v \<and> \<not> KEEP d m" pg] that(2,4) by (auto simp: deleteOwnTree_def reading_def)
  have "\<exists>e. resetVault pg digest u v d = (Inl e, d)" if "deleteOwnTree pg v d = Inl e" for e
    unfolding resetVault_def plainTx_def resetBody_def reading_def assms(3) option.case
    by (simp add: tx_bind_def that)
  with stops deleteOwnTree_free [OF assms(1,2), of v] show ?thesis by (metis sum.distinct(1))
qed

lemma share_root_stops_purge:
  assumes "n \<in> set (db_nodes d)" "rootsAShare d n" "doomedTrash d v None n" "vaultRow d v = Some va"
  shows "\<exists>e. purgeBody pg digest v None d = Inl e"
proof -
  from removal_root [of n d "doomedTrash d v None" pg] assms(1-3) obtain e where "discardTrash pg v None d = Inl e" by (auto simp: discardTrash_def reading_def)
  then show ?thesis by (simp add: purgeBody_def reading_def assms(4) truthy_def tx_bind_def)
qed

subsection \<open>The recount\<close>

text \<open>After a recount every claim of the account counts the rows that point at its bytes, and no claim that
  is neither counted nor pending is left.\<close>

lemma recountQuota_exact:
  assumes "recountQuota pg u d = Inr (x, d')" "b \<in> set (db_user_blobs d')" "ub_user b = u"
  shows "ub_own b = HELD d' u (ub_sha b) \<and> (0 < ub_own b \<or> 0 < ub_pending b)"
proof -
  from assms(1) have d': "db_user_blobs d' = map (\<lambda>b. if ub_user b = u then b\<lparr>ub_own := HELD d u (ub_sha b)\<rparr> else b)
      (filter (\<lambda>b. \<not> (ub_user b = u \<and> ub_pending b = 0 \<and> HELD d u (ub_sha b) = 0)) (db_user_blobs d))"
    and same: "db_nodes d' = db_nodes d" "db_versions d' = db_versions d" "db_vaults d' = db_vaults d"
    by (auto simp: recountQuota_def tx_seq_def tx_bind_def statement_def HELD_def ownedBy_def vaultRow_def split: option.splits)
  have "HELD d' u = HELD d u" using same by (simp add: HELD_def ownedBy_def vaultRow_def fun_eq_iff)
  from assms(2,3) obtain c where c: "b = c\<lparr>ub_own := HELD d u (ub_sha c)\<rparr>" "0 < ub_pending c \<or> 0 < HELD d u (ub_sha c)"
    unfolding d' by (auto split: if_splits)
  show ?thesis unfolding \<open>HELD d' u = HELD d u\<close> c(1) using c(2) by auto
qed

lemma recount_counts_heads_twice:
  "HELD (exStore\<lparr>db_versions := [exVersion 3 0]\<rparr>) ''ann'' ''h1'' = 2"
  by code_simp
subsection \<open>Examples\<close>

text \<open>The note \<open>n\<close> and the folder \<open>s\<close> above it were deleted; the share's copies in the other vault were too.\<close>

definition trashedStore :: db where
  "trashedStore = exStore\<lparr>
     db_nodes := map (\<lambda>r. if nr_id r \<in> {''s'', ''n'', ''n2''} then r\<lparr>nr_deleted := Some 5\<rparr> else r) (db_nodes exStore),
     db_versions := [exVersion 3 0]\<rparr>"

lemma trashedStore_wellFormed: "wellFormed (\<lambda>_. 0) trashedStore"
  by (simp add: wellFormed_def keysOk_def chains_def chainOk_def revsOk_def trashedStore_def exStore_def exRow_def exLog_def core_def headOf_def)

definition restoredStore :: db where
  "restoredStore = snd (restoreNode openPg showNat ''A'' ''n'' 3 trashedStore)"

definition restoredAnswer :: restore_result where
  "restoredAnswer = \<lparr>rr_rev = 6, rr_lifted = [''s'']\<rparr>"

lemma restoredStore_runs: "restoreNode openPg showNat ''A'' ''n'' 3 trashedStore = (Done restoredAnswer, restoredStore)"
proof -
  have "case fst (restoreNode openPg showNat ''A'' ''n'' 3 trashedStore) of Done r \<Rightarrow> r = restoredAnswer | Refused _ \<Rightarrow> False | Crashed _ \<Rightarrow> False"
    by code_simp
  then have "fst (restoreNode openPg showNat ''A'' ''n'' 3 trashedStore) = Done restoredAnswer" by (simp split: outcome.splits)
  then show ?thesis unfolding restoredStore_def by (metis prod.collapse)
qed

definition trashedNote :: node_row where
  "trashedNote = (exRow ''A'' ''n'' [''ra'', ''s''] 3 (Some ''h1'') (Some ''j''))\<lparr>nr_deleted := Some 5\<rparr>"

theorem restore_effect_witness:
  "nodeRow restoredStore ''A'' ''n'' = Some (trashedNote\<lparr>nr_deleted := None, nr_rev := 6, nr_mtime := ''9''\<rparr>) \<and>
   nodeRow restoredStore ''A'' ''p'' = nodeRow trashedStore ''A'' ''p''"
proof -
  have row: "nodeRow trashedStore ''A'' ''n'' = Some trashedNote" by code_simp
  have ver: "find (\<lambda>w. vn_rev w = 3) (versionsIn trashedStore ''A'' ''n'') = Some (exVersion 3 0)" by code_simp
  note all = restore_effect [OF restoredStore_runs trashedStore_wellFormed row ver]
  have "restoredRow trashedNote (exVersion 3 0) (rr_rev restoredAnswer) (showNat (db_now trashedStore)) trashedNote =
      trashedNote\<lparr>nr_deleted := None, nr_rev := 6, nr_mtime := ''9''\<rparr>" by code_simp
  with all show ?thesis by (simp add: restoredAnswer_def)
qed

text \<open>The private folder \<open>p\<close> in the trash of the first vault.\<close>

definition binnedStore :: db where
  "binnedStore = exStore\<lparr>db_nodes := map (\<lambda>r. if nr_id r = ''p'' then exBuried else r) (db_nodes exStore)\<rparr>"

lemma binnedStore_wellFormed: "wellFormed (\<lambda>_. 0) binnedStore"
  by (simp add: wellFormed_def keysOk_def chains_def chainOk_def revsOk_def binnedStore_def exStore_def exRow_def exBuried_def exLog_def core_def headOf_def)

theorem discard_exact_witness:
  "\<exists>k. discardTrash openPg ''A'' None binnedStore =
    Inr (k, dropNodes (map doomedRow (filter (doomedTrash binnedStore ''A'' None) (db_nodes binnedStore))) binnedStore)"
proof (rule discard_exact [OF binnedStore_wellFormed])
  show "\<forall>a b. pg_statement openPg a b = None" by (simp add: openPg_def)
  have "list_all (\<lambda>r. rootsAShare binnedStore r \<longrightarrow> \<not> doomedTrash binnedStore ''A'' None r) (db_nodes binnedStore)" by code_simp
  then show "\<forall>r\<in>set (db_nodes binnedStore). rootsAShare binnedStore r \<longrightarrow> \<not> doomedTrash binnedStore ''A'' None r"
    by (simp only: list_all_iff)
qed

theorem reset_keeps_shared_witness:
  "\<exists>k d'. deleteOwnTree openPg ''A'' exStore = Inr (k, d') \<and> db_nodes d' = filter (\<lambda>r. nr_vault r \<noteq> ''A'' \<or> KEEP exStore r) (db_nodes exStore)"
proof -
  have free: "\<forall>a b. pg_statement openPg a b = None" by (simp add: openPg_def)
  have "list_all (\<lambda>r. rootsAShare exStore r \<and> nr_vault r = ''A'' \<longrightarrow> KEEP exStore r) (db_nodes exStore)" by code_simp
  then have roots: "\<forall>r\<in>set (db_nodes exStore). rootsAShare exStore r \<and> nr_vault r = ''A'' \<longrightarrow> KEEP exStore r" by (simp only: list_all_iff)
  from reset_keeps_shared [OF exStore_wellFormed free roots] show ?thesis by blast
qed

lemma buriedStore_wellFormed: "wellFormed (\<lambda>_. 0) buriedStore"
  by (simp add: wellFormed_def keysOk_def chains_def chainOk_def revsOk_def buriedStore_def exStore_def exRow_def exBuried_def exLog_def core_def headOf_def)

theorem share_root_stops_reset_witness: "\<exists>e. resetVault openPg (\<lambda>u. u) ''ann'' ''A'' buriedStore = (Inl e, buriedStore)"
proof -
  have n: "exBuried \<in> set (db_nodes buriedStore)" "rootsAShare buriedStore exBuried" "\<not> KEEP buriedStore exBuried" "nr_vault exBuried = ''A''"
    by (simp_all add: buriedStore_def exStore_def exRow_def exBuried_def exShare_def rootsAShare_def KEEP_def)
  have "find (\<lambda>va. vr_id va = ''A'' \<and> vr_user va = ''ann'') (db_vaults buriedStore) = Some (hd (db_vaults exStore))"
    by (simp add: buriedStore_def exStore_def)
  moreover have "\<forall>a b. pg_statement openPg a b = None" by (simp add: openPg_def)
  ultimately show ?thesis using share_root_stops_reset [OF buriedStore_wellFormed] n by blast
qed

end
