(* ===== verification/Server_Backups.thy ===== *)
theory Server_Backups
  imports Prelude
begin

text \<open>
  Backups on a schedule: the arithmetic of a schedule in a time zone and the claim of a moment
  (\<open>backup-schedule.ts\<close>), what may be removed of a copy (\<open>backup-remove.ts\<close>) and the sweep of the old ones
  (\<open>backup-scheduler.ts\<close>). Instants are milliseconds, as in a JavaScript date; a local date is its number of
  days, which is what \<open>Date.UTC\<close> and the \<open>getUTC\<close> functions exchange for a year, a month and a day. The zones
  (\<open>Intl\<close>) are a table of offsets.
\<close>

subsection \<open>A schedule\<close>

abbreviation MINUTE :: int where "MINUTE \<equiv> 60 * 1000"
abbreviation DAY :: int where "DAY \<equiv> 24 * 60 * MINUTE"

record backup_schedule =
  bs_enabled :: bool
  bs_time :: string
  bs_days :: "int list"
  bs_zone :: string
  bs_keep :: int

record zone_table =
  zt_known :: "string \<Rightarrow> bool"
  zt_offset :: "string \<Rightarrow> int \<Rightarrow> int"

definition KEEP_MAX :: int where "KEEP_MAX = 30"

definition isTime :: "string \<Rightarrow> bool" where
  "isTime s = (case s of
     [a, b, c, m, n] \<Rightarrow> ((a \<in> set ''01'' \<and> b \<in> set ''0123456789'') \<or> (a = CHR ''2'' \<and> b \<in> set ''0123'')) \<and>
       c = CHR '':'' \<and> m \<in> set ''012345'' \<and> n \<in> set ''0123456789''
   | _ \<Rightarrow> False)"

definition tidyDays :: "int list \<Rightarrow> int list" where
  "tidyDays days = sort (remdups days)"

datatype schedule_refusal = BadTime | BadKeep | BadZone | BadDays | NoDays

definition scheduleProblem :: "zone_table \<Rightarrow> backup_schedule \<Rightarrow> schedule_refusal option" where
  "scheduleProblem zt s =
     (if \<not> isTime (bs_time s) then Some BadTime
      else if bs_keep s < 1 \<or> bs_keep s > KEEP_MAX then Some BadKeep
      else if \<not> zt_known zt (bs_zone s) then Some BadZone
      else if list_ex (\<lambda>d. d < 0 \<or> d > 6) (bs_days s) then Some BadDays
      else if bs_enabled s \<and> bs_days s = [] then Some NoDays
      else None)"

subsection \<open>A wall clock\<close>

record local_time =
  lt_day :: int
  lt_hour :: int
  lt_minute :: int
  lt_second :: int

definition localAt :: "zone_table \<Rightarrow> string \<Rightarrow> int \<Rightarrow> local_time" where
  "localAt zt zone at =
     (let t = (at + zt_offset zt zone at) div 1000
      in \<lparr>lt_day = t div 86400, lt_hour = t mod 86400 div 3600, lt_minute = t mod 3600 div 60, lt_second = t mod 60\<rparr>)"

definition utc :: "int \<Rightarrow> int \<Rightarrow> int \<Rightarrow> int \<Rightarrow> int" where
  "utc day hh mm ss = (((day * 24 + hh) * 60 + mm) * 60 + ss) * 1000"

definition offsetMs :: "zone_table \<Rightarrow> string \<Rightarrow> int \<Rightarrow> int" where
  "offsetMs zt zone at = (let l = localAt zt zone at in utc (lt_day l) (lt_hour l) (lt_minute l) (lt_second l) - at)"

definition instantOf :: "zone_table \<Rightarrow> string \<Rightarrow> int \<Rightarrow> int \<Rightarrow> int \<Rightarrow> int" where
  "instantOf zt zone day hh mm =
     (let wanted = utc day hh mm 0;
          first = wanted - offsetMs zt zone wanted
      in wanted - offsetMs zt zone first)"

text \<open>The clock began on a Thursday; Sunday is 0.\<close>

definition weekday :: "int \<Rightarrow> int" where "weekday day = (day + 4) mod 7"

definition clockDigit :: "char \<Rightarrow> int" where "clockDigit c = of_char c - 48"

definition atOn :: "zone_table \<Rightarrow> backup_schedule \<Rightarrow> int \<Rightarrow> int" where
  "atOn zt s day = instantOf zt (bs_zone s) day
     (10 * clockDigit (bs_time s ! 0) + clockDigit (bs_time s ! 1)) (10 * clockDigit (bs_time s ! 3) + clockDigit (bs_time s ! 4))"

fun walkDays :: "zone_table \<Rightarrow> backup_schedule \<Rightarrow> int list \<Rightarrow> int \<Rightarrow> int \<Rightarrow> (int \<Rightarrow> bool) \<Rightarrow> int list \<Rightarrow> int option" where
  "walkDays zt s days here step fits [] = None"
| "walkDays zt s days here step fits (i # is) =
     (let day = here + i * step
      in if weekday day \<notin> set days then walkDays zt s days here step fits is
         else if fits (atOn zt s day) then Some (atOn zt s day)
         else walkDays zt s days here step fits is)"

definition nineDays :: "int list" where "nineDays = [0, 1, 2, 3, 4, 5, 6, 7, 8]"

definition firstFiring :: "zone_table \<Rightarrow> backup_schedule \<Rightarrow> int \<Rightarrow> int \<Rightarrow> (int \<Rightarrow> bool) \<Rightarrow> int option" where
  "firstFiring zt s from step fits =
     (let days = tidyDays (bs_days s)
      in if days = [] then None
         else walkDays zt s days (lt_day (localAt zt (bs_zone s) from)) step fits nineDays)"

definition nextRun :: "zone_table \<Rightarrow> backup_schedule \<Rightarrow> int \<Rightarrow> int option" where
  "nextRun zt s after = firstFiring zt s after 1 (\<lambda>at. at > after)"

definition lastDue :: "zone_table \<Rightarrow> backup_schedule \<Rightarrow> int \<Rightarrow> int option" where
  "lastDue zt s at = firstFiring zt s at (-1) (\<lambda>due. due \<le> at)"

definition CATCH_UP_MS :: int where "CATCH_UP_MS = 6 * 60 * MINUTE"

subsection \<open>The row and the claim\<close>

record stored_schedule = backup_schedule +
  ss_lastScheduledFor :: "int option"
  ss_updatedAt :: int

definition readSettings :: "stored_schedule \<Rightarrow> backup_schedule" where
  "readSettings s = (backup_schedule.truncate s)\<lparr>bs_days := tidyDays (bs_days s)\<rparr>"

definition saveSchedule :: "zone_table \<Rightarrow> backup_schedule \<Rightarrow> int \<Rightarrow> stored_schedule" where
  "saveSchedule zt s now =
     (let s = s\<lparr>bs_days := tidyDays (bs_days s)\<rparr>
      in backup_schedule.extend s \<lparr>ss_lastScheduledFor = lastDue zt s now, ss_updatedAt = now\<rparr>)"

text \<open>The moment one reading of the row owes, and the conditional update of the row as it is by then.\<close>

definition owedMoment :: "zone_table \<Rightarrow> stored_schedule \<Rightarrow> int \<Rightarrow> int option" where
  "owedMoment zt s now =
     (if \<not> bs_enabled s then None
      else case lastDue zt (readSettings s) now of
          None \<Rightarrow> None
        | Some due \<Rightarrow> (case ss_lastScheduledFor s of
              None \<Rightarrow> Some due
            | Some l \<Rightarrow> if l \<ge> due then None else Some due))"

definition claimMoment :: "int \<Rightarrow> stored_schedule \<Rightarrow> bool \<times> stored_schedule" where
  "claimMoment due s =
     (if bs_enabled s \<and> (case ss_lastScheduledFor s of None \<Rightarrow> True | Some l \<Rightarrow> l < due)
      then (True, s\<lparr>ss_lastScheduledFor := Some due\<rparr>) else (False, s))"

definition claimDue :: "zone_table \<Rightarrow> int \<Rightarrow> stored_schedule \<Rightarrow> (int \<times> bool) option \<times> stored_schedule" where
  "claimDue zt now s =
     (case owedMoment zt s now of
        None \<Rightarrow> (None, s)
      | Some due \<Rightarrow>
          (case claimMoment due s of
             (claimed, s') \<Rightarrow> (if claimed then Some (due, now - due > CATCH_UP_MS) else None, s')))"

subsection \<open>Copies\<close>

datatype backup_status = RunRunning | RunOk | RunFailed | RunSkipped
datatype backup_source = FromSchedule | Manual

record backup_run =
  br_id :: string
  br_started :: int
  br_status :: backup_status
  br_source :: backup_source
  br_destination :: "string option"

record backup_store =
  bt_runs :: "backup_run list"
  bt_deleted :: "string list"

datatype remove_refused = RunNotFound | OutsideDestination | NewestCopy | StillRunning | AlreadyGone

definition isRunDir :: "string \<Rightarrow> bool" where
  "isRunDir s \<longleftrightarrow> startsWith s ''backup-'' \<and> drop 7 s \<noteq> [] \<and> list_all (\<lambda>c. c \<in> set ''0123456789TZ:.-'') (drop 7 s)"

text \<open>\<open>resolved\<close> is the absolute path \<open>path.resolve\<close> makes.\<close>

definition insideDestination :: "(string \<Rightarrow> string) \<Rightarrow> string \<Rightarrow> string \<Rightarrow> bool" where
  "insideDestination resolved root path =
     (let base = resolved root; full = resolved path; rest = drop (length base + 1) full
      in startsWith full (base @ ''/'') \<and> CHR ''/'' \<notin> set rest \<and> isRunDir rest)"

definition runRow :: "backup_store \<Rightarrow> string \<Rightarrow> backup_run option" where
  "runRow st i = find (\<lambda>r. br_id r = i) (bt_runs st)"

definition backupCopies :: "(backup_run \<Rightarrow> bool) \<Rightarrow> backup_store \<Rightarrow> backup_run list" where
  "backupCopies P st = sort_key (\<lambda>r. - br_started r) (filter (\<lambda>r. P r \<and> br_status r = RunOk \<and> br_destination r \<noteq> None) (bt_runs st))"

definition newestCopy :: "backup_store \<Rightarrow> string option" where
  "newestCopy st = (case backupCopies (\<lambda>_. True) st of [] \<Rightarrow> None | r # _ \<Rightarrow> Some (br_id r))"

definition removeBackupCopy :: "(string \<Rightarrow> string) \<Rightarrow> string \<Rightarrow> string \<Rightarrow> backup_store \<Rightarrow> remove_refused option \<times> backup_store" where
  "removeBackupCopy resolved root i st =
     (case runRow st i of
        None \<Rightarrow> (Some RunNotFound, st)
      | Some r \<Rightarrow>
          if br_status r = RunRunning then (Some StillRunning, st)
          else (case br_destination r of
              None \<Rightarrow> (Some AlreadyGone, st)
            | Some path \<Rightarrow>
                if path = '''' then (Some AlreadyGone, st)
                else if \<not> insideDestination resolved root path then (Some OutsideDestination, st)
                else if newestCopy st = Some i then (Some NewestCopy, st)
                else (None, st\<lparr>bt_deleted := bt_deleted st @ [path],
                  bt_runs := map (\<lambda>r. if br_id r = i then r\<lparr>br_destination := None\<rparr> else r) (bt_runs st)\<rparr>)))"

fun sweepEach :: "(string \<Rightarrow> string) \<Rightarrow> string \<Rightarrow> string list \<Rightarrow> nat \<Rightarrow> backup_store \<Rightarrow> nat \<times> backup_store" where
  "sweepEach resolved root [] removed st = (removed, st)"
| "sweepEach resolved root (i # is) removed st =
     (case removeBackupCopy resolved root i st of
        (Some refused, st') \<Rightarrow> sweepEach resolved root is removed st'
      | (None, st') \<Rightarrow> sweepEach resolved root is (removed + 1) st')"

definition sweepScheduledCopies :: "(string \<Rightarrow> string) \<Rightarrow> string \<Rightarrow> nat \<Rightarrow> backup_store \<Rightarrow> nat \<times> backup_store" where
  "sweepScheduledCopies resolved root keep st =
     sweepEach resolved root (map br_id (drop keep (backupCopies (\<lambda>r. br_source r = FromSchedule) st))) 0 st"

subsection \<open>The arithmetic\<close>

lemma whole_parts: "x mod 1000 = 0 \<Longrightarrow> x div 1000 * 1000 = (x::int)"
  using div_mult_mod_eq [of x 1000] by simp

lemma whole_add: "x mod 1000 = 0 \<Longrightarrow> y mod 1000 = 0 \<Longrightarrow> (x + y) mod (1000::int) = 0 \<and> (x - y) mod 1000 = 0"
  by (simp add: mod_eq_0_iff_dvd)

lemma utc_parts: "utc (t div 86400) (t mod 86400 div 3600) (t mod 3600 div 60) (t mod 60) = t * 1000"
proof -
  have parts: "(((d * 24 + h) * 60 + m) * 60 + c) * 1000 = n * 1000"
    if "d * 86400 + x = n" "h * 3600 + y = x" "m * 60 + c = y" for d h m c n x y :: int
    using that by simp
  have "t mod 86400 mod 3600 = t mod 3600" "t mod 3600 mod 60 = t mod 60" by (simp_all add: mod_mod_cancel)
  then have "t mod 86400 div 3600 * 3600 + t mod 3600 = t mod 86400" "t mod 3600 div 60 * 60 + t mod 60 = t mod 3600"
    using div_mult_mod_eq [of "t mod 86400" 3600] div_mult_mod_eq [of "t mod 3600" 60] by (simp_all only:)
  from parts [OF div_mult_mod_eq this] show ?thesis unfolding utc_def .
qed

lemma offsetMs_whole:
  assumes "(at + zt_offset zt z at) mod 1000 = 0"
  shows "offsetMs zt z at = zt_offset zt z at"
proof -
  have "utc (lt_day (localAt zt z at)) (lt_hour (localAt zt z at)) (lt_minute (localAt zt z at)) (lt_second (localAt zt z at)) =
      (at + zt_offset zt z at) div 1000 * 1000"
    unfolding localAt_def Let_def by (simp only: local_time.simps utc_parts)
  then show ?thesis unfolding offsetMs_def Let_def whole_parts [OF assms] by simp
qed

text \<open>Offsets are whole seconds, as \<open>Intl\<close> tells them.\<close>

definition wholeSeconds :: "zone_table \<Rightarrow> string \<Rightarrow> bool" where
  "wholeSeconds zt z \<longleftrightarrow> (\<forall>t. zt_offset zt z t mod 1000 = 0)"

lemma utc_whole: "utc day hh mm ss mod 1000 = 0"
  by (simp add: utc_def)

lemma instantOf_offset:
  assumes "wholeSeconds zt z"
  shows "\<exists>t. instantOf zt z day hh mm = utc day hh mm 0 - zt_offset zt z t"
proof -
  have off: "zt_offset zt z t mod 1000 = 0" for t using assms by (simp add: wholeSeconds_def)
  let ?w = "utc day hh mm 0"
  have first: "offsetMs zt z ?w = zt_offset zt z ?w"
    by (rule offsetMs_whole) (rule conjunct1 [OF whole_add [OF utc_whole off]])
  have "(?w - zt_offset zt z ?w) mod 1000 = 0" by (rule conjunct2 [OF whole_add [OF utc_whole off]])
  then have "offsetMs zt z (?w - zt_offset zt z ?w) = zt_offset zt z (?w - zt_offset zt z ?w)"
    by (intro offsetMs_whole conjunct1 [OF whole_add] off)
  with first show ?thesis by (auto simp: instantOf_def Let_def)
qed

lemma localAt_day: "lt_day (localAt zt z at) = (at + zt_offset zt z at) div DAY"
  unfolding localAt_def Let_def by (simp add: zdiv_zmult2_eq [symmetric])

definition minutesOf :: "string \<Rightarrow> int" where
  "minutesOf s = (10 * clockDigit (s ! 0) + clockDigit (s ! 1)) * 60 + (10 * clockDigit (s ! 3) + clockDigit (s ! 4))"

lemma clockDigit_range:
  "c \<in> set ''0123456789'' \<Longrightarrow> 0 \<le> clockDigit c \<and> clockDigit c \<le> 9" "c \<in> set ''012345'' \<Longrightarrow> 0 \<le> clockDigit c \<and> clockDigit c \<le> 5"
  "c \<in> set ''01'' \<Longrightarrow> 0 \<le> clockDigit c \<and> clockDigit c \<le> 1" "c \<in> set ''0123'' \<Longrightarrow> 0 \<le> clockDigit c \<and> clockDigit c \<le> 3"
  by (auto simp: clockDigit_def)

lemma minutesOf_range:
  assumes "isTime s"
  shows "0 \<le> minutesOf s \<and> minutesOf s < 24 * 60"
proof -
  from assms obtain a b c m n where s: "s = [a, b, c, m, n]"
    and hours: "(a \<in> set ''01'' \<and> b \<in> set ''0123456789'') \<or> (a = CHR ''2'' \<and> b \<in> set ''0123'')"
    and minutes: "m \<in> set ''012345''" "n \<in> set ''0123456789''"
    unfolding isTime_def by (auto split: list.splits simp del: list.set)
  have two: "clockDigit CHR ''2'' = 2" by (simp add: clockDigit_def)
  have "0 \<le> 10 * clockDigit a + clockDigit b \<and> 10 * clockDigit a + clockDigit b \<le> 23"
    using hours clockDigit_range(3) [of a] clockDigit_range(1) [of b] clockDigit_range(4) [of b] two by fastforce
  then show ?thesis using clockDigit_range(2) [OF minutes(1)] clockDigit_range(1) [OF minutes(2)]
    by (simp add: s minutesOf_def numeral_eq_Suc)
qed

lemma atOn_offset:
  assumes "wholeSeconds zt (bs_zone s)"
  shows "\<exists>t. atOn zt s day = day * DAY + minutesOf (bs_time s) * MINUTE - zt_offset zt (bs_zone s) t"
proof -
  from instantOf_offset [OF assms] obtain t where "atOn zt s day = utc day (10 * clockDigit (bs_time s ! 0) + clockDigit (bs_time s ! 1))
      (10 * clockDigit (bs_time s ! 3) + clockDigit (bs_time s ! 4)) 0 - zt_offset zt (bs_zone s) t"
    unfolding atOn_def by blast
  then show ?thesis by (intro exI [of _ t]) (simp add: utc_def minutesOf_def algebra_simps)
qed

subsection \<open>The walk over nine days\<close>

lemma walkDays_Some:
  "walkDays zt s days here step fits is = Some t \<Longrightarrow>
   \<exists>i\<in>set is. weekday (here + i * step) \<in> set days \<and> t = atOn zt s (here + i * step) \<and> fits t"
  by (induction "is") (auto simp: Let_def split: if_splits)

lemma walkDays_find:
  assumes "i \<in> set is" "weekday (here + i * step) \<in> set days" "fits (atOn zt s (here + i * step))"
  shows "\<exists>t. walkDays zt s days here step fits is = Some t"
  using assms by (induction "is") (auto simp: Let_def)

text \<open>Of seven days in a row one has the weekday that is asked for.\<close>

lemma weekday_among:
  assumes "0 \<le> w" "w \<le> (6::int)"
  shows "\<exists>i\<in>{2, 3, 4, 5, 6, 7, 8}. weekday (here + i) = w" "\<exists>i\<in>{2, 3, 4, 5, 6, 7, 8}. weekday (here - i) = w"
proof -
  define k where "k = (w - 4 - here - 2) mod 7"
  have k: "0 \<le> k" "k \<le> 6" by (simp_all add: k_def)
  have "weekday (here + (k + 2)) = (here + 6 + (w - 4 - here - 2) mod 7) mod 7" by (simp add: weekday_def k_def algebra_simps)
  then have "weekday (here + (k + 2)) = w" using assms unfolding mod_add_right_eq by simp
  moreover have "k + 2 \<in> {2, 3, 4, 5, 6, 7, 8}" using k by auto
  ultimately show "\<exists>i\<in>{2, 3, 4, 5, 6, 7, 8}. weekday (here + i) = w" by blast
next
  define k where "k = (here - 2 + 4 - w) mod 7"
  have k: "0 \<le> k" "k \<le> 6" by (simp_all add: k_def)
  have "weekday (here - (k + 2)) = (here + 2 - (here - 2 + 4 - w) mod 7) mod 7" by (simp add: weekday_def k_def algebra_simps)
  then have "weekday (here - (k + 2)) = w" using assms unfolding mod_diff_right_eq by simp
  moreover have "k + 2 \<in> {2, 3, 4, 5, 6, 7, 8}" using k by auto
  ultimately show "\<exists>i\<in>{2, 3, 4, 5, 6, 7, 8}. weekday (here - i) = w" by blast
qed

lemma clock_day: "lt_day (localAt zt z at) * DAY \<le> at + zt_offset zt z at \<and> at + zt_offset zt z at < (lt_day (localAt zt z at) + 1) * DAY"
proof -
  have parts: "q * DAY \<le> x \<and> x < (q + 1) * DAY" if "q * DAY + r = x" "0 \<le> r" "r < DAY" for q r x :: int
    using that by (simp add: algebra_simps)
  show ?thesis unfolding localAt_day
    by (rule parts [OF div_mult_mod_eq]) (rule pos_mod_sign pos_mod_bound; simp)+
qed

lemma tidyDays_set: "set (tidyDays ds) = set ds"
  by (simp add: tidyDays_def)

lemma valid_schedule:
  assumes "scheduleProblem zt s = None"
  shows "isTime (bs_time s)" "d \<in> set (bs_days s) \<Longrightarrow> 0 \<le> d \<and> d \<le> 6" "bs_enabled s \<Longrightarrow> bs_days s \<noteq> []"
  using assms by (auto simp: scheduleProblem_def list_ex_iff split: if_splits)

lemma firstFiring_sound:
  "firstFiring zt s now step fits = Some t \<Longrightarrow> fits t \<and> (\<exists>day. weekday day \<in> set (bs_days s) \<and> t = atOn zt s day)"
  by (auto simp: firstFiring_def Let_def tidyDays_set split: if_splits dest!: walkDays_Some)

lemma firstFiring_complete:
  assumes "i \<in> set nineDays" "weekday (lt_day (localAt zt (bs_zone s) now) + i * step) \<in> set (bs_days s)"
    and "fits (atOn zt s (lt_day (localAt zt (bs_zone s) now) + i * step))"
  shows "\<exists>t. firstFiring zt s now step fits = Some t"
proof -
  have "tidyDays (bs_days s) \<noteq> []" using assms(2) tidyDays_set [of "bs_days s"] by auto
  then show ?thesis
    using walkDays_find [OF assms(1), of "lt_day (localAt zt (bs_zone s) now)" step "tidyDays (bs_days s)" fits zt s] assms(2,3)
    by (simp add: firstFiring_def Let_def tidyDays_set)
qed

lemma later_days: "i \<in> {2, 3, 4, 5, 6, 7, 8} \<Longrightarrow> i \<in> set nineDays \<and> 2 \<le> i"
  by (auto simp: nineDays_def)

lemma firing_exists:
  assumes "scheduleProblem zt s = None" "bs_enabled s"
    and "\<And>i. 2 \<le> i \<Longrightarrow> i \<le> 8 \<Longrightarrow> now < atOn zt s (lt_day (localAt zt (bs_zone s) now) + i) \<and>
      atOn zt s (lt_day (localAt zt (bs_zone s) now) - i) \<le> now"
  shows "(\<exists>t. nextRun zt s now = Some t \<and> now < t \<and> (\<exists>day. weekday day \<in> set (bs_days s) \<and> t = atOn zt s day)) \<and>
    (\<exists>t. lastDue zt s now = Some t \<and> t \<le> now \<and> (\<exists>day. weekday day \<in> set (bs_days s) \<and> t = atOn zt s day))"
proof -
  let ?here = "lt_day (localAt zt (bs_zone s) now)"
  note valid = valid_schedule [OF assms(1)]
  from valid(3) [OF assms(2)] obtain w where w: "w \<in> set (bs_days s)" by (cases "bs_days s") auto
  from weekday_among(1) [of w ?here] valid(2) [OF w] obtain i where i: "i \<in> {2, 3, 4, 5, 6, 7, 8}" "weekday (?here + i) = w" by blast
  have "\<exists>t. nextRun zt s now = Some t" unfolding nextRun_def
    by (rule firstFiring_complete [of i]) (use later_days [OF i(1)] assms(3) [of i] i w in auto)
  moreover from weekday_among(2) [of w ?here] valid(2) [OF w] obtain j where j: "j \<in> {2, 3, 4, 5, 6, 7, 8}" "weekday (?here - j) = w" by blast
  have "\<exists>t. lastDue zt s now = Some t" unfolding lastDue_def
    by (rule firstFiring_complete [of j]) (use later_days [OF j(1)] assms(3) [of j] j w in auto)
  ultimately show ?thesis unfolding nextRun_def lastDue_def by (meson firstFiring_sound)
qed

text \<open>What the table of the zones (IANA's, behind \<open>Intl\<close>) keeps to around a moment: offsets are whole seconds and
  shorter than a day, and within two weeks the clock is set by no more than a day in all. Summer time moves it
  by an hour or two, and a crossing of the date line, as Kiritimati's, Kanton's and Apia's, by exactly a day.\<close>

definition steadyAround :: "zone_table \<Rightarrow> string \<Rightarrow> int \<Rightarrow> bool" where
  "steadyAround zt z now \<longleftrightarrow> (\<forall>t. \<bar>t - now\<bar> \<le> 14 * DAY \<longrightarrow>
     zt_offset zt z t mod 1000 = 0 \<and> \<bar>zt_offset zt z t\<bar> < DAY \<and> \<bar>zt_offset zt z t - zt_offset zt z now\<bar> \<le> DAY)"

lemma instantOf_around:
  assumes "steadyAround zt z now" "\<bar>utc day hh mm 0 - now\<bar> \<le> 12 * DAY"
  shows "\<exists>c. instantOf zt z day hh mm = utc day hh mm 0 - c \<and> \<bar>c - zt_offset zt z now\<bar> \<le> DAY"
proof -
  let ?w = "utc day hh mm 0"
  have near: "zt_offset zt z t mod 1000 = 0" "\<bar>zt_offset zt z t\<bar> < DAY" "\<bar>zt_offset zt z t - zt_offset zt z now\<bar> \<le> DAY"
    if "\<bar>t - now\<bar> \<le> 14 * DAY" for t using assms(1) that unfolding steadyAround_def by blast+
  have w: "\<bar>?w - now\<bar> \<le> 14 * DAY" using assms(2) by simp
  have first: "offsetMs zt z ?w = zt_offset zt z ?w"
    by (rule offsetMs_whole) (rule conjunct1 [OF whole_add [OF utc_whole near(1) [OF w]]])
  let ?f = "?w - zt_offset zt z ?w"
  have f: "\<bar>?f - now\<bar> \<le> 14 * DAY" using assms(2) near(2) [OF w] by simp
  have "?f mod 1000 = 0" by (rule conjunct2 [OF whole_add [OF utc_whole near(1) [OF w]]])
  then have "offsetMs zt z ?f = zt_offset zt z ?f"
    by (intro offsetMs_whole conjunct1 [OF whole_add] near(1) [OF f])
  with first near(3) [OF f] show ?thesis by (auto simp: instantOf_def Let_def)
qed

lemma atOn_around:
  assumes "steadyAround zt (bs_zone s) now" "isTime (bs_time s)" "\<bar>day - lt_day (localAt zt (bs_zone s) now)\<bar> \<le> 8"
  shows "\<exists>c. atOn zt s day = day * DAY + minutesOf (bs_time s) * MINUTE - c \<and> \<bar>c - zt_offset zt (bs_zone s) now\<bar> \<le> DAY"
proof -
  let ?hh = "10 * clockDigit (bs_time s ! 0) + clockDigit (bs_time s ! 1)" and ?mm = "10 * clockDigit (bs_time s ! 3) + clockDigit (bs_time s ! 4)"
  have w: "utc day ?hh ?mm 0 = day * DAY + minutesOf (bs_time s) * MINUTE" by (simp add: utc_def minutesOf_def algebra_simps)
  have "\<bar>zt_offset zt (bs_zone s) now\<bar> < DAY" using assms(1) unfolding steadyAround_def by simp
  then have "\<bar>utc day ?hh ?mm 0 - now\<bar> \<le> 12 * DAY"
    using clock_day [of zt "bs_zone s" now] minutesOf_range [OF assms(2)] assms(3) unfolding w abs_le_iff abs_less_iff by auto
  from instantOf_around [OF assms(1) this] show ?thesis unfolding atOn_def w by blast
qed

lemma two_days_on:
  assumes "steadyAround zt (bs_zone s) now" "isTime (bs_time s)" "2 \<le> i" "i \<le> 8"
  shows "now < atOn zt s (lt_day (localAt zt (bs_zone s) now) + i) \<and> atOn zt s (lt_day (localAt zt (bs_zone s) now) - i) \<le> now"
proof -
  note minutes = minutesOf_range [OF assms(2)] and here = clock_day [of zt "bs_zone s" now]
  from atOn_around [OF assms(1,2), of "lt_day (localAt zt (bs_zone s) now) + i"] assms(3,4) minutes here
  have "now < atOn zt s (lt_day (localAt zt (bs_zone s) now) + i)" by auto
  moreover from atOn_around [OF assms(1,2), of "lt_day (localAt zt (bs_zone s) now) - i"] assms(3,4) minutes here
  have "atOn zt s (lt_day (localAt zt (bs_zone s) now) - i) \<le> now" by auto
  ultimately show ?thesis by blast
qed

text \<open>C37. A schedule that passed the check never runs dry: at every moment around which the zone's clock is set by no
  more than a day in two weeks, summer time and crossings of the date line included, the walk over nine days
  finds a next run after it and a last due moment not after it, each at the schedule's time on one of its
  weekdays.\<close>

theorem schedule_goes_on:
  assumes "scheduleProblem zt s = None" "bs_enabled s" "steadyAround zt (bs_zone s) now"
  shows "(\<exists>t. nextRun zt s now = Some t \<and> now < t \<and> (\<exists>day. weekday day \<in> set (bs_days s) \<and> t = atOn zt s day)) \<and>
    (\<exists>t. lastDue zt s now = Some t \<and> t \<le> now \<and> (\<exists>day. weekday day \<in> set (bs_days s) \<and> t = atOn zt s day))"
  by (rule firing_exists [OF assms(1,2)]) (rule two_days_on [OF assms(3) valid_schedule(1) [OF assms(1)]])

subsection \<open>Where the clock does not change\<close>

lemma walkDays_first:
  "walkDays zt s days here step fits is = Some t \<Longrightarrow>
   \<exists>xs i ys. is = xs @ i # ys \<and> weekday (here + i * step) \<in> set days \<and> t = atOn zt s (here + i * step) \<and> fits t \<and>
     (\<forall>j\<in>set xs. weekday (here + j * step) \<in> set days \<longrightarrow> \<not> fits (atOn zt s (here + j * step)))"
proof (induction "is")
  case Nil
  then show ?case by simp
next
  case (Cons k ks)
  show ?case
  proof (cases "weekday (here + k * step) \<in> set days \<and> fits (atOn zt s (here + k * step))")
    case True
    with Cons.prems have "t = atOn zt s (here + k * step)" by (auto simp: Let_def split: if_splits)
    with True show ?thesis by (intro exI [of _ "[]"] exI [of _ k] exI [of _ ks]) simp
  next
    case False
    with Cons.prems have "walkDays zt s days here step fits ks = Some t" by (auto simp: Let_def split: if_splits)
    from Cons.IH [OF this] obtain xs i ys where "ks = xs @ i # ys" "weekday (here + i * step) \<in> set days" "t = atOn zt s (here + i * step)" "fits t"
      "\<forall>j\<in>set xs. weekday (here + j * step) \<in> set days \<longrightarrow> \<not> fits (atOn zt s (here + j * step))" by blast
    with False show ?thesis by (intro exI [of _ "k # xs"] exI [of _ i] exI [of _ ys]) auto
  qed
qed

lemma nineDays_before:
  assumes "nineDays = xs @ i # ys" "0 \<le> j" "j < i"
  shows "j \<in> set xs"
proof -
  have sorted: "sorted_wrt (<) nineDays" by (simp add: nineDays_def)
  have "i \<in> set nineDays" unfolding assms(1) by simp
  then have "i \<le> 8" by (auto simp: nineDays_def)
  have "j \<in> set [0..8]" using assms(2,3) \<open>i \<le> 8\<close> by simp
  moreover have "[0..8] = nineDays" by (simp add: nineDays_def upto.simps)
  ultimately have "j \<in> set nineDays" by simp
  moreover have "j \<notin> set (i # ys)" using sorted assms(3) unfolding assms(1) sorted_wrt_append by auto
  ultimately show ?thesis unfolding assms(1) by simp
qed

definition fixedZone :: "zone_table \<Rightarrow> string \<Rightarrow> int \<Rightarrow> bool" where
  "fixedZone zt z c \<longleftrightarrow> (\<forall>t. zt_offset zt z t = c) \<and> c mod 1000 = 0"

lemma atOn_fixed:
  assumes "fixedZone zt (bs_zone s) c"
  shows "atOn zt s day = day * DAY + minutesOf (bs_time s) * MINUTE - c"
  using atOn_offset [of zt s day] assms by (auto simp: wholeSeconds_def fixedZone_def)

lemma firstFiring_first:
  assumes "firstFiring zt s now step fits = Some t"
  shows "\<exists>i. weekday (lt_day (localAt zt (bs_zone s) now) + i * step) \<in> set (bs_days s) \<and> t = atOn zt s (lt_day (localAt zt (bs_zone s) now) + i * step) \<and>
    (\<forall>j. 0 \<le> j \<and> j < i \<and> weekday (lt_day (localAt zt (bs_zone s) now) + j * step) \<in> set (bs_days s) \<longrightarrow>
      \<not> fits (atOn zt s (lt_day (localAt zt (bs_zone s) now) + j * step)))"
proof -
  have "walkDays zt s (tidyDays (bs_days s)) (lt_day (localAt zt (bs_zone s) now)) step fits nineDays = Some t"
    using assms by (auto simp: firstFiring_def Let_def split: if_splits)
  from walkDays_first [OF this] nineDays_before show ?thesis unfolding tidyDays_set by metis
qed

text \<open>C38. In a zone without clock changes the next run is the earliest moment after now, and the last due one the
  latest not after now, of all the moments at the schedule's time on its weekdays.\<close>

theorem nextRun_least:
  assumes "scheduleProblem zt s = None" "bs_enabled s" "fixedZone zt (bs_zone s) c" "weekday day \<in> set (bs_days s)"
  shows "(now < atOn zt s day \<longrightarrow> (\<exists>t. nextRun zt s now = Some t \<and> now < t \<and> t \<le> atOn zt s day)) \<and>
    (atOn zt s day \<le> now \<longrightarrow> (\<exists>t. lastDue zt s now = Some t \<and> atOn zt s day \<le> t \<and> t \<le> now))"
proof -
  let ?here = "lt_day (localAt zt (bs_zone s) now)"
  note at = atOn_fixed [OF assms(3)]
  have here: "?here * DAY \<le> now + c" "now + c < (?here + 1) * DAY"
    using clock_day [of zt "bs_zone s" now] assms(3) by (simp_all add: fixedZone_def)
  have minutes: "0 \<le> minutesOf (bs_time s)" "minutesOf (bs_time s) < 24 * 60"
    using minutesOf_range [OF valid_schedule(1) [OF assms(1)]] by simp_all
  have "now < atOn zt s (?here + i) \<and> atOn zt s (?here - i) \<le> now" if "2 \<le> i" for i
    using that minutes here unfolding at by simp
  from firing_exists [OF assms(1,2) this]
  obtain t t' where t: "nextRun zt s now = Some t" "now < t" and t': "lastDue zt s now = Some t'" "t' \<le> now" by blast
  from firstFiring_first [OF t(1) [unfolded nextRun_def]] obtain i where i: "t = atOn zt s (?here + i)"
    "\<And>j. 0 \<le> j \<Longrightarrow> j < i \<Longrightarrow> weekday (?here + j) \<in> set (bs_days s) \<Longrightarrow> \<not> now < atOn zt s (?here + j)" by auto
  from firstFiring_first [OF t'(1) [unfolded lastDue_def]] obtain k where k: "t' = atOn zt s (?here - k)"
    "\<And>j. 0 \<le> j \<Longrightarrow> j < k \<Longrightarrow> weekday (?here - j) \<in> set (bs_days s) \<Longrightarrow> \<not> atOn zt s (?here - j) \<le> now" by auto
  have "t \<le> atOn zt s day" if later: "now < atOn zt s day"
  proof -
    have "?here \<le> day" using later minutes here unfolding at by simp
    with i(2) [of "day - ?here"] later assms(4) have "i \<le> day - ?here" by fastforce
    then show ?thesis unfolding i(1) at by simp
  qed
  moreover have "atOn zt s day \<le> t'" if past: "atOn zt s day \<le> now"
  proof -
    have "day \<le> ?here" using past minutes here unfolding at by simp
    with k(2) [of "?here - day"] past assms(4) have "k \<le> ?here - day" by fastforce
    then show ?thesis unfolding k(1) at by simp
  qed
  ultimately show ?thesis using t t' by blast
qed

subsection \<open>Around a change of the clock\<close>

text \<open>A zone east of Greenwich whose clock goes back from two hours ahead to one: an hour is repeated, and the
  schedule fires in its second run, not its first. A zone west of it whose clock goes from five hours
  behind to four: a time in the skipped hour fires an hour early, before the gap and not after it.\<close>

definition autumnEast :: zone_table where
  "autumnEast = \<lparr>zt_known = (\<lambda>_. True), zt_offset = (\<lambda>_ t. if t < 60 * MINUTE then 120 * MINUTE else 60 * MINUTE)\<rparr>"

definition springWest :: zone_table where
  "springWest = \<lparr>zt_known = (\<lambda>_. True), zt_offset = (\<lambda>_ t. if t < 7 * 60 * MINUTE then - 300 * MINUTE else - 240 * MINUTE)\<rparr>"

lemma repeated_hour_second: "instantOf autumnEast z 0 2 30 = 90 * MINUTE \<and>
    localAt autumnEast z (30 * MINUTE) = localAt autumnEast z (90 * MINUTE)"
  by code_simp

lemma skipped_hour_before: "instantOf springWest z 0 2 30 = 6 * 60 * MINUTE + 30 * MINUTE \<and>
    lt_hour (localAt springWest z (instantOf springWest z 0 2 30)) = 1"
  by code_simp
subsection \<open>A moment is claimed once\<close>

text \<open>Any number of servers and ticks: a server reads the row and works out what is owed, and later, the row
  having changed in between or not, makes its conditional update.\<close>

datatype claim_event = ReadsAt nat int | Updates nat

record claiming =
  cg_row :: stored_schedule
  cg_owed :: "nat \<Rightarrow> int option"
  cg_taken :: "int list"

fun claimEvent :: "zone_table \<Rightarrow> claim_event \<Rightarrow> claiming \<Rightarrow> claiming" where
  "claimEvent zt (ReadsAt k now) c = c\<lparr>cg_owed := (cg_owed c)(k := owedMoment zt (cg_row c) now)\<rparr>"
| "claimEvent zt (Updates k) c =
     (case cg_owed c k of
        None \<Rightarrow> c
      | Some due \<Rightarrow>
          (case claimMoment due (cg_row c) of
             (claimed, row) \<Rightarrow> c\<lparr>cg_row := row, cg_owed := (cg_owed c)(k := None),
               cg_taken := cg_taken c @ (if claimed then [due] else [])\<rparr>))"

lemma claimDue_events:
  assumes "claimDue zt now row = (out, row')"
  shows "cg_row (claimEvent zt (Updates k) (claimEvent zt (ReadsAt k now) \<lparr>cg_row = row, cg_owed = owed, cg_taken = taken\<rparr>)) = row' \<and>
    cg_taken (claimEvent zt (Updates k) (claimEvent zt (ReadsAt k now) \<lparr>cg_row = row, cg_owed = owed, cg_taken = taken\<rparr>)) =
      taken @ (case out of None \<Rightarrow> [] | Some (due, late) \<Rightarrow> [due])"
  using assms by (auto simp: claimDue_def split: option.splits prod.splits if_splits)

definition marked :: "claiming \<Rightarrow> bool" where
  "marked c \<longleftrightarrow> sorted_wrt (<) (cg_taken c) \<and>
     (\<forall>d\<in>set (cg_taken c). case ss_lastScheduledFor (cg_row c) of None \<Rightarrow> False | Some l \<Rightarrow> d \<le> l)"

lemma claimEvent_marked: "marked c \<Longrightarrow> marked (claimEvent zt e c)"
proof (cases e)
  case (Updates k)
  assume m: "marked c"
  show ?thesis
  proof (cases "\<exists>due. cg_owed c k = Some due \<and> fst (claimMoment due (cg_row c))")
    case True
    then obtain due where due: "cg_owed c k = Some due" "claimMoment due (cg_row c) = (True, (cg_row c)\<lparr>ss_lastScheduledFor := Some due\<rparr>)"
      and new: "case ss_lastScheduledFor (cg_row c) of None \<Rightarrow> True | Some l \<Rightarrow> l < due"
      by (auto simp: claimMoment_def split: if_splits)
    have "d < due" if "d \<in> set (cg_taken c)" for d
      using m that new by (fastforce simp: marked_def split: option.splits)
    with m due show ?thesis by (fastforce simp: Updates marked_def sorted_wrt_append)
  next
    case False
    with m show ?thesis by (auto simp: Updates marked_def claimMoment_def split: option.splits)
  qed
qed (simp add: marked_def)

text \<open>C39. Whatever the servers that share the database do and in whatever order they read the row and update it,
  the moments they take are strictly increasing: none is taken twice, and none older than one that has been
  taken.\<close>

theorem moments_taken_once:
  assumes "cg_taken c = []"
  shows "sorted_wrt (<) (cg_taken (fold (claimEvent zt) events c))"
proof -
  have "marked (fold (claimEvent zt) events c)" if "marked c" for c
    using that by (induction events arbitrary: c) (simp_all add: claimEvent_marked)
  then show ?thesis using assms by (simp add: marked_def)
qed

subsection \<open>What the sweep removes\<close>

definition without :: "string set \<Rightarrow> backup_store \<Rightarrow> backup_run list" where
  "without gone st = map (\<lambda>r. if br_id r \<in> gone then r\<lparr>br_destination := None\<rparr> else r) (bt_runs st)"

lemma without_in:
  "r \<in> set (bt_runs st) \<Longrightarrow> br_id r \<notin> gone \<Longrightarrow> r \<in> set (without gone st)"
  "r \<in> set (bt_runs st) \<Longrightarrow> br_id r \<in> gone \<Longrightarrow> r\<lparr>br_destination := None\<rparr> \<in> set (without gone st)"
  unfolding without_def set_map by (rule image_eqI [of _ _ r]; simp)+

lemma copies_without:
  assumes "bt_runs st' = without gone st"
  shows "backupCopies P st' = filter (\<lambda>r. br_id r \<notin> gone) (backupCopies P st)"
proof -
  have "filter (\<lambda>r. P r \<and> br_status r = RunOk \<and> br_destination r \<noteq> None) (map (\<lambda>r. if br_id r \<in> gone then r\<lparr>br_destination := None\<rparr> else r) rs) =
      filter (\<lambda>r. br_id r \<notin> gone) (filter (\<lambda>r. P r \<and> br_status r = RunOk \<and> br_destination r \<noteq> None) rs)" for rs
    by (induction rs) auto
  then show ?thesis unfolding backupCopies_def assms without_def filter_sort by simp
qed

lemma newest_stays:
  assumes "bt_runs st' = without gone st" "newestCopy st = Some i" "i \<notin> gone"
  shows "newestCopy st' = Some i"
  using assms(2,3) unfolding newestCopy_def copies_without [OF assms(1)] by (auto split: list.splits)

text \<open>One removal: refused and nothing changes, or one finished copy inside the destination goes that is not
  the newest.\<close>

lemma removeBackupCopy_cases:
  assumes "removeBackupCopy resolved root i st = (out, st')"
  obtains (refused) e where "out = Some e" "st' = st"
  | (removed) r path where "out = None" "runRow st i = Some r" "br_destination r = Some path" "insideDestination resolved root path"
      "newestCopy st \<noteq> Some i" "bt_runs st' = without {i} st" "bt_deleted st' = bt_deleted st @ [path]"
  using assms by (auto simp: removeBackupCopy_def without_def split: option.splits if_splits)

lemma without_more: "bt_runs st' = without {i} st \<Longrightarrow> bt_runs st'' = without gone st' \<Longrightarrow> bt_runs st'' = without (insert i gone) st"
  by (auto simp: without_def)

lemma sweepEach_effect:
  "sweepEach resolved root is n st = (m, st') \<Longrightarrow> newestCopy st = Some top_copy \<Longrightarrow>
   \<exists>gone. gone \<subseteq> set is \<and> top_copy \<notin> gone \<and> bt_runs st' = without gone st \<and>
     (\<forall>path\<in>set (bt_deleted st'). path \<in> set (bt_deleted st) \<or> insideDestination resolved root path)"
proof (induction "is" arbitrary: n st)
  case Nil
  then have "bt_runs st' = without {} st" by (simp add: without_def)
  with Nil show ?case by (intro exI [of _ "{}"]) simp
next
  case (Cons i "is")
  obtain out st1 where step: "removeBackupCopy resolved root i st = (out, st1)" by fastforce
  then show ?case
  proof (cases rule: removeBackupCopy_cases)
    case (refused e)
    with Cons.prems step have "sweepEach resolved root is n st = (m, st')" by simp
    from Cons.IH [OF this Cons.prems(2)] show ?thesis by (meson dual_order.trans set_subset_Cons)
  next
    case (removed r path)
    with Cons.prems(1) step have rest: "sweepEach resolved root is (n + 1) st1 = (m, st')" by simp
    have top_copy: "top_copy \<noteq> i" using removed(5) Cons.prems(2) by simp
    from Cons.IH [OF rest newest_stays [OF removed(6) Cons.prems(2)]] top_copy obtain gone where gone: "gone \<subseteq> set is" "top_copy \<notin> gone"
      "bt_runs st' = without gone st1" "\<forall>p\<in>set (bt_deleted st'). p \<in> set (bt_deleted st1) \<or> insideDestination resolved root p" by auto
    from without_more [OF removed(6) gone(3)] gone top_copy removed(4,7) show ?thesis by (intro exI [of _ "insert i gone"]) auto
  qed
qed

text \<open>C40. The sweep of old copies clears only runs that the schedule took, that succeeded and that are not among the
  newest it keeps; every path it deletes is a run directory directly inside the configured destination; and
  the newest copy of all, which a restore would use, is still the newest afterwards.\<close>

theorem sweep_keeps:
  assumes "sweepScheduledCopies resolved root keep st = (m, st')" "newestCopy st = Some top_copy" "distinct (map br_id (bt_runs st))"
  shows "(\<forall>r\<in>set (bt_runs st). r \<in> set (bt_runs st') \<or>
      r\<lparr>br_destination := None\<rparr> \<in> set (bt_runs st') \<and> br_source r = FromSchedule \<and> br_status r = RunOk \<and>
      r \<notin> set (take keep (backupCopies (\<lambda>r. br_source r = FromSchedule) st))) \<and>
    newestCopy st' = Some top_copy \<and>
    (\<forall>path\<in>set (bt_deleted st'). path \<in> set (bt_deleted st) \<or> insideDestination resolved root path)"
proof -
  let ?copies = "backupCopies (\<lambda>r. br_source r = FromSchedule) st"
  from sweepEach_effect [OF assms(1) [unfolded sweepScheduledCopies_def] assms(2)] obtain gone where
    gone: "gone \<subseteq> set (map br_id (drop keep ?copies))" "top_copy \<notin> gone" "bt_runs st' = without gone st"
    "\<forall>path\<in>set (bt_deleted st'). path \<in> set (bt_deleted st) \<or> insideDestination resolved root path" by blast
  have sub: "set ?copies \<subseteq> set (bt_runs st)" by (auto simp: backupCopies_def)
  have inj: "x = y" if "x \<in> set (bt_runs st)" "y \<in> set (bt_runs st)" "br_id x = br_id y" for x y
    using assms(3) that by (auto simp: distinct_map inj_on_def)
  have apart: "set (take keep ?copies) \<inter> set (drop keep ?copies) = {}"
    using assms(3) by (intro set_take_disj_set_drop_if_distinct) (simp_all add: backupCopies_def distinct_map distinct_filter)
  have "r \<in> set (bt_runs st') \<or> r\<lparr>br_destination := None\<rparr> \<in> set (bt_runs st') \<and> br_source r = FromSchedule \<and> br_status r = RunOk \<and>
      r \<notin> set (take keep ?copies)" if r: "r \<in> set (bt_runs st)" for r
  proof (cases "br_id r \<in> gone")
    case False
    with r show ?thesis unfolding gone(3) by (blast intro: without_in(1))
  next
    case True
    with gone(1) obtain x where x: "x \<in> set (drop keep ?copies)" "br_id x = br_id r" by auto
    then have "x \<in> set ?copies" by (meson in_set_dropD)
    with sub inj [of x r] x(2) r have "x = r" by auto
    with x(1) \<open>x \<in> set ?copies\<close> have "r \<in> set (drop keep ?copies)" "br_source r = FromSchedule" "br_status r = RunOk"
      by (simp_all add: backupCopies_def)
    moreover have "r\<lparr>br_destination := None\<rparr> \<in> set (bt_runs st')" unfolding gone(3) by (rule without_in(2) [OF r True])
    ultimately show ?thesis using apart by blast
  qed
  with gone(4) newest_stays [OF gone(3) assms(2) gone(2)] show ?thesis by blast
qed

subsection \<open>Examples\<close>

definition inUtc :: zone_table where
  "inUtc = \<lparr>zt_known = (\<lambda>_. True), zt_offset = (\<lambda>_ _. 0)\<rparr>"

definition nightly :: backup_schedule where
  "nightly = \<lparr>bs_enabled = True, bs_time = ''02:30'', bs_days = [1, 4], bs_zone = ''UTC'', bs_keep = 2\<rparr>"

lemma nightly_valid: "scheduleProblem inUtc nightly = None" "bs_enabled nightly" "fixedZone inUtc (bs_zone nightly) 0"
  by (code_simp, simp add: nightly_def, simp add: fixedZone_def inUtc_def)

text \<open>A zone that crosses the date line, as Apia's at the end of 2011: ten hours behind before, fourteen ahead after.\<close>

definition acrossTheLine :: zone_table where
  "acrossTheLine = \<lparr>zt_known = (\<lambda>_. True), zt_offset = (\<lambda>_ t. if t < 0 then - 600 * MINUTE else 840 * MINUTE)\<rparr>"

theorem schedule_goes_on_witness:
  "nextRun acrossTheLine nightly (-1) = Some (750 * MINUTE) \<and> - 1 < 750 * MINUTE"
proof -
  have "scheduleProblem acrossTheLine nightly = None" by code_simp
  moreover have "steadyAround acrossTheLine (bs_zone nightly) (-1)"
    by (simp add: steadyAround_def acrossTheLine_def)
  ultimately obtain t where "nextRun acrossTheLine nightly (-1) = Some t" "- 1 < t" using schedule_goes_on nightly_valid(2) by blast
  moreover have "nextRun acrossTheLine nightly (-1) = Some (750 * MINUTE)" by code_simp
  ultimately show ?thesis by simp
qed

theorem nextRun_least_witness: "\<exists>t. nextRun inUtc nightly 5 = Some t \<and> 5 < t \<and> t \<le> atOn inUtc nightly 0"
proof -
  have "weekday 0 \<in> set (bs_days nightly)" by code_simp
  moreover have "5 < atOn inUtc nightly 0" by code_simp
  ultimately show ?thesis using nextRun_least [OF nightly_valid, of 0 5] by blast
qed

definition freshClaims :: claiming where
  "freshClaims = \<lparr>cg_row = saveSchedule inUtc nightly 0, cg_owed = (\<lambda>_. None), cg_taken = []\<rparr>"

text \<open>Two servers read the same moment, one of them takes it, and a week later the next.\<close>

definition twoServers :: "claim_event list" where
  "twoServers = [ReadsAt 0 (3 * 60 * MINUTE), ReadsAt 1 (3 * 60 * MINUTE), Updates 1, Updates 0, ReadsAt 0 (5 * DAY), Updates 0]"

theorem moments_taken_once_witness:
  "sorted_wrt (<) (cg_taken (fold (claimEvent inUtc) twoServers freshClaims)) \<and>
   cg_taken (fold (claimEvent inUtc) twoServers freshClaims) = [150 * MINUTE, 4 * DAY + 150 * MINUTE]"
proof
  show "sorted_wrt (<) (cg_taken (fold (claimEvent inUtc) twoServers freshClaims))"
    by (rule moments_taken_once) (simp add: freshClaims_def)
qed code_simp

definition exRun :: "string \<Rightarrow> int \<Rightarrow> backup_source \<Rightarrow> backup_run" where
  "exRun i at src = \<lparr>br_id = i, br_started = at, br_status = RunOk, br_source = src, br_destination = Some (''/b/backup-'' @ i)\<rparr>"

definition exCopies :: backup_store where
  "exCopies = \<lparr>bt_runs = [exRun ''1'' 1 FromSchedule, exRun ''2'' 2 Manual, exRun ''3'' 3 FromSchedule, exRun ''4'' 4 FromSchedule], bt_deleted = []\<rparr>"

definition sweptCopies :: backup_store where
  "sweptCopies = snd (sweepScheduledCopies (\<lambda>p. p) ''/b'' 2 exCopies)"

theorem sweep_keeps_witness:
  "newestCopy sweptCopies = Some ''4'' \<and> bt_deleted sweptCopies = [''/b/backup-1''] \<and> exRun ''2'' 2 Manual \<in> set (bt_runs sweptCopies)"
proof -
  have run: "sweepScheduledCopies (\<lambda>p. p) ''/b'' 2 exCopies = (fst (sweepScheduledCopies (\<lambda>p. p) ''/b'' 2 exCopies), sweptCopies)"
    by (simp add: sweptCopies_def)
  have newest: "newestCopy exCopies = Some ''4''" by code_simp
  have "distinct (map br_id (bt_runs exCopies))" by (simp add: exCopies_def exRun_def)
  note all = sweep_keeps [OF run newest this]
  have "exRun ''2'' 2 Manual \<in> set (bt_runs exCopies)" by (simp add: exCopies_def)
  with all have "exRun ''2'' 2 Manual \<in> set (bt_runs sweptCopies)" by (auto simp: exRun_def)
  moreover have "bt_deleted sweptCopies = [''/b/backup-1'']" by code_simp
  ultimately show ?thesis using all by blast
qed

end
