(* ===== verification/Server_Access.thy ===== *)
theory Server_Access
  imports Server_Db "HOL-Library.List_Lexorder" "HOL-Library.Char_ord"
begin

text \<open>
  Who may speak for an account: pairing a second device (\<open>pairing/service.ts\<close>), signing in, recovering and
  changing secrets (\<open>auth/service.ts\<close>), the devices of an account (\<open>devices.ts\<close>), the guard every route runs
  behind (\<open>auth/guard.ts\<close>) and the handshake of the event socket (\<open>ws-auth.ts\<close>). Token hashes, password
  hashes, lower case and fresh identifiers are those of the library the server calls, a record of functions;
  the audit log is left out.
\<close>

subsection \<open>Accounts, devices, pairings\<close>

datatype user_state = Provisioned | Active | Disabled | Deleting | Tombstone

record account =
  ac_id :: string
  ac_login :: string
  ac_admin :: bool
  ac_state :: user_state
  ac_password_hash :: "string option"
  ac_auth_secret_hash :: "string option"
  ac_account_salt :: string
  ac_kdf_params :: string
  ac_enc_privkey :: string
  ac_wrapped_seed :: string
  ac_kek_verifier_hash :: "string option"
  ac_recovery_key :: "string option"
  ac_recovery_code_hash :: "string option"

record device =
  de_id :: string
  de_user :: string
  de_name :: string
  de_platform :: string
  de_last_seen :: "nat option"
  de_refresh_hash :: "string option"
  de_revoked :: "nat option"
  de_vault :: "string option"

record pairing =
  pa_id :: string
  pa_token_hash :: string
  pa_pubkey :: string
  pa_approved_user :: "string option"
  pa_envelope :: "string option"
  pa_claimed_device :: "string option"
  pa_expires :: nat

record access_db =
  ax_now :: nat
  ax_drawn :: nat
  ax_accounts :: "account list"
  ax_devices :: "device list"
  ax_pairings :: "pairing list"

record access_lib =
  al_hash :: "string \<Rightarrow> string"
  al_uuid :: "nat \<Rightarrow> string"
  al_token :: "nat \<Rightarrow> string"
  al_lower :: "string \<Rightarrow> string"
  al_passwordMatches :: "string \<Rightarrow> string \<Rightarrow> bool"
  al_hashPassword :: "nat \<Rightarrow> string \<Rightarrow> string"

definition tokenMatches :: "access_lib \<Rightarrow> string \<Rightarrow> string \<Rightarrow> bool" where
  "tokenMatches lib presented stored \<longleftrightarrow> al_hash lib presented = stored"

definition activeAccount :: "access_db \<Rightarrow> string \<Rightarrow> account option" where
  "activeAccount d u = find (\<lambda>a. ac_id a = u \<and> ac_state a = Active) (ax_accounts d)"

definition activeLogin :: "access_lib \<Rightarrow> access_db \<Rightarrow> string \<Rightarrow> account option" where
  "activeLogin lib d login = find (\<lambda>a. al_lower lib (ac_login a) = al_lower lib login \<and> ac_state a = Active) (ax_accounts d)"

definition setDevices :: "(device \<Rightarrow> bool) \<Rightarrow> (device \<Rightarrow> device) \<Rightarrow> access_db \<Rightarrow> access_db" where
  "setDevices P f d = d\<lparr>ax_devices := map (\<lambda>v. if P v then f v else v) (ax_devices d)\<rparr>"

definition setAccount :: "string \<Rightarrow> (account \<Rightarrow> account) \<Rightarrow> access_db \<Rightarrow> access_db" where
  "setAccount u f d = d\<lparr>ax_accounts := map (\<lambda>a. if ac_id a = u then f a else a) (ax_accounts d)\<rparr>"

definition setPairing :: "string \<Rightarrow> (pairing \<Rightarrow> pairing) \<Rightarrow> access_db \<Rightarrow> access_db" where
  "setPairing i f d = d\<lparr>ax_pairings := map (\<lambda>p. if pa_id p = i then f p else p) (ax_pairings d)\<rparr>"

definition addDevice :: "access_lib \<Rightarrow> string \<Rightarrow> string \<Rightarrow> string \<Rightarrow> access_db \<Rightarrow> string \<times> access_db" where
  "addDevice lib u name platform d =
     (let i = al_uuid lib (ax_drawn d)
      in (i, d\<lparr>ax_drawn := Suc (ax_drawn d), ax_devices := ax_devices d @
        [\<lparr>de_id = i, de_user = u, de_name = name, de_platform = platform, de_last_seen = None, de_refresh_hash = None,
          de_revoked = None, de_vault = None\<rparr>]\<rparr>))"

subsection \<open>Pairing\<close>

text \<open>A token hash that is there already is a violation of uniqueness that nothing catches.\<close>

definition beginPairing :: "access_lib \<Rightarrow> nat \<Rightarrow> string \<Rightarrow> string \<Rightarrow> access_db \<Rightarrow> string outcome \<times> access_db" where
  "beginPairing lib ttl pubkey tokenHash d =
     (if list_ex (\<lambda>p. pa_token_hash p = tokenHash) (ax_pairings d)
      then (Crashed (Database (UniqueViolation ''device_pairings_pairing_token_hash_key'')), d)
      else (let i = al_uuid lib (ax_drawn d)
        in (Done i, d\<lparr>ax_drawn := Suc (ax_drawn d), ax_pairings := ax_pairings d @
          [\<lparr>pa_id = i, pa_token_hash = tokenHash, pa_pubkey = pubkey, pa_approved_user = None, pa_envelope = None,
            pa_claimed_device = None, pa_expires = ax_now d + ttl * second\<rparr>]\<rparr>)))"

definition bySecret :: "access_lib \<Rightarrow> access_db \<Rightarrow> string \<Rightarrow> pairing option" where
  "bySecret lib d secret = find (\<lambda>p. pa_token_hash p = al_hash lib secret) (ax_pairings d)"

definition expired :: "access_db \<Rightarrow> pairing \<Rightarrow> bool" where
  "expired d p \<longleftrightarrow> pa_expires p \<le> ax_now d"

definition lookupPairing :: "access_lib \<Rightarrow> string \<Rightarrow> access_db \<Rightarrow> string outcome" where
  "lookupPairing lib secret d =
     (case bySecret lib d secret of
        None \<Rightarrow> Refused not_found
      | Some p \<Rightarrow>
          if expired d p then Refused not_found
          else if pa_approved_user p \<noteq> None then Refused already_settled
          else Done (pa_pubkey p))"

definition approvePairing :: "access_lib \<Rightarrow> string \<Rightarrow> string \<Rightarrow> string \<Rightarrow> access_db \<Rightarrow> string outcome \<times> access_db" where
  "approvePairing lib secret seedEnvelope userId d =
     (case bySecret lib d secret of
        None \<Rightarrow> (Refused not_found, d)
      | Some p \<Rightarrow>
          if expired d p then (Refused not_found, d)
          else if pa_approved_user p \<noteq> None then (Refused already_settled, d)
          else (Done (pa_pubkey p), setPairing (pa_id p) (\<lambda>p. p\<lparr>pa_approved_user := Some userId, pa_envelope := Some seedEnvelope\<rparr>) d))"

record claim_answer =
  ca_seedEnvelope :: string
  ca_encPrivkey :: string
  ca_accountSalt :: string
  ca_kdfParams :: string
  ca_deviceId :: string
  ca_userId :: string

definition claimPairing :: "access_lib \<Rightarrow> string \<Rightarrow> string \<Rightarrow> string \<Rightarrow> string \<Rightarrow> access_db \<Rightarrow> claim_answer outcome \<times> access_db" where
  "claimPairing lib pairingId secret name platform d =
     (case find (\<lambda>p. pa_id p = pairingId) (ax_pairings d) of
        None \<Rightarrow> (Refused not_found, d)
      | Some p \<Rightarrow>
          if expired d p \<or> \<not> tokenMatches lib secret (pa_token_hash p) then (Refused not_found, d)
          else (case pa_approved_user p of
              None \<Rightarrow> (Refused not_approved, d)
            | Some u \<Rightarrow>
                if pa_claimed_device p \<noteq> None then (Refused already_settled, d)
                else (case activeAccount d u of
                    None \<Rightarrow> (Refused not_found, d)
                  | Some a \<Rightarrow>
                      (case addDevice lib u name platform d of
                         (deviceId, d') \<Rightarrow>
                           (Done \<lparr>ca_seedEnvelope = the (pa_envelope p), ca_encPrivkey = ac_enc_privkey a, ca_accountSalt = ac_account_salt a,
                              ca_kdfParams = ac_kdf_params a, ca_deviceId = deviceId, ca_userId = u\<rparr>,
                            setPairing pairingId (\<lambda>p. p\<lparr>pa_claimed_device := Some deviceId\<rparr>) d')))))"

subsection \<open>Signing in and secrets\<close>

definition findActiveAccount :: "access_lib \<Rightarrow> string \<Rightarrow> access_db \<Rightarrow> account option" where
  "findActiveAccount lib login d = activeLogin lib d login"

definition verifyAuthSecret :: "access_lib \<Rightarrow> string option \<Rightarrow> string \<Rightarrow> bool" where
  "verifyAuthSecret lib stored presented = (case stored of None \<Rightarrow> False | Some h \<Rightarrow> tokenMatches lib presented h)"

definition issueRefreshToken :: "access_lib \<Rightarrow> string \<Rightarrow> access_db \<Rightarrow> string \<times> access_db" where
  "issueRefreshToken lib deviceId d =
     (let refresh = al_token lib (ax_drawn d)
      in (refresh, setDevices (\<lambda>v. de_id v = deviceId \<and> de_revoked v = None)
           (\<lambda>v. v\<lparr>de_refresh_hash := Some (al_hash lib refresh), de_last_seen := Some (ax_now d)\<rparr>) (d\<lparr>ax_drawn := Suc (ax_drawn d)\<rparr>)))"

definition refreshable :: "access_lib \<Rightarrow> access_db \<Rightarrow> string \<Rightarrow> device \<Rightarrow> bool" where
  "refreshable lib d refresh v \<longleftrightarrow> de_refresh_hash v = Some (al_hash lib refresh) \<and> de_revoked v = None \<and> activeAccount d (de_user v) \<noteq> None"

definition findDeviceByRefresh :: "access_lib \<Rightarrow> string \<Rightarrow> access_db \<Rightarrow> (string \<times> string) option \<times> access_db" where
  "findDeviceByRefresh lib refresh d =
     (map_option (\<lambda>v. (de_id v, de_user v)) (find (refreshable lib d refresh) (ax_devices d)),
      setDevices (refreshable lib d refresh) (\<lambda>v. v\<lparr>de_last_seen := Some (ax_now d)\<rparr>) d)"

definition setRecoveryCode :: "string \<Rightarrow> string \<Rightarrow> string \<Rightarrow> access_db \<Rightarrow> bool option \<times> access_db" where
  "setRecoveryCode userId recoveryKey recoveryCodeHash d =
     (case activeAccount d userId of
        None \<Rightarrow> (None, d)
      | Some a \<Rightarrow> (Some (ac_recovery_code_hash a \<noteq> None),
          setAccount userId (\<lambda>a. a\<lparr>ac_recovery_key := Some recoveryKey, ac_recovery_code_hash := Some recoveryCodeHash\<rparr>) d))"

definition setPassphrase :: "access_lib \<Rightarrow> string \<Rightarrow> string \<Rightarrow> string \<Rightarrow> access_db \<Rightarrow> bool \<times> access_db" where
  "setPassphrase lib userId wrappedSeed kekVerifier d =
     (case activeAccount d userId of
        None \<Rightarrow> (False, d)
      | Some _ \<Rightarrow> (True, setAccount userId (\<lambda>a. a\<lparr>ac_wrapped_seed := wrappedSeed, ac_kek_verifier_hash := Some (al_hash lib kekVerifier)\<rparr>) d))"

definition hasRecoveryCode :: "string \<Rightarrow> access_db \<Rightarrow> bool" where
  "hasRecoveryCode userId d = (case activeAccount d userId of None \<Rightarrow> False | Some a \<Rightarrow> ac_recovery_code_hash a \<noteq> None)"

datatype opened_by = ByPassphrase | ByRecoveryCode

definition openedEnvelope :: "access_lib \<Rightarrow> account \<Rightarrow> string option \<Rightarrow> string option \<Rightarrow> (string \<times> opened_by) option" where
  "openedEnvelope lib a kekVerifier recoveryCode =
     (case kekVerifier of
        Some v \<Rightarrow> (case ac_kek_verifier_hash a of
            None \<Rightarrow> None
          | Some h \<Rightarrow> if tokenMatches lib v h then Some (ac_wrapped_seed a, ByPassphrase) else None)
      | None \<Rightarrow> (case recoveryCode of
            None \<Rightarrow> None
          | Some code \<Rightarrow> (case (ac_recovery_code_hash a, ac_recovery_key a) of
                (Some h, Some key) \<Rightarrow> if tokenMatches lib code h then Some (key, ByRecoveryCode) else None
              | _ \<Rightarrow> None)))"

record recovered = claim_answer +
  rc_openedBy :: opened_by

definition recoverAccount :: "access_lib \<Rightarrow> string \<Rightarrow> string option \<Rightarrow> string option \<Rightarrow> string \<Rightarrow> string \<Rightarrow> access_db \<Rightarrow> recovered option \<times> access_db" where
  "recoverAccount lib login kekVerifier recoveryCode name platform d =
     (case activeLogin lib d login of
        None \<Rightarrow> (None, d)
      | Some a \<Rightarrow> (case openedEnvelope lib a kekVerifier recoveryCode of
          None \<Rightarrow> (None, d)
        | Some (envelope, by_what) \<Rightarrow>
            (case addDevice lib (ac_id a) name platform d of
               (deviceId, d') \<Rightarrow>
                 (Some \<lparr>ca_seedEnvelope = envelope, ca_encPrivkey = ac_enc_privkey a, ca_accountSalt = ac_account_salt a,
                    ca_kdfParams = ac_kdf_params a, ca_deviceId = deviceId, ca_userId = ac_id a, rc_openedBy = by_what\<rparr>, d'))))"

text \<open>The console device last seen first, the never seen last.\<close>

definition consoleDevice :: "access_db \<Rightarrow> string \<Rightarrow> device option" where
  "consoleDevice d u =
     (let vs = filter (\<lambda>v. de_user v = u \<and> de_platform v = ''console'' \<and> de_revoked v = None) (ax_devices d)
      in find (\<lambda>_. True) (sort_key (\<lambda>v. - int (the (de_last_seen v))) (filter (\<lambda>v. de_last_seen v \<noteq> None) vs) @ filter (\<lambda>v. de_last_seen v = None) vs))"

definition consoleSignIn :: "access_lib \<Rightarrow> string \<Rightarrow> string \<Rightarrow> string \<Rightarrow> access_db \<Rightarrow> (string \<times> string) option \<times> access_db" where
  "consoleSignIn lib login password deviceName d =
     (case find (\<lambda>a. al_lower lib (ac_login a) = al_lower lib login \<and> ac_state a = Active \<and> ac_admin a \<and> ac_password_hash a \<noteq> None) (ax_accounts d) of
        None \<Rightarrow> (None, d)
      | Some a \<Rightarrow>
          if \<not> al_passwordMatches lib password (the (ac_password_hash a)) then (None, d)
          else (case consoleDevice d (ac_id a) of
              Some v \<Rightarrow> (Some (ac_id a, de_id v),
                setDevices (\<lambda>w. de_id w = de_id v) (\<lambda>w. w\<lparr>de_name := deviceName, de_last_seen := Some (ax_now d)\<rparr>) d)
            | None \<Rightarrow> (case addDevice lib (ac_id a) deviceName ''console'' d of (i, d') \<Rightarrow> (Some (ac_id a, i), d'))))"

datatype password_change = PasswordOk | PasswordWrong | PasswordGone

definition changePassword :: "access_lib \<Rightarrow> string \<Rightarrow> string \<Rightarrow> string \<Rightarrow> access_db \<Rightarrow> password_change \<times> access_db" where
  "changePassword lib userId current_password next_password d =
     (case find (\<lambda>a. ac_id a = userId \<and> ac_state a = Active \<and> ac_admin a) (ax_accounts d) of
        None \<Rightarrow> (PasswordGone, d)
      | Some a \<Rightarrow> (case ac_password_hash a of
          None \<Rightarrow> (PasswordGone, d)
        | Some h \<Rightarrow>
            if \<not> al_passwordMatches lib current_password h then (PasswordWrong, d)
            else (PasswordOk, setDevices (\<lambda>v. de_user v = userId \<and> de_platform v = ''console'' \<and> de_revoked v = None)
                (\<lambda>v. v\<lparr>de_refresh_hash := None\<rparr>)
                (setAccount userId (\<lambda>a. a\<lparr>ac_password_hash := Some (al_hashPassword lib (ax_drawn d) next_password)\<rparr>) (d\<lparr>ax_drawn := Suc (ax_drawn d)\<rparr>)))))"

subsection \<open>Devices\<close>

definition activeDevices :: "access_db \<Rightarrow> string \<Rightarrow> device list" where
  "activeDevices d u =
     (let vs = sort_key de_name (filter (\<lambda>v. de_user v = u \<and> de_revoked v = None) (ax_devices d))
      in sort_key (\<lambda>v. - int (the (de_last_seen v))) (filter (\<lambda>v. de_last_seen v \<noteq> None) vs) @ filter (\<lambda>v. de_last_seen v = None) vs)"

definition learnDeviceVault :: "string \<Rightarrow> string \<Rightarrow> access_db \<Rightarrow> access_db" where
  "learnDeviceVault deviceId vaultId =
     setDevices (\<lambda>v. de_id v = deviceId \<and> de_vault v = None \<and> de_revoked v = None) (\<lambda>v. v\<lparr>de_vault := Some vaultId\<rparr>)"

definition renameDevice :: "string \<Rightarrow> string \<Rightarrow> string \<Rightarrow> access_db \<Rightarrow> string option \<times> access_db" where
  "renameDevice userId deviceId name d =
     (let P = (\<lambda>v. de_id v = deviceId \<and> de_user v = userId \<and> de_revoked v = None \<and> de_platform v \<noteq> ''console'')
      in (map_option de_name (find P (ax_devices d)), setDevices P (\<lambda>v. v\<lparr>de_name := name\<rparr>) d))"

definition revokeDevice :: "string \<Rightarrow> string \<Rightarrow> access_db \<Rightarrow> access_db" where
  "revokeDevice userId deviceId d =
     setDevices (\<lambda>v. de_id v = deviceId \<and> de_user v = userId \<and> de_revoked v = None)
       (\<lambda>v. v\<lparr>de_revoked := Some (ax_now d), de_refresh_hash := None\<rparr>) d"

subsection \<open>The guard\<close>

record caller =
  cl_userId :: string
  cl_deviceId :: string
  cl_vaultId :: "string option"

text \<open>The claims of a verified token; an empty string is no claim.\<close>

definition verifyCaller :: "string option \<times> string option \<Rightarrow> (string \<times> string) option" where
  "verifyCaller = (\<lambda>(sub, device). case (sub, device) of
     (Some u, Some v) \<Rightarrow> if u = '''' \<or> v = '''' then None else Some (u, v)
   | _ \<Rightarrow> None)"

definition liveDevice :: "access_db \<Rightarrow> string \<Rightarrow> string \<Rightarrow> device option" where
  "liveDevice d userId deviceId =
     find (\<lambda>v. de_id v = deviceId \<and> de_user v = userId \<and> de_revoked v = None \<and> activeAccount d userId \<noteq> None) (ax_devices d)"

text \<open>What a request names: the vault of its path, the share of its path where that is an identifier, the vault
  of its body, and whether its route may reach any vault of the account.\<close>

record named_in =
  ni_anyVault :: bool
  ni_pathVault :: "string option"
  ni_bodyVault :: "string option"
  ni_pathShare :: "string option"

definition withinItsVault :: "member_row list \<Rightarrow> string \<Rightarrow> string option \<Rightarrow> named_in \<Rightarrow> bool" where
  "withinItsVault members userId own_vault req =
     (case own_vault of
        None \<Rightarrow> True
      | Some v \<Rightarrow>
          if v = '''' \<or> ni_anyVault req then True
          else if ni_pathVault req \<noteq> None \<and> ni_pathVault req \<noteq> Some v then False
          else if ni_bodyVault req \<noteq> None \<and> ni_bodyVault req \<noteq> Some v then False
          else (case ni_pathShare req of
              None \<Rightarrow> True
            | Some s \<Rightarrow> list_ex (\<lambda>m. mb_share m = s \<and> mb_user m = userId \<and> (mb_vault m = Some v \<or> mb_vault m = None)) members))"

datatype auth_refusal = Unauthenticated | DeviceRevoked | NotFoundHere

definition requireAuth :: "member_row list \<Rightarrow> access_db \<Rightarrow> (string option \<times> string option) option \<Rightarrow> named_in \<Rightarrow> auth_refusal + caller" where
  "requireAuth members d claims req =
     (case Option.bind claims verifyCaller of
        None \<Rightarrow> Inl Unauthenticated
      | Some (u, v) \<Rightarrow> (case liveDevice d u v of
          None \<Rightarrow> Inl DeviceRevoked
        | Some dev \<Rightarrow>
            if \<not> withinItsVault members u (de_vault dev) req then Inl NotFoundHere
            else Inr \<lparr>cl_userId = u, cl_deviceId = v, cl_vaultId = de_vault dev\<rparr>))"

subsection \<open>The handshake of the event socket\<close>

text \<open>A first frame that does not parse, or parses to something without a token, has no token.\<close>

datatype socket_event = SocketFrame "string option" | TimerFires | SocketDisposed

datatype socket_effect = SendsRefused | Closes nat string | Subscribes "string \<times> string" | SendsOk

record socket_auth =
  so_settled :: bool
  so_timer :: bool
  so_effects :: "socket_effect list"

definition beginSocketAuth :: socket_auth where
  "beginSocketAuth = \<lparr>so_settled = False, so_timer = True, so_effects = []\<rparr>"

definition settleSocket :: "nat \<Rightarrow> string \<Rightarrow> socket_auth \<Rightarrow> socket_auth" where
  "settleSocket code reason s =
     (if so_settled s then s
      else s\<lparr>so_settled := True, so_timer := False, so_effects := so_effects s @ [SendsRefused, Closes code reason]\<rparr>)"

fun socketEvent :: "(string \<Rightarrow> (string \<times> string) option) \<Rightarrow> socket_event \<Rightarrow> socket_auth \<Rightarrow> socket_auth" where
  "socketEvent verify (SocketFrame token) s =
     (if so_settled s then s
      else case token of
          None \<Rightarrow> settleSocket 4002 ''no_token'' s
        | Some t \<Rightarrow>
            if t = '''' then settleSocket 4002 ''no_token'' s
            else (case verify t of
                None \<Rightarrow> settleSocket 4003 ''invalid_token'' s
              | Some c \<Rightarrow> s\<lparr>so_settled := True, so_timer := False, so_effects := so_effects s @ [Subscribes c, SendsOk]\<rparr>))"
| "socketEvent verify TimerFires s = (if so_timer s then settleSocket 4001 ''auth_timeout'' (s\<lparr>so_timer := False\<rparr>) else s)"
| "socketEvent verify SocketDisposed s = s\<lparr>so_settled := True, so_timer := False\<rparr>"

definition answerTo :: "(string \<Rightarrow> (string \<times> string) option) \<Rightarrow> socket_event \<Rightarrow> socket_effect list" where
  "answerTo verify e =
     (case e of
        SocketFrame token \<Rightarrow> (case Option.bind token (\<lambda>t. if t = '''' then None else Some t) of
            None \<Rightarrow> [SendsRefused, Closes 4002 ''no_token'']
          | Some t \<Rightarrow> (case verify t of
                None \<Rightarrow> [SendsRefused, Closes 4003 ''invalid_token'']
              | Some c \<Rightarrow> [Subscribes c, SendsOk]))
      | TimerFires \<Rightarrow> [SendsRefused, Closes 4001 ''auth_timeout'']
      | SocketDisposed \<Rightarrow> [])"

lemma settled_still: "so_settled s \<Longrightarrow> \<not> so_timer s \<Longrightarrow> fold (socketEvent verify) es s = s"
proof (induction es)
  case (Cons e es)
  then have "socketEvent verify e s = s" by (cases e) (simp_all add: settleSocket_def)
  with Cons show ?case by simp
qed simp

text \<open>C36. The handshake settles on what happens first and never again: the answer to any sequence of frames,
  timer and disposal is the answer to its first event alone, a socket is subscribed only for a caller the
  shared policy names for that first frame's token, and nothing leaves a timer behind.\<close>

theorem socket_settles_once:
  "so_effects (fold (socketEvent verify) (e # es) beginSocketAuth) = answerTo verify e \<and>
   \<not> so_timer (fold (socketEvent verify) (e # es) beginSocketAuth)"
proof -
  have "so_settled (socketEvent verify e beginSocketAuth) \<and> \<not> so_timer (socketEvent verify e beginSocketAuth) \<and>
      so_effects (socketEvent verify e beginSocketAuth) = answerTo verify e"
    by (cases e) (auto simp: beginSocketAuth_def settleSocket_def answerTo_def split: option.splits)
  then show ?thesis by (simp add: settled_still)
qed

subsection \<open>Requests\<close>

datatype access_request =
    BeginPairing string string
  | ApprovePairing string string string
  | ClaimPairing string string string string
  | SignIn string
  | RefreshAccess string
  | SignInConsole string string string
  | ChangePassword string string string
  | SetRecovery string string string
  | SetPassphrase string string string
  | Recover string "string option" "string option" string string
  | LearnVault string string
  | RenameDevice string string string
  | RevokeDevice string string
  | TimePasses nat
  | AccountBecomes string user_state

fun handleAccess :: "access_lib \<Rightarrow> nat \<Rightarrow> access_request \<Rightarrow> access_db \<Rightarrow> access_db" where
  "handleAccess lib ttl (BeginPairing pubkey tokenHash) d = snd (beginPairing lib ttl pubkey tokenHash d)"
| "handleAccess lib ttl (ApprovePairing secret envelope u) d = snd (approvePairing lib secret envelope u d)"
| "handleAccess lib ttl (ClaimPairing i secret name platform) d = snd (claimPairing lib i secret name platform d)"
| "handleAccess lib ttl (SignIn deviceId) d = snd (issueRefreshToken lib deviceId d)"
| "handleAccess lib ttl (RefreshAccess refresh) d = snd (findDeviceByRefresh lib refresh d)"
| "handleAccess lib ttl (SignInConsole login password name) d = snd (consoleSignIn lib login password name d)"
| "handleAccess lib ttl (ChangePassword u cur new) d = snd (changePassword lib u cur new d)"
| "handleAccess lib ttl (SetRecovery u key hash) d = snd (setRecoveryCode u key hash d)"
| "handleAccess lib ttl (SetPassphrase u seed verifier) d = snd (setPassphrase lib u seed verifier d)"
| "handleAccess lib ttl (Recover login kek code name platform) d = snd (recoverAccount lib login kek code name platform d)"
| "handleAccess lib ttl (LearnVault deviceId v) d = learnDeviceVault deviceId v d"
| "handleAccess lib ttl (RenameDevice u deviceId name) d = snd (renameDevice u deviceId name d)"
| "handleAccess lib ttl (RevokeDevice u deviceId) d = revokeDevice u deviceId d"
| "handleAccess lib ttl (TimePasses t) d = d\<lparr>ax_now := ax_now d + t\<rparr>"
| "handleAccess lib ttl (AccountBecomes u state) d = setAccount u (\<lambda>a. a\<lparr>ac_state := state\<rparr>) d"

text \<open>Identifiers are keys, and none that is drawn later is there already.\<close>

definition freshIds :: "access_lib \<Rightarrow> access_db \<Rightarrow> bool" where
  "freshIds lib d \<longleftrightarrow> inj (al_uuid lib) \<and> distinct (map de_id (ax_devices d)) \<and> distinct (map pa_id (ax_pairings d)) \<and>
     (\<forall>n\<ge>ax_drawn d. al_uuid lib n \<notin> set (map de_id (ax_devices d)) \<and> al_uuid lib n \<notin> set (map pa_id (ax_pairings d)))"

definition grows :: "access_lib \<Rightarrow> nat \<Rightarrow> nat \<Rightarrow> string list \<Rightarrow> string list \<Rightarrow> bool" where
  "grows lib m n xs ys \<longleftrightarrow> (\<exists>news. ys = xs @ news \<and> distinct news \<and> set news \<subseteq> al_uuid lib ` {m..<n})"

lemma grows_same: "grows lib m n xs xs"
  by (simp add: grows_def)

lemma grows_one: "grows lib m (Suc m) xs (xs @ [al_uuid lib m])"
  by (auto simp: grows_def)

lemma grows_fresh:
  assumes "grows lib m n xs ys" "inj (al_uuid lib)" "m \<le> n" "distinct xs" "\<And>k. m \<le> k \<Longrightarrow> al_uuid lib k \<notin> set xs"
  shows "distinct ys \<and> (\<forall>k\<ge>n. al_uuid lib k \<notin> set ys)"
proof -
  from assms(1) obtain news where news: "ys = xs @ news" "distinct news" "set news \<subseteq> al_uuid lib ` {m..<n}" by (auto simp: grows_def)
  have "x \<notin> set xs" if new: "x \<in> set news" for x
  proof -
    from new news(3) obtain k where "x = al_uuid lib k" "m \<le> k" by auto
    with assms(5) show ?thesis by simp
  qed
  moreover have "al_uuid lib k \<notin> set news" if later: "n \<le> k" for k
  proof
    assume "al_uuid lib k \<in> set news"
    with news(3) obtain j where "al_uuid lib k = al_uuid lib j" "j < n" by auto
    with assms(2) later show False by (simp add: inj_eq)
  qed
  ultimately show ?thesis using news(1,2) assms(3-5) by auto
qed

subsection \<open>A revoked device\<close>

definition barred :: "string \<Rightarrow> access_db \<Rightarrow> bool" where
  "barred i d \<longleftrightarrow> (\<forall>v\<in>set (ax_devices d). de_id v = i \<longrightarrow> de_revoked v \<noteq> None \<and> de_refresh_hash v = None)"

text \<open>What a request may do to the keys and the devices: change live ones, add one under a fresh identifier,
  and likewise for pairings.\<close>

definition extends :: "access_lib \<Rightarrow> access_db \<Rightarrow> access_db \<Rightarrow> bool" where
  "extends lib d d' \<longleftrightarrow> ax_drawn d \<le> ax_drawn d' \<and>
     grows lib (ax_drawn d) (ax_drawn d') (map de_id (ax_devices d)) (map de_id (ax_devices d')) \<and>
     grows lib (ax_drawn d) (ax_drawn d') (map pa_id (ax_pairings d)) (map pa_id (ax_pairings d')) \<and>
     (\<forall>v\<in>set (ax_devices d). de_revoked v \<noteq> None \<longrightarrow> v \<in> set (ax_devices d'))"

lemma extends_fresh:
  assumes "freshIds lib d" "extends lib d d'"
  shows "freshIds lib d'"
proof -
  have inj: "inj (al_uuid lib)" and le: "ax_drawn d \<le> ax_drawn d'" using assms by (simp_all only: freshIds_def extends_def)
  from assms(1) have d: "distinct (map de_id (ax_devices d))" "distinct (map pa_id (ax_pairings d))"
    "\<And>k. ax_drawn d \<le> k \<Longrightarrow> al_uuid lib k \<notin> set (map de_id (ax_devices d))" "\<And>k. ax_drawn d \<le> k \<Longrightarrow> al_uuid lib k \<notin> set (map pa_id (ax_pairings d))"
    unfolding freshIds_def by blast+
  from assms(2) have g: "grows lib (ax_drawn d) (ax_drawn d') (map de_id (ax_devices d)) (map de_id (ax_devices d'))"
    "grows lib (ax_drawn d) (ax_drawn d') (map pa_id (ax_pairings d)) (map pa_id (ax_pairings d'))" unfolding extends_def by blast+
  from grows_fresh [OF g(1) inj le d(1,3)] grows_fresh [OF g(2) inj le d(2,4)] inj show ?thesis unfolding freshIds_def by blast
qed

lemma extends_refl: "extends lib d d"
  by (simp add: extends_def grows_same)

lemma extends_same: "ax_devices d' = ax_devices d \<Longrightarrow> ax_pairings d' = ax_pairings d \<Longrightarrow> ax_drawn d \<le> ax_drawn d' \<Longrightarrow> extends lib d d'"
  by (simp add: extends_def grows_same)

lemma extends_devices:
  assumes "\<And>v. de_id (f v) = de_id v" "\<And>v. v \<in> set (ax_devices d) \<Longrightarrow> P v \<Longrightarrow> de_revoked v = None"
    and "ax_devices e = ax_devices d" "ax_pairings e = ax_pairings d" "ax_drawn d \<le> ax_drawn e"
  shows "extends lib d (setDevices P f e)"
proof -
  have "map de_id (ax_devices (setDevices P f e)) = map de_id (ax_devices d)"
    using assms(3) by (simp add: setDevices_def assms(1))
  moreover have "v \<in> set (ax_devices (setDevices P f e))" if "v \<in> set (ax_devices d)" "de_revoked v \<noteq> None" for v
  proof -
    have "\<not> P v" using assms(2) [OF that(1)] that(2) by blast
    with that(1) show ?thesis by (simp add: setDevices_def assms(3))
  qed
  moreover have "ax_pairings (setDevices P f e) = ax_pairings d" "ax_drawn (setDevices P f e) = ax_drawn e"
    using assms(4) by (simp_all add: setDevices_def)
  ultimately show ?thesis using assms(5) unfolding extends_def by (intro conjI ballI impI) (simp_all add: grows_same)
qed

lemma extends_pairing: "(\<And>p. pa_id (f p) = pa_id p) \<Longrightarrow> extends lib d e \<Longrightarrow> extends lib d (setPairing i f e)"
proof -
  assume f: "\<And>p. pa_id (f p) = pa_id p" and e: "extends lib d e"
  have "map pa_id (ax_pairings (setPairing i f e)) = map pa_id (ax_pairings e)" by (simp add: setPairing_def f)
  moreover have "ax_devices (setPairing i f e) = ax_devices e" "ax_drawn (setPairing i f e) = ax_drawn e" by (simp_all add: setPairing_def)
  ultimately show ?thesis using e unfolding extends_def by simp
qed

lemma extends_add: "addDevice lib u name platform d = (i, d') \<Longrightarrow> extends lib d d'"
  using grows_one [of lib "ax_drawn d" "map de_id (ax_devices d)"] by (auto simp: addDevice_def extends_def Let_def grows_same)

lemma find_in: "find P xs = Some x \<Longrightarrow> x \<in> set xs" and find_sat: "find P xs = Some x \<Longrightarrow> P x"
  by (induction xs) (auto split: if_splits)

lemma consoleDevice_live:
  assumes "consoleDevice d u = Some v"
  shows "v \<in> set (ax_devices d) \<and> de_revoked v = None"
proof -
  let ?vs = "filter (\<lambda>v. de_user v = u \<and> de_platform v = ''console'' \<and> de_revoked v = None) (ax_devices d)"
  have "v \<in> set (sort_key (\<lambda>v. - int (the (de_last_seen v))) (filter (\<lambda>v. de_last_seen v \<noteq> None) ?vs) @ filter (\<lambda>v. de_last_seen v = None) ?vs)"
    using assms unfolding consoleDevice_def Let_def by (rule find_in)
  then show ?thesis by auto
qed

lemma handle_extends:
  assumes "freshIds lib d"
  shows "extends lib d (handleAccess lib ttl r d)"
proof (cases r)
  case (BeginPairing pubkey tokenHash)
  then show ?thesis
    using grows_one [of lib "ax_drawn d" "map pa_id (ax_pairings d)"] by (auto simp: beginPairing_def Let_def extends_def grows_same)
next
  case (ApprovePairing secret envelope u)
  then show ?thesis by (auto simp: approvePairing_def extends_refl intro: extends_pairing split: option.splits)
next
  case (ClaimPairing i secret name platform)
  then show ?thesis
    by (auto simp: claimPairing_def extends_refl intro!: extends_pairing split: option.splits prod.splits dest: extends_add)
next
  case (SignIn deviceId)
  then show ?thesis by (auto simp: issueRefreshToken_def Let_def intro!: extends_devices)
next
  case (RefreshAccess refresh)
  then show ?thesis by (auto simp: findDeviceByRefresh_def refreshable_def intro!: extends_devices)
next
  case (SignInConsole login password name)
  have one: "w = v" if "v \<in> set (ax_devices d)" "w \<in> set (ax_devices d)" "de_id w = de_id v" for v w
    using assms that by (auto simp: freshIds_def distinct_map inj_on_def)
  have "extends lib d (setDevices (\<lambda>w. de_id w = de_id v) (\<lambda>w. w\<lparr>de_name := name, de_last_seen := Some (ax_now d)\<rparr>) d)"
    if "consoleDevice d u = Some v" for u v
    using consoleDevice_live [OF that] one by (intro extends_devices) auto
  with SignInConsole show ?thesis
    by (auto simp: consoleSignIn_def extends_refl split: option.splits prod.splits dest: extends_add)
next
  case (ChangePassword u cur new)
  then show ?thesis
    by (auto simp: changePassword_def extends_refl setAccount_def intro!: extends_devices split: option.splits)
next
  case (Recover login kek code name platform)
  then show ?thesis
    by (auto simp: recoverAccount_def extends_refl split: option.splits prod.splits dest: extends_add)
next
  case (LearnVault deviceId v)
  then show ?thesis by (auto simp: learnDeviceVault_def intro!: extends_devices)
next
  case (RenameDevice u deviceId name)
  then show ?thesis by (auto simp: renameDevice_def Let_def intro!: extends_devices)
next
  case (RevokeDevice u deviceId)
  then show ?thesis by (auto simp: revokeDevice_def intro!: extends_devices)
qed (auto simp: setRecoveryCode_def setPassphrase_def setAccount_def intro!: extends_same split: option.splits)

lemma run_extends: "freshIds lib d \<Longrightarrow> freshIds lib (fold (handleAccess lib ttl) rs d)"
  by (induction rs arbitrary: d) (auto intro: extends_fresh handle_extends)

lemma run_keeps_revoked:
  "freshIds lib d \<Longrightarrow> v \<in> set (ax_devices d) \<Longrightarrow> de_revoked v \<noteq> None \<Longrightarrow> v \<in> set (ax_devices (fold (handleAccess lib ttl) rs d))"
proof (induction rs arbitrary: d)
  case (Cons r rs)
  from handle_extends [OF Cons.prems(1), of ttl r] have "freshIds lib (handleAccess lib ttl r d)" "v \<in> set (ax_devices (handleAccess lib ttl r d))"
    using extends_fresh [OF Cons.prems(1)] Cons.prems(2,3) by (auto simp: extends_def)
  from Cons.IH [OF this Cons.prems(3)] show ?case by simp
qed simp

text \<open>C34. A device that has been revoked is out for good: whatever requests follow, its row stays as it is, no
  refresh token opens a session for it, and the guard refuses every request that names it, whatever account
  the token speaks for.\<close>

theorem revoked_stays_out:
  assumes "freshIds lib d" "v \<in> set (ax_devices d)" "de_revoked v \<noteq> None"
  shows "requireAuth members (fold (handleAccess lib ttl) rs d) (Some (Some u, Some (de_id v))) req \<in> {Inl Unauthenticated, Inl DeviceRevoked} \<and>
    fst (findDeviceByRefresh lib token (fold (handleAccess lib ttl) rs d)) \<noteq> Some (de_id v, u)"
proof -
  let ?d = "fold (handleAccess lib ttl) rs d"
  have v: "v \<in> set (ax_devices ?d)" by (rule run_keeps_revoked [OF assms])
  have only: "w = v" if "w \<in> set (ax_devices ?d)" "de_id w = de_id v" for w
    using run_extends [OF assms(1), of ttl rs] v that by (auto simp: freshIds_def distinct_map inj_on_def)
  have "liveDevice ?d u (de_id v) = None"
  proof (cases "liveDevice ?d u (de_id v)")
    case (Some w)
    from find_in [OF Some [unfolded liveDevice_def]] find_sat [OF Some [unfolded liveDevice_def]]
    have w: "w \<in> set (ax_devices ?d)" "de_id w = de_id v" "de_revoked w = None" by simp_all
    from only [OF w(1,2)] w(3) assms(3) show ?thesis by simp
  qed
  moreover have "fst (findDeviceByRefresh lib token ?d) \<noteq> Some (de_id v, u)"
  proof
    assume "fst (findDeviceByRefresh lib token ?d) = Some (de_id v, u)"
    then obtain w where w: "find (refreshable lib ?d token) (ax_devices ?d) = Some w" "de_id w = de_id v" by (auto simp: findDeviceByRefresh_def)
    from find_in [OF w(1)] find_sat [OF w(1)] have "w \<in> set (ax_devices ?d)" "de_revoked w = None" by (simp_all add: refreshable_def)
    with only [of w] w(2) assms(3) show False by simp
  qed
  ultimately show ?thesis by (auto simp: requireAuth_def verifyCaller_def)
qed

subsection \<open>A pairing is claimed once\<close>

text \<open>The answers to claims in a run, each with the pairing and the secret it was asked with.\<close>

definition claimsOf :: "access_lib \<Rightarrow> access_request \<Rightarrow> access_db \<Rightarrow> (string \<times> string \<times> claim_answer) list" where
  "claimsOf lib r d =
     (case r of
        ClaimPairing i secret name platform \<Rightarrow>
          (case fst (claimPairing lib i secret name platform d) of Done a \<Rightarrow> [(i, secret, a)] | _ \<Rightarrow> [])
      | _ \<Rightarrow> [])"

fun pairingRun :: "access_lib \<Rightarrow> nat \<Rightarrow> access_request list \<Rightarrow> access_db \<Rightarrow> (string \<times> string \<times> claim_answer) list" where
  "pairingRun lib ttl [] d = []"
| "pairingRun lib ttl (r # rs) d = claimsOf lib r d @ pairingRun lib ttl rs (handleAccess lib ttl r d)"

text \<open>What is known of the pairings after the requests \<open>past\<close>.\<close>

definition approvedBy :: "access_lib \<Rightarrow> access_request list \<Rightarrow> access_db \<Rightarrow> bool" where
  "approvedBy lib past d \<longleftrightarrow>
     (\<forall>p\<in>set (ax_pairings d). \<forall>u. pa_approved_user p = Some u \<longrightarrow>
        (\<exists>secret envelope. ApprovePairing secret envelope u \<in> set past \<and> pa_envelope p = Some envelope \<and> pa_token_hash p = al_hash lib secret))"

definition claimed :: "string \<Rightarrow> access_db \<Rightarrow> bool" where
  "claimed i d \<longleftrightarrow> (\<exists>p\<in>set (ax_pairings d). pa_id p = i \<and> pa_claimed_device p \<noteq> None)"

lemma handle_pairings:
  assumes "\<And>k h. r \<noteq> BeginPairing k h" "\<And>s e u. r \<noteq> ApprovePairing s e u" "\<And>i s n p. r \<noteq> ClaimPairing i s n p"
  shows "ax_pairings (handleAccess lib ttl r d) = ax_pairings d"
  using assms
  by (cases r) (auto simp: issueRefreshToken_def findDeviceByRefresh_def consoleSignIn_def changePassword_def recoverAccount_def
      setRecoveryCode_def setPassphrase_def learnDeviceVault_def renameDevice_def revokeDevice_def setDevices_def setAccount_def
      addDevice_def Let_def split: option.splits prod.splits)

lemma setPairing_in:
  assumes "p' \<in> set (ax_pairings (setPairing i f d))"
  obtains p where "p \<in> set (ax_pairings d)" "p' = (if pa_id p = i then f p else p)"
  using assms by (auto simp: setPairing_def)

lemma approved_more: "approvedBy lib past d \<Longrightarrow> ax_pairings d' = ax_pairings d \<Longrightarrow> approvedBy lib (past @ [r]) d'"
  unfolding approvedBy_def by fastforce

lemma handle_approvedBy:
  assumes "approvedBy lib past d" "freshIds lib d"
  shows "approvedBy lib (past @ [r]) (handleAccess lib ttl r d)"
proof (cases r)
  case (BeginPairing pubkey tokenHash)
  have fresh: "approvedBy lib ps (d\<lparr>ax_drawn := n, ax_pairings := ax_pairings d @ [p]\<rparr>)"
    if "approvedBy lib ps d" "pa_approved_user p = None" for ps n p
    using that by (auto simp: approvedBy_def)
  from BeginPairing approved_more [OF assms(1) refl, of r] show ?thesis by (simp add: beginPairing_def Let_def fresh)
next
  case (ApprovePairing secret envelope u)
  show ?thesis
  proof (cases "bySecret lib d secret")
    case None
    with ApprovePairing approved_more [OF assms(1) refl, of r] show ?thesis by (simp add: approvePairing_def)
  next
    case (Some q)
    have q: "q \<in> set (ax_pairings d)" "pa_token_hash q = al_hash lib secret"
      using find_in [OF Some [unfolded bySecret_def]] find_sat [OF Some [unfolded bySecret_def]] by simp_all
    have one: "p = q" if "p \<in> set (ax_pairings d)" "pa_id p = pa_id q" for p
      using assms(2) q(1) that by (auto simp: freshIds_def distinct_map inj_on_def)
    have "approvedBy lib (past @ [r]) (setPairing (pa_id q) (\<lambda>p. p\<lparr>pa_approved_user := Some u, pa_envelope := Some envelope\<rparr>) d)"
      unfolding approvedBy_def
    proof (intro ballI allI impI)
      fix p' u' assume "p' \<in> set (ax_pairings (setPairing (pa_id q) (\<lambda>p. p\<lparr>pa_approved_user := Some u, pa_envelope := Some envelope\<rparr>) d))" "pa_approved_user p' = Some u'"
      then obtain p where p: "p \<in> set (ax_pairings d)" "p' = (if pa_id p = pa_id q then p\<lparr>pa_approved_user := Some u, pa_envelope := Some envelope\<rparr> else p)"
        "pa_approved_user p' = Some u'" by (blast elim: setPairing_in)
      show "\<exists>s e. ApprovePairing s e u' \<in> set (past @ [r]) \<and> pa_envelope p' = Some e \<and> pa_token_hash p' = al_hash lib s"
      proof (cases "pa_id p = pa_id q")
        case True
        with p one [OF p(1)] q(2) ApprovePairing show ?thesis by auto
      next
        case False
        with p assms(1) show ?thesis by (fastforce simp: approvedBy_def)
      qed
    qed
    with Some ApprovePairing approved_more [OF assms(1) refl, of r] show ?thesis by (simp add: approvePairing_def)
  qed
next
  case (ClaimPairing i secret name platform)
  have "approvedBy lib (past @ [r]) (setPairing i (\<lambda>p. p\<lparr>pa_claimed_device := Some dev\<rparr>) e)" if "ax_pairings e = ax_pairings d" for e dev
    using assms(1) that unfolding approvedBy_def by (fastforce elim!: setPairing_in split: if_splits)
  with ClaimPairing approved_more [OF assms(1) refl, of r] show ?thesis
    by (auto simp: claimPairing_def addDevice_def Let_def split: option.splits prod.splits)
qed (use approved_more [OF assms(1) handle_pairings [of r lib ttl d]] in simp_all)

lemma handle_claimed: "claimed i d \<Longrightarrow> claimed i (handleAccess lib ttl r d)"
proof -
  assume c: "claimed i d"
  have keep: "claimed i (setPairing k f e)" if "ax_pairings e = ax_pairings d" "\<And>p. pa_id (f p) = pa_id p"
      "\<And>p. pa_claimed_device p \<noteq> None \<Longrightarrow> pa_claimed_device (f p) \<noteq> None" for k f e
  proof -
    from c obtain p where p: "p \<in> set (ax_pairings d)" "pa_id p = i" "pa_claimed_device p \<noteq> None" by (auto simp: claimed_def)
    then have "(if pa_id p = k then f p else p) \<in> set (ax_pairings (setPairing k f e))" using that(1) by (simp add: setPairing_def)
    moreover have "pa_id (if pa_id p = k then f p else p) = i" "pa_claimed_device (if pa_id p = k then f p else p) \<noteq> None"
      using p(2) that(2) that(3) [OF p(3)] p(3) by auto
    ultimately show ?thesis unfolding claimed_def by blast
  qed
  show ?thesis
  proof (cases r)
    case (BeginPairing pubkey tokenHash)
    with c show ?thesis by (auto simp: beginPairing_def Let_def claimed_def)
  next
    case (ApprovePairing secret envelope u)
    with c keep [OF refl] show ?thesis by (auto simp: approvePairing_def split: option.splits)
  next
    case (ClaimPairing k secret name platform)
    with c keep show ?thesis by (auto simp: claimPairing_def addDevice_def Let_def split: option.splits prod.splits)
  qed (use c handle_pairings [of r lib ttl d] in \<open>simp_all add: claimed_def\<close>)
qed

text \<open>A claim that is answered: who approved it, that it was not claimed before, and that it is now.\<close>

lemma claim_answered:
  assumes "claimsOf lib r d \<noteq> []"
  obtains i secret name platform p u a where "r = ClaimPairing i secret name platform" "claimsOf lib r d = [(i, secret, a)]"
    "find (\<lambda>p. pa_id p = i) (ax_pairings d) = Some p" "pa_token_hash p = al_hash lib secret" "pa_approved_user p = Some u"
    "pa_claimed_device p = None" "ca_userId a = u" "ca_seedEnvelope a = the (pa_envelope p)" "claimed i (handleAccess lib ttl r d)"
proof -
  from assms obtain i secret name platform a where r: "r = ClaimPairing i secret name platform" "fst (claimPairing lib i secret name platform d) = Done a"
    "claimsOf lib r d = [(i, secret, a)]"
    by (auto simp: claimsOf_def split: access_request.splits outcome.splits)
  from r(2) obtain p u where p: "find (\<lambda>p. pa_id p = i) (ax_pairings d) = Some p" "tokenMatches lib secret (pa_token_hash p)"
    "pa_approved_user p = Some u" "pa_claimed_device p = None" "ca_userId a = u" "ca_seedEnvelope a = the (pa_envelope p)"
    "\<not> expired d p" "activeAccount d u \<noteq> None"
    by (auto simp: claimPairing_def split: option.splits if_splits prod.splits)
  obtain dev e where dev: "addDevice lib u name platform d = (dev, e)" by fastforce
  have "handleAccess lib ttl r d = setPairing i (\<lambda>p. p\<lparr>pa_claimed_device := Some dev\<rparr>) e"
    using p dev by (auto simp: r(1) claimPairing_def)
  moreover have "ax_pairings e = ax_pairings d" using dev by (auto simp: addDevice_def Let_def)
  ultimately have "p\<lparr>pa_claimed_device := Some dev\<rparr> \<in> set (ax_pairings (handleAccess lib ttl r d))"
    using find_in [OF p(1)] find_sat [OF p(1)] by (simp add: setPairing_def)
  then have "claimed i (handleAccess lib ttl r d)" using find_sat [OF p(1)] unfolding claimed_def by (intro bexI) simp_all
  with r p that show thesis by (simp add: tokenMatches_def)
qed

lemma claims_fresh:
  "claimed i d \<Longrightarrow> (i, secret, a) \<notin> set (pairingRun lib ttl rs d)" if "freshIds lib d"
  using that
proof (induction rs arbitrary: d)
  case (Cons r rs)
  have "(i, secret, a) \<notin> set (claimsOf lib r d)"
  proof
    assume new: "(i, secret, a) \<in> set (claimsOf lib r d)"
    then have "claimsOf lib r d \<noteq> []" by auto
    then obtain k s b p where k: "claimsOf lib r d = [(k, s, b)]" "find (\<lambda>p. pa_id p = k) (ax_pairings d) = Some p" "pa_claimed_device p = None"
      by (rule claim_answered [where ttl = ttl])
    with new have "k = i" by simp
    with find_in [OF k(2)] find_sat [OF k(2)] have p: "p \<in> set (ax_pairings d)" "pa_id p = i" by simp_all
    from Cons.prems(1) obtain q where q: "q \<in> set (ax_pairings d)" "pa_id q = i" "pa_claimed_device q \<noteq> None" by (auto simp: claimed_def)
    have "p = q" using Cons.prems(2) p q by (auto simp: freshIds_def distinct_map inj_on_def)
    with k(3) q(3) show False by simp
  qed
  moreover have "(i, secret, a) \<notin> set (pairingRun lib ttl rs (handleAccess lib ttl r d))"
    using Cons.IH handle_claimed [OF Cons.prems(1)] extends_fresh [OF Cons.prems(2) handle_extends [OF Cons.prems(2)]] by blast
  ultimately show ?case by simp
qed simp

lemma run_claims:
  assumes "freshIds lib d" "approvedBy lib past d"
  shows "distinct (map fst (pairingRun lib ttl rs d)) \<and>
    (\<forall>(i, secret, a)\<in>set (pairingRun lib ttl rs d). \<exists>s. ApprovePairing s (ca_seedEnvelope a) (ca_userId a) \<in> set (past @ rs) \<and> al_hash lib s = al_hash lib secret)"
  using assms
proof (induction rs arbitrary: d past)
  case (Cons r rs)
  note fresh = extends_fresh [OF Cons.prems(1) handle_extends [OF Cons.prems(1)], of ttl r]
  note later = Cons.IH [OF fresh handle_approvedBy [OF Cons.prems(2,1)]]
  show ?case
  proof (cases "claimsOf lib r d = []")
    case True
    with later show ?thesis by auto
  next
    case False
    then obtain i secret p u a where c: "claimsOf lib r d = [(i, secret, a)]" "find (\<lambda>p. pa_id p = i) (ax_pairings d) = Some p"
      "pa_token_hash p = al_hash lib secret" "pa_approved_user p = Some u" "ca_userId a = u" "ca_seedEnvelope a = the (pa_envelope p)"
      "claimed i (handleAccess lib ttl r d)"
      by (rule claim_answered [where ttl = ttl])
    have "p \<in> set (ax_pairings d)" by (rule find_in [OF c(2)])
    with Cons.prems(2) c(4) obtain s envelope where s: "ApprovePairing s envelope u \<in> set past" "pa_envelope p = Some envelope" "pa_token_hash p = al_hash lib s"
      unfolding approvedBy_def by blast
    have mine: "\<exists>s. ApprovePairing s (ca_seedEnvelope a) (ca_userId a) \<in> set (past @ r # rs) \<and> al_hash lib s = al_hash lib secret"
      using s c(3,5,6) by (intro exI [of _ s]) simp
    have "i \<notin> fst ` set (pairingRun lib ttl rs (handleAccess lib ttl r d))" using claims_fresh [OF fresh c(7)] by auto
    with later mine show ?thesis by (auto simp: c(1))
  qed
qed simp

text \<open>C35. In every run of requests from a store without pairings, a pairing answers one claim at most, so that it
  mints one device at most, and what it answers is the envelope and the account of an approval that was
  made with the same secret: nobody claims a seed that was not sealed for the pairing whose secret they hold,
  and no second approval replaces the first.\<close>

theorem pairing_claimed_once:
  assumes "freshIds lib d" "ax_pairings d = []"
  shows "distinct (map fst (pairingRun lib ttl rs d)) \<and>
    (\<forall>(i, secret, a)\<in>set (pairingRun lib ttl rs d). \<exists>s. ApprovePairing s (ca_seedEnvelope a) (ca_userId a) \<in> set rs \<and> al_hash lib s = al_hash lib secret)"
  using run_claims [OF assms(1), of "[]"] assms(2) by (simp add: approvedBy_def)

subsection \<open>Examples\<close>

definition plainLib :: access_lib where
  "plainLib = \<lparr>al_hash = (\<lambda>s. CHR ''#'' # s), al_uuid = (\<lambda>n. replicate n (CHR ''u'')), al_token = (\<lambda>n. CHR ''t'' # replicate n (CHR ''u'')),
     al_lower = (\<lambda>s. s), al_passwordMatches = (=), al_hashPassword = (\<lambda>_ p. p)\<rparr>"

lemma inj_plain: "inj (al_uuid plainLib)"
  by (auto simp: inj_def plainLib_def)

definition annsAccount :: account where
  "annsAccount = \<lparr>ac_id = ''ann'', ac_login = ''ann'', ac_admin = False, ac_state = Active, ac_password_hash = None, ac_auth_secret_hash = Some ''#s'',
     ac_account_salt = ''salt'', ac_kdf_params = ''kdf'', ac_enc_privkey = ''priv'', ac_wrapped_seed = ''seed'', ac_kek_verifier_hash = Some ''#k'',
     ac_recovery_key = None, ac_recovery_code_hash = None\<rparr>"

definition annsPhone :: device where
  "annsPhone = \<lparr>de_id = ''phone'', de_user = ''ann'', de_name = ''phone'', de_platform = ''ios'', de_last_seen = None, de_refresh_hash = None,
     de_revoked = Some 1, de_vault = None\<rparr>"

definition accessStore :: access_db where
  "accessStore = \<lparr>ax_now = 2, ax_drawn = 1, ax_accounts = [annsAccount], ax_devices = [annsPhone], ax_pairings = []\<rparr>"

lemma accessStore_fresh: "freshIds plainLib accessStore"
proof -
  have "replicate n (CHR ''u'') \<noteq> ''phone''" for n by (cases n) auto
  then show ?thesis using inj_plain by (auto simp: freshIds_def accessStore_def annsPhone_def plainLib_def)
qed

text \<open>A pairing is begun, approved, claimed, and claimed again.\<close>

definition pairTwice :: "access_request list" where
  "pairTwice = [BeginPairing ''key'' ''#code'', ApprovePairing ''code'' ''sealed'' ''ann'', ClaimPairing ''u'' ''code'' ''tablet'' ''ios'',
     ApprovePairing ''code'' ''other'' ''eve'', ClaimPairing ''u'' ''code'' ''thief'' ''ios'', SignIn ''phone'', RefreshAccess ''tu'']"

theorem pairing_claimed_once_witness:
  "distinct (map fst (pairingRun plainLib 600 pairTwice accessStore)) \<and> map fst (pairingRun plainLib 600 pairTwice accessStore) = [''u'']"
proof
  show "distinct (map fst (pairingRun plainLib 600 pairTwice accessStore))"
    using pairing_claimed_once [OF accessStore_fresh, of 600 pairTwice] by (simp add: accessStore_def)
  show "map fst (pairingRun plainLib 600 pairTwice accessStore) = [''u'']"
    by (simp add: pairTwice_def accessStore_def annsAccount_def plainLib_def claimsOf_def beginPairing_def approvePairing_def claimPairing_def
        bySecret_def expired_def tokenMatches_def activeAccount_def addDevice_def setPairing_def setDevices_def issueRefreshToken_def
        findDeviceByRefresh_def Let_def)
qed

theorem revoked_stays_out_witness:
  "requireAuth [] (fold (handleAccess plainLib 600) pairTwice accessStore) (Some (Some ''ann'', Some ''phone'')) \<lparr>ni_anyVault = False, ni_pathVault = None, ni_bodyVault = None, ni_pathShare = None\<rparr>
     \<in> {Inl Unauthenticated, Inl DeviceRevoked}"
proof -
  have "annsPhone \<in> set (ax_devices accessStore)" "de_revoked annsPhone \<noteq> None" "de_id annsPhone = ''phone''" by (simp_all add: accessStore_def annsPhone_def)
  with revoked_stays_out [OF accessStore_fresh, of annsPhone] show ?thesis by auto
qed

end
