(* ===== verification/Spec2Isabelle.thy ===== *)
theory Spec2Isabelle
  imports Reconcile Scopes Remap Tree Diff Conflict Engine_Deletions Engine_Behaviours Human_Code Vault_Crypto Server_Delta Server_Blobs Server_History Server_Backups Server_Access
begin

text \<open>
  This library models a self-hosted synchronisation server for Obsidian vaults and the plugin that
  synchronises a device with it, in end-to-end encryption: the server (\<open>src/server\<close>) keeps trees of
  encrypted names over content-addressed encrypted blobs, with a journal of revisions per vault; the
  plugin (\<open>src/plugin\<close>) walks that tree, compares it with the device and with what it remembers, and
  carries changes both ways; folders can be shared between accounts, and then every write travels to
  every participant's copy inside the writer's transaction.

  \<^bold>\<open>How the parts are modelled.\<close> Data are records and datatypes with the source's fields. Client code that
  awaits, throws and mutates a context is a function from a world (server, device, context) to a result
  or a thrown message and the world it left (\<open>Effects\<close>); what it wrote before it threw stays written.
  Server code is a transaction (\<open>Server_Db\<close>): a function from the store to an error or a result and the
  new store; \<open>txGuarded\<close> keeps the old store unless the transaction is answered as done. The wire, the
  vault, the cryptography and PostgreSQL's further rules are parameters: records of functions, with the
  laws a proof relies on as a locale (\<open>keyed_map\<close>, \<open>vault_contract\<close>, \<open>obsidian_api\<close>, \<open>sealing\<close>)
  that is interpreted on the model's own definitions.

  \<^bold>\<open>The plugin.\<close>
  \<^item> \<open>Sync_Types\<close>, \<open>Rename\<close>, \<open>Reconcile\<close>, \<open>Scopes\<close>, \<open>Remap\<close>, \<open>Tree\<close>: the pure core of
    \<open>plugin/src/engine\<close>: what is remembered of a path, which file or folder was renamed, what to do with one
    file, which key names a node, the tree read from a listing and rewritten by a folder's move. The
    lemmas say that a decision never overwrites unsynchronised bytes, that a plan of folder moves is
    explained by what vanished and that its moves do not interfere, and that a walk finds every readable
    node at its chain of names and reports the others exactly.
  \<^item> \<open>Effects\<close>, \<open>Engine_Base\<close>, \<open>Engine_Ops\<close>, \<open>Engine_Folders\<close>, \<open>Engine_Pass\<close>: \<open>engine.ts\<close> itself, one
    definition per method and per loop body, up to \<open>sync\<close> and \<open>resyncAfterReset\<close>. \<open>Engine_Safety\<close>,
    \<open>Engine_Reset\<close> and \<open>Engine_Props\<close> prove the rule "never destroy the last local copy" for each step,
    whatever fails on the way. \<open>Engine_Deletions\<close> wraps any wire in one that logs what is sent and shows which
    deletions a whole walk sends when an absence proves nothing. \<open>Engine_Behaviours\<close> runs the model where a step falls short of it.
  \<^item> \<open>Adapter\<close>, \<open>Device\<close>: the vault behind the engine (\<open>obsidian/adapter.ts\<close>) and a file system in memory.
    \<open>Adapter\<close> proves the engine's \<open>vault_contract\<close> from what Obsidian documents; \<open>Device\<close> satisfies that.
  \<^item> \<open>Bytes\<close>, \<open>Sealing\<close>, \<open>Vault_Crypto\<close>, \<open>Human_Code\<close>: the byte encodings, the sealing formats and the codes
    people carry (\<open>plugin/src/crypto\<close>), over a record of primitives. Round trips, the exact format of a
    header, and the composition: what one device uploads another device of the scope opens.
  \<^item> \<open>Conflict\<close>, \<open>Diff\<close>: the names of conflict copies and the comparison of two texts (\<open>plugin/src/conflict.ts\<close>);
    the comparison is proved to be a shortest edit script, or to give up only when there is none in bounds.

  \<^bold>\<open>The server.\<close>
  \<^item> \<open>Server_Db\<close>: the tables, the refusals, the transactions, and the constraints and triggers of
    \<open>server/db/schema.sql\<close> that a node write meets, immediate and deferred.
  \<^item> \<open>Server_Ledger\<close>: revisions, claims on content, versions, quota, key material, ancestry, the populations
    of a share (\<open>revision.ts\<close>, \<open>holdings.ts\<close>, \<open>quota.ts\<close>, \<open>material.ts\<close>, \<open>ancestry.ts\<close>, \<open>shares/\<close>).
  \<^item> \<open>Server_Nodes\<close>: the four write handlers (\<open>nodes/service.ts\<close>) and their fan-out (\<open>shares/propagate.ts\<close>,
    \<open>shares/replica.ts\<close>).
  \<^item> \<open>Server_Steps\<close>: an abstract machine of trees and revisions, with three kinds of step, and the proof that
    every handler is a sequence of its steps whatever the rest of the schema refuses. \<open>Server_Invariants\<close>:
    what its steps keep, hence what every served store satisfies.
  \<^item> \<open>Server_Delta\<close>: reading a vault (\<open>delta/\<close>): the signed cursor, the pages of the delta and the listing, and
    that a client that pages to the end misses no change of the snapshot its series is pinned to.
  \<^item> \<open>Server_Limits\<close>, \<open>Server_Blobs\<close>: the limiters (\<open>blobs/rate.ts\<close>, \<open>auth/attempts.ts\<close>), the store of files under
    their hash and the three ways to upload one (\<open>blobs/store.ts\<close>, \<open>blobs/service.ts\<close>): every file is at the address
    its bytes hash to, parts completed are what one whole upload is, and no window exceeds the rate.
  \<^item> \<open>Server_Retention\<close>: removing rows in the order references allow (\<open>nodes/remove.ts\<close>), thinning versions, spent
    trash and old journal (\<open>retention.ts\<close>), and the collector's pass (\<open>collector.ts\<close>), which takes nothing in use.
  \<^item> \<open>Server_Shares\<close>, \<open>Share_Life\<close>, \<open>Share_Rules\<close>: the operations on a share (\<open>shares/service.ts\<close>, \<open>owed.ts\<close>,
    \<open>surface.ts\<close>), the life of shares and members as runs of requests with their invariant, and what joining,
    finishing, preparing and cancelling do and refuse.
  \<^item> \<open>Server_Catchup\<close>: bringing a frozen copy level (\<open>shares/catchup.ts\<close>, \<open>shares/thaw.ts\<close>): it writes in the own
    vault alone and leaves a level copy as it is.
  \<^item> \<open>Server_History\<close>: versions, restore, trash, purge and reset (\<open>history/\<close>, \<open>vaults/reset.ts\<close>).
  \<^item> \<open>Server_Backups\<close>: the schedule of backups in a time zone, the claim of a moment by several servers and the
    sweep of old copies (\<open>backup-schedule.ts\<close>, \<open>backup-remove.ts\<close>, \<open>backup-scheduler.ts\<close>).
  \<^item> \<open>Server_Access\<close>: pairing, sessions, recovery, devices, the guard of every route and the handshake of the
    event socket (\<open>pairing/service.ts\<close>, \<open>auth/\<close>, \<open>devices.ts\<close>, \<open>ws-auth.ts\<close>), as runs of requests.

  \<^bold>\<open>Bounds and fuel.\<close> \<open>walkConfig\<close> descends at most eight levels of the configuration folder in the
  interpretations. \<open>drain\<close> takes the files in the order of the queue with fuel for the files and the
  copies a pass can add; running out is a thrown error. \<open>deltaSeries\<close> has one unit of fuel per page, and
  \<open>delta_series_complete\<close> shows that the length of the journal is enough. Every other recursion ends by
  structure or by a measure. 32-bit shifts are \<open>32 word\<close>s and bytes \<open>8 word\<close>s; revisions, sizes and times are
  natural numbers below JavaScript's exact range.

  \<^bold>\<open>Simplifications.\<close> Strings are their UTF-8 bytes and letter case is mapped for ASCII; the order of
  integer-like keys of JavaScript objects and progress callbacks are left out. Transactions are atomic and
  one after another; row locks are therefore no-ops. The page size of a delta is a natural number.

  \<^bold>\<open>Not modelled.\<close> User interface (\<open>plugin/src/obsidian\<close> but the adapter, \<open>plugin/src/main.ts\<close>, the console),
  transport and routing (\<open>plugin/src/api\<close>, the \<open>routes.ts\<close> files but the delta's and the revocation of a device)
  are input and output or glue over the operations above. Taking, verifying and restoring a backup, migrations,
  configuration and the event channel drive processes, files and the database driver. The audit log, the
  first password and invitations to an account, which only fill rows, the plugin's session and its account
  keys (HPKE and Argon2 of libraries), and the checks under \<open>tools\<close> are left out; the manifest lists them.
\<close>

end
